(* ===== verification/Prelude.thy ===== *)
theory Prelude
  imports Main "HOL-Library.Word" "HOL-Library.Char_ord" "HOL-Library.List_Lexorder"
begin

text \<open>
  Shared vocabulary of the development: the machine integer types of the C++ sources, bytes and
  characters, exceptions and aborts as values, decimal printing and parsing
  (\<open>std::to_string\<close>, \<open>std::from_chars\<close>, \<open>std::stoull\<close>, \<open>std::stoll\<close>), the
  \<open>std::string\<close> searching and splitting operations the sources use, and the generic
  lemmas the component theories share.
\<close>

unbundle bit_operations_syntax

named_theorems byte_simps \<open>conversions between characters and bytes\<close>
named_theorems decimal_simps \<open>decimal printing and parsing\<close>

section \<open>Machine integers, bytes and characters\<close>

type_synonym byte = "8 word"
type_synonym u16 = "16 word"
type_synonym u32 = "32 word"
type_synonym u64 = "64 word"

text \<open>\<open>std::string\<close> holds bytes; a \<^typ>\<open>char\<close> is a byte too, so the two views convert freely.\<close>

definition byte_of_char :: "char \<Rightarrow> byte" where
  "byte_of_char c = word_of_nat (of_char c)"

definition char_of_byte :: "byte \<Rightarrow> char" where
  "char_of_byte b = char_of (unat b)"

lemma of_char_less_256 [simp]: "(of_char c :: nat) < 256"
  by (metis char_of_char nat_of_char_less_256)

lemma unat_byte_of_char [byte_simps]: "unat (byte_of_char c) = of_char c"
  by (simp add: byte_of_char_def unsigned_of_nat take_bit_nat_eq_self)

lemma unat_byte_less [simp]: "unat (b :: byte) < 256"
  using unsigned_less [of b] by simp

lemma unat_byte_div_16 [simp]: "unat (b :: byte) div 16 < 16"
  using less_mult_imp_div_less [of "unat b" 16 16] unat_byte_less [of b] by simp

lemma bit_byte_less: "bit (a :: byte) n \<Longrightarrow> n < 8"
  using bit_imp_le_length [of a n] by simp

lemma bit_byte_out: "8 \<le> n \<Longrightarrow> \<not> bit (a :: byte) n"
  using bit_byte_less [of a n] by auto

lemma disjoint_OR_plus: "(\<And>n. \<not> (bit (x :: u32) n \<and> bit y n)) \<Longrightarrow> x OR y = x + y"
  by (rule disjunctive_add [symmetric]) blast

lemma char_of_byte_of_char [simp]: "char_of_byte (byte_of_char c) = c"
  by (simp add: char_of_byte_def unat_byte_of_char)

lemma byte_of_char_of_byte [simp]: "byte_of_char (char_of_byte b) = b"
  by (simp add: char_of_byte_def byte_of_char_def of_char_of)

lemma byte_of_char_inj [simp]: "byte_of_char c = byte_of_char d \<longleftrightarrow> c = d"
  by (metis char_of_byte_of_char)

lemma char_of_byte_inj [simp]: "char_of_byte a = char_of_byte b \<longleftrightarrow> a = b"
  by (metis byte_of_char_of_byte)

lemma map_char_byte_id [simp]: "map (char_of_byte \<circ> byte_of_char) s = s"
  by (simp add: comp_def)

lemma map_byte_char_id [simp]: "map (byte_of_char \<circ> char_of_byte) bs = bs"
  by (simp add: comp_def)

section \<open>Exceptions and aborts\<close>

text \<open>
  The exceptions the sources throw, with their messages, the abort of a failed \<open>CHECK_F\<close>, and what
  C++ leaves undefined.
  A computation that may throw returns \<open>Inl\<close> of the exception.
\<close>

datatype cpp_exn =
    InvalidArgumentExn string
  | OutOfRangeExn string
  | DomainErrorExn string
  | LogicErrorExn string
  | RuntimeErrorExn string
  | AbortExn string
  | UndefinedBehaviour

type_synonym 'a res = "cpp_exn + 'a"

definition rbind :: "'a res \<Rightarrow> ('a \<Rightarrow> 'b res) \<Rightarrow> 'b res" where
  "rbind m f = (case m of Inl e \<Rightarrow> Inl e | Inr x \<Rightarrow> f x)"

lemma rbind_simps [simp]:
  "rbind (Inl e) f = Inl e"
  "rbind (Inr x) f = f x"
  by (simp_all add: rbind_def)

lemma rbind_eq_Inr: "rbind m f = Inr y \<longleftrightarrow> (\<exists>x. m = Inr x \<and> f x = Inr y)"
  by (cases m) auto

text \<open>Running a fallible function over a list, stopping at the first exception.\<close>

fun rmap :: "('a \<Rightarrow> 'b res) \<Rightarrow> 'a list \<Rightarrow> 'b list res" where
  "rmap f [] = Inr []"
| "rmap f (x # xs) = rbind (f x) (\<lambda>y. rbind (rmap f xs) (\<lambda>ys. Inr (y # ys)))"

lemma rmap_Inr: "(\<And>x. x \<in> set xs \<Longrightarrow> f x = Inr (g x)) \<Longrightarrow> rmap f xs = Inr (map g xs)"
  by (induction xs) auto

lemma fold_append_concat:
  "(\<And>x out. x \<in> set xs \<Longrightarrow> f x out = out @ g x) \<Longrightarrow> fold f xs out = out @ concat (map g xs)"
  by (induction xs arbitrary: out) auto

section \<open>Decimal numbers\<close>

definition is_digit :: "char \<Rightarrow> bool" where
  "is_digit c \<longleftrightarrow> 48 \<le> (of_char c :: nat) \<and> (of_char c :: nat) \<le> 57"

definition digit_char :: "nat \<Rightarrow> char" where
  "digit_char d = char_of (48 + d)"

definition digit_val :: "char \<Rightarrow> nat" where
  "digit_val c = of_char c - 48"

text \<open>\<open>std::to_string\<close> on an unsigned and on a signed integer.\<close>

fun show_nat :: "nat \<Rightarrow> string" where
  "show_nat n = (if n < 10 then [digit_char n] else show_nat (n div 10) @ [digit_char (n mod 10)])"

declare show_nat.simps [simp del]

definition show_int :: "int \<Rightarrow> string" where
  "show_int i = (if i < 0 then CHR ''-'' # show_nat (nat (- i)) else show_nat (nat i))"

definition digits_val :: "string \<Rightarrow> nat" where
  "digits_val ds = foldl (\<lambda>a c. a * 10 + digit_val c) 0 ds"

lemma of_char_digit_char: "d < 10 \<Longrightarrow> of_char (digit_char d) = 48 + d"
  by (simp add: digit_char_def of_char_of)

lemma is_digit_digit_char [simp]: "d < 10 \<Longrightarrow> is_digit (digit_char d)"
  by (simp add: is_digit_def of_char_digit_char)

lemma digit_val_digit_char [simp]: "d < 10 \<Longrightarrow> digit_val (digit_char d) = d"
  by (simp add: digit_val_def of_char_digit_char)

lemma show_nat_digits: "list_all is_digit (show_nat n)"
proof (induction n rule: show_nat.induct)
  case (1 n)
  show ?case
    using 1 by (subst show_nat.simps) auto
qed

lemma show_nat_not_Nil [simp]: "show_nat n \<noteq> []"
  by (subst show_nat.simps) simp

lemma digits_val_snoc: "digits_val (ds @ [c]) = digits_val ds * 10 + digit_val c"
  by (simp add: digits_val_def)

lemma digits_val_show_nat [simp]: "digits_val (show_nat n) = n"
proof (induction n rule: show_nat.induct)
  case (1 n)
  show ?case
  proof (cases "n < 10")
    case True
    then show ?thesis by (subst show_nat.simps) (simp add: digits_val_def)
  next
    case False
    with 1 show ?thesis by (subst show_nat.simps) (simp add: digits_val_snoc)
  qed
qed

lemma show_nat_inj [simp]: "show_nat m = show_nat n \<longleftrightarrow> m = n"
  by (metis digits_val_show_nat)

lemma show_nat_set: "c \<in> set (show_nat n) \<Longrightarrow> is_digit c"
  using show_nat_digits [of n] by (simp add: list_all_iff)

lemma not_is_digit_simps [simp]:
  "\<not> is_digit (CHR ''-'')" "\<not> is_digit (CHR '':'')" "\<not> is_digit (CHR ''e'')"
  "\<not> is_digit (CHR ''i'')" "\<not> is_digit (CHR ''l'')" "\<not> is_digit (CHR ''d'')"
  "\<not> is_digit (CHR ''='')" "\<not> is_digit (CHR ''|'')" "\<not> is_digit (CHR 0x0A)"
  "\<not> is_digit (CHR ''+'')" "\<not> is_digit (CHR '' '')"
  by (simp_all add: is_digit_def)

lemma is_digit_hd_show_nat: "show_nat n = c # cs \<Longrightarrow> is_digit c"
  using show_nat_set [of c n] by simp

lemma show_int_set: "c \<in> set (show_int i) \<Longrightarrow> is_digit c \<or> c = CHR ''-''"
  by (auto simp: show_int_def dest: show_nat_set split: if_splits)

lemma takeWhile_digits_show_nat [simp]:
  "\<not> is_digit c \<Longrightarrow> takeWhile is_digit (show_nat n @ c # rest) = show_nat n"
  "takeWhile is_digit (show_nat n) = show_nat n"
  by (simp_all add: takeWhile_append2 show_nat_set takeWhile_eq_all_conv)

lemma dropWhile_digits_show_nat [simp]:
  "\<not> is_digit c \<Longrightarrow> dropWhile is_digit (show_nat n @ c # rest) = c # rest"
  "dropWhile is_digit (show_nat n) = []"
  by (simp_all add: dropWhile_append2 show_nat_set dropWhile_eq_Nil_conv)

text \<open>
  \<open>std::from_chars\<close> for an unsigned type of \<open>w\<close> bits and for a signed one: the longest
  prefix of digits (after an optional minus sign for a signed type) is converted; the error
  codes are \<open>invalid_argument\<close> when there is no digit and \<open>result_out_of_range\<close> when the
  value does not fit. On success the value and the unread rest are returned.
\<close>

datatype errc = Errc_invalid_argument | Errc_result_out_of_range

definition from_chars_unsigned :: "nat \<Rightarrow> string \<Rightarrow> errc + (nat \<times> string)" where
  "from_chars_unsigned w s =
     (let ds = takeWhile is_digit s in
      if ds = [] then Inl Errc_invalid_argument
      else if 2 ^ w \<le> digits_val ds then Inl Errc_result_out_of_range
      else Inr (digits_val ds, dropWhile is_digit s))"

definition from_chars_signed :: "nat \<Rightarrow> string \<Rightarrow> errc + (int \<times> string)" where
  "from_chars_signed w s =
     (let neg = (s \<noteq> [] \<and> hd s = CHR ''-'');
          body = (if neg then tl s else s);
          ds = takeWhile is_digit body;
          v = (if neg then - int (digits_val ds) else int (digits_val ds)) in
      if ds = [] then Inl Errc_invalid_argument
      else if v < - (2 ^ (w - 1)) \<or> 2 ^ (w - 1) \<le> v then Inl Errc_result_out_of_range
      else Inr (v, dropWhile is_digit body))"

lemma from_chars_unsigned_show_nat [decimal_simps]:
  "n < 2 ^ w \<Longrightarrow> from_chars_unsigned w (show_nat n) = Inr (n, [])"
  by (simp add: from_chars_unsigned_def Let_def)

lemma hd_show_nat_not_minus: "hd (show_nat n) \<noteq> CHR ''-''"
  by (metis hd_in_set not_is_digit_simps(1) show_nat_not_Nil show_nat_set)

lemma from_chars_signed_show_int [decimal_simps]:
  assumes "- (2 ^ (w - 1)) \<le> i" and "i < 2 ^ (w - 1)"
  shows "from_chars_signed w (show_int i) = Inr (i, [])"
  using assms hd_show_nat_not_minus [of "nat i"]
  by (auto simp: from_chars_signed_def show_int_def Let_def dest: show_nat_set)

lemma from_chars_unsigned_bound:
  "from_chars_unsigned w s = Inr (n, r) \<Longrightarrow> n < 2 ^ w"
  by (auto simp: from_chars_unsigned_def Let_def split: if_splits)

lemma from_chars_signed_bound:
  "from_chars_signed w s = Inr (i, r) \<Longrightarrow> - (2 ^ (w - 1)) \<le> i \<and> i < 2 ^ (w - 1)"
  by (auto simp: from_chars_signed_def Let_def split: if_splits)

text \<open>\<open>std::stoull\<close>, \<open>std::stoll\<close> and \<open>std::stoi\<close>: leading space, an optional sign, digits; what follows is ignored.\<close>

definition is_space :: "char \<Rightarrow> bool" where
  "is_space c \<longleftrightarrow> c \<in> {CHR '' '', CHR 0x09, CHR 0x0A, CHR 0x0B, CHR 0x0C, CHR 0x0D}"

definition scan_number :: "string \<Rightarrow> bool \<times> string" where
  "scan_number s =
     (case dropWhile is_space s of
        [] \<Rightarrow> (False, [])
      | c # cs \<Rightarrow> if c = CHR ''-'' then (True, takeWhile is_digit cs)
                  else if c = CHR ''+'' then (False, takeWhile is_digit cs)
                  else (False, takeWhile is_digit (c # cs)))"

definition std_stoull :: "string \<Rightarrow> u64 res" where
  "std_stoull s =
     (let (neg, ds) = scan_number s in
      if ds = [] then Inl (InvalidArgumentExn ''stoull'')
      else if 2 ^ 64 \<le> digits_val ds then Inl (OutOfRangeExn ''stoull'')
      else Inr (if neg then - word_of_nat (digits_val ds) else word_of_nat (digits_val ds)))"

definition std_stoll :: "string \<Rightarrow> 64 word res" where
  "std_stoll s =
     (let (neg, ds) = scan_number s in
      if ds = [] then Inl (InvalidArgumentExn ''stoll'')
      else if (if neg then 2 ^ 63 < digits_val ds else 2 ^ 63 \<le> digits_val ds) then Inl (OutOfRangeExn ''stoll'')
      else Inr (if neg then - word_of_nat (digits_val ds) else word_of_nat (digits_val ds)))"

definition std_stoi :: "string \<Rightarrow> 32 word res" where
  "std_stoi s =
     (let (neg, ds) = scan_number s in
      if ds = [] then Inl (InvalidArgumentExn ''stoi'')
      else if (if neg then 2 ^ 31 < digits_val ds else 2 ^ 31 \<le> digits_val ds) then Inl (OutOfRangeExn ''stoi'')
      else Inr (if neg then - word_of_nat (digits_val ds) else word_of_nat (digits_val ds)))"

lemma scan_show_nat: "scan_number (show_nat n) = (False, show_nat n)"
proof (cases "show_nat n")
  case (Cons c cs)
  then have c: "is_digit c" using is_digit_hd_show_nat by blast
  then have "\<not> is_space c" "c \<noteq> CHR ''-''" "c \<noteq> CHR ''+''"
    by (auto simp: is_space_def is_digit_def)
  then show ?thesis
    using takeWhile_digits_show_nat(2) [of n] Cons c by (simp add: scan_number_def)
qed simp

lemma stoull_show [decimal_simps]: "std_stoull (show_nat (unat (w :: u64))) = Inr w"
  using unsigned_less [of w] by (simp add: std_stoull_def scan_show_nat not_le)

lemma scan_show_int: "scan_number (show_int i) = (i < 0, show_nat (nat \<bar>i\<bar>))"
  by (auto simp: show_int_def scan_show_nat) (simp add: scan_number_def is_space_def)

lemma stoll_show [decimal_simps]: "std_stoll (show_int (sint (w :: 64 word))) = Inr w"
proof -
  have r: "- (2 ^ 63) \<le> sint w" "sint w < 2 ^ 63"
    using sint_ge [of w] sint_lt [of w] by simp_all
  have w: "word_of_int (sint w) = w" by simp
  have n: "word_of_nat (nat i) = (word_of_int i :: 64 word)" if "0 \<le> i" for i
    using that by (rule of_nat_nat)
  show ?thesis
  proof (cases "sint w < 0")
    case True
    then have "word_of_nat (nat (- sint w)) = (- w :: 64 word)"
      using n [of "- sint w"] by (simp only: w of_int_minus)
    then show ?thesis
      using True r by (simp add: std_stoll_def scan_show_int nat_le_iff not_less)
  next
    case False
    then have "word_of_nat (nat (sint w)) = (w :: 64 word)"
      using n [of "sint w"] by (simp only: w not_less)
    then show ?thesis
      using False r by (simp add: std_stoll_def scan_show_int le_nat_iff not_le)
  qed
qed

lemma stoi_show [decimal_simps]: "n < 2 ^ 31 \<Longrightarrow> std_stoi (show_nat n) = Inr (word_of_nat n)"
  by (simp add: std_stoi_def scan_show_nat)

section \<open>Sorting by a comparison\<close>

text \<open>
  What \<open>std::sort\<close> and the loops of the sources ask of a comparison: a strict weak order. The routine
  \<open>sort_by\<close> is a simple sort that meets the contract of \<open>std::sort\<close> for every such comparison.
\<close>

definition weak_order :: "('a \<Rightarrow> 'a \<Rightarrow> bool) \<Rightarrow> bool" where
  "weak_order cmp \<longleftrightarrow> (\<forall>a b. cmp a b \<longrightarrow> \<not> cmp b a) \<and> (\<forall>a b c. \<not> cmp a b \<longrightarrow> \<not> cmp b c \<longrightarrow> \<not> cmp a c)"

fun insert_by :: "('a \<Rightarrow> 'a \<Rightarrow> bool) \<Rightarrow> 'a \<Rightarrow> 'a list \<Rightarrow> 'a list" where
  "insert_by before x [] = [x]"
| "insert_by before x (y # ys) = (if before y x then y # insert_by before x ys else x # y # ys)"

fun sort_by :: "('a \<Rightarrow> 'a \<Rightarrow> bool) \<Rightarrow> 'a list \<Rightarrow> 'a list" where
  "sort_by before [] = []"
| "sort_by before (x # xs) = insert_by before x (sort_by before xs)"

lemma set_insert_by: "set (insert_by before x ys) = insert x (set ys)"
  by (induction ys) auto

lemma weak_orderD:
  assumes "weak_order before"
  shows "before a b \<Longrightarrow> \<not> before b a" "\<not> before a b \<Longrightarrow> \<not> before b c \<Longrightarrow> \<not> before a c"
  using assms unfolding weak_order_def by blast+

lemma sorted_insert_by:
  assumes "weak_order before"
  shows "sorted_wrt (\<lambda>a b. \<not> before b a) ys \<Longrightarrow> sorted_wrt (\<lambda>a b. \<not> before b a) (insert_by before x ys)"
proof (induction ys)
  case (Cons y ys)
  show ?case
  proof (cases "before y x")
    case True
    then have "\<not> before x y" by (rule weak_orderD(1) [OF assms])
    then show ?thesis using Cons True by (auto simp: set_insert_by)
  next
    case False
    have "\<not> before b x" if "b \<in> set ys" for b
      using Cons.prems that False weak_orderD(2) [OF assms, of b y x] by auto
    then show ?thesis using Cons.prems False by auto
  qed
qed simp

lemma sorted_sort_by: "weak_order before \<Longrightarrow> sorted_wrt (\<lambda>a b. \<not> before b a) (sort_by before xs)"
  by (induction xs) (simp_all add: sorted_insert_by)

end
