(* ===== verification/Base16.thy ===== *)
theory Base16
  imports Prelude
begin

text \<open>
  The hexadecimal codec of \<open>src/Blocxxi/Codec/base16.cpp\<close>: the compile-time lookup tables, the
  encoder with its two digit cases and two directions, and the decoder with its aborts
  (\<open>CHECK_F\<close>), its \<open>std::domain_error\<close> and its zero fill of the rest of the destination.
  The lemmas show that decoding inverts encoding in both directions and both cases, and
  characterise exactly which inputs the decoder accepts.
\<close>

section \<open>Lookup tables\<close>

definition c_lower_four_bits_mask :: u32 where
  "c_lower_four_bits_mask = 0xF"

definition c_upper_four_bits_mask :: u32 where
  "c_upper_four_bits_mask = 0xF0"

definition ALPHABET_UC :: string where
  "ALPHABET_UC = ''0123456789ABCDEF''"

definition ALPHABET_LC :: string where
  "ALPHABET_LC = ''0123456789abcdef''"

definition UpperMakeLo :: "u32 \<Rightarrow> char" where
  "UpperMakeLo idx = ALPHABET_UC ! unat (idx AND c_lower_four_bits_mask)"

definition UpperMakeHi :: "u32 \<Rightarrow> char" where
  "UpperMakeHi idx = ALPHABET_UC ! unat (drop_bit 4 (idx AND c_upper_four_bits_mask))"

definition LowerMakeLo :: "u32 \<Rightarrow> char" where
  "LowerMakeLo idx = ALPHABET_LC ! unat (idx AND c_lower_four_bits_mask)"

definition LowerMakeHi :: "u32 \<Rightarrow> char" where
  "LowerMakeHi idx = ALPHABET_LC ! unat (drop_bit 4 (idx AND c_upper_four_bits_mask))"

record HexLookupTable =
  hex_lo :: "char list"
  hex_hi :: "char list"

definition HexTableGenerator :: "nat \<Rightarrow> (u32 \<Rightarrow> char) \<Rightarrow> (u32 \<Rightarrow> char) \<Rightarrow> HexLookupTable" where
  "HexTableGenerator N MakeLo MakeHi =
     \<lparr>hex_lo = map (\<lambda>i. MakeLo (word_of_nat i)) [0..<N], hex_hi = map (\<lambda>i. MakeHi (word_of_nat i)) [0..<N]\<rparr>"

definition HEX_LOOKUP_TABLE_UC :: HexLookupTable where
  "HEX_LOOKUP_TABLE_UC = HexTableGenerator 256 UpperMakeLo UpperMakeHi"

definition HEX_LOOKUP_TABLE_LC :: HexLookupTable where
  "HEX_LOOKUP_TABLE_LC = HexTableGenerator 256 LowerMakeLo LowerMakeHi"

definition c_invalid_value :: byte where
  "c_invalid_value = 0xFF"

definition DecForIndex :: "byte \<Rightarrow> byte" where
  "DecForIndex idx =
     (if byte_of_char (CHR ''0'') \<le> idx \<and> idx \<le> byte_of_char (CHR ''9'')
      then idx - byte_of_char (CHR ''0'')
      else if byte_of_char (CHR ''A'') \<le> idx \<and> idx \<le> byte_of_char (CHR ''F'')
      then idx + 10 - byte_of_char (CHR ''A'')
      else if byte_of_char (CHR ''a'') \<le> idx \<and> idx \<le> byte_of_char (CHR ''f'')
      then idx + 10 - byte_of_char (CHR ''a'')
      else c_invalid_value)"

definition DEC_LOOKUP_TABLE :: "byte list" where
  "DEC_LOOKUP_TABLE = map (\<lambda>i. DecForIndex (word_of_nat i)) [0..<256]"

section \<open>Encode and Decode\<close>

definition hex_Encode :: "byte list \<Rightarrow> bool \<Rightarrow> bool \<Rightarrow> string" where
  "hex_Encode src reverse lower_case =
     (let table = (if lower_case then HEX_LOOKUP_TABLE_LC else HEX_LOOKUP_TABLE_UC) in
      if reverse then concat (map (\<lambda>b. [hex_lo table ! unat b, hex_hi table ! unat b]) (rev src))
      else concat (map (\<lambda>b. [hex_hi table ! unat b, hex_lo table ! unat b]) src))"

text \<open>
  The message of the \<open>domain_error\<close> prints \<open>std::to_string\<close> of a \<open>char\<close>, which is the
  decimal value of the signed character.
\<close>

definition bad_digit :: "char \<Rightarrow> cpp_exn" where
  "bad_digit c = DomainErrorExn
     (''Character ['' @ [CHR 0x27] @ show_int (sint (byte_of_char c)) @ [CHR 0x27]
        @ ''] not a valid hex digit'')"

text \<open>
  The decoding loop over the characters in the order of the iterator (\<open>begin\<close> or \<open>rbegin\<close>)
  with the number of destination bytes left. The loop reads two characters per turn; a lone
  character would be read past the end, which the parity check rules out.
\<close>

fun decode_loop :: "string \<Rightarrow> nat \<Rightarrow> byte list res" where
  "decode_loop [] room = Inr []"
| "decode_loop (c # cs) 0 = Inr []"
| "decode_loop [c] (Suc room) =
     (if DEC_LOOKUP_TABLE ! unat (byte_of_char c) = c_invalid_value then Inl (bad_digit c)
      else Inl (AbortExn ''read past the end of the source''))"
| "decode_loop (c # d # cs) (Suc room) =
     (let hi = DEC_LOOKUP_TABLE ! unat (byte_of_char c);
          lo = DEC_LOOKUP_TABLE ! unat (byte_of_char d) in
      if hi = c_invalid_value then Inl (bad_digit c)
      else if lo = c_invalid_value then Inl (bad_digit d)
      else rbind (decode_loop cs room) (\<lambda>bs. Inr ((push_bit 4 hi OR lo) # bs)))"

definition hex_Decode :: "string \<Rightarrow> byte list \<Rightarrow> bool \<Rightarrow> byte list res" where
  "hex_Decode src dest reverse =
     (if length src mod 2 \<noteq> 0
      then Inl (AbortExn ''the encoded data must contain an even number of hex digits'')
      else if length dest < length src div 2
      then Inl (AbortExn ''buffer to receive the decoded data must be at least half the size of the encoded data'')
      else if src = [] then Inr dest
      else rbind (decode_loop (if reverse then rev src else src) (length dest))
             (\<lambda>bs. Inr (bs @ replicate (length dest - length bs) 0)))"

section \<open>The tables\<close>

definition is_hex :: "char \<Rightarrow> bool" where
  "is_hex c \<longleftrightarrow> (let n = (of_char c :: nat) in
     48 \<le> n \<and> n \<le> 57 \<or> 65 \<le> n \<and> n \<le> 70 \<or> 97 \<le> n \<and> n \<le> 102)"

definition alphabet :: "bool \<Rightarrow> string" where
  "alphabet lc = (if lc then ALPHABET_LC else ALPHABET_UC)"

lemma nibble_bits [byte_simps]:
  "unat (ucast (b :: byte) AND c_lower_four_bits_mask :: u32) = unat b mod 16"
  "unat (drop_bit 4 (ucast (b :: byte) AND c_upper_four_bits_mask) :: u32) = unat b div 16"
proof -
  have m: "c_lower_four_bits_mask = mask 4" "c_upper_four_bits_mask = push_bit 4 (mask 4)"
    by (simp_all add: c_lower_four_bits_mask_def c_upper_four_bits_mask_def mask_eq_exp_minus_1
        push_bit_eq_mult)
  have u: "unat (ucast b :: u32) = unat b"
    by (simp add: unsigned_ucast_eq take_bit_nat_eq_self less_trans [OF unat_byte_less])
  have t: "take_bit 32 (unat b) = unat b"
    by (simp add: take_bit_nat_eq_self less_trans [OF unat_byte_less])
  have "ucast b AND c_lower_four_bits_mask = (take_bit 4 (ucast b) :: u32)"
    by (simp only: m take_bit_eq_mask)
  then show "unat (ucast b AND c_lower_four_bits_mask :: u32) = unat b mod 16"
    by (simp only: unsigned_take_bit_eq u) (simp add: take_bit_eq_mod)
  have "drop_bit 4 (ucast b AND c_upper_four_bits_mask :: u32) = take_bit 4 (drop_bit 4 (ucast b))"
    by (rule bit_word_eqI) (auto simp: m bit_simps)
  then have "unat (drop_bit 4 (ucast b AND c_upper_four_bits_mask) :: u32) = take_bit 4 (drop_bit 4 (unat b))"
    by (simp only: unsigned_take_bit_eq unsigned_drop_bit_eq u) (simp add: t)
  also have "\<dots> = unat b div 16"
    using unat_byte_div_16 [of b] by (simp add: take_bit_eq_mod drop_bit_eq_div mod_less)
  finally show "unat (drop_bit 4 (ucast b AND c_upper_four_bits_mask) :: u32) = unat b div 16" .
qed

lemma table_lo: "hex_lo (if lc then HEX_LOOKUP_TABLE_LC else HEX_LOOKUP_TABLE_UC) ! unat (b :: byte)
    = alphabet lc ! (unat b mod 16)"
  by (simp add: HEX_LOOKUP_TABLE_LC_def HEX_LOOKUP_TABLE_UC_def HexTableGenerator_def nibble_bits
      LowerMakeLo_def UpperMakeLo_def alphabet_def)

lemma table_hi: "hex_hi (if lc then HEX_LOOKUP_TABLE_LC else HEX_LOOKUP_TABLE_UC) ! unat (b :: byte)
    = alphabet lc ! (unat b div 16)"
  by (simp add: HEX_LOOKUP_TABLE_LC_def HEX_LOOKUP_TABLE_UC_def HexTableGenerator_def nibble_bits(2)
      LowerMakeHi_def UpperMakeHi_def alphabet_def del: drop_bit_and)

lemma hex_Encode_forward:
  "hex_Encode src False lc = concat (map (\<lambda>b. [alphabet lc ! (unat b div 16), alphabet lc ! (unat b mod 16)]) src)"
  unfolding hex_Encode_def Let_def table_lo table_hi by simp

lemma hex_Encode_reverse: "hex_Encode src True lc = rev (hex_Encode src False lc)"
proof -
  have "hex_Encode src True lc
      = concat (map (\<lambda>b. [alphabet lc ! (unat b mod 16), alphabet lc ! (unat b div 16)]) (rev src))"
    unfolding hex_Encode_def Let_def table_lo table_hi by simp
  then show ?thesis
    by (simp add: hex_Encode_forward rev_concat rev_map comp_def)
qed

lemma DEC_LOOKUP_TABLE_nth [simp]: "DEC_LOOKUP_TABLE ! unat (b :: byte) = DecForIndex b"
  by (simp add: DEC_LOOKUP_TABLE_def)

lemma nibble_decode: "n < 16 \<Longrightarrow> DecForIndex (byte_of_char (alphabet lc ! n)) = word_of_nat n"
proof -
  have "\<forall>n \<in> set [0..<16]. \<forall>lc. DecForIndex (byte_of_char (alphabet lc ! n)) = word_of_nat n"
    by code_simp
  then show "n < 16 \<Longrightarrow> ?thesis" by simp
qed

lemma DecForIndex_char:
  "DecForIndex (byte_of_char c) = (let n = (of_char c :: nat) in
     if 48 \<le> n \<and> n \<le> 57 then word_of_nat (n - 48)
     else if 65 \<le> n \<and> n \<le> 70 then word_of_nat (n - 55)
     else if 97 \<le> n \<and> n \<le> 102 then word_of_nat (n - 87)
     else 255)"
  by (auto simp: DecForIndex_def c_invalid_value_def word_le_nat_alt unat_byte_of_char Let_def)
     (auto simp: byte_of_char_def)

lemma unat_byte_of_nat: "n < 256 \<Longrightarrow> unat (word_of_nat n :: byte) = n"
  by (simp add: unsigned_of_nat take_bit_nat_eq_self)

lemma word_byte_small: "n < 255 \<Longrightarrow> (word_of_nat n :: byte) \<noteq> 255"
  using unat_byte_of_nat [of n] by auto

lemma DecForIndex_invalid_iff: "DecForIndex (byte_of_char c) = c_invalid_value \<longleftrightarrow> \<not> is_hex c"
  by (auto simp: DecForIndex_char is_hex_def c_invalid_value_def Let_def word_byte_small
      simp del: of_nat_diff)

section \<open>Round trip and acceptance\<close>

lemma alphabet_is_hex: "n < 16 \<Longrightarrow> is_hex (alphabet lc ! n)"
  using nibble_decode [of n lc] word_byte_small [of n] DecForIndex_invalid_iff [of "alphabet lc ! n"]
  by (simp add: c_invalid_value_def)

lemma nibbles_join: "push_bit 4 (word_of_nat (unat b div 16)) OR word_of_nat (unat b mod 16) = (b :: byte)"
proof -
  have "(word_of_nat (unat b div 16) :: byte) = drop_bit 4 b"
    by (simp add: drop_bit_eq_div word_arith_nat_div)
  moreover have "(word_of_nat (unat b mod 16) :: byte) = take_bit 4 b"
    by (simp add: take_bit_eq_mod word_arith_nat_mod)
  moreover have "push_bit 4 (drop_bit 4 b) OR take_bit 4 b = b"
    by (rule bit_word_eqI) (auto simp: bit_simps)
  ultimately show ?thesis by simp
qed

lemma decode_loop_encode:
  "length src \<le> room \<Longrightarrow> decode_loop (hex_Encode src False lc) room = Inr src"
proof (induction src arbitrary: room)
  case Nil
  then show ?case by (simp add: hex_Encode_forward)
next
  case (Cons b src)
  then obtain r where r: "room = Suc r" "length src \<le> r"
    by (cases room) auto
  have small: "unat b div 16 < 255" "unat b mod 16 < 255"
    using unat_byte_div_16 [of b] mod_less_divisor [of 16 "unat b"] by linarith+
  show ?case
    using r Cons.IH [of r] nibbles_join [of b] small
    by (simp add: hex_Encode_forward nibble_decode c_invalid_value_def word_byte_small Let_def)
qed

lemma length_hex_Encode [simp]: "length (hex_Encode src r lc) = 2 * length src"
proof -
  have "length (hex_Encode src False lc) = 2 * length src"
    by (induction src) (simp_all add: hex_Encode_forward)
  then show ?thesis
    by (cases r) (simp_all add: hex_Encode_reverse)
qed

lemma hex_Decode_Encode:
  assumes "length src \<le> length dest"
  shows "hex_Decode (hex_Encode src r lc) dest r
      = Inr (if src = [] then dest else src @ replicate (length dest - length src) 0)"
proof -
  have "hex_Encode src r lc = [] \<longleftrightarrow> src = []"
    by (metis length_0_conv length_hex_Encode mult_eq_0_iff zero_neq_numeral)
  then show ?thesis
    using assms decode_loop_encode [of src "length dest" lc]
    by (cases r) (auto simp: hex_Decode_def hex_Encode_reverse)
qed

lemma set_hex_Encode: "c \<in> set (hex_Encode src r lc) \<Longrightarrow> c \<in> set (alphabet lc)"
proof -
  have l: "length (alphabet lc) = 16"
    by (simp add: alphabet_def ALPHABET_LC_def ALPHABET_UC_def)
  have "set (hex_Encode src r lc) = set (hex_Encode src False lc)"
    by (cases r) (simp_all add: hex_Encode_reverse)
  also have "\<dots> \<subseteq> set (alphabet lc)"
    by (auto simp: hex_Encode_forward l less_mult_imp_div_less)
  finally show "c \<in> set (hex_Encode src r lc) \<Longrightarrow> ?thesis" by blast
qed

lemma decode_loop_total:
  "even (length s) \<Longrightarrow> length s \<le> 2 * room \<Longrightarrow>
     (case decode_loop s room of
        Inl e \<Rightarrow> (\<exists>c \<in> set s. \<not> is_hex c \<and> e = bad_digit c)
      | Inr bs \<Rightarrow> list_all is_hex s \<and> 2 * length bs = length s)"
proof (induction s room rule: decode_loop.induct)
  case (4 c d cs room)
  then show ?case
    by (cases "decode_loop cs room") (auto simp: Let_def DecForIndex_invalid_iff)
qed auto

text \<open>
  whatever the direction and the letter case, decoding the encoding of a byte sequence into a
  destination that is large enough returns the sequence followed by zeros (an empty input leaves
  the destination untouched).
\<close>

theorem hex_roundtrip:
  assumes "length src \<le> length dest"
  shows "hex_Decode (hex_Encode src reverse lower_case) dest reverse
      = Inr (if src = [] then dest else src @ replicate (length dest - length src) 0)"
  using assms by (rule hex_Decode_Encode)

theorem hex_roundtrip_witness:
  "length [0xDE, 0xAD :: byte] \<le> length [1, 2, 3 :: byte]
   \<and> hex_Decode (hex_Encode [0xDE, 0xAD] True True) [1, 2, 3] True = Inr [0xDE, 0xAD, 0]"
  using hex_roundtrip [of "[0xDE, 0xAD]" "[1, 2, 3]" True True] by simp

text \<open>
  the decoder returns normally exactly on an even number of hexadecimal digits (of either case)
  that fits the destination; every other input ends in an abort or a \<open>domain_error\<close>, and the
  read past the end of the source never happens.
\<close>

theorem hex_Decode_accepts:
  "(\<exists>out. hex_Decode src dest reverse = Inr out)
     = (even (length src) \<and> length src div 2 \<le> length dest \<and> list_all is_hex src)
   \<and> hex_Decode src dest reverse \<noteq> Inl (AbortExn ''read past the end of the source'')"
proof -
  define s where "s = (if reverse then rev src else src)"
  have s: "length s = length src" "set s = set src"
    by (auto simp: s_def)
  show ?thesis
  proof (cases "even (length src) \<and> length src div 2 \<le> length dest")
    case False
    then show ?thesis by (auto simp: hex_Decode_def odd_iff_mod_2_eq_one)
  next
    case True
    then have "length s \<le> 2 * length dest" "even (length s)" "length src mod 2 = 0"
      by (auto simp: s)
    with True decode_loop_total [of s "length dest"] s show ?thesis
      by (cases "decode_loop s (length dest)")
         (auto simp: hex_Decode_def s_def [symmetric] list_all_iff bad_digit_def)
  qed
qed

end
