(* ===== verification/StdMap.thy ===== *)
theory StdMap
  imports Prelude
begin

text \<open>
  \<open>std::map\<close> as the sources use it: an association list in strictly increasing key order, which is
  the order the range-based loops of the sources see. The operations are \<open>find\<close>,
  \<open>emplace\<close> (an existing key keeps its value), \<open>insert_or_assign\<close> (an existing key is
  overwritten), \<open>erase\<close> and construction from an initializer list. The locale states the
  interface the client components rely on; it is interpreted on these operations.
\<close>

type_synonym ('k, 'v) std_map = "('k \<times> 'v) list"

definition map_wf :: "('k :: linorder, 'v) std_map \<Rightarrow> bool" where
  "map_wf m \<longleftrightarrow> sorted_wrt (<) (map fst m)"

definition map_find :: "('k, 'v) std_map \<Rightarrow> 'k \<Rightarrow> 'v option" where
  "map_find m k = map_of m k"

fun map_emplace :: "'k :: linorder \<Rightarrow> 'v \<Rightarrow> ('k, 'v) std_map \<Rightarrow> ('k, 'v) std_map" where
  "map_emplace k v [] = [(k, v)]"
| "map_emplace k v ((k', v') # m) =
     (if k < k' then (k, v) # (k', v') # m
      else if k = k' then (k', v') # m
      else (k', v') # map_emplace k v m)"

fun map_insert_or_assign :: "'k :: linorder \<Rightarrow> 'v \<Rightarrow> ('k, 'v) std_map \<Rightarrow> ('k, 'v) std_map" where
  "map_insert_or_assign k v [] = [(k, v)]"
| "map_insert_or_assign k v ((k', v') # m) =
     (if k < k' then (k, v) # (k', v') # m
      else if k = k' then (k, v) # m
      else (k', v') # map_insert_or_assign k v m)"

definition map_erase :: "'k \<Rightarrow> ('k, 'v) std_map \<Rightarrow> ('k, 'v) std_map" where
  "map_erase k m = filter (\<lambda>e. fst e \<noteq> k) m"

definition map_init :: "('k :: linorder \<times> 'v) list \<Rightarrow> ('k, 'v) std_map" where
  "map_init es = fold (\<lambda>(k, v) m. map_emplace k v m) es []"

section \<open>The interface\<close>

locale ordered_map =
  fixes wf :: "'m \<Rightarrow> bool"
    and empty :: 'm
    and find :: "'m \<Rightarrow> 'k \<Rightarrow> 'v option"
    and emplace :: "'k \<Rightarrow> 'v \<Rightarrow> 'm \<Rightarrow> 'm"
    and insert_or_assign :: "'k \<Rightarrow> 'v \<Rightarrow> 'm \<Rightarrow> 'm"
    and erase :: "'k \<Rightarrow> 'm \<Rightarrow> 'm"
  assumes find_empty: "find empty k = None"
    and find_emplace: "wf m \<Longrightarrow> find (emplace k v m) k' = (if k' = k \<and> find m k = None then Some v else find m k')"
    and find_insert_or_assign: "wf m \<Longrightarrow> find (insert_or_assign k v m) k' = (if k' = k then Some v else find m k')"
    and find_erase: "wf m \<Longrightarrow> find (erase k m) k' = (if k' = k then None else find m k')"
    and wf_empty: "wf empty"
    and wf_emplace: "wf m \<Longrightarrow> wf (emplace k v m)"
    and wf_insert_or_assign: "wf m \<Longrightarrow> wf (insert_or_assign k v m)"
    and wf_erase: "wf m \<Longrightarrow> wf (erase k m)"
begin

lemma wf_fold_emplace: "wf m \<Longrightarrow> wf (fold (\<lambda>(k, v). emplace k v) es m)"
  by (induction es arbitrary: m) (auto simp: wf_emplace)

lemma find_fold_emplace:
  "wf m \<Longrightarrow> find (fold (\<lambda>(k, v). emplace k v) es m) k
     = (case find m k of Some v \<Rightarrow> Some v | None \<Rightarrow> map_of es k)"
  by (induction es arbitrary: m) (auto simp: find_emplace wf_emplace split: option.splits)

lemma wf_fold_insert_or_assign: "wf m \<Longrightarrow> wf (fold (\<lambda>(k, v). insert_or_assign k v) es m)"
  by (induction es arbitrary: m) (auto simp: wf_insert_or_assign)

lemma find_fold_insert_or_assign:
  "wf m \<Longrightarrow> find (fold (\<lambda>(k, v). insert_or_assign k v) es m) k
     = (case map_of (rev es) k of Some v \<Rightarrow> Some v | None \<Rightarrow> find m k)"
  by (induction es arbitrary: m)
     (auto simp: find_insert_or_assign wf_insert_or_assign map_add_def split: option.splits)

end

section \<open>The operations meet the interface\<close>

lemma map_wf_Cons: "map_wf (e # m) \<longleftrightarrow> (\<forall>x \<in> set m. fst e < fst x) \<and> map_wf m"
  by (simp add: map_wf_def)

lemma map_wf_Nil [simp]: "map_wf []"
  by (simp add: map_wf_def)

lemma map_wf_distinct: "map_wf m \<Longrightarrow> distinct (map fst m)"
  by (simp add: map_wf_def strict_sorted_iff)

lemma fst_set_emplace: "fst ` set (map_emplace k v m) = insert k (fst ` set m)"
  by (induction k v m rule: map_emplace.induct) auto

lemma fst_set_insert_or_assign: "fst ` set (map_insert_or_assign k v m) = insert k (fst ` set m)"
  by (induction k v m rule: map_insert_or_assign.induct) auto

lemma map_wf_Cons_keys: "map_wf (e # m) \<longleftrightarrow> (\<forall>x \<in> fst ` set m. fst e < x) \<and> map_wf m"
  by (simp add: map_wf_Cons)

lemma map_wf_emplace: "map_wf m \<Longrightarrow> map_wf (map_emplace k v m)"
  by (induction k v m rule: map_emplace.induct)
     (auto simp: map_wf_Cons_keys fst_set_emplace intro: order.strict_trans)

lemma map_wf_insert_or_assign: "map_wf m \<Longrightarrow> map_wf (map_insert_or_assign k v m)"
  by (induction k v m rule: map_insert_or_assign.induct)
     (auto simp: map_wf_Cons_keys fst_set_insert_or_assign intro: order.strict_trans)

lemma map_wf_erase: "map_wf m \<Longrightarrow> map_wf (map_erase k m)"
  by (auto simp: map_wf_def map_erase_def sorted_wrt_map sorted_wrt_filter)

lemma map_of_emplace:
  "map_wf m \<Longrightarrow> map_of (map_emplace k v m) k' = (if k' = k \<and> map_of m k = None then Some v else map_of m k')"
proof (induction k v m rule: map_emplace.induct)
  case (2 k v a w m)
  have "k < a \<Longrightarrow> map_of m k = None"
    using "2.prems" by (force simp: map_wf_Cons map_of_eq_None_iff)
  with 2 show ?case by (auto simp: map_wf_Cons)
qed simp

lemma map_of_insert_or_assign:
  "map_wf m \<Longrightarrow> map_of (map_insert_or_assign k v m) k' = (if k' = k then Some v else map_of m k')"
  by (induction k v m rule: map_insert_or_assign.induct) (auto simp: map_wf_Cons)

lemma map_of_erase: "map_of (map_erase k m) k' = (if k' = k then None else map_of m k')"
  by (induction m) (auto simp: map_erase_def)

interpretation smap: ordered_map map_wf "[]" map_find map_emplace map_insert_or_assign map_erase
  by unfold_locales
     (simp_all add: map_find_def map_of_emplace map_of_insert_or_assign map_of_erase
       map_wf_emplace map_wf_insert_or_assign map_wf_erase)

lemmas smap_simps =
  smap.find_empty smap.find_emplace smap.find_insert_or_assign smap.find_erase
  smap.wf_empty smap.wf_emplace smap.wf_insert_or_assign smap.wf_erase

lemma map_init_wf [simp]: "map_wf (map_init es)"
  using smap.wf_fold_emplace [of "[]" es] by (simp add: map_init_def)

lemma map_find_init [simp]: "map_find (map_init es) k = map_of es k"
  using smap.find_fold_emplace [of "[]" es k] by (simp add: map_init_def smap.find_empty)

text \<open>Inserting keys in increasing order appends, so that decoding a printed map rebuilds it.\<close>

lemma map_emplace_append: "\<forall>x \<in> set m. fst x < k \<Longrightarrow> map_emplace k v m = m @ [(k, v)]"
  by (induction k v m rule: map_emplace.induct) auto

text \<open>A map is determined by its lookups.\<close>

lemma map_ext:
  assumes "map_wf m" "map_wf m'" "map_of m = map_of m'"
  shows "m = m'"
proof -
  have "set m = set m'"
    using assms by (metis map_of_eqI map_of_inject_set map_wf_distinct)
  moreover have "inj_on fst (set m \<union> set m')"
    using assms map_wf_distinct \<open>set m = set m'\<close> by (auto simp: distinct_map)
  moreover have "sorted (map fst m)" "sorted (map fst m')"
    using assms by (simp_all add: map_wf_def strict_sorted_iff)
  ultimately show ?thesis
    using assms map_wf_distinct by (blast intro: map_sorted_distinct_set_unique)
qed

end
