(* ===== verification/Bencode.thy ===== *)
theory Bencode
  imports StdMap
begin

text \<open>
  The bencode codec of \<open>src/Blocxxi/Codec/bencode.cpp\<close>: values, accessors, the printer
  \<open>AppendEncoded\<close> and the recursive-descent parser \<open>DecodeValue\<close> with its offset. Offsets are
  \<open>std::size_t\<close>: the addition of a string length to the offset wraps at \<open>2 ^ 64\<close>, which
  is written out. The parser may run forever, so it takes fuel; \<open>None\<close> is "still running".
  The lemmas show that the decoder accepts exactly the language of an independent grammar, the
  round trip with enough fuel, termination on inputs whose digit runs are short, and an input on
  which the parser never returns.
\<close>

section \<open>Values\<close>

datatype Value =
    BInteger "64 word"
  | BString string
  | BList "Value list"
  | BDictionary "(string \<times> Value) list"

datatype ValueType = TypeInteger | TypeString | TypeList | TypeDictionary

fun GetType :: "Value \<Rightarrow> ValueType" where
  "GetType (BInteger i) = TypeInteger"
| "GetType (BString s) = TypeString"
| "GetType (BList l) = TypeList"
| "GetType (BDictionary d) = TypeDictionary"

fun AsInteger :: "Value \<Rightarrow> 64 word res" where
  "AsInteger (BInteger i) = Inr i"
| "AsInteger _ = Inl (LogicErrorExn ''bencode value is not an integer'')"

fun AsString :: "Value \<Rightarrow> string res" where
  "AsString (BString s) = Inr s"
| "AsString _ = Inl (LogicErrorExn ''bencode value is not a string'')"

fun AsList :: "Value \<Rightarrow> Value list res" where
  "AsList (BList l) = Inr l"
| "AsList _ = Inl (LogicErrorExn ''bencode value is not a list'')"

fun AsDictionary :: "Value \<Rightarrow> (string, Value) std_map res" where
  "AsDictionary (BDictionary d) = Inr d"
| "AsDictionary _ = Inl (LogicErrorExn ''bencode value is not a dictionary'')"

text \<open>\<open>operator==\<close>: same type, then the payloads element by element.\<close>

fun value_eq :: "Value \<Rightarrow> Value \<Rightarrow> bool" where
  "value_eq (BInteger i) (BInteger j) = (i = j)"
| "value_eq (BString s) (BString t) = (s = t)"
| "value_eq (BList l) (BList m) = list_all2 value_eq l m"
| "value_eq (BDictionary d) (BDictionary e) = list_all2 (\<lambda>p q. fst p = fst q \<and> value_eq (snd p) (snd q)) d e"
| "value_eq _ _ = False"

section \<open>Printing\<close>

definition AppendEncodedString :: "string \<Rightarrow> string \<Rightarrow> string" where
  "AppendEncodedString v out = out @ show_nat (length v) @ '':'' @ v"

fun AppendEncoded :: "Value \<Rightarrow> string \<Rightarrow> string" where
  "AppendEncoded (BInteger i) out = out @ ''i'' @ show_int (sint i) @ ''e''"
| "AppendEncoded (BString s) out = AppendEncodedString s out"
| "AppendEncoded (BList l) out = fold (\<lambda>item o1. AppendEncoded item o1) l (out @ ''l'') @ ''e''"
| "AppendEncoded (BDictionary d) out =
     fold (\<lambda>p o1. AppendEncoded (snd p) (AppendEncodedString (fst p) o1)) d (out @ ''d'') @ ''e''"

definition bencode_Encode :: "Value \<Rightarrow> string" where
  "bencode_Encode v = AppendEncoded v []"

section \<open>Parsing\<close>

definition sv_find :: "char \<Rightarrow> string \<Rightarrow> nat \<Rightarrow> nat option" where
  "sv_find c s off =
     (let p = off + length (takeWhile (\<lambda>x. x \<noteq> c) (drop off s)) in
      if p < length s then Some p else None)"

definition sv_substr :: "string \<Rightarrow> nat \<Rightarrow> nat \<Rightarrow> string" where
  "sv_substr s pos n = take n (drop pos s)"

definition ParseNumber_int64 :: "string \<Rightarrow> string \<Rightarrow> 64 word res" where
  "ParseNumber_int64 input msg =
     (case from_chars_signed 64 input of
        Inl _ \<Rightarrow> Inl (InvalidArgumentExn msg)
      | Inr (v, rest) \<Rightarrow> if rest \<noteq> [] then Inl (InvalidArgumentExn msg) else Inr (word_of_int v))"

definition ParseNumber_size :: "string \<Rightarrow> string \<Rightarrow> nat res" where
  "ParseNumber_size input msg =
     (case from_chars_unsigned 64 input of
        Inl _ \<Rightarrow> Inl (InvalidArgumentExn msg)
      | Inr (v, rest) \<Rightarrow> if rest \<noteq> [] then Inl (InvalidArgumentExn msg) else Inr v)"

text \<open>The branch of \<open>DecodeValue\<close> for an integer token, entered with the offset after the \<open>i\<close>.\<close>

definition decode_integer :: "string \<Rightarrow> nat \<Rightarrow> (Value \<times> nat) res" where
  "decode_integer s off =
     (case sv_find (CHR ''e'') s off of
        None \<Rightarrow> Inl (InvalidArgumentExn ''unterminated bencode integer'')
      | Some e \<Rightarrow> rbind (ParseNumber_int64 (sv_substr s off (e - off)) ''invalid bencode integer'')
                   (\<lambda>i. Inr (BInteger i, e + 1)))"

text \<open>
  The branch for a string. The new offset is \<open>offset + length\<close> in 64-bit arithmetic, and the
  size check is made on the wrapped sum.
\<close>

definition decode_string :: "string \<Rightarrow> nat \<Rightarrow> (Value \<times> nat) res" where
  "decode_string s off =
     (case sv_find (CHR '':'') s off of
        None \<Rightarrow> Inl (InvalidArgumentExn ''unterminated bencode string length'')
      | Some colon \<Rightarrow>
          rbind (ParseNumber_size (sv_substr s off (colon - off)) ''invalid bencode string length'')
            (\<lambda>len. let off' = colon + 1 in
               if length s < (off' + len) mod 2 ^ 64
               then Inl (InvalidArgumentExn ''bencode string exceeds input size'')
               else Inr (BString (sv_substr s off' len), (off' + len) mod 2 ^ 64)))"

fun decode_value :: "nat \<Rightarrow> string \<Rightarrow> nat \<Rightarrow> (Value \<times> nat) res option"
and decode_list :: "nat \<Rightarrow> string \<Rightarrow> nat \<Rightarrow> Value list \<Rightarrow> (Value \<times> nat) res option"
and decode_dict :: "nat \<Rightarrow> string \<Rightarrow> nat \<Rightarrow> (string, Value) std_map \<Rightarrow> (Value \<times> nat) res option"
where
  "decode_value 0 s off = None"
| "decode_value (Suc fuel) s off =
     (if length s \<le> off then Some (Inl (InvalidArgumentExn ''unexpected end of bencode input''))
      else if s ! off = CHR ''i'' then Some (decode_integer s (off + 1))
      else if s ! off = CHR ''l'' then decode_list fuel s (off + 1) []
      else if s ! off = CHR ''d'' then decode_dict fuel s (off + 1) []
      else if \<not> is_digit (s ! off) then Some (Inl (InvalidArgumentExn ''invalid bencode token''))
      else Some (decode_string s off))"
| "decode_list 0 s off items = None"
| "decode_list (Suc fuel) s off items =
     (if off < length s \<and> s ! off \<noteq> CHR ''e'' then
        (case decode_value fuel s off of
           None \<Rightarrow> None
         | Some (Inl e) \<Rightarrow> Some (Inl e)
         | Some (Inr (v, off')) \<Rightarrow> decode_list fuel s off' (items @ [v]))
      else if length s \<le> off then Some (Inl (InvalidArgumentExn ''unterminated bencode list''))
      else Some (Inr (BList items, off + 1)))"
| "decode_dict 0 s off entries = None"
| "decode_dict (Suc fuel) s off entries =
     (if off < length s \<and> s ! off \<noteq> CHR ''e'' then
        (case decode_value fuel s off of
           None \<Rightarrow> None
         | Some (Inl e) \<Rightarrow> Some (Inl e)
         | Some (Inr (key, off')) \<Rightarrow>
             (if GetType key \<noteq> TypeString
              then Some (Inl (InvalidArgumentExn ''bencode dictionary key must be a string''))
              else (case AsString key of
                      Inl e \<Rightarrow> Some (Inl e)
                    | Inr k \<Rightarrow>
                       (case decode_value fuel s off' of
                          None \<Rightarrow> None
                        | Some (Inl e) \<Rightarrow> Some (Inl e)
                        | Some (Inr (v, off'')) \<Rightarrow> decode_dict fuel s off'' (map_emplace k v entries)))))
      else if length s \<le> off then Some (Inl (InvalidArgumentExn ''unterminated bencode dictionary''))
      else Some (Inr (BDictionary entries, off + 1)))"

definition bencode_Decode :: "nat \<Rightarrow> string \<Rightarrow> Value res option" where
  "bencode_Decode fuel encoded =
     map_option (\<lambda>r. rbind r (\<lambda>(v, off).
       if off \<noteq> length encoded then Inl (InvalidArgumentExn ''trailing bencode data'') else Inr v))
     (decode_value fuel encoded 0)"

section \<open>Well-formed values\<close>

text \<open>What every C++ \<open>Value\<close> satisfies: dictionaries are \<open>std::map\<close>s, at every level.\<close>

fun value_wf :: "Value \<Rightarrow> bool" where
  "value_wf (BInteger i) = True"
| "value_wf (BString s) = True"
| "value_wf (BList l) = list_all value_wf l"
| "value_wf (BDictionary d) = (map_wf d \<and> list_all (\<lambda>p. value_wf (snd p)) d)"

lemma value_eq_iff: "value_eq v w \<longleftrightarrow> v = w"
proof (induction v w rule: value_eq.induct)
  case (3 l m)
  have "list_all2 value_eq l m = list_all2 (=) l m"
    by (rule list.rel_cong) (auto simp: 3)
  then show ?case by (simp add: list.rel_eq)
next
  case (4 d e)
  have "list_all2 (\<lambda>p q. fst p = fst q \<and> value_eq (snd p) (snd q)) d e = list_all2 (=) d e"
    by (rule list.rel_cong) (auto simp: 4 prod_eq_iff)
  then show ?case by (simp add: list.rel_eq)
qed auto

section \<open>The printed form\<close>

definition enc_string :: "string \<Rightarrow> string" where
  "enc_string s = show_nat (length s) @ CHR '':'' # s"

lemma AppendEncodedString_eq: "AppendEncodedString s out = out @ enc_string s"
  by (simp add: AppendEncodedString_def enc_string_def)

lemma AppendEncoded_append: "AppendEncoded v out = out @ AppendEncoded v []"
proof (induction v arbitrary: out)
  case (BList l)
  have "fold (\<lambda>v. AppendEncoded v) l out = out @ concat (map (\<lambda>v. AppendEncoded v []) l)" for out
    by (rule fold_append_concat) (rule BList)
  then show ?case by simp
next
  case (BDictionary d)
  have "fold (\<lambda>p o1. AppendEncoded (snd p) (AppendEncodedString (fst p) o1)) d out
      = out @ concat (map (\<lambda>p. enc_string (fst p) @ AppendEncoded (snd p) []) d)" for out
  proof (rule fold_append_concat)
    fix p out assume "p \<in> set d"
    then have "\<And>out. AppendEncoded (snd p) out = out @ AppendEncoded (snd p) []"
      using BDictionary by (metis snds.intros)
    then show "AppendEncoded (snd p) (AppendEncodedString (fst p) out)
        = out @ enc_string (fst p) @ AppendEncoded (snd p) []"
      by (metis AppendEncodedString_eq append_assoc)
  qed
  then show ?case by simp
qed (simp_all add: AppendEncodedString_eq)

lemma bencode_Encode_simps [simp]:
  "bencode_Encode (BInteger i) = CHR ''i'' # show_int (sint i) @ ''e''"
  "bencode_Encode (BString s) = enc_string s"
  "bencode_Encode (BList l) = CHR ''l'' # concat (map bencode_Encode l) @ ''e''"
  "bencode_Encode (BDictionary d)
     = CHR ''d'' # concat (map (\<lambda>p. enc_string (fst p) @ bencode_Encode (snd p)) d) @ ''e''"
proof -
  show "bencode_Encode (BInteger i) = CHR ''i'' # show_int (sint i) @ ''e''"
    by (simp add: bencode_Encode_def)
  show "bencode_Encode (BString s) = enc_string s"
    by (simp add: bencode_Encode_def AppendEncodedString_eq)
  have "fold (\<lambda>v. AppendEncoded v) l ''l'' = ''l'' @ concat (map bencode_Encode l)"
    by (rule fold_append_concat) (metis AppendEncoded_append bencode_Encode_def)
  then show "bencode_Encode (BList l) = CHR ''l'' # concat (map bencode_Encode l) @ ''e''"
    by (simp add: bencode_Encode_def)
  have "fold (\<lambda>p o1. AppendEncoded (snd p) (AppendEncodedString (fst p) o1)) d ''d''
      = ''d'' @ concat (map (\<lambda>p. enc_string (fst p) @ bencode_Encode (snd p)) d)"
    by (rule fold_append_concat) (metis AppendEncodedString_eq AppendEncoded_append append_assoc bencode_Encode_def)
  then show "bencode_Encode (BDictionary d)
     = CHR ''d'' # concat (map (\<lambda>p. enc_string (fst p) @ bencode_Encode (snd p)) d) @ ''e''"
    by (simp add: bencode_Encode_def)
qed

section \<open>The language of the decoder\<close>

text \<open>
  A grammar of bencode, written without the decoder: which texts stand for which value. The
  decoder is lenient, so the numbers may have leading zeros, and the entries of a dictionary may
  come in any order and repeat a key, of which the first entry counts.
\<close>

inductive number_text :: "string \<Rightarrow> int \<Rightarrow> bool" where
  plain: "ds \<noteq> [] \<Longrightarrow> list_all is_digit ds \<Longrightarrow> number_text ds (int (digits_val ds))"
| minus: "ds \<noteq> [] \<Longrightarrow> list_all is_digit ds \<Longrightarrow> number_text (CHR ''-'' # ds) (- int (digits_val ds))"

inductive bencoded :: "string \<Rightarrow> Value \<Rightarrow> bool" where
  bencoded_integer: "number_text t n \<Longrightarrow> - (2 ^ 63) \<le> n \<Longrightarrow> n < 2 ^ 63 \<Longrightarrow>
    bencoded (CHR ''i'' # t @ ''e'') (BInteger (word_of_int n))"
| bencoded_string: "ds \<noteq> [] \<Longrightarrow> list_all is_digit ds \<Longrightarrow> digits_val ds = length v \<Longrightarrow>
    bencoded (ds @ CHR '':'' # v) (BString v)"
| bencoded_list: "list_all2 bencoded ts vs \<Longrightarrow> bencoded (CHR ''l'' # concat ts @ ''e'') (BList vs)"
| bencoded_dict: "list_all2 (\<lambda>t p. \<exists>t1 t2. t = t1 @ t2 \<and> bencoded t1 (BString (fst p)) \<and> bencoded t2 (snd p)) ts kvs \<Longrightarrow>
    map_wf d \<Longrightarrow> map_of d = map_of kvs \<Longrightarrow> bencoded (CHR ''d'' # concat ts @ ''e'') (BDictionary d)"

inductive_cases bencoded_stringE: "bencoded t (BString k)"

lemma all_digits_takeWhile: "dropWhile P xs = [] \<Longrightarrow> takeWhile P xs = xs \<and> list_all P xs"
  by (metis append.right_neutral dropWhile_eq_Nil_conv list_all_iff takeWhile_dropWhile_id)

lemma digits_of_length:
  "list_all is_digit ds \<Longrightarrow> takeWhile is_digit ds = ds"
  "list_all is_digit ds \<Longrightarrow> dropWhile is_digit ds = []"
  by (simp_all add: list_all_iff takeWhile_eq_all_conv dropWhile_eq_Nil_conv)

lemma ParseNumber_size_Inr:
  "ParseNumber_size t msg = Inr n \<longleftrightarrow> t \<noteq> [] \<and> list_all is_digit t \<and> n = digits_val t \<and> n < 2 ^ 64"
proof (cases "list_all is_digit t")
  case True
  then show ?thesis
    by (auto simp: ParseNumber_size_def from_chars_unsigned_def Let_def digits_of_length split: if_splits)
next
  case False
  then have "\<not> (\<forall>c \<in> set t. is_digit c)"
    by (simp add: list_all_iff)
  with False show ?thesis
    by (auto simp: ParseNumber_size_def from_chars_unsigned_def Let_def split: if_splits)
qed

lemma number_text_iff:
  "number_text t n \<longleftrightarrow> (\<exists>ds. ds \<noteq> [] \<and> list_all is_digit ds
     \<and> (t = ds \<and> n = int (digits_val ds) \<or> t = CHR ''-'' # ds \<and> n = - int (digits_val ds)))"
  by (auto simp: number_text.simps)

definition signed_body :: "int \<Rightarrow> string \<Rightarrow> errc + (int \<times> string)" where
  "signed_body sg b =
     (let ds = takeWhile is_digit b; v = sg * int (digits_val ds) in
      if ds = [] then Inl Errc_invalid_argument
      else if v < - (2 ^ 63) \<or> 2 ^ 63 \<le> v then Inl Errc_result_out_of_range
      else Inr (v, dropWhile is_digit b))"

lemma signed_body_whole:
  "signed_body sg b = Inr (n, [])
     \<longleftrightarrow> b \<noteq> [] \<and> list_all is_digit b \<and> n = sg * int (digits_val b) \<and> - (2 ^ 63) \<le> n \<and> n < 2 ^ 63"
proof (cases "list_all is_digit b")
  case True
  then show ?thesis by (auto simp: signed_body_def digits_of_length Let_def split: if_splits)
next
  case False
  then have "\<not> (\<forall>c \<in> set b. is_digit c)"
    by (simp add: list_all_iff)
  with False show ?thesis by (auto simp: signed_body_def Let_def)
qed

lemma from_chars_signed_body:
  "from_chars_signed 64 (CHR ''-'' # b) = signed_body (- 1) b"
  "t = [] \<or> hd t \<noteq> CHR ''-'' \<Longrightarrow> from_chars_signed 64 t = signed_body 1 t"
  by (auto simp: from_chars_signed_def signed_body_def Let_def)

lemma from_chars_signed_whole:
  "from_chars_signed 64 t = Inr (n, []) \<longleftrightarrow> number_text t n \<and> - (2 ^ 63) \<le> n \<and> n < 2 ^ 63"
proof (cases "t \<noteq> [] \<and> hd t = CHR ''-''")
  case True
  then obtain b where t: "t = CHR ''-'' # b" by (cases t) auto
  show ?thesis
    unfolding t from_chars_signed_body(1) signed_body_whole by (auto simp: number_text_iff)
next
  case False
  then have "from_chars_signed 64 t = signed_body 1 t" "\<nexists>b. t = CHR ''-'' # b"
    by (auto simp: from_chars_signed_body(2))
  then show ?thesis
    unfolding number_text_iff by (auto simp: signed_body_whole)
qed

lemma ParseNumber_int64_Inr:
  "ParseNumber_int64 t msg = Inr i \<longleftrightarrow> (\<exists>n. number_text t n \<and> - (2 ^ 63) \<le> n \<and> n < 2 ^ 63 \<and> i = word_of_int n)"
proof -
  have "ParseNumber_int64 t msg = Inr i \<longleftrightarrow> (\<exists>n. from_chars_signed 64 t = Inr (n, []) \<and> i = word_of_int n)"
    by (auto simp: ParseNumber_int64_def split: sum.splits if_splits prod.splits)
  then show ?thesis by (simp add: from_chars_signed_whole)
qed

definition entry_text :: "string \<Rightarrow> string \<times> Value \<Rightarrow> bool" where
  "entry_text t p \<longleftrightarrow> (\<exists>t1 t2. t = t1 @ t2 \<and> bencoded t1 (BString (fst p)) \<and> bencoded t2 (snd p))"

lemma bencoded_dict': "list_all2 entry_text ts kvs \<Longrightarrow> map_wf d \<Longrightarrow> map_of d = map_of kvs \<Longrightarrow>
    bencoded (CHR ''d'' # concat ts @ ''e'') (BDictionary d)"
  unfolding entry_text_def by (rule bencoded_dict)

definition emplace_all :: "(string \<times> Value) list \<Rightarrow> (string, Value) std_map \<Rightarrow> (string, Value) std_map" where
  "emplace_all kvs d = fold (\<lambda>p. map_emplace (fst p) (snd p)) kvs d"

lemma emplace_all_simps [simp]:
  "emplace_all [] d = d" "emplace_all (p # kvs) d = emplace_all kvs (map_emplace (fst p) (snd p) d)"
  by (simp_all add: emplace_all_def)

lemma map_wf_emplace_all: "map_wf d \<Longrightarrow> map_wf (emplace_all kvs d)"
  by (induction kvs arbitrary: d) (simp_all add: map_wf_emplace)

lemma map_of_emplace_all: "map_wf d \<Longrightarrow> map_of (emplace_all kvs d) = map_of kvs ++ map_of d"
proof (induction kvs arbitrary: d)
  case (Cons p kvs)
  then show ?case
    by (cases p) (auto simp: map_wf_emplace map_of_emplace map_add_def fun_eq_iff split: option.splits)
qed simp

section \<open>Every text of the language is decoded\<close>

lemma sv_find_append:
  "c \<notin> set mid \<Longrightarrow> sv_find c (pre @ mid @ c # post) (length pre) = Some (length pre + length mid)"
proof -
  assume "c \<notin> set mid"
  then have "takeWhile (\<lambda>x. x \<noteq> c) (mid @ c # post) = mid"
    by (subst takeWhile_append2) auto
  then show ?thesis
    by (simp add: sv_find_def Let_def)
qed

lemma sv_substr_append: "sv_substr (pre @ mid @ post) (length pre) (length mid) = mid"
  by (simp add: sv_substr_def)

lemma decode_integer_text:
  assumes "number_text t n" "- (2 ^ 63) \<le> n" "n < 2 ^ 63"
  shows "decode_integer (pre @ t @ CHR ''e'' # post) (length pre)
     = Inr (BInteger (word_of_int n), length pre + length t + 1)"
proof -
  have e: "CHR ''e'' \<notin> set t"
    using assms(1) not_is_digit_simps(3) by (fastforce simp: number_text_iff list_all_iff)
  then show ?thesis
    using from_chars_signed_whole [of t n] assms
    by (simp add: decode_integer_def sv_find_append [OF e] sv_substr_append ParseNumber_int64_def)
qed

lemma decode_string_text:
  assumes "ds \<noteq> []" "list_all is_digit ds" "digits_val ds = length v" "length (pre @ ds @ CHR '':'' # v @ post) < 2 ^ 64"
  shows "decode_string (pre @ ds @ CHR '':'' # v @ post) (length pre)
     = Inr (BString v, length pre + length ds + 1 + length v)"
proof -
  have c: "CHR '':'' \<notin> set ds"
    using assms(2) by (auto simp: list_all_iff)
  have n: "ParseNumber_size ds msg = Inr (length v)" for msg
    using assms by (simp add: ParseNumber_size_Inr)
  have "sv_substr (pre @ ds @ CHR '':'' # v @ post) (length pre + length ds + 1) (length v) = v"
    using sv_substr_append [of "pre @ ds @ '':''" v post] by simp
  then show ?thesis
    using assms(4) by (simp add: decode_string_def sv_find_append [OF c] sv_substr_append n Let_def)
qed

definition decodes :: "string \<Rightarrow> Value \<Rightarrow> bool" where
  "decodes t v \<longleftrightarrow> (\<exists>c cs. t = c # cs \<and> c \<noteq> CHR ''e'') \<and> (\<forall>pre post fuel.
     length (pre @ t @ post) < 2 ^ 64 \<longrightarrow> length t \<le> fuel \<longrightarrow>
     decode_value fuel (pre @ t @ post) (length pre) = Some (Inr (v, length pre + length t)))"

lemma decodesD:
  "decodes t v \<Longrightarrow> s = pre @ t @ post \<Longrightarrow> off = length pre \<Longrightarrow> length s < 2 ^ 64 \<Longrightarrow>
   length t \<le> fuel \<Longrightarrow> decode_value fuel s off = Some (Inr (v, off + length t))"
  by (simp add: decodes_def)

lemma decodes_Cons: "decodes t v \<Longrightarrow> \<exists>c cs. t = c # cs \<and> c \<noteq> CHR ''e''"
  by (simp add: decodes_def)

lemma decode_list_text:
  "list_all2 decodes ts vs \<Longrightarrow> s = pre @ concat ts @ CHR ''e'' # post \<Longrightarrow>
   off = length pre \<Longrightarrow> length s < 2 ^ 64 \<Longrightarrow> length (concat ts) < fuel \<Longrightarrow>
   decode_list fuel s off items = Some (Inr (BList (items @ vs), off + length (concat ts) + 1))"
proof (induction ts vs arbitrary: pre off fuel items rule: list_all2_induct)
  case Nil
  then show ?case by (cases fuel) (simp_all add: nth_append)
next
  case (Cons t ts v vs)
  obtain f where f: "fuel = Suc f" using Cons.prems(4) by (cases fuel) auto
  obtain c cs where c: "t = c # cs" "c \<noteq> CHR ''e''"
    using decodes_Cons [OF Cons.hyps(1)] by blast
  have s: "s = pre @ t @ (concat ts @ CHR ''e'' # post)"
    using Cons.prems(1) by simp
  have v: "decode_value f s off = Some (Inr (v, off + length t))"
    using Cons.prems s f Cons.hyps(1) by (intro decodesD [where pre = pre]) auto
  have "decode_list f s (off + length t) (items @ [v])
     = Some (Inr (BList ((items @ [v]) @ vs), off + length t + length (concat ts) + 1))"
    using Cons.prems f c by (intro Cons.IH [where pre = "pre @ t"]) auto
  then show ?case
    using v c Cons.prems(2) f by (simp add: s nth_append)
qed

definition entry_decodes :: "string \<Rightarrow> string \<times> Value \<Rightarrow> bool" where
  "entry_decodes t p \<longleftrightarrow> (\<exists>t1 t2. t = t1 @ t2 \<and> decodes t1 (BString (fst p)) \<and> decodes t2 (snd p))"

lemma decode_dict_text:
  "list_all2 entry_decodes ts kvs \<Longrightarrow> s = pre @ concat ts @ CHR ''e'' # post \<Longrightarrow>
   off = length pre \<Longrightarrow> length s < 2 ^ 64 \<Longrightarrow> length (concat ts) < fuel \<Longrightarrow>
   decode_dict fuel s off entries = Some (Inr (BDictionary (emplace_all kvs entries), off + length (concat ts) + 1))"
proof (induction ts kvs arbitrary: pre off fuel entries rule: list_all2_induct)
  case Nil
  then show ?case by (cases fuel) (simp_all add: nth_append)
next
  case (Cons t ts p kvs)
  obtain f where f: "fuel = Suc f" using Cons.prems(4) by (cases fuel) auto
  obtain t1 t2 where t: "t = t1 @ t2" "decodes t1 (BString (fst p))" "decodes t2 (snd p)"
    using Cons.hyps(1) by (auto simp: entry_decodes_def)
  obtain c cs where c: "t1 = c # cs" "c \<noteq> CHR ''e''"
    using decodes_Cons [OF t(2)] by blast
  have s: "s = pre @ t1 @ (t2 @ concat ts @ CHR ''e'' # post)" "s = (pre @ t1) @ t2 @ (concat ts @ CHR ''e'' # post)"
    using Cons.prems(1) t(1) by simp_all
  have k: "decode_value f s off = Some (Inr (BString (fst p), off + length t1))"
    using Cons.prems(2-4) f t(1) by (intro decodesD [OF t(2) s(1)]) auto
  have v: "decode_value f s (off + length t1) = Some (Inr (snd p, off + length t1 + length t2))"
    using Cons.prems(2-4) f t(1) by (intro decodesD [OF t(3) s(2)]) auto
  have "decode_dict f s (off + length t1 + length t2) (map_emplace (fst p) (snd p) entries)
     = Some (Inr (BDictionary (emplace_all kvs (map_emplace (fst p) (snd p) entries)),
         off + length t1 + length t2 + length (concat ts) + 1))"
    using Cons.prems f c t(1) by (intro Cons.IH [where pre = "pre @ t"]) auto
  then show ?case
    using k v c Cons.prems(2) f t(1) by (simp add: s(1) nth_append)
qed

lemma bencoded_decodes: "bencoded t v \<Longrightarrow> decodes t v"
proof (induction rule: bencoded.induct)
  case (bencoded_integer t n)
  show ?case
    unfolding decodes_def
  proof (intro conjI allI impI)
    fix pre post fuel
    assume "length (CHR ''i'' # t @ ''e'') \<le> fuel"
    then obtain f where "fuel = Suc f" by (cases fuel) auto
    then show "decode_value fuel (pre @ (CHR ''i'' # t @ ''e'') @ post) (length pre)
       = Some (Inr (BInteger (word_of_int n), length pre + length (CHR ''i'' # t @ ''e'')))"
      using decode_integer_text [OF bencoded_integer, of "pre @ ''i''" post] by (simp add: nth_append)
  qed simp
next
  case (bencoded_string ds v)
  then obtain c cs where c: "ds = c # cs" "is_digit c" by (cases ds) auto
  then have n: "c \<noteq> CHR ''i''" "c \<noteq> CHR ''l''" "c \<noteq> CHR ''d''" "c \<noteq> CHR ''e''" by auto
  show ?case
    unfolding decodes_def
  proof (intro conjI allI impI)
    fix pre post fuel
    assume a: "length (pre @ (ds @ CHR '':'' # v) @ post) < 2 ^ 64" "length (ds @ CHR '':'' # v) \<le> fuel"
    then obtain f where "fuel = Suc f" by (cases fuel) auto
    then show "decode_value fuel (pre @ (ds @ CHR '':'' # v) @ post) (length pre)
       = Some (Inr (BString v, length pre + length (ds @ CHR '':'' # v)))"
      using decode_string_text [OF bencoded_string, of pre post] a c n by (simp add: nth_append)
  qed (use c n in auto)
next
  case (bencoded_list ts vs)
  then have l: "list_all2 decodes ts vs"
    by (auto elim: list_all2_mono)
  show ?case
    unfolding decodes_def
  proof (intro conjI allI impI)
    fix pre post fuel
    assume a: "length (pre @ (CHR ''l'' # concat ts @ ''e'') @ post) < 2 ^ 64" "length (CHR ''l'' # concat ts @ ''e'') \<le> fuel"
    then obtain f where "fuel = Suc f" by (cases fuel) auto
    then show "decode_value fuel (pre @ (CHR ''l'' # concat ts @ ''e'') @ post) (length pre)
       = Some (Inr (BList vs, length pre + length (CHR ''l'' # concat ts @ ''e'')))"
      using decode_list_text [OF l, of _ "pre @ ''l''" post _ f "[]"] a by (simp add: nth_append)
  qed simp
next
  case (bencoded_dict ts kvs d)
  then have l: "list_all2 entry_decodes ts kvs"
    by (auto simp: entry_decodes_def elim!: list_all2_mono) blast
  have d: "emplace_all kvs [] = d"
    using bencoded_dict(2,3) by (intro map_ext) (simp_all add: map_wf_emplace_all map_of_emplace_all map_find_def)
  show ?case
    unfolding decodes_def
  proof (intro conjI allI impI)
    fix pre post fuel
    assume a: "length (pre @ (CHR ''d'' # concat ts @ ''e'') @ post) < 2 ^ 64" "length (CHR ''d'' # concat ts @ ''e'') \<le> fuel"
    then obtain f where "fuel = Suc f" by (cases fuel) auto
    then show "decode_value fuel (pre @ (CHR ''d'' # concat ts @ ''e'') @ post) (length pre)
       = Some (Inr (BDictionary d, length pre + length (CHR ''d'' # concat ts @ ''e'')))"
      using decode_dict_text [OF l, of _ "pre @ ''d''" post _ f "[]"] a d by (simp add: nth_append)
  qed simp
qed

section \<open>Every printed value is in the language\<close>

lemma number_text_show_int: "number_text (show_int i) i"
  using number_text.plain [of "show_nat (nat i)"] number_text.minus [of "show_nat (nat (- i))"] show_nat_digits
  by (auto simp: show_int_def)

lemma bencoded_enc_string: "bencoded (enc_string s) (BString s)"
  unfolding enc_string_def by (rule bencoded_string) (simp_all add: show_nat_digits)

lemma bencoded_Encode: "value_wf v \<Longrightarrow> bencoded (bencode_Encode v) v"
proof (induction v)
  case (BInteger i)
  have "- (2 ^ 63) \<le> sint i" "sint i < 2 ^ 63"
    using sint_greater_eq [of i] sint_less [of i] by simp_all
  from bencoded_integer [OF number_text_show_int this] show ?case by simp
next
  case (BString s)
  show ?case by (simp add: bencoded_enc_string)
next
  case (BList l)
  have "list_all2 bencoded (map bencode_Encode l) l"
    using BList by (auto simp: list_all_iff list_all2_map1 intro!: list.rel_refl_strong)
  from bencoded_list [OF this] show ?case by simp
next
  case (BDictionary d)
  have "list_all2 entry_text (map (\<lambda>p. enc_string (fst p) @ bencode_Encode (snd p)) d) d"
    using BDictionary bencoded_enc_string
    by (fastforce simp: list_all_iff list_all2_map1 entry_text_def intro!: list.rel_refl_strong)
  from bencoded_dict' [OF this] show ?case using BDictionary.prems by simp
qed

lemma bencoded_Decode:
  assumes "bencoded s v" "length s < 2 ^ 64" "length s \<le> fuel"
  shows "bencode_Decode fuel s = Some (Inr v)"
  using decodesD [OF bencoded_decodes [OF assms(1)], of _ "[]" "[]" 0 fuel] assms(2,3)
  by (simp add: bencode_Decode_def)

lemma bencode_Decode_Encode:
  assumes "value_wf v" "length (bencode_Encode v) < 2 ^ 64" "length (bencode_Encode v) \<le> fuel"
  shows "bencode_Decode fuel (bencode_Encode v) = Some (Inr v)"
  using bencoded_Decode [OF bencoded_Encode] assms by blast

section \<open>Termination on inputs with short numbers\<close>

definition short_numbers :: "string \<Rightarrow> bool" where
  "short_numbers s \<longleftrightarrow> (\<forall>off \<le> length s. length (takeWhile is_digit (drop off s)) \<le> 18)"

fun advances :: "string \<Rightarrow> nat \<Rightarrow> (Value \<times> nat) res option \<Rightarrow> bool" where
  "advances s off None = False"
| "advances s off (Some (Inl e)) = True"
| "advances s off (Some (Inr (v, off'))) = (off < off' \<and> off' \<le> length s)"

lemma digits_val_less: "list_all is_digit ds \<Longrightarrow> digits_val ds < 10 ^ length ds"
proof (induction ds rule: rev_induct)
  case (snoc c ds)
  then have "digit_val c \<le> 9"
    by (auto simp: digit_val_def is_digit_def)
  with snoc show ?case
    by (simp add: digits_val_snoc)
qed (simp add: digits_val_def)

lemma sv_find_SomeD: "sv_find c s off = Some p \<Longrightarrow> off \<le> p \<and> p < length s"
  by (auto simp: sv_find_def Let_def split: if_splits)

lemma decode_integer_advances: "advances s off (Some (decode_integer s (off + 1)))"
  by (cases "decode_integer s (off + 1)")
     (auto simp: decode_integer_def rbind_eq_Inr dest!: sv_find_SomeD split: option.splits)

lemma length_takeWhile_take: "length (takeWhile P (take n xs)) \<le> length (takeWhile P xs)"
  by (induction xs arbitrary: n) (auto simp: take_Cons split: nat.splits)

lemma ParseNumber_size_bound:
  assumes "short_numbers s" "off \<le> length s" "ParseNumber_size (sv_substr s off n) msg = Inr len"
  shows "len < 10 ^ 18"
proof -
  let ?ds = "takeWhile is_digit (sv_substr s off n)"
  have len: "len = digits_val ?ds" and all: "dropWhile is_digit (sv_substr s off n) = []"
    using assms(3) by (auto simp: ParseNumber_size_def from_chars_unsigned_def Let_def split: if_splits sum.splits)
  have "?ds = takeWhile is_digit (take n (drop off s))"
    by (simp add: sv_substr_def)
  then have "length ?ds \<le> length (takeWhile is_digit (drop off s))"
    by (simp add: length_takeWhile_take)
  also have "\<dots> \<le> 18"
    using assms(1,2) by (simp add: short_numbers_def)
  finally have "(10 :: nat) ^ length ?ds \<le> 10 ^ 18"
    by (intro power_increasing) auto
  moreover have "digits_val ?ds < 10 ^ length ?ds"
    by (rule digits_val_less) (auto simp: list_all_iff dest: set_takeWhileD)
  ultimately show ?thesis
    using len by linarith
qed

lemma decode_string_advances:
  assumes "short_numbers s" "off < length s" "length s < 2 ^ 63"
  shows "advances s off (Some (decode_string s off))"
proof (cases "decode_string s off")
  case (Inr r)
  then obtain colon len where c: "sv_find (CHR '':'') s off = Some colon"
    and len: "ParseNumber_size (sv_substr s off (colon - off)) ''invalid bencode string length'' = Inr len"
    and le: "(colon + 1 + len) mod 2 ^ 64 \<le> length s"
    and r: "snd r = (colon + 1 + len) mod 2 ^ 64"
    by (auto simp: decode_string_def rbind_eq_Inr Let_def split: option.splits if_splits)
  have "len < 10 ^ 18"
    using ParseNumber_size_bound [OF assms(1) _ len] assms(2) by simp
  moreover have "off \<le> colon" "colon < length s"
    using sv_find_SomeD [OF c] by auto
  ultimately have "(colon + 1 + len) mod 2 ^ 64 = colon + 1 + len"
    using assms(3) by (intro mod_less) simp
  then show ?thesis
    using Inr r le \<open>off \<le> colon\<close> by (cases r) simp
qed simp

lemma decode_advances:
  assumes "short_numbers s" "length s < 2 ^ 63"
  shows "2 * (length s - off) + 1 \<le> fuel \<Longrightarrow> advances s off (decode_value fuel s off)"
    and "2 * (length s - off) + 2 \<le> fuel \<Longrightarrow> advances s off (decode_list fuel s off items)"
    and "2 * (length s - off) + 2 \<le> fuel \<Longrightarrow> advances s off (decode_dict fuel s off entries)"
proof (induction fuel arbitrary: off items entries)
  case (Suc fuel)
  note val_IH = Suc.IH(1) and list_IH = Suc.IH(2) and dict_IH = Suc.IH(3)
  { case 1
    have "advances s (Suc off) r \<Longrightarrow> advances s off r" for r
      by (cases "(s, off, r)" rule: advances.cases) auto
    then show ?case
      using 1 list_IH [of "off + 1" "[]"] dict_IH [of "off + 1" "[]"] decode_integer_advances [of s off]
        decode_string_advances [OF assms(1) _ assms(2), of off]
      by auto
  next
    case 2
    have v: "advances s off (decode_value fuel s off)" using 2 val_IH [of off] by simp
    have l: "advances s off (decode_list fuel s off' xs)" if "off < off'" "off < length s" for off' xs
    proof -
      have "2 * (length s - off') + 2 \<le> fuel" using 2 that by simp
      then have "advances s off' (decode_list fuel s off' xs)" by (rule list_IH)
      then show ?thesis
        using that by (cases "(s, off', decode_list fuel s off' xs)" rule: advances.cases) auto
    qed
    show ?case
      using v l by (auto split: option.splits sum.splits)
  next
    case 3
    have v: "advances s off (decode_value fuel s off)" using 3 val_IH [of off] by simp
    have w: "advances s off' (decode_value fuel s off')" if "off < off'" for off'
      using 3 that val_IH [of off'] by simp
    have l: "advances s off (decode_dict fuel s off' xs)" if "off < off'" "off < length s" for off' xs
    proof -
      have "2 * (length s - off') + 2 \<le> fuel" using 3 that by simp
      then have "advances s off' (decode_dict fuel s off' xs)" by (rule dict_IH)
      then show ?thesis
        using that by (cases "(s, off', decode_dict fuel s off' xs)" rule: advances.cases) auto
    qed
    show ?case
      using v w l by (fastforce split: option.splits sum.splits)
  }
qed simp_all

lemma bencode_Decode_terminates:
  assumes "short_numbers s" "length s < 2 ^ 63" "2 * length s + 1 \<le> fuel"
  shows "\<exists>r. bencode_Decode fuel s = Some r"
proof -
  have "advances s 0 (decode_value fuel s 0)"
    using decode_advances(1) [OF assms(1,2), of 0 fuel] assms(3) by simp
  then show ?thesis
    by (cases "decode_value fuel s 0") (auto simp: bencode_Decode_def)
qed

section \<open>Every decoded text is in the language\<close>

lemma sv_find_split:
  assumes "sv_find c s off = Some p"
  shows "\<exists>mid. drop off s = mid @ c # drop (Suc p) s \<and> p = off + length mid \<and> c \<notin> set mid
    \<and> sv_substr s off (p - off) = mid"
proof -
  let ?mid = "takeWhile (\<lambda>x. x \<noteq> c) (drop off s)"
  have p: "p = off + length ?mid" "p < length s"
    using assms by (auto simp: sv_find_def Let_def split: if_splits)
  then have l: "length ?mid < length (drop off s)" by simp
  have "drop off s ! length ?mid = c"
    using nth_length_takeWhile [OF l] by simp
  then have "drop (length ?mid) (drop off s) = c # drop (Suc (length ?mid)) (drop off s)"
    using l by (metis Cons_nth_drop_Suc)
  then have "drop off s = ?mid @ c # drop (Suc p) s"
    using p takeWhile_dropWhile_id [of "\<lambda>x. x \<noteq> c" "drop off s"] by (metis add.commute add_Suc_right append_take_drop_id drop_drop takeWhile_eq_take)
  moreover have "c \<notin> set ?mid" by (auto dest: set_takeWhileD)
  moreover have "sv_substr s off (p - off) = ?mid"
    using p by (simp add: sv_substr_def takeWhile_eq_take [symmetric])
  ultimately show ?thesis using p by blast
qed

text \<open>What a parser that starts at \<open>off\<close> has read when it stops at \<open>off'\<close>.\<close>

definition reads :: "string \<Rightarrow> nat \<Rightarrow> nat \<Rightarrow> string \<Rightarrow> bool" where
  "reads s off off' t \<longleftrightarrow> off' = off + length t \<and> off' \<le> length s \<and> drop off s = t @ drop off' s"

lemma reads_trans: "reads s a b t \<Longrightarrow> reads s b c u \<Longrightarrow> reads s a c (t @ u)"
  by (auto simp: reads_def)

lemma reads_nth: "off < length s \<Longrightarrow> reads s off (Suc off) [s ! off]"
  by (simp add: reads_def Cons_nth_drop_Suc)

lemma sv_find_reads:
  assumes "sv_find c s off = Some p"
  shows "reads s off (p + 1) (sv_substr s off (p - off) @ [c])"
proof -
  obtain mid where "drop off s = mid @ c # drop (Suc p) s" "p = off + length mid" "sv_substr s off (p - off) = mid"
    using sv_find_split [OF assms] by blast
  then show ?thesis
    using sv_find_SomeD [OF assms] by (simp add: reads_def)
qed

lemma decode_integer_sound:
  assumes "off < length s" "s ! off = CHR ''i''" "decode_integer s (off + 1) = Inr (v, off')"
  shows "\<exists>t. reads s off off' t \<and> bencoded t v"
proof -
  obtain e i where e: "sv_find (CHR ''e'') s (off + 1) = Some e"
    and i: "ParseNumber_int64 (sv_substr s (off + 1) (e - (off + 1))) ''invalid bencode integer'' = Inr i"
    and v: "v = BInteger i" "off' = e + 1"
    using assms(3) by (auto simp: decode_integer_def rbind_eq_Inr split: option.splits)
  let ?t = "sv_substr s (off + 1) (e - (off + 1))"
  have "reads s off off' ([CHR ''i''] @ ?t @ [CHR ''e''])"
    using reads_trans [OF reads_nth [OF assms(1)] sv_find_reads [OF e, unfolded Suc_eq_plus1 [symmetric]]] assms(2) v by simp
  moreover have "bencoded ([CHR ''i''] @ ?t @ [CHR ''e'']) v"
    using i v by (auto simp: ParseNumber_int64_Inr intro: bencoded_integer)
  ultimately show ?thesis by blast
qed

lemma decode_string_sound:
  assumes "short_numbers s" "off < length s" "length s < 2 ^ 63" "decode_string s off = Inr (v, off')"
  shows "\<exists>t. reads s off off' t \<and> bencoded t v"
proof -
  obtain colon len where c: "sv_find (CHR '':'') s off = Some colon"
    and len: "ParseNumber_size (sv_substr s off (colon - off)) ''invalid bencode string length'' = Inr len"
    and le: "(colon + 1 + len) mod 2 ^ 64 \<le> length s"
    and v: "v = BString (sv_substr s (colon + 1) len)" "off' = (colon + 1 + len) mod 2 ^ 64"
    using assms(4) by (auto simp: decode_string_def rbind_eq_Inr Let_def split: option.splits if_splits)
  have "len < 10 ^ 18"
    using ParseNumber_size_bound [OF assms(1) _ len] assms(2) by simp
  moreover have "colon < length s"
    using sv_find_SomeD [OF c] by auto
  ultimately have m: "(colon + 1 + len) mod 2 ^ 64 = colon + 1 + len"
    using assms(3) by (intro mod_less) simp
  let ?ds = "sv_substr s off (colon - off)" and ?w = "sv_substr s (colon + 1) len"
  have w: "length ?w = len"
    using le m by (simp add: sv_substr_def)
  then have "reads s (colon + 1) off' ?w"
    using le m v(2) append_take_drop_id [of len "drop (colon + 1) s"]
    by (simp add: reads_def sv_substr_def add.commute)
  then have "reads s off off' ((?ds @ [CHR '':'']) @ ?w)"
    by (rule reads_trans [OF sv_find_reads [OF c]])
  moreover have "bencoded ((?ds @ [CHR '':'']) @ ?w) v"
    using len w v(1) by (auto simp: ParseNumber_size_Inr intro: bencoded_string)
  ultimately show ?thesis by blast
qed

lemma AsString_Inr [simp]: "AsString a = Inr k \<longleftrightarrow> a = BString k"
  by (cases a) simp_all

lemma decode_sound:
  assumes "short_numbers s" "length s < 2 ^ 63"
  shows "decode_value fuel s off = Some (Inr (v, off')) \<Longrightarrow> \<exists>t. reads s off off' t \<and> bencoded t v"
    and "decode_list fuel s off items = Some (Inr (v, off')) \<Longrightarrow> 
      \<exists>ts vs. reads s off off' (concat ts @ ''e'') \<and> list_all2 bencoded ts vs \<and> v = BList (items @ vs)"
    and "decode_dict fuel s off entries = Some (Inr (v, off')) \<Longrightarrow> 
      \<exists>ts kvs. reads s off off' (concat ts @ ''e'') \<and> list_all2 entry_text ts kvs \<and> v = BDictionary (emplace_all kvs entries)"
proof (induction fuel arbitrary: off off' v items entries)
  case (Suc fuel)
  { case 1
    then have off: "off < length s" by (simp split: if_splits)
    consider (i) "s ! off = CHR ''i''" "decode_integer s (off + 1) = Inr (v, off')"
      | (l) "s ! off = CHR ''l''" "decode_list fuel s (off + 1) [] = Some (Inr (v, off'))"
      | (d) "s ! off = CHR ''d''" "decode_dict fuel s (off + 1) [] = Some (Inr (v, off'))"
      | (s) "decode_string s off = Inr (v, off')"
      using 1 by (auto split: if_splits)
    then show ?case
    proof cases
      case i
      then show ?thesis by (rule decode_integer_sound [OF off])
    next
      case l
      obtain ts vs where ts: "reads s (off + 1) off' (concat ts @ ''e'')" "list_all2 bencoded ts vs" "v = BList vs"
        using Suc.IH(2) [OF l(2)] by auto
      have "reads s off off' ([CHR ''l''] @ concat ts @ ''e'')"
        using reads_trans [OF reads_nth [OF off]] ts(1) l(1) by simp
      then show ?thesis using ts bencoded_list by fastforce
    next
      case d
      obtain ts kvs where ts: "reads s (off + 1) off' (concat ts @ ''e'')" "list_all2 entry_text ts kvs"
        "v = BDictionary (emplace_all kvs [])"
        using Suc.IH(3) [OF d(2)] by auto
      have "reads s off off' ([CHR ''d''] @ concat ts @ ''e'')"
        using reads_trans [OF reads_nth [OF off]] ts(1) d(1) by simp
      moreover have "bencoded (CHR ''d'' # concat ts @ ''e'') v"
        unfolding ts(3) by (rule bencoded_dict' [OF ts(2)]) (simp_all add: map_wf_emplace_all map_of_emplace_all)
      ultimately show ?thesis by auto
    next
      case s
      then show ?thesis by (rule decode_string_sound [OF assms(1) off assms(2)])
    qed
  next
    case 2
    show ?case
    proof (cases "off < length s \<and> s ! off \<noteq> CHR ''e''")
      case True
      obtain w o1 where w: "decode_value fuel s off = Some (Inr (w, o1))"
        "decode_list fuel s o1 (items @ [w]) = Some (Inr (v, off'))"
        using 2 True by (auto split: option.splits sum.splits)
      obtain t where t: "reads s off o1 t" "bencoded t w" using Suc.IH(1) [OF w(1)] by blast
      obtain ts vs where ts: "reads s o1 off' (concat ts @ ''e'')" "list_all2 bencoded ts vs" "v = BList ((items @ [w]) @ vs)"
        using Suc.IH(2) [OF w(2)] by blast
      have "reads s off off' (concat (t # ts) @ ''e'')" using reads_trans [OF t(1) ts(1)] by simp
      moreover have "list_all2 bencoded (t # ts) (w # vs)" using t ts by simp
      ultimately show ?thesis using ts(3) by (metis append.assoc append_Cons append_Nil)
    next
      case False
      then have off: "off < length s" "s ! off = CHR ''e''" "v = BList items" "off' = off + 1"
        using 2 by (auto split: if_splits)
      then have "reads s off off' (concat [] @ ''e'')" using reads_nth [OF off(1)] by simp
      then show ?thesis using off(3) by (metis append_Nil2 list_all2_Nil)
    qed
  next
    case 3
    show ?case
    proof (cases "off < length s \<and> s ! off \<noteq> CHR ''e''")
      case True
      obtain k o1 w o2 where w: "decode_value fuel s off = Some (Inr (BString k, o1))"
        "decode_value fuel s o1 = Some (Inr (w, o2))"
        "decode_dict fuel s o2 (map_emplace k w entries) = Some (Inr (v, off'))"
        using 3 True by (auto split: option.splits sum.splits if_splits)
      obtain t where t: "reads s off o1 t" "bencoded t (BString k)" using Suc.IH(1) [OF w(1)] by blast
      obtain u where u: "reads s o1 o2 u" "bencoded u w" using Suc.IH(1) [OF w(2)] by blast
      obtain ts kvs where ts: "reads s o2 off' (concat ts @ ''e'')" "list_all2 entry_text ts kvs"
        "v = BDictionary (emplace_all kvs (map_emplace k w entries))"
        using Suc.IH(3) [OF w(3)] by blast
      have "reads s off off' (concat ((t @ u) # ts) @ ''e'')"
        using reads_trans [OF t(1) reads_trans [OF u(1) ts(1)]] by simp
      moreover have "list_all2 entry_text ((t @ u) # ts) ((k, w) # kvs)"
        using t u ts by (auto simp: entry_text_def)
      ultimately show ?thesis using ts(3) by (metis emplace_all_simps(2) fst_conv snd_conv)
    next
      case False
      then have off: "off < length s" "s ! off = CHR ''e''" "v = BDictionary entries" "off' = off + 1"
        using 3 by (auto split: if_splits)
      then have "reads s off off' (concat [] @ ''e'')" using reads_nth [OF off(1)] by simp
      then show ?thesis using off(3) by (metis emplace_all_simps(1) list_all2_Nil)
    qed
  }
qed simp_all


lemma bencode_Decode_sound:
  assumes "short_numbers s" "length s < 2 ^ 63" "bencode_Decode fuel s = Some (Inr v)"
  shows "bencoded s v"
proof -
  have "decode_value fuel s 0 = Some (Inr (v, length s))"
    using assms(3) by (auto simp: bencode_Decode_def rbind_eq_Inr split: if_splits)
  from decode_sound(1) [OF assms(1,2) this] show ?thesis
    by (auto simp: reads_def)
qed

section \<open>The wrap-around\<close>

definition looping_input :: string where
  "looping_input = ''l18446744073709551595:''"

lemma looping_string: "decode_value (Suc fuel) looping_input 1 = Some (Inr (BString [], 1))"
  by (simp add: looping_input_def decode_string_def sv_find_def sv_substr_def ParseNumber_size_def
      from_chars_unsigned_def is_digit_def digits_val_def digit_val_def Let_def)

lemma looping_list: "decode_list fuel looping_input 1 items = None"
proof (induction fuel arbitrary: items)
  case (Suc fuel)
  have "looping_input ! 1 \<noteq> CHR ''e''" "1 < length looping_input"
    by (simp_all add: looping_input_def)
  then show ?case
    using Suc looping_string by (cases fuel) (simp_all split: option.splits)
qed simp

lemma looping_forever: "bencode_Decode fuel looping_input = None"
  using looping_list by (cases fuel) (simp_all add: bencode_Decode_def looping_input_def)

lemma short_numbers_short: "length s \<le> 18 \<Longrightarrow> short_numbers s"
  unfolding short_numbers_def
  by (metis dual_order.trans length_drop length_takeWhile_le diff_le_self)

section \<open>Properties\<close>

text \<open>
  C3: decoding the encoding of a well-formed value returns that value, with no more fuel than the
  encoding has characters: the parser terminates on everything the printer produces.
\<close>

theorem bencode_roundtrip:
  assumes "value_wf v" "length (bencode_Encode v) < 2 ^ 64" "length (bencode_Encode v) \<le> fuel"
  shows "bencode_Decode fuel (bencode_Encode v) = Some (Inr v)"
  using assms by (rule bencode_Decode_Encode)

theorem bencode_roundtrip_witness:
  "bencode_Decode 30 (bencode_Encode (BDictionary [(''a'', BList [BInteger (-1), BString ''xy'']), (''b'', BString [])]))
     = Some (Inr (BDictionary [(''a'', BList [BInteger (-1), BString ''xy'']), (''b'', BString [])]))"
  by (rule bencode_roundtrip)
     (simp_all add: map_wf_def enc_string_def show_nat.simps show_int_def digit_char_def)

text \<open>
  C10: on an input of less than \<open>2 ^ 63\<close> bytes in which no run of digits is longer than 18, the
  decoder accepts exactly the texts of the bencode grammar \<open>bencoded\<close> and returns the value the
  text stands for: numbers in range and spelt with at least one digit, strings of exactly the
  announced length, lists in order, dictionaries with the first value of every key, and nothing
  after the value.
\<close>

theorem bencode_Decode_language:
  assumes "short_numbers s" "length s < 2 ^ 63" "2 * length s + 1 \<le> fuel"
  shows "bencode_Decode fuel s = Some (Inr v) \<longleftrightarrow> bencoded s v"
  using bencoded_Decode [of s v fuel] bencode_Decode_sound [OF assms(1,2), of fuel v] assms(2,3) by auto

theorem bencode_Decode_language_witness:
  "bencode_Decode 31 ''d1:bi-07e1:a0:e'' = Some (Inr (BDictionary [(''a'', BString []), (''b'', BInteger (- 7))]))"
proof (subst bencode_Decode_language)
  have "bencoded ''1:b'' (BString ''b'')" "bencoded ''1:a'' (BString ''a'')" "bencoded ''0:'' (BString [])"
    using bencoded_string [of "''1''" "''b''"] bencoded_string [of "''1''" "''a''"] bencoded_string [of "''0''" "[]"]
    by (simp_all add: is_digit_def digits_val_def digit_val_def)
  moreover have "bencoded ''i-07e'' (BInteger (- 7))"
    using bencoded_integer [OF number_text.minus [of "''07''"]]
    by (simp add: is_digit_def digits_val_def digit_val_def)
  ultimately have "entry_text ''1:bi-07e'' (''b'', BInteger (- 7))" "entry_text ''1:a0:'' (''a'', BString [])"
    unfolding entry_text_def
    by (rule_tac x = "''1:b''" in exI, rule_tac x = "''i-07e''" in exI, simp,
        rule_tac x = "''1:a''" in exI, rule_tac x = "''0:''" in exI, simp)
  then show "bencoded ''d1:bi-07e1:a0:e'' (BDictionary [(''a'', BString []), (''b'', BInteger (- 7))])"
    using bencoded_dict' [of "[''1:bi-07e'', ''1:a0:'']" "[(''b'', BInteger (- 7)), (''a'', BString [])]"
        "[(''a'', BString []), (''b'', BInteger (- 7))]"]
    by (simp add: map_wf_def fun_upd_twist)
qed (simp_all add: short_numbers_short)

text \<open>
  C9: on an input of less than \<open>2 ^ 63\<close> bytes in which no run of digits anywhere (in a length, in
  an integer or inside a string) is longer than 18, the decoder returns (a value or an exception) within fuel linear in the length of the input.
\<close>

theorem bencode_terminates:
  assumes "short_numbers s" "length s < 2 ^ 63" "2 * length s + 1 \<le> fuel"
  shows "\<exists>r. bencode_Decode fuel s = Some r"
  using assms by (rule bencode_Decode_terminates)

theorem bencode_terminates_witness:
  "\<exists>r. bencode_Decode 11 ''l3:xe'' = Some r"
  by (rule bencode_terminates) (simp_all add: short_numbers_short)

text \<open>
  the decoder never returns on the 22-byte input \<open>l18446744073709551595:\<close>. The string length
  wraps the offset back to the start of the string, so the list loop reads it for ever.
\<close>

theorem bencode_Decode_hangs:
  "bencode_Decode fuel ''l18446744073709551595:'' = None"
  using looping_forever by (simp add: looping_input_def)

end
