(* ===== verification/CryptoHash.thy ===== *)
theory CryptoHash
  imports Base16
begin

text \<open>
  The fixed-width hash values of \<open>src/Blocxxi/Crypto/hash.h\<close> and \<open>hash.cpp\<close>. A
  \<open>Hash<BITS>\<close> is the sequence of its bytes in memory; the array of 32-bit words the code computes
  with is the view \<open>storage\<close> of it, which depends on the byte order of the host (the argument
  \<open>le\<close>, true on a little-endian host). The lemmas relate the word-wise operations (comparison,
  exclusive or, leading zeros with the De Bruijn table, bit set) to the value of the hash as a
  big-endian number, for either byte order.
\<close>

section \<open>Byte order\<close>

definition HostToNetwork :: "bool \<Rightarrow> u32 \<Rightarrow> u32" where
  "HostToNetwork le number =
     (if le then push_bit 24 (number AND 0x000000FF) OR push_bit 8 (number AND 0x0000FF00)
        OR drop_bit 8 (number AND 0x00FF0000) OR drop_bit 24 (number AND 0xFF000000)
      else number)"

definition NetworkToHost :: "bool \<Rightarrow> u32 \<Rightarrow> u32" where
  "NetworkToHost le number = HostToNetwork le number"

text \<open>A 32-bit word in memory: the four bytes at increasing addresses.\<close>

definition load_word :: "bool \<Rightarrow> byte \<Rightarrow> byte \<Rightarrow> byte \<Rightarrow> byte \<Rightarrow> u32" where
  "load_word le a b c d =
     (if le then ucast a OR push_bit 8 (ucast b) OR push_bit 16 (ucast c) OR push_bit 24 (ucast d)
      else push_bit 24 (ucast a) OR push_bit 16 (ucast b) OR push_bit 8 (ucast c) OR ucast d)"

definition store_word :: "bool \<Rightarrow> u32 \<Rightarrow> byte list" where
  "store_word le w =
     (let bs = [ucast w, ucast (drop_bit 8 w), ucast (drop_bit 16 w), ucast (drop_bit 24 w)]
      in if le then bs else rev bs)"

fun storage :: "bool \<Rightarrow> byte list \<Rightarrow> u32 list" where
  "storage le (a # b # c # d # r) = load_word le a b c d # storage le r"
| "storage le _ = []"

section \<open>Construction and access\<close>

type_synonym hash = "byte list"

definition Hash_Size :: "nat \<Rightarrow> nat" where
  "Hash_Size bits = bits div 8"

definition Hash_BitSize :: "nat \<Rightarrow> nat" where
  "Hash_BitSize bits = bits"

definition Hash_zero :: "nat \<Rightarrow> hash" where
  "Hash_zero bits = replicate (Hash_Size bits) 0"

definition Hash_Max :: "nat \<Rightarrow> hash" where
  "Hash_Max bits = replicate (Hash_Size bits) 0xFF"

definition Hash_Min :: "nat \<Rightarrow> hash" where
  "Hash_Min bits = Hash_zero bits"

text \<open>\<open>Assign(buf, start)\<close>, with \<open>start\<close> as the index of the iterator.\<close>

definition Hash_Assign :: "hash \<Rightarrow> byte list \<Rightarrow> nat \<Rightarrow> hash res" where
  "Hash_Assign h buf start =
     (if length h - start < length buf then Inl (AbortExn ''source span exceeds destination range'')
      else Inr (take start h @ buf @ drop (start + length buf) h))"

definition Hash_from_span :: "nat \<Rightarrow> byte list \<Rightarrow> hash res" where
  "Hash_from_span bits buf =
     (if Hash_Size bits < length buf then Inl (AbortExn ''source span exceeds hash size'')
      else Hash_Assign (Hash_zero bits) buf
             (if length buf < Hash_Size bits then Hash_Size bits - length buf else 0))"

definition Hash_FromHex :: "nat \<Rightarrow> string \<Rightarrow> bool \<Rightarrow> hash res" where
  "Hash_FromHex bits src reverse = hex_Decode src (Hash_zero bits) reverse"

definition Hash_ToHex :: "hash \<Rightarrow> string" where
  "Hash_ToHex h = hex_Encode h False True"

definition Hash_At :: "hash \<Rightarrow> nat \<Rightarrow> byte res" where
  "Hash_At h pos = (if length h \<le> pos then Inl (OutOfRangeExn ''Hash<BITS> index out of range'') else Inr (h ! pos))"

definition Hash_index :: "hash \<Rightarrow> nat \<Rightarrow> byte res" where
  "Hash_index h pos = (if pos < length h then Inr (h ! pos) else Inl (AbortExn ''hash index out of range''))"

definition Hash_Front :: "hash \<Rightarrow> byte" where
  "Hash_Front h = h ! 0"

definition Hash_Back :: "hash \<Rightarrow> byte" where
  "Hash_Back h = h ! (length h - 1)"

definition Hash_Clear :: "hash \<Rightarrow> hash" where
  "Hash_Clear h = replicate (length h) 0"

definition Hash_IsAllZero :: "bool \<Rightarrow> hash \<Rightarrow> bool" where
  "Hash_IsAllZero le h = list_all (\<lambda>chunk. chunk = 0) (storage le h)"

section \<open>Comparison and exclusive or\<close>

definition Hash_eq :: "hash \<Rightarrow> hash \<Rightarrow> bool" where
  "Hash_eq lhs rhs = list_all2 (=) lhs rhs"

fun Hash_less_loop :: "bool \<Rightarrow> u32 list \<Rightarrow> u32 list \<Rightarrow> bool" where
  "Hash_less_loop le (l # ls) (r # rs) =
     (if NetworkToHost le l < NetworkToHost le r then True
      else if NetworkToHost le l > NetworkToHost le r then False
      else Hash_less_loop le ls rs)"
| "Hash_less_loop le _ _ = False"

definition Hash_less :: "bool \<Rightarrow> hash \<Rightarrow> hash \<Rightarrow> bool" where
  "Hash_less le lhs rhs = Hash_less_loop le (storage le lhs) (storage le rhs)"

definition Hash_ne :: "hash \<Rightarrow> hash \<Rightarrow> bool" where
  "Hash_ne lhs rhs = (\<not> Hash_eq lhs rhs)"

definition Hash_greater :: "bool \<Rightarrow> hash \<Rightarrow> hash \<Rightarrow> bool" where
  "Hash_greater le lhs rhs = Hash_less le rhs lhs"

definition Hash_greater_eq :: "bool \<Rightarrow> hash \<Rightarrow> hash \<Rightarrow> bool" where
  "Hash_greater_eq le lhs rhs = (\<not> Hash_less le lhs rhs)"

definition Hash_less_eq :: "bool \<Rightarrow> hash \<Rightarrow> hash \<Rightarrow> bool" where
  "Hash_less_eq le lhs rhs = (\<not> Hash_greater le lhs rhs)"

definition Hash_xor :: "bool \<Rightarrow> hash \<Rightarrow> hash \<Rightarrow> hash" where
  "Hash_xor le h other = concat (map (store_word le) (map2 (XOR) (storage le h) (storage le other)))"

section \<open>Leading zero bits\<close>

definition MultiplyDeBruijnBitPosition :: "nat list" where
  "MultiplyDeBruijnBitPosition =
     [0, 9, 1, 10, 13, 21, 2, 29, 11, 14, 16, 18, 22, 25, 3, 30, 8, 12, 20,
      28, 15, 17, 24, 7, 19, 27, 23, 6, 26, 5, 4, 31]"

definition smear :: "u32 \<Rightarrow> u32" where
  "smear v0 =
     (let v1 = v0 OR drop_bit 1 v0; v2 = v1 OR drop_bit 2 v1; v3 = v2 OR drop_bit 4 v2;
          v4 = v3 OR drop_bit 8 v3 in v4 OR drop_bit 16 v4)"

fun CountLeadingZeroBits_SW_loop :: "bool \<Rightarrow> nat \<Rightarrow> u32 list \<Rightarrow> nat" where
  "CountLeadingZeroBits_SW_loop le i [] = i * 32"
| "CountLeadingZeroBits_SW_loop le i (p # ps) =
     (if p = 0 then CountLeadingZeroBits_SW_loop le (i + 1) ps
      else i * 32 + 31
        - MultiplyDeBruijnBitPosition ! unat (drop_bit 27 (smear (NetworkToHost le p) * 0x07C4ACDD)))"

definition CountLeadingZeroBits_SW :: "bool \<Rightarrow> u32 list \<Rightarrow> nat" where
  "CountLeadingZeroBits_SW le buf = CountLeadingZeroBits_SW_loop le 0 buf"

text \<open>The variant with the compiler's intrinsic, which is the parameter \<open>clz\<close>.\<close>

fun CountLeadingZeroBits_HW_loop :: "(u32 \<Rightarrow> nat) \<Rightarrow> bool \<Rightarrow> nat \<Rightarrow> u32 list \<Rightarrow> nat" where
  "CountLeadingZeroBits_HW_loop clz le i [] = i * 32"
| "CountLeadingZeroBits_HW_loop clz le i (p # ps) =
     (if p = 0 then CountLeadingZeroBits_HW_loop clz le (i + 1) ps
      else i * 32 + clz (NetworkToHost le p))"

definition CountLeadingZeroBits_HW :: "(u32 \<Rightarrow> nat) \<Rightarrow> bool \<Rightarrow> u32 list \<Rightarrow> nat" where
  "CountLeadingZeroBits_HW clz le buf = CountLeadingZeroBits_HW_loop clz le 0 buf"

text \<open>
  Which variant is called is decided when the library is built: \<open>Some clz\<close> when the compiler has
  the intrinsic, \<open>None\<close> otherwise.
\<close>

definition CountLeadingZeroBits :: "(u32 \<Rightarrow> nat) option \<Rightarrow> bool \<Rightarrow> u32 list \<Rightarrow> nat" where
  "CountLeadingZeroBits hw le buf =
     (case hw of Some clz \<Rightarrow> CountLeadingZeroBits_HW clz le buf | None \<Rightarrow> CountLeadingZeroBits_SW le buf)"

definition Hash_LeadingZeroBits :: "(u32 \<Rightarrow> nat) option \<Rightarrow> bool \<Rightarrow> hash \<Rightarrow> nat" where
  "Hash_LeadingZeroBits hw le h = CountLeadingZeroBits hw le (storage le h)"

text \<open>The documented behaviour of the intrinsic on non-zero words.\<close>

definition clz_ok :: "(u32 \<Rightarrow> nat) option \<Rightarrow> bool" where
  "clz_ok hw \<longleftrightarrow> (\<forall>clz v. hw = Some clz \<longrightarrow> v \<noteq> 0 \<longrightarrow>
     clz v \<le> 31 \<and> 2 ^ (31 - clz v) \<le> unat v \<and> unat v < 2 ^ (32 - clz v))"

section \<open>Bit strings\<close>

text \<open>\<open>std::bitset<BITS>\<close> as the natural number with these bits.\<close>

fun ToBitSet_loop :: "bool \<Rightarrow> nat \<Rightarrow> u32 list \<Rightarrow> nat \<Rightarrow> nat" where
  "ToBitSet_loop le shift_left [] bits = bits"
| "ToBitSet_loop le shift_left (p # ps) bits =
     ToBitSet_loop le (shift_left - 32) ps
       (bits OR push_bit (shift_left - 32) (unat (HostToNetwork le p)))"

definition Hash_ToBitSet :: "bool \<Rightarrow> nat \<Rightarrow> hash \<Rightarrow> nat" where
  "Hash_ToBitSet le bits h = take_bit bits (ToBitSet_loop le bits (storage le h) 0)"

definition bitset_to_string :: "nat \<Rightarrow> nat \<Rightarrow> string" where
  "bitset_to_string n v = map (\<lambda>i. if bit v i then CHR ''1'' else CHR ''0'') (rev [0..<n])"

definition Hash_ToBitStringShort :: "bool \<Rightarrow> nat \<Rightarrow> hash \<Rightarrow> nat \<Rightarrow> string" where
  "Hash_ToBitStringShort le bits h len =
     (let truncate = (len < bits);
          len' = (if truncate then (2 ^ 64 + len - 3) mod 2 ^ 64 else len);
          str = take len' (bitset_to_string bits (Hash_ToBitSet le bits h)) in
      if truncate then str @ ''...'' else str)"

section \<open>The big-endian value\<close>

definition be_value :: "byte list \<Rightarrow> nat" where
  "be_value bs = foldl (\<lambda>a b. a * 256 + unat b) 0 bs"

lemma byte_masks:
  "(0x000000FF :: u32) = mask 8" "(0x0000FF00 :: u32) = push_bit 8 (mask 8)"
  "(0x00FF0000 :: u32) = push_bit 16 (mask 8)" "(0xFF000000 :: u32) = push_bit 24 (mask 8)"
  by (simp_all add: mask_eq_exp_minus_1 push_bit_eq_mult)

lemma bit_load_word:
  "bit (load_word le a b c d) n \<longleftrightarrow>
     (if le then (if n < 8 then bit a n else if n < 16 then bit b (n - 8)
        else if n < 24 then bit c (n - 16) else bit d (n - 24))
      else (if n < 8 then bit d n else if n < 16 then bit c (n - 8)
        else if n < 24 then bit b (n - 16) else bit a (n - 24)))"
proof -
  have "n < 8 \<or> 8 \<le> n \<and> n < 16 \<or> 16 \<le> n \<and> n < 24 \<or> 24 \<le> n" by arith
  then show ?thesis
    by (elim disjE conjE; cases le)
       (auto simp: load_word_def bit_simps bit_byte_out dest: bit_byte_less)
qed

lemma bit_HostToNetwork:
  "bit (HostToNetwork le w) n \<longleftrightarrow>
     (if le then (if n < 8 then bit w (n + 24) else if n < 16 then bit w (n + 8)
        else if n < 24 then bit w (n - 8) else if n < 32 then bit w (n - 24) else False)
      else bit w n)"
  unfolding HostToNetwork_def byte_masks
  by (auto simp: bit_simps add.commute)

lemma be_word_eq: "NetworkToHost le (load_word le a b c d) = load_word False a b c d"
  by (rule bit_word_eqI) (auto simp: NetworkToHost_def bit_HostToNetwork bit_load_word)

lemma HostToNetwork_involutive: "HostToNetwork le (HostToNetwork le w) = w"
  by (rule bit_word_eqI) (auto simp: bit_HostToNetwork)


lemma byte_step: "(v :: nat) < m \<Longrightarrow> x < 256 \<Longrightarrow> v * 256 + x < m * 256"
  using mult_le_mono1 [of "Suc v" m 256] by simp

lemma unat_load_word:
  "unat (load_word False a b c d) = ((unat a * 256 + unat b) * 256 + unat c) * 256 + unat d"
proof -
  let ?N = "((unat a * 256 + unat b) * 256 + unat c) * 256 + unat d"
  have "load_word False a b c d = push_bit 24 (ucast a) + push_bit 16 (ucast b) + push_bit 8 (ucast c) + ucast d"
    unfolding load_word_def
    by (simp, subst disjoint_OR_plus, (auto simp: bit_simps dest!: bit_byte_less)[1])+ simp
  also have "\<dots> = word_of_nat ?N"
    by (simp add: push_bit_eq_mult unsigned_ucast_eq)
  finally have w: "load_word False a b c d = word_of_nat ?N" .
  have "?N < 256 * 256 * 256 * 256"
    by (intro byte_step unat_byte_less)
  then have "unat (word_of_nat ?N :: u32) = ?N"
    by (simp only: unsigned_of_nat) (simp add: take_bit_nat_eq_self)
  then show ?thesis by (simp only: w)
qed

lemma be_value_snoc: "be_value (bs @ [b]) = be_value bs * 256 + unat b"
  by (simp add: be_value_def)

lemma be_value_append: "be_value (xs @ ys) = be_value xs * 256 ^ length ys + be_value ys"
  by (induction ys rule: rev_induct) (simp_all add: be_value_snoc append_assoc [symmetric] algebra_simps del: append_assoc, simp add: be_value_def)

lemma be_value_Nil [simp]: "be_value [] = 0"
  by (simp add: be_value_def)

lemma be_value_Cons: "be_value (x # xs) = unat x * 256 ^ length xs + be_value xs"
  using be_value_append [of "[x]" xs] by (simp add: be_value_def)

lemma be_value_less: "be_value bs < 256 ^ length bs"
proof (induction bs rule: rev_induct)
  case (snoc b bs)
  then show ?case
    unfolding be_value_snoc using byte_step [OF snoc unat_byte_less] by (simp add: mult.commute)
qed simp

text \<open>Hashes have a multiple of four bytes; induction in steps of one word.\<close>

lemma word_induct [consumes 1, case_names Nil Word]:
  assumes "4 dvd length h" "P []"
    "\<And>a b c d r. 4 dvd length r \<Longrightarrow> P r \<Longrightarrow> P (a # b # c # d # r)"
  shows "P h"
  using assms(1)
proof (induction h rule: length_induct)
  case (1 h)
  show ?case
  proof (cases "h = []")
    case False
    with 1(2) have "4 \<le> length h" by (simp add: dvd_imp_le)
    then obtain a b c d r where h: "h = a # b # c # d # r"
      by (metis Suc_le_length_iff numeral_eq_Suc pred_numeral_simps(2,3) semiring_norm(26,27))
    then have "4 dvd length r" using 1(2) by (simp add: dvd_def) presburger
    with 1(1) h assms(3) show ?thesis by simp
  qed (simp add: assms(2))
qed


section \<open>Comparison is numeric\<close>

lemma be_value_word:
  "be_value (a # b # c # d # r) = unat (load_word False a b c d) * 256 ^ length r + be_value r"
  by (simp add: be_value_Cons unat_load_word algebra_simps)

lemma lex_step:
  assumes "(r :: nat) < m" "r' < m"
  shows "w * m + r < w' * m + r' \<longleftrightarrow> w < w' \<or> w = w' \<and> r < r'"
proof (cases "w < w'")
  case True
  then have "(w + 1) * m \<le> w' * m" by (intro mult_le_mono1) simp
  with assms True show ?thesis by auto
next
  case False
  show ?thesis
  proof (cases "w = w'")
    case False
    with \<open>\<not> w < w'\<close> have "(w' + 1) * m \<le> w * m" by (intro mult_le_mono1) simp
    with assms False \<open>\<not> w < w'\<close> show ?thesis by auto
  qed simp
qed

lemma Hash_less_be_value:
  assumes "4 dvd length h" "length g = length h"
  shows "Hash_less le h g \<longleftrightarrow> be_value h < be_value g"
  using assms
proof (induction h arbitrary: g rule: word_induct)
  case (Word a b c d r)
  then obtain a' b' c' d' r' where g: "g = a' # b' # c' # d' # r'" and l: "length r' = length r"
    by (auto simp: length_Suc_conv)
  have IH: "Hash_less_loop le (storage le r) (storage le r') \<longleftrightarrow> be_value r < be_value r'"
    using Word.IH [OF l] by (simp add: Hash_less_def)
  have "be_value r < 256 ^ length r" "be_value r' < 256 ^ length r"
    using be_value_less [of r] be_value_less [of r'] l by simp_all
  then show ?case
    unfolding g be_value_word l
    by (subst lex_step) (auto simp: Hash_less_def be_word_eq IH word_less_nat_alt)
qed (simp add: Hash_less_def)

section \<open>Exclusive or is byte-wise\<close>

lemma store_load_xor:
  "store_word le (load_word le a b c d XOR load_word le a' b' c' d') = [a XOR a', b XOR b', c XOR c', d XOR d']"
  by (cases le)
     (auto simp: store_word_def Let_def intro!: bit_word_eqI simp: bit_simps bit_load_word dest: bit_byte_less)

lemma Hash_xor_bytes:
  assumes "4 dvd length h" "length g = length h"
  shows "Hash_xor le h g = map2 (XOR) h g"
  using assms
proof (induction h arbitrary: g rule: word_induct)
  case (Word a b c d r)
  then obtain a' b' c' d' r' where g: "g = a' # b' # c' # d' # r'" and l: "length r' = length r"
    by (auto simp: length_Suc_conv)
  show ?case
    using Word.IH [OF l] by (simp add: Hash_xor_def g store_load_xor)
qed (simp add: Hash_xor_def)

section \<open>Leading zeros\<close>

lemma smear_step:
  assumes "\<And>j. bit (w :: u32) j \<longleftrightarrow> (\<exists>i. j \<le> i \<and> i < j + n \<and> bit v i)"
  shows "bit (w OR drop_bit n w) j \<longleftrightarrow> (\<exists>i. j \<le> i \<and> i < j + 2 * n \<and> bit v i)"
  unfolding bit_or_iff bit_drop_bit_eq comp_apply assms
proof
  assume "(\<exists>i. j \<le> i \<and> i < j + n \<and> bit v i) \<or> (\<exists>i. n + j \<le> i \<and> i < n + j + n \<and> bit v i)"
  then show "\<exists>i. j \<le> i \<and> i < j + 2 * n \<and> bit v i"
    by (elim disjE exE) (rule_tac x = i in exI, simp)+
next
  assume "\<exists>i. j \<le> i \<and> i < j + 2 * n \<and> bit v i"
  then obtain i where "j \<le> i" "i < j + 2 * n" "bit v i" by blast
  then show "(\<exists>i. j \<le> i \<and> i < j + n \<and> bit v i) \<or> (\<exists>i. n + j \<le> i \<and> i < n + j + n \<and> bit v i)"
    by (cases "i < j + n") auto
qed

lemma bit_smear: "bit (smear v) j \<longleftrightarrow> (\<exists>i \<ge> j. bit v i)"
proof -
  have "bit v j \<longleftrightarrow> (\<exists>i. j \<le> i \<and> i < j + 1 \<and> bit v i)" for j
    by (auto simp: less_Suc_eq)
  note s1 = smear_step [OF this]
  note s2 = smear_step [OF s1] note s3 = smear_step [OF s2] note s4 = smear_step [OF s3]
  note s5 = smear_step [OF s4]
  have "bit v i \<Longrightarrow> i < 32" for i
    using bit_imp_le_length [of v i] by simp
  moreover have "bit (smear v) j \<longleftrightarrow> (\<exists>i. j \<le> i \<and> i < j + 32 \<and> bit v i)"
    using s5 [of j] by (simp add: smear_def Let_def)
  ultimately show ?thesis
    by (auto intro: trans_less_add2)
qed


lemma u32_log2:
  assumes "v \<noteq> (0 :: u32)"
  obtains k where "k < 32" "2 ^ k \<le> unat v" "unat v < 2 ^ (k + 1)"
proof -
  have "1 \<le> unat v"
    using assms by (simp add: Suc_le_eq unat_gt_0)
  then obtain k where k: "2 ^ k \<le> unat v" "unat v < 2 ^ (k + 1)"
    using ex_power_ivl1 [of 2 "unat v"] by auto
  have "unat v < 2 ^ 32"
    using unsigned_less [of v] by simp
  with k(1) have "(2 :: nat) ^ k < 2 ^ 32" by (rule le_less_trans)
  then have "k < 32" by (simp only: power_strict_increasing_iff)
  with k that show thesis by blast
qed

lemma smear_mask:
  assumes "2 ^ k \<le> unat (v :: u32)" "unat v < 2 ^ (k + 1)"
  shows "smear v = mask (k + 1)"
proof -
  have b: "bit v i \<longleftrightarrow> odd (unat v div 2 ^ i)" for i
    using bit_iff_odd [of "unat v" i] by (simp add: bit_unsigned_iff)
  have k: "bit v k"
    using div_nat_eqI [of "2 ^ k" 1 "unat v"] assms by (simp add: b)
  have above: "\<not> bit v i" if "k + 1 \<le> i" for i
  proof -
    have "(2 :: nat) ^ (k + 1) \<le> 2 ^ i" using that by (intro power_increasing) auto
    with assms(2) have "unat v div 2 ^ i = 0" by (simp only: div_eq_0_iff) linarith
    then show ?thesis by (simp add: b)
  qed
  show ?thesis
  proof (rule bit_word_eqI)
    fix j assume "j < LENGTH(32)"
    show "bit (smear v) j = bit (mask (k + 1) :: u32) j"
    proof (cases "j \<le> k")
      case True
      with k show ?thesis
        using \<open>j < LENGTH(32)\<close> by (auto simp: bit_smear bit_mask_iff)
    next
      case False
      then have "\<not> bit v i" if "j \<le> i" for i
        using that by (intro above) simp
      with False show ?thesis
        by (simp add: bit_smear bit_mask_iff)
    qed
  qed
qed

lemma DeBruijn_table:
  "k < 32 \<Longrightarrow> MultiplyDeBruijnBitPosition ! unat (drop_bit 27 (mask (k + 1) * 0x07C4ACDD :: u32)) = k"
proof -
  have "\<forall>k \<in> set [0..<32]. MultiplyDeBruijnBitPosition ! unat (drop_bit 27 (mask (k + 1) * 0x07C4ACDD :: u32)) = k"
    by (simp add: upt_rec mask_eq_exp_minus_1 drop_bit_eq_div MultiplyDeBruijnBitPosition_def)
  then show "k < 32 \<Longrightarrow> ?thesis" by simp
qed


lemma NetworkToHost_zero: "NetworkToHost le p = 0 \<longleftrightarrow> p = 0"
proof -
  have "HostToNetwork le 0 = 0" by (simp add: HostToNetwork_def)
  then show ?thesis
    by (metis HostToNetwork_involutive NetworkToHost_def)
qed

lemma pow256: "(256 :: nat) ^ n = 2 ^ (8 * n)"
  by (simp add: power_mult)

lemma leading_word:
  assumes "2 ^ k \<le> v" "v < 2 ^ (k + 1)" "(r :: nat) < 2 ^ m"
  shows "2 ^ (m + k) \<le> v * 2 ^ m + r" "v * 2 ^ m + r < 2 ^ (m + k + 1)"
proof -
  have "2 ^ k * 2 ^ m \<le> v * 2 ^ m" using assms(1) by (rule mult_le_mono1)
  then have "2 ^ (m + k) \<le> v * 2 ^ m" by (simp only: power_add mult.commute)
  then show "2 ^ (m + k) \<le> v * 2 ^ m + r" by (rule trans_le_add1)
  have "(v + 1) * 2 ^ m \<le> 2 ^ (k + 1) * 2 ^ m" using assms(2) by (intro mult_le_mono1) simp
  then show "v * 2 ^ m + r < 2 ^ (m + k + 1)"
    using assms(3) by (simp add: power_add algebra_simps)
qed

lemma SW_loop_spec:
  assumes "4 dvd length h"
  shows "\<exists>z. CountLeadingZeroBits_SW_loop le i (storage le h) = i * 32 + z
    \<and> (if be_value h = 0 then z = 8 * length h
        else z < 8 * length h \<and> 2 ^ (8 * length h - 1 - z) \<le> be_value h \<and> be_value h < 2 ^ (8 * length h - z))"
  using assms
proof (induction h arbitrary: i rule: word_induct)
  case (Word a b c d r)
  let ?v = "load_word False a b c d" and ?m = "8 * length r"
  let ?h = "a # b # c # d # r"
  have be: "be_value ?h = unat ?v * 2 ^ ?m + be_value r"
    by (simp add: be_value_word pow256)
  have len: "8 * length ?h = ?m + 32" by simp
  have zero: "load_word le a b c d = 0 \<longleftrightarrow> ?v = 0"
    using be_word_eq NetworkToHost_zero by metis
  show ?case
  proof (cases "?v = 0")
    case True
    then have be0: "be_value ?h = be_value r" using be by simp
    obtain z where "CountLeadingZeroBits_SW_loop le (i + 1) (storage le r) = (i + 1) * 32 + z"
      and "if be_value r = 0 then z = ?m
        else z < ?m \<and> 2 ^ (?m - 1 - z) \<le> be_value r \<and> be_value r < 2 ^ (?m - z)"
      using Word.IH [of "i + 1"] by blast
    then show ?thesis
      unfolding be0 len using True zero by (intro exI [of _ "z + 32"]) (auto split: if_splits)
  next
    case False
    then obtain k where k: "k < 32" "2 ^ k \<le> unat ?v" "unat ?v < 2 ^ (k + 1)"
      by (rule u32_log2)
    have "be_value r < 2 ^ ?m" using be_value_less [of r] by (simp add: pow256)
    note bounds = leading_word [OF k(2,3) this, folded be]
    have "CountLeadingZeroBits_SW_loop le i (storage le ?h) = i * 32 + (31 - k)"
      using False zero k DeBruijn_table [OF k(1)] by (simp add: be_word_eq smear_mask [OF k(2,3)])
    moreover have "?m + 32 - 1 - (31 - k) = ?m + k" "?m + 32 - (31 - k) = ?m + k + 1" "31 - k < ?m + 32"
      using k(1) by simp_all
    moreover have "be_value ?h \<noteq> 0"
      using bounds(1) by (metis le_zero_eq power_not_zero zero_neq_numeral)
    ultimately show ?thesis
      unfolding len using bounds by (intro exI [of _ "31 - k"]) simp
  qed
qed simp

lemma SW_loop_clz:
  assumes "\<And>v. v \<noteq> 0 \<Longrightarrow> clz v \<le> 31 \<and> 2 ^ (31 - clz v) \<le> unat v \<and> unat v < 2 ^ (32 - clz v)"
  shows "CountLeadingZeroBits_HW_loop clz le i ps = CountLeadingZeroBits_SW_loop le i ps"
proof (induction ps arbitrary: i)
  case (Cons p ps)
  show ?case
  proof (cases "p = 0")
    case False
    let ?v = "NetworkToHost le p"
    have c: "clz ?v \<le> 31" "2 ^ (31 - clz ?v) \<le> unat ?v" "unat ?v < 2 ^ (31 - clz ?v + 1)"
      using assms [of ?v] False by (auto simp: NetworkToHost_zero simp flip: power_Suc Suc_diff_le)
    then show ?thesis
      using False DeBruijn_table [of "31 - clz ?v"] by (simp add: smear_mask [OF c(2,3)])
  qed (simp add: Cons)
qed simp

lemma CountLeadingZeroBits_eq_SW:
  "clz_ok hw \<Longrightarrow> CountLeadingZeroBits hw le buf = CountLeadingZeroBits_SW_loop le 0 buf"
  unfolding clz_ok_def
  by (cases hw) (simp_all add: CountLeadingZeroBits_def CountLeadingZeroBits_HW_def
      CountLeadingZeroBits_SW_def SW_loop_clz)

lemma LeadingZeroBits_spec:
  assumes "4 dvd length h" "clz_ok hw"
  shows "be_value h = 0 \<Longrightarrow> Hash_LeadingZeroBits hw le h = 8 * length h"
    and "be_value h \<noteq> 0 \<Longrightarrow> Hash_LeadingZeroBits hw le h < 8 * length h
      \<and> 2 ^ (8 * length h - 1 - Hash_LeadingZeroBits hw le h) \<le> be_value h
      \<and> be_value h < 2 ^ (8 * length h - Hash_LeadingZeroBits hw le h)"
  using SW_loop_spec [OF assms(1), of le 0]
  by (auto simp: Hash_LeadingZeroBits_def CountLeadingZeroBits_eq_SW [OF assms(2)])

section \<open>Bit sets\<close>

lemma OR_multiple: "x < 2 ^ n \<Longrightarrow> (y * 2 ^ n) OR x = y * 2 ^ n + (x :: nat)"
proof -
  assume "x < 2 ^ n"
  then have "take_bit n x = x" by (simp add: take_bit_nat_eq_self)
  then have "\<not> bit (push_bit n y) i \<or> \<not> bit x i" for i
    by (metis bit_push_bit_iff bit_take_bit_iff not_le)
  then have "push_bit n y + x = push_bit n y OR x"
    by (rule disjunctive_add)
  then show ?thesis by (simp add: push_bit_eq_mult)
qed

lemma ToBitSet_loop_value:
  assumes "4 dvd length h"
  shows "ToBitSet_loop le (8 * length h) (storage le h) (y * 2 ^ (8 * length h)) = y * 2 ^ (8 * length h) + be_value h"
  using assms
proof (induction h arbitrary: y rule: word_induct)
  case (Word a b c d r)
  let ?v = "unat (load_word False a b c d)" and ?m = "8 * length r"
  have "?v < 2 ^ 32"
    using unsigned_less [of "load_word False a b c d"] by simp
  then have "(y * 2 ^ 32) OR ?v = y * 2 ^ 32 + ?v" by (rule OR_multiple)
  then have "push_bit ?m (y * 2 ^ 32) OR push_bit ?m ?v = push_bit ?m (y * 2 ^ 32 + ?v)"
    by (simp only: push_bit_or [symmetric])
  then have acc: "(y * 2 ^ (?m + 32)) OR push_bit ?m ?v = (y * 2 ^ 32 + ?v) * 2 ^ ?m"
    by (simp add: push_bit_eq_mult power_add algebra_simps)
  have len: "8 * length (a # b # c # d # r) = ?m + 32" by simp
  have "ToBitSet_loop le (?m + 32) (storage le (a # b # c # d # r)) (y * 2 ^ (?m + 32))
      = ToBitSet_loop le ?m (storage le r) ((y * 2 ^ (?m + 32)) OR push_bit ?m ?v)"
    using be_word_eq [of le a b c d] by (simp add: NetworkToHost_def)
  also have "\<dots> = (y * 2 ^ 32 + ?v) * 2 ^ ?m + be_value r"
    unfolding acc by (rule Word.IH)
  finally show ?case
    unfolding len by (simp add: be_value_word pow256 power_add algebra_simps)
qed simp

lemma Hash_ToBitSet_value:
  assumes "4 dvd length h" "bits = 8 * length h"
  shows "Hash_ToBitSet le bits h = be_value h"
  using ToBitSet_loop_value [OF assms(1), of le 0] be_value_less [of h] assms(2)
  by (simp add: Hash_ToBitSet_def pow256 take_bit_nat_eq_self)

section \<open>Construction\<close>

lemma Hash_from_span_value:
  assumes "length buf \<le> Hash_Size bits"
  shows "Hash_from_span bits buf = Inr (replicate (Hash_Size bits - length buf) 0 @ buf)"
  using assms by (auto simp: Hash_from_span_def Hash_Assign_def Hash_zero_def not_less)

lemma Hash_FromHex_ToHex:
  assumes "length h = Hash_Size bits"
  shows "Hash_FromHex bits (Hash_ToHex h) False = Inr h"
  using hex_Decode_Encode [of h "Hash_zero bits" False True] assms
  by (auto simp: Hash_FromHex_def Hash_ToHex_def Hash_zero_def split: if_splits)

lemma length_Hash_ToHex [simp]: "length (Hash_ToHex h) = 2 * length h"
  by (simp add: Hash_ToHex_def)

lemma Hash_ToHex_inj [simp]: "Hash_ToHex h = Hash_ToHex g \<longleftrightarrow> h = g"
proof
  assume e: "Hash_ToHex h = Hash_ToHex g"
  then have "length h = length g"
    by (metis length_Hash_ToHex mult_cancel1 zero_neq_numeral)
  with e show "h = g"
    using Hash_FromHex_ToHex [of h "8 * length h"] Hash_FromHex_ToHex [of g "8 * length h"]
    by (simp add: Hash_Size_def)
qed simp

lemma lex_eq:
  assumes "(r :: nat) < m" "r' < m"
  shows "w * m + r = w' * m + r' \<longleftrightarrow> w = w' \<and> r = r'"
  using lex_step [OF assms, of w w'] lex_step [OF assms(2,1), of w' w] by (metis nat_neq_iff)

lemma be_value_inj: "length h = length g \<Longrightarrow> be_value h = be_value g \<longleftrightarrow> h = g"
proof (induction h g rule: list_induct2)
  case (Cons x xs y ys)
  have b: "be_value xs < 256 ^ length xs" "be_value ys < 256 ^ length xs"
    using be_value_less [of xs] be_value_less [of ys] Cons(1) by simp_all
  have "be_value (x # xs) = be_value (y # ys) \<longleftrightarrow> unat x = unat y \<and> be_value xs = be_value ys"
    unfolding be_value_Cons Cons(1) [symmetric] by (rule lex_eq [OF b])
  then show ?case
    using Cons(2) by (simp add: word_unat_eq_iff)
qed simp

lemma four_dvd_four: "4 dvd Suc (Suc (Suc (Suc 0)))"
  by (simp add: numeral_eq_Suc)

section \<open>Properties\<close>

text \<open>
  on either byte order, \<open>operator<\<close> of two hashes of the same size is the order of their values
  as big-endian numbers, and \<open>operator==\<close> is equality of these values; so the comparison
  operators are a total order.
\<close>

theorem hash_order_numeric:
  assumes "4 dvd length h" "length g = length h"
  shows "Hash_less le h g = (be_value h < be_value g)
    \<and> Hash_eq h g = (be_value h = be_value g)
    \<and> Hash_less_eq le h g = (be_value h \<le> be_value g)"
proof (intro conjI)
  show "Hash_less le h g = (be_value h < be_value g)"
    using assms by (rule Hash_less_be_value)
  show "Hash_eq h g = (be_value h = be_value g)"
    using be_value_inj [of h g] assms(2) by (simp add: Hash_eq_def list.rel_eq)
  show "Hash_less_eq le h g = (be_value h \<le> be_value g)"
  proof -
    have "Hash_less le g h = (be_value g < be_value h)"
      by (rule Hash_less_be_value) (simp_all add: assms)
    then show ?thesis by (simp only: Hash_less_eq_def Hash_greater_def not_less)
  qed
qed

theorem hash_order_numeric_witness:
  "Hash_less True [0, 0, 1, 0] [0, 0, 0, 255] = (be_value [0, 0, 1, 0] < be_value [0, 0, 0, 255])"
  using hash_order_numeric [of "[0, 0, 1, 0]" "[0, 0, 0, 255]" True]
  by (simp add: four_dvd_four)

text \<open>A function with the documented behaviour of the intrinsic.\<close>

definition clz_ref :: "u32 \<Rightarrow> nat" where
  "clz_ref v = CountLeadingZeroBits_SW False [v]"

lemma clz_ref_spec:
  assumes "v \<noteq> 0"
  shows "clz_ref v \<le> 31 \<and> 2 ^ (31 - clz_ref v) \<le> unat v \<and> unat v < 2 ^ (32 - clz_ref v)"
proof -
  obtain k where k: "k < 32" "2 ^ k \<le> unat v" "unat v < 2 ^ (k + 1)"
    using assms by (rule u32_log2)
  then have "clz_ref v = 31 - k"
    using assms DeBruijn_table [OF k(1)] smear_mask [OF k(2,3)]
    by (simp add: clz_ref_def CountLeadingZeroBits_SW_def NetworkToHost_def HostToNetwork_def)
  moreover have "31 - (31 - k) = k" "32 - (31 - k) = k + 1"
    using k(1) by simp_all
  ultimately show ?thesis using k by simp
qed

lemma clz_ok_ref: "clz_ok (Some clz_ref)"
  by (auto simp: clz_ok_def dest: clz_ref_spec)

text \<open>
  \<open>LeadingZeroBits\<close> counts the leading zero bits of the hash, on either byte order and both in
  the portable build (De Bruijn multiplication) and in the build on the compiler's intrinsic, given
  the documented behaviour of the intrinsic: for a non-zero hash of \<open>n\<close> bits with result \<open>z\<close>, the
  value lies between \<open>2 ^ (n - 1 - z)\<close> and \<open>2 ^ (n - z)\<close>; for the zero hash the result is \<open>n\<close>.
\<close>

theorem hash_leading_zeros:
  assumes "4 dvd length h" "clz_ok hw" "n = 8 * length h" "z = Hash_LeadingZeroBits hw le h"
  shows "if be_value h = 0 then z = n
         else z < n \<and> 2 ^ (n - 1 - z) \<le> be_value h \<and> be_value h < 2 ^ (n - z)"
  using LeadingZeroBits_spec [OF assms(1,2), of le] assms(3,4) by simp

theorem hash_leading_zeros_witness:
  "if be_value [0, 0, 1, 0] = 0 then (23 :: nat) = 32
   else 23 < (32 :: nat) \<and> 2 ^ (32 - 1 - 23) \<le> be_value [0, 0, 1, 0] \<and> be_value [0, 0, 1, 0] < 2 ^ (32 - 23 :: nat)"
proof (rule hash_leading_zeros [where le = True and hw = "Some clz_ref"])
  show "(23 :: nat) = Hash_LeadingZeroBits (Some clz_ref) True [0, 0, 1, 0]"
    unfolding Hash_LeadingZeroBits_def CountLeadingZeroBits_eq_SW [OF clz_ok_ref]
    by (simp add: load_word_def NetworkToHost_def
        HostToNetwork_def smear_def MultiplyDeBruijnBitPosition_def push_bit_eq_mult drop_bit_eq_div)
qed (simp_all add: four_dvd_four clz_ok_ref)

text \<open>
  reading back the hexadecimal form of a hash gives the hash; so \<open>ToHex\<close>, which is the key of
  the block stores and of the event DHT, is injective.
\<close>

theorem hash_hex_roundtrip:
  assumes "length h = Hash_Size bits"
  shows "Hash_FromHex bits (Hash_ToHex h) False = Inr h"
  using assms by (rule Hash_FromHex_ToHex)

theorem hash_hex_roundtrip_witness:
  "Hash_FromHex 32 (Hash_ToHex [1, 2, 0xAB, 0]) False = Inr [1, 2, 0xAB, 0]"
  by (rule hash_hex_roundtrip) (simp add: Hash_Size_def)

end
