(* ===== verification/Primitives.thy ===== *)
theory Primitives
  imports CryptoHash
begin

text \<open>
  The core vocabulary of the platform: \<open>src/Blocxxi/Core/result.h\<close>, \<open>result.cpp\<close>,
  \<open>primitives.h\<close> and \<open>primitives.cpp\<close>: status values, transactions, blocks, snapshots,
  events, and the identifiers derived from text by a four-lane FNV hash. The wall clock
  (\<open>NowUnixSeconds\<close>) is an argument \<open>now\<close> of the operations that read it.
\<close>

type_synonym i64 = "64 word"

section \<open>Status\<close>

datatype StatusCode =
    Ok | InvalidArgument | Duplicate | NotFound | StorageError | Rejected | Unsupported | IOError

record Status =
  status_code :: StatusCode
  status_message :: string

definition status_ok :: "Status \<Rightarrow> bool" where
  "status_ok s = (status_code s = Ok)"

definition Success :: "string \<Rightarrow> Status" where
  "Success message = \<lparr>status_code = Ok, status_message = message\<rparr>"

definition Failure :: "StatusCode \<Rightarrow> string \<Rightarrow> Status" where
  "Failure code message = \<lparr>status_code = code, status_message = message\<rparr>"

fun StatusCode_ToString :: "StatusCode \<Rightarrow> string" where
  "StatusCode_ToString Ok = ''ok''"
| "StatusCode_ToString InvalidArgument = ''invalid_argument''"
| "StatusCode_ToString Duplicate = ''duplicate''"
| "StatusCode_ToString NotFound = ''not_found''"
| "StatusCode_ToString StorageError = ''storage_error''"
| "StatusCode_ToString Rejected = ''rejected''"
| "StatusCode_ToString Unsupported = ''unsupported''"
| "StatusCode_ToString IOError = ''io_error''"

lemma status_ok_simps [simp]:
  "status_ok (Success m)"
  "status_ok (Failure c m) \<longleftrightarrow> c = Ok"
  by (simp_all add: status_ok_def Success_def Failure_def)

section \<open>Data\<close>

record ChainConfig =
  chain_id :: string
  display_name :: string
  data_directory :: string
  create_genesis :: bool
  genesis_payload :: string

record Transaction =
  tx_id :: hash
  tx_type :: string
  tx_payload :: "byte list"
  tx_metadata :: string

record BlockHeader =
  header_id :: hash
  previous_id :: hash
  header_height :: u64
  timestamp_utc :: i64
  header_source :: string

record Block =
  header :: BlockHeader
  transactions :: "Transaction list"

record ChainSnapshot =
  snap_height :: u64
  head_id :: hash
  block_count :: u64
  accepted_transactions :: u64
  bootstrapped :: bool

datatype EventType =
    NodeStarting | NodeStarted | NodeStopped | TransactionAccepted | BlockCommitted
  | DiscoveryAttached | AdapterAttached | ServiceRegistered | ServiceStarted | ServiceCompleted
  | ServiceFailed

record ChainEvent =
  event_kind :: EventType
  event_message :: string
  event_snapshot :: ChainSnapshot
  event_transaction :: "Transaction option"
  event_block :: "Block option"

text \<open>The default member initializers of the sources.\<close>

definition BlockId_default :: hash where
  "BlockId_default = Hash_zero 256"

definition ChainSnapshot_default :: ChainSnapshot where
  "ChainSnapshot_default = \<lparr>snap_height = 0, head_id = BlockId_default, block_count = 0,
     accepted_transactions = 0, bootstrapped = False\<rparr>"

definition BlockHeader_default :: BlockHeader where
  "BlockHeader_default = \<lparr>header_id = BlockId_default, previous_id = BlockId_default, header_height = 0,
     timestamp_utc = 0, header_source = ''local''\<rparr>"

definition Block_default :: Block where
  "Block_default = \<lparr>header = BlockHeader_default, transactions = []\<rparr>"

definition ChainConfig_default :: ChainConfig where
  "ChainConfig_default = \<lparr>chain_id = ''blocxxi.local'', display_name = ''Blocxxi Local Chain'',
     data_directory = [], create_genesis = True, genesis_payload = ''blocxxi:genesis''\<rparr>"

section \<open>Identifiers\<close>

definition kFnvOffset :: u64 where
  "kFnvOffset = 1469598103934665603"

definition kFnvPrime :: u64 where
  "kFnvPrime = 1099511628211"

definition StableHash :: "string \<Rightarrow> u64 \<Rightarrow> u64" where
  "StableHash seed lane =
     (let v0 = kFnvOffset XOR (lane + 0x9e3779b97f4a7c15);
          v1 = foldl (\<lambda>v c. (v XOR ucast (byte_of_char c)) * kFnvPrime) v0 seed in
      (v1 XOR lane) * kFnvPrime)"

definition MakeId_raw :: "string \<Rightarrow> byte list" where
  "MakeId_raw seed =
     concat (map (\<lambda>lane. let v = StableHash seed (word_of_nat lane) in
        map (\<lambda>offset. ucast (drop_bit ((7 - offset) * 8) v AND 0xFF)) [0..<8]) [0..<4])"

definition MakeId :: "string \<Rightarrow> hash" where
  "MakeId seed = projr (Hash_from_span 256 (MakeId_raw seed))"

definition ToBytes :: "string \<Rightarrow> byte list" where
  "ToBytes text = map byte_of_char text"

definition bytes_ToString :: "byte list \<Rightarrow> string" where
  "bytes_ToString bytes = map char_of_byte bytes"

definition Transaction_FromText :: "string \<Rightarrow> string \<Rightarrow> string \<Rightarrow> Transaction" where
  "Transaction_FromText type payload metadata =
     \<lparr>tx_id = MakeId (type @ ''|'' @ payload @ ''|'' @ metadata), tx_type = type,
      tx_payload = ToBytes payload, tx_metadata = metadata\<rparr>"

definition Transaction_PayloadText :: "Transaction \<Rightarrow> string" where
  "Transaction_PayloadText tx = bytes_ToString (tx_payload tx)"

definition MakeNext_seed :: "hash \<Rightarrow> u64 \<Rightarrow> Transaction list \<Rightarrow> string \<Rightarrow> string" where
  "MakeNext_seed prev height txs source =
     fold (\<lambda>tx seed. seed @ ''|'' @ Hash_ToHex (tx_id tx)) txs
       (Hash_ToHex prev @ ''|'' @ show_nat (unat height) @ ''|'' @ source)"

definition Block_MakeNext :: "i64 \<Rightarrow> hash \<Rightarrow> u64 \<Rightarrow> Transaction list \<Rightarrow> string \<Rightarrow> Block" where
  "Block_MakeNext now prev height txs source =
     \<lparr>header = \<lparr>header_id = MakeId (MakeNext_seed prev height txs source), previous_id = prev,
        header_height = height, timestamp_utc = now, header_source = source\<rparr>,
      transactions = txs\<rparr>"

section \<open>Lemmas\<close>

lemma length_MakeId_raw: "length (MakeId_raw seed) = 32"
  by (simp add: MakeId_raw_def Let_def length_concat comp_def sum_list_triv)

lemma Hash_from_span_MakeId: "Hash_from_span 256 (MakeId_raw seed) = Inr (MakeId_raw seed)"
  using Hash_from_span_value [of "MakeId_raw seed" 256] by (simp add: length_MakeId_raw Hash_Size_def)

lemma MakeId_eq: "MakeId seed = MakeId_raw seed"
  by (simp add: MakeId_def Hash_from_span_MakeId)

lemma length_MakeId [simp]: "length (MakeId seed) = 32"
  by (simp add: MakeId_eq length_MakeId_raw)

lemma length_BlockId_default [simp]: "length BlockId_default = 32"
  by (simp add: BlockId_default_def Hash_zero_def Hash_Size_def)

lemma ToBytes_ToString [simp]: "bytes_ToString (ToBytes text) = text" "ToBytes (bytes_ToString bytes) = bytes"
  by (simp_all add: bytes_ToString_def ToBytes_def)

lemma PayloadText_FromText: "Transaction_PayloadText (Transaction_FromText t p m) = p"
  by (simp add: Transaction_PayloadText_def Transaction_FromText_def)

lemma Block_MakeNext_simps [simp]:
  "previous_id (header (Block_MakeNext now prev h txs src)) = prev"
  "header_height (header (Block_MakeNext now prev h txs src)) = h"
  "header_source (header (Block_MakeNext now prev h txs src)) = src"
  "transactions (Block_MakeNext now prev h txs src) = txs"
  "header_id (header (Block_MakeNext now prev h txs src)) = MakeId (MakeNext_seed prev h txs src)"
  by (simp_all add: Block_MakeNext_def)

text \<open>What a block or transaction identifier satisfies: it is 32 bytes long.\<close>

definition tx_wf :: "Transaction \<Rightarrow> bool" where
  "tx_wf tx \<longleftrightarrow> length (tx_id tx) = 32"

definition block_wf :: "Block \<Rightarrow> bool" where
  "block_wf b \<longleftrightarrow> length (header_id (header b)) = 32 \<and> length (previous_id (header b)) = 32
     \<and> list_all tx_wf (transactions b)"

lemma tx_wf_FromText [simp]: "tx_wf (Transaction_FromText t p m)"
  by (simp add: tx_wf_def Transaction_FromText_def)

lemma block_wf_MakeNext: "length prev = 32 \<Longrightarrow> list_all tx_wf txs \<Longrightarrow> block_wf (Block_MakeNext now prev h txs src)"
  by (simp add: block_wf_def)

text \<open>
  The identifier of a transaction does not determine its fields: the separator of the seed is
  not escaped, so two transactions with different types and payloads get the same identifier.
\<close>

theorem transaction_id_collision:
  "tx_id (Transaction_FromText ''a|b'' ''c'' m) = tx_id (Transaction_FromText ''a'' ''b|c'' m)
   \<and> Transaction_FromText ''a|b'' ''c'' m \<noteq> Transaction_FromText ''a'' ''b|c'' m"
  by (simp add: Transaction_FromText_def)

end
