(* ===== verification/EventRecord.thy ===== *)
theory EventRecord
  imports Primitives "HOL-Library.Product_Lexorder" "HOL-Library.List_Lexorder" "HOL-Library.Char_ord"
    "HOL-Library.Multiset" "HOL-Library.Sublist"
begin

text \<open>
  Signed event records: \<open>src/Blocxxi/Core/event_record.h\<close> and \<open>event_record.cpp\<close>, with the key
  pairs and signatures of \<open>src/Blocxxi/Crypto/keypair.cpp\<close> and \<open>signature.cpp\<close>. What these two
  files call of the third-party Crypto++ library (ECDSA over secp256k1) is the record \<open>ecdsa\<close> of
  functions, an argument of the operations; \<open>ecdsa_ok\<close> states the documented behaviour they rely on.
\<close>

section \<open>The signature library\<close>

text \<open>
  \<open>'k\<close> is the library's private key, \<open>'p\<close> its point on the curve, \<open>'r\<close> the state of the random
  pool a signature draws from.
\<close>

record ('k, 'p, 'r) ecdsa =
  ec_private :: "byte list \<Rightarrow> 'k res"
  ec_exponent :: "'k \<Rightarrow> byte list"
  ec_derive :: "'k \<Rightarrow> 'p"
  ec_x :: "'p \<Rightarrow> byte list"
  ec_y :: "'p \<Rightarrow> byte list"
  ec_decode_point :: "byte list \<Rightarrow> 'p option"
  ec_validate :: "'p \<Rightarrow> bool"
  ec_sign :: "'r \<Rightarrow> 'k \<Rightarrow> byte list \<Rightarrow> byte list"
  ec_verify :: "'p \<Rightarrow> byte list \<Rightarrow> byte list \<Rightarrow> bool"

text \<open>
  The documented behaviour: coordinates are written with 32 bytes, and for a private key made from a secret the point is read
  back from its coordinates, is valid, and verifies what the key signs. Crypto++ promises this of exponents from one to the
  order of the curve minus one. \<open>KeyPair\<close> does not check the range, and neither does the library when it initialises the key,
  so with \<open>ecdsa_ok\<close> the function \<open>ec_private\<close> stands for that initialisation on secrets in the range: it refuses the others,
  about which nothing is claimed.
\<close>

definition ecdsa_ok :: "('k, 'p, 'r) ecdsa \<Rightarrow> bool" where
  "ecdsa_ok ec \<longleftrightarrow>
     (\<forall>p. length (ec_x ec p) = 32 \<and> length (ec_y ec p) = 32)
     \<and> (\<forall>secret k. ec_private ec secret = Inr k \<longrightarrow>
          ec_decode_point ec (0x04 # ec_x ec (ec_derive ec k) @ ec_y ec (ec_derive ec k)) = Some (ec_derive ec k)
          \<and> ec_validate ec (ec_derive ec k)
          \<and> (\<forall>r m. ec_verify ec (ec_derive ec k) m (ec_sign ec r k m)))"

section \<open>Key pairs\<close>

record KeyPair =
  kp_secret :: hash
  kp_public :: hash

text \<open>\<open>UpdatePublic\<close>: the coordinates of the public point, 32 bytes each.\<close>

definition UpdatePublic :: "('k, 'p, 'r) ecdsa \<Rightarrow> 'p \<Rightarrow> hash" where
  "UpdatePublic ec point = ec_x ec point @ ec_y ec point"

definition KeyPair_from_secret :: "('k, 'p, 'r) ecdsa \<Rightarrow> hash \<Rightarrow> KeyPair res" where
  "KeyPair_from_secret ec secret =
     rbind (ec_private ec secret) (\<lambda>private_key.
       Inr \<lparr>kp_secret = secret, kp_public = UpdatePublic ec (ec_derive ec private_key)\<rparr>)"

definition KeyPair_from_hex :: "('k, 'p, 'r) ecdsa \<Rightarrow> string \<Rightarrow> KeyPair res" where
  "KeyPair_from_hex ec secret_hex =
     rbind (Hash_FromHex 256 secret_hex False) (\<lambda>secret.
     rbind (ec_private ec secret) (\<lambda>private_key.
       Inr \<lparr>kp_secret = ec_exponent ec private_key,
            kp_public = UpdatePublic ec (ec_derive ec private_key)\<rparr>))"

section \<open>Signatures\<close>

text \<open>A \<open>catch (std::exception const&)\<close> block: neither an aborted check nor undefined behaviour is an exception.\<close>

definition catch_exn :: "'a res \<Rightarrow> 'a \<Rightarrow> 'a res" where
  "catch_exn m dflt =
     (case m of Inr x \<Rightarrow> Inr x | Inl (AbortExn msg) \<Rightarrow> Inl (AbortExn msg) | Inl UndefinedBehaviour \<Rightarrow> Inl UndefinedBehaviour
      | Inl _ \<Rightarrow> Inr dflt)"

definition MakePublicKey :: "('k, 'p, 'r) ecdsa \<Rightarrow> hash \<Rightarrow> 'p res" where
  "MakePublicKey ec public_key_hash =
     (case ec_decode_point ec (0x04 # public_key_hash) of
        None \<Rightarrow> Inl (InvalidArgumentExn ''invalid secp256k1 public point encoding'')
      | Some point \<Rightarrow>
          if \<not> ec_validate ec point then Inl (InvalidArgumentExn ''invalid secp256k1 public key'')
          else Inr point)"

definition DecodeHex :: "string \<Rightarrow> byte list res" where
  "DecodeHex text =
     (if text = [] then Inr []
      else if length text mod 2 \<noteq> 0
      then Inl (InvalidArgumentExn ''signature hex must have an even number of digits'')
      else hex_Decode text (replicate (length text div 2) 0) False)"

definition PublicKeyToHex :: "hash \<Rightarrow> string" where
  "PublicKeyToHex public_key = Hash_ToHex public_key"

definition PublicKeyFromHex :: "string \<Rightarrow> hash option res" where
  "PublicKeyFromHex public_key_hex =
     (if length public_key_hex \<noteq> Hash_Size 512 * 2 then Inr None
      else catch_exn (rbind (Hash_FromHex 512 public_key_hex False) (\<lambda>h. Inr (Some h))) None)"

definition SignMessage :: "('k, 'p, 'r) ecdsa \<Rightarrow> 'r \<Rightarrow> KeyPair \<Rightarrow> byte list \<Rightarrow> byte list res" where
  "SignMessage ec rnd key_pair message =
     rbind (ec_private ec (kp_secret key_pair)) (\<lambda>k. Inr (ec_sign ec rnd k message))"

definition SignMessageHex :: "('k, 'p, 'r) ecdsa \<Rightarrow> 'r \<Rightarrow> KeyPair \<Rightarrow> byte list \<Rightarrow> string res" where
  "SignMessageHex ec rnd key_pair message =
     rbind (SignMessage ec rnd key_pair message) (\<lambda>signature. Inr (hex_Encode signature False True))"

definition VerifyMessage :: "('k, 'p, 'r) ecdsa \<Rightarrow> hash \<Rightarrow> byte list \<Rightarrow> byte list \<Rightarrow> bool res" where
  "VerifyMessage ec public_key message signature =
     catch_exn (rbind (MakePublicKey ec public_key) (\<lambda>point. Inr (ec_verify ec point message signature))) False"

definition VerifyMessageHex :: "('k, 'p, 'r) ecdsa \<Rightarrow> hash \<Rightarrow> byte list \<Rightarrow> string \<Rightarrow> bool res" where
  "VerifyMessageHex ec public_key message signature_hex =
     catch_exn (rbind (DecodeHex signature_hex) (\<lambda>signature. VerifyMessage ec public_key message signature)) False"

section \<open>Event envelopes\<close>

record EventAttribute =
  attr_key :: string
  attr_value :: string

record EventWindow =
  start_utc :: i64
  end_utc :: i64

record EventEnvelope =
  schema :: string
  event_type :: string
  taxonomy :: string
  env_source :: string
  producer :: string
  window :: EventWindow
  observed_at_utc :: i64
  published_at_utc :: i64
  identifiers :: "string list"
  attributes :: "EventAttribute list"
  summary :: string
  env_payload :: "byte list"

record SignedEventRecord =
  envelope :: EventEnvelope
  signer_name :: string
  signer_public_key_hex :: string
  signature_hex :: string

definition kHexDigits :: string where
  "kHexDigits = ''0123456789abcdef''"

definition EncodeHex :: "byte list \<Rightarrow> string" where
  "EncodeHex payload =
     concat (map (\<lambda>b. [kHexDigits ! unat (drop_bit 4 b AND 0x0F), kHexDigits ! unat (b AND 0x0F)]) payload)"

definition SortedIdentifiers :: "string list \<Rightarrow> string list" where
  "SortedIdentifiers = sort"

definition SortedAttributes :: "EventAttribute list \<Rightarrow> EventAttribute list" where
  "SortedAttributes = sort_key (\<lambda>a. (attr_key a, attr_value a))"

text \<open>The loops that put a separator before every element but the first.\<close>

fun join_with :: "string \<Rightarrow> string list \<Rightarrow> string" where
  "join_with sep [] = []"
| "join_with sep [x] = x"
| "join_with sep (x # y # r) = x @ sep @ join_with sep (y # r)"

abbreviation newline :: string where
  "newline \<equiv> [CHR 0x0A]"

definition show_i64 :: "i64 \<Rightarrow> string" where
  "show_i64 t = show_int (sint t)"

definition identifiers_text :: "EventEnvelope \<Rightarrow> string" where
  "identifiers_text e = join_with '','' (SortedIdentifiers (identifiers e))"

definition attributes_text :: "EventEnvelope \<Rightarrow> string" where
  "attributes_text e =
     join_with ''|'' (map (\<lambda>a. attr_key a @ ''='' @ attr_value a) (SortedAttributes (attributes e)))"

definition CanonicalSeed :: "EventEnvelope \<Rightarrow> string" where
  "CanonicalSeed e =
     ''schema='' @ schema e @ newline
     @ ''event_type='' @ event_type e @ newline
     @ ''taxonomy='' @ taxonomy e @ newline
     @ ''source='' @ env_source e @ newline
     @ ''producer='' @ producer e @ newline
     @ ''window_start='' @ show_i64 (start_utc (window e)) @ newline
     @ ''window_end='' @ show_i64 (end_utc (window e)) @ newline
     @ ''observed_at='' @ show_i64 (observed_at_utc e) @ newline
     @ ''published_at='' @ show_i64 (published_at_utc e) @ newline
     @ ''identifiers='' @ identifiers_text e @ newline
     @ ''attributes='' @ attributes_text e @ newline
     @ ''summary='' @ summary e @ newline
     @ ''payload_hex='' @ EncodeHex (env_payload e) @ newline"

definition CanonicalText :: "EventEnvelope \<Rightarrow> string" where
  "CanonicalText e = CanonicalSeed e"

definition CanonicalBytes :: "EventEnvelope \<Rightarrow> byte list" where
  "CanonicalBytes e = map byte_of_char (CanonicalText e)"

definition ContentId :: "EventEnvelope \<Rightarrow> hash" where
  "ContentId e = MakeId (CanonicalText e)"

definition DeriveDeterministicEventKey :: "EventEnvelope \<Rightarrow> string" where
  "DeriveDeterministicEventKey e =
     (let seed0 = schema e @ ''|'' @ event_type e @ ''|'' @ taxonomy e @ ''|''
            @ show_i64 (start_utc (window e)) @ ''|'' @ show_i64 (end_utc (window e));
          seed1 = fold (\<lambda>identifier seed. seed @ ''|'' @ identifier) (SortedIdentifiers (identifiers e)) seed0;
          seed2 = seed1 @ ''|'' @ Hash_ToHex (ContentId e)
      in Hash_ToHex (MakeId seed2))"

definition DeterministicKey :: "SignedEventRecord \<Rightarrow> string" where
  "DeterministicKey record = DeriveDeterministicEventKey (envelope record)"

definition stamp_envelope :: "i64 \<Rightarrow> EventEnvelope \<Rightarrow> EventEnvelope" where
  "stamp_envelope now e0 =
     (let e1 = (if observed_at_utc e0 = 0 then e0\<lparr>observed_at_utc := now\<rparr> else e0) in
      if published_at_utc e1 = 0 then e1\<lparr>published_at_utc := observed_at_utc e1\<rparr> else e1)"

definition SignEventRecord ::
  "('k, 'p, 'r) ecdsa \<Rightarrow> 'r \<Rightarrow> i64 \<Rightarrow> EventEnvelope \<Rightarrow> KeyPair \<Rightarrow> string \<Rightarrow> SignedEventRecord res" where
  "SignEventRecord ec rnd now e0 key_pair name =
     (let e = stamp_envelope now e0; canonical = CanonicalBytes e in
      rbind (SignMessageHex ec rnd key_pair canonical) (\<lambda>signature.
        Inr \<lparr>envelope = e, signer_name = name,
             signer_public_key_hex = PublicKeyToHex (kp_public key_pair),
             signature_hex = signature\<rparr>))"

definition VerifyEventRecord :: "('k, 'p, 'r) ecdsa \<Rightarrow> SignedEventRecord \<Rightarrow> bool res" where
  "VerifyEventRecord ec record =
     rbind (PublicKeyFromHex (signer_public_key_hex record)) (\<lambda>public_key.
       case public_key of None \<Rightarrow> Inr False
       | Some pk \<Rightarrow> VerifyMessageHex ec pk (CanonicalBytes (envelope record)) (signature_hex record))"

section \<open>Signing and verifying\<close>

lemma catch_exn_Inr [simp]: "catch_exn (Inr x) d = Inr x"
  by (simp add: catch_exn_def)

lemma DecodeHex_Encode: "DecodeHex (hex_Encode sig False True) = Inr sig"
proof -
  have "hex_Encode sig False True = [] \<longleftrightarrow> sig = []"
    using length_hex_Encode [of sig False True] by (metis length_0_conv mult_eq_0_iff zero_neq_numeral)
  then show ?thesis
    using hex_Decode_Encode [of sig "replicate (length sig) 0" False True] by (simp add: DecodeHex_def)
qed

lemma PublicKeyFromHex_ToHex: "length pk = 64 \<Longrightarrow> PublicKeyFromHex (PublicKeyToHex pk) = Inr (Some pk)"
  using Hash_FromHex_ToHex [of pk 512]
  by (simp add: PublicKeyFromHex_def PublicKeyToHex_def Hash_Size_def)

lemma VerifyMessageHex_sign:
  assumes "ecdsa_ok ec" "ec_private ec secret = Inr k"
  shows "VerifyMessageHex ec (UpdatePublic ec (ec_derive ec k)) m
           (hex_Encode (ec_sign ec rnd k m) False True) = Inr True"
  using assms
  by (simp add: VerifyMessageHex_def DecodeHex_Encode VerifyMessage_def MakePublicKey_def UpdatePublic_def
      ecdsa_ok_def)

section \<open>The canonical text\<close>

lemma SortedIdentifiers_mset: "mset xs = mset ys \<Longrightarrow> SortedIdentifiers xs = SortedIdentifiers ys"
  unfolding SortedIdentifiers_def by (metis mset_sort properties_for_sort sorted_sort)

lemma sort_key_as_sort: "map f (sort_key f xs) = sort (map f xs)"
  by (rule properties_for_sort [symmetric]) simp_all

lemma SortedAttributes_mset:
  assumes "mset xs = mset ys"
  shows "SortedAttributes xs = SortedAttributes ys"
proof -
  let ?f = "\<lambda>a :: EventAttribute. (attr_key a, attr_value a)"
  have "sort (map ?f xs) = sort (map ?f ys)"
    by (rule properties_for_sort) (simp_all flip: assms)
  then have "map ?f (SortedAttributes xs) = map ?f (SortedAttributes ys)"
    by (simp add: SortedAttributes_def sort_key_as_sort)
  moreover have "inj ?f"
    by (auto simp: inj_def intro: EventAttribute.equality)
  ultimately show ?thesis by (simp add: inj_map_eq_map)
qed

lemma canonical_fields_mset:
  assumes "mset ids = mset (identifiers e)" "mset attrs = mset (attributes e)"
  shows "CanonicalText (e\<lparr>identifiers := ids, attributes := attrs\<rparr>) = CanonicalText e"
  using SortedIdentifiers_mset [OF assms(1)] SortedAttributes_mset [OF assms(2)]
  by (simp add: CanonicalText_def CanonicalSeed_def identifiers_text_def attributes_text_def)

lemma byte_nibbles:
  "unat (drop_bit 4 (b :: byte) AND 0x0F) = unat b div 16" "unat ((b :: byte) AND 0x0F) = unat b mod 16"
proof -
  have m: "(0x0F :: byte) = mask 4" by (simp add: mask_eq_exp_minus_1)
  have d: "unat b div 16 mod 16 = unat b div 16" by simp
  show "unat (drop_bit 4 b AND 0x0F) = unat b div 16" "unat (b AND 0x0F) = unat b mod 16"
    unfolding m take_bit_eq_mask [symmetric] unsigned_take_bit_eq unsigned_drop_bit_eq
    using d by (simp_all add: take_bit_eq_mod drop_bit_eq_div)
qed

lemma EncodeHex_eq_hex_Encode: "EncodeHex bs = hex_Encode bs False True"
proof -
  have "kHexDigits = alphabet True"
    by (simp add: kHexDigits_def alphabet_def ALPHABET_LC_def)
  then show ?thesis
    unfolding EncodeHex_def hex_Encode_forward byte_nibbles(1) by (simp only: byte_nibbles(2))
qed

lemma EncodeHex_inj: "EncodeHex a = EncodeHex b \<longleftrightarrow> a = b"
  using Hash_ToHex_inj [of a b] by (simp add: EncodeHex_eq_hex_Encode Hash_ToHex_def)

text \<open>A line break or an equals sign never occurs in a number or in hexadecimal text.\<close>

lemma EncodeHex_no_sep: "CHR 0x0A \<notin> set (EncodeHex bs)" "CHR ''='' \<notin> set (EncodeHex bs)"
  using set_hex_Encode [of _ bs False True]
  by (auto simp: EncodeHex_eq_hex_Encode alphabet_def ALPHABET_LC_def)

lemma show_i64_no_newline: "CHR 0x0A \<notin> set (show_i64 t)"
  using show_int_set [of "CHR 0x0A" "sint t"] by (auto simp: show_i64_def is_digit_def)

lemma line_inj:
  assumes "c \<notin> set a" "c \<notin> set b"
  shows "a @ c # r = b @ c # r' \<longleftrightarrow> a = b \<and> r = r'"
  using assms by (auto simp: append_eq_append_conv2 append_eq_Cons_conv Cons_eq_append_conv)

lemma show_int_inj: "show_int i = show_int j \<longleftrightarrow> i = j"
proof
  assume e: "show_int i = show_int j"
  have "CHR ''-'' # s \<noteq> show_nat n" for s n
    using hd_show_nat_not_minus [of n] by (metis list.sel(1))
  with e show "i = j"
    by (auto simp: show_int_def split: if_splits dest: sym)
qed simp

lemma show_i64_inj: "show_i64 s = show_i64 t \<longleftrightarrow> s = t"
  unfolding show_i64_def show_int_inj by (metis uint_sint word_uint_eq_iff)

lemmas canonical_line_simps =
  line_inj show_i64_inj EncodeHex_inj show_i64_no_newline EncodeHex_no_sep


lemma canonical_payload:
  assumes "CanonicalText e = CanonicalText e'"
  shows "env_payload e = env_payload e'"
proof -
  have shape: "\<exists>pre. CanonicalText x = pre @ CHR ''='' # EncodeHex (env_payload x) @ newline" for x
    unfolding suffix_def [symmetric] CanonicalText_def CanonicalSeed_def by (simp add: suffix_Cons suffix_append)
  obtain p p' where "p @ CHR ''='' # EncodeHex (env_payload e) @ newline = p' @ CHR ''='' # EncodeHex (env_payload e') @ newline"
    using shape [of e] shape [of e'] assms by metis
  then have "rev (p @ CHR ''='' # EncodeHex (env_payload e) @ newline)
      = rev (p' @ CHR ''='' # EncodeHex (env_payload e') @ newline)"
    by (rule arg_cong)
  then show ?thesis
    by (simp add: line_inj EncodeHex_inj EncodeHex_no_sep)
qed

text \<open>Envelopes in which no text field contains a line break.\<close>

definition single_line :: "string \<Rightarrow> bool" where
  "single_line s \<longleftrightarrow> CHR 0x0A \<notin> set s"

definition envelope_single_line :: "EventEnvelope \<Rightarrow> bool" where
  "envelope_single_line e \<longleftrightarrow>
     list_all single_line ([schema e, event_type e, taxonomy e, env_source e, producer e, summary e]
       @ identifiers e @ map attr_key (attributes e) @ map attr_value (attributes e))"

lemma set_join_with: "set (join_with sep xs) \<subseteq> set sep \<union> \<Union> (set ` set xs)"
  by (induction sep xs rule: join_with.induct) auto

lemma single_line_join:
  "single_line sep \<Longrightarrow> list_all single_line xs \<Longrightarrow> single_line (join_with sep xs)"
  using set_join_with [of sep xs] by (auto simp: single_line_def list_all_iff)

lemma single_line_texts:
  assumes "envelope_single_line e"
  shows "single_line (identifiers_text e)" "single_line (attributes_text e)"
  using assms unfolding identifiers_text_def attributes_text_def envelope_single_line_def
  by (intro single_line_join;
      simp add: single_line_def list_all_iff SortedIdentifiers_def SortedAttributes_def ball_Un)+

lemma canonical_fields:
  assumes "envelope_single_line e" "envelope_single_line e'" "CanonicalText e = CanonicalText e'"
  shows "schema e = schema e' \<and> event_type e = event_type e' \<and> taxonomy e = taxonomy e'
    \<and> env_source e = env_source e' \<and> producer e = producer e' \<and> window e = window e'
    \<and> observed_at_utc e = observed_at_utc e' \<and> published_at_utc e = published_at_utc e'
    \<and> identifiers_text e = identifiers_text e' \<and> attributes_text e = attributes_text e'
    \<and> summary e = summary e'"
proof -
  have n: "CHR 0x0A \<notin> set (schema x)" "CHR 0x0A \<notin> set (event_type x)" "CHR 0x0A \<notin> set (taxonomy x)"
    "CHR 0x0A \<notin> set (env_source x)" "CHR 0x0A \<notin> set (producer x)" "CHR 0x0A \<notin> set (summary x)"
    "CHR 0x0A \<notin> set (identifiers_text x)" "CHR 0x0A \<notin> set (attributes_text x)"
    if "envelope_single_line x" for x
    using that single_line_texts [OF that] by (auto simp: envelope_single_line_def single_line_def)
  show ?thesis
    using assms(3) n [OF assms(1)] n [OF assms(2)]
    by (simp add: CanonicalText_def CanonicalSeed_def canonical_line_simps EventWindow.equality)
qed

section \<open>Properties\<close>

lemma SignEventRecord_verifies:
  assumes "ecdsa_ok ec" "KeyPair_from_secret ec secret = Inr kp"
  shows "\<exists>rec. SignEventRecord ec rnd now e kp name = Inr rec \<and> VerifyEventRecord ec rec = Inr True
    \<and> envelope rec = stamp_envelope now e \<and> signer_name rec = name"
proof -
  obtain k where k: "ec_private ec secret = Inr k"
      and kp: "kp = \<lparr>kp_secret = secret, kp_public = UpdatePublic ec (ec_derive ec k)\<rparr>"
    using assms(2) by (auto simp: KeyPair_from_secret_def rbind_eq_Inr)
  have "length (UpdatePublic ec (ec_derive ec k)) = 64"
    using assms(1) by (simp add: UpdatePublic_def ecdsa_ok_def)
  then show ?thesis
    using VerifyMessageHex_sign [OF assms(1) k]
    by (simp add: SignEventRecord_def Let_def SignMessageHex_def SignMessage_def kp k
        VerifyEventRecord_def PublicKeyFromHex_ToHex)
qed


text \<open>A library with the documented behaviour: the key is its own signature and point.\<close>

definition ecdsa_ref :: "(byte list, byte list, unit) ecdsa" where
  "ecdsa_ref = \<lparr>ec_private = (\<lambda>s. Inr (take 32 (s @ replicate 32 0))), ec_exponent = id,
     ec_derive = (\<lambda>k. take 32 (k @ replicate 32 0)), ec_x = (\<lambda>p. take 32 (p @ replicate 32 0)),
     ec_y = (\<lambda>p. replicate 32 0),
     ec_decode_point = (\<lambda>b. Some (take 32 (drop 1 b))), ec_validate = (\<lambda>p. True),
     ec_sign = (\<lambda>r k m. take 32 (k @ replicate 32 0) @ m), ec_verify = (\<lambda>p m s. s = p @ m)\<rparr>"

lemma ecdsa_ok_ref: "ecdsa_ok ecdsa_ref"
  by (simp add: ecdsa_ok_def ecdsa_ref_def min_def)

definition sample_envelope :: EventEnvelope where
  "sample_envelope = \<lparr>schema = ''blocxxi.event.v1'', event_type = ''t'', taxonomy = [], env_source = [],
     producer = [], window = \<lparr>start_utc = 1, end_utc = 2\<rparr>, observed_at_utc = 0, published_at_utc = 0,
     identifiers = [''b'', ''a''], attributes = [\<lparr>attr_key = ''k'', attr_value = ''v''\<rparr>], summary = ''s'',
     env_payload = [1, 2]\<rparr>"


text \<open>
  the canonical text, the content identifier and the deterministic key do not depend on the order
  in which identifiers and attributes are listed.
\<close>

theorem canonical_order_independent:
  assumes "mset ids = mset (identifiers e)" "mset attrs = mset (attributes e)"
  shows "CanonicalText (e\<lparr>identifiers := ids, attributes := attrs\<rparr>) = CanonicalText e
    \<and> ContentId (e\<lparr>identifiers := ids, attributes := attrs\<rparr>) = ContentId e
    \<and> DeriveDeterministicEventKey (e\<lparr>identifiers := ids, attributes := attrs\<rparr>) = DeriveDeterministicEventKey e"
  using canonical_fields_mset [OF assms] SortedIdentifiers_mset [OF assms(1)]
  by (simp add: ContentId_def DeriveDeterministicEventKey_def)

theorem canonical_order_independent_witness:
  "DeriveDeterministicEventKey (sample_envelope\<lparr>identifiers := [''a'', ''b''], attributes := attributes sample_envelope\<rparr>)
   = DeriveDeterministicEventKey sample_envelope"
  using canonical_order_independent [of "[''a'', ''b'']" sample_envelope "attributes sample_envelope"]
  by (simp add: sample_envelope_def add_mset_commute)

text \<open>
  C8: a canonical text determines the payload of the envelope; and among envelopes whose text fields
  contain no line break it determines every scalar field and the joined identifier and attribute
  lists. So a signature of one such envelope is a signature of these fields.
\<close>

theorem canonical_text_binds:
  assumes "CanonicalText e = CanonicalText e'"
  shows "env_payload e = env_payload e'
    \<and> (envelope_single_line e \<and> envelope_single_line e' \<longrightarrow>
        schema e = schema e' \<and> event_type e = event_type e' \<and> taxonomy e = taxonomy e'
        \<and> env_source e = env_source e' \<and> producer e = producer e' \<and> window e = window e'
        \<and> observed_at_utc e = observed_at_utc e' \<and> published_at_utc e = published_at_utc e'
        \<and> identifiers_text e = identifiers_text e' \<and> attributes_text e = attributes_text e'
        \<and> summary e = summary e')"
proof (intro conjI impI)
  show "env_payload e = env_payload e'"
    using assms by (rule canonical_payload)
qed (use canonical_fields [OF _ _ assms] in simp_all)

theorem canonical_text_binds_witness:
  "CanonicalText sample_envelope = CanonicalText (sample_envelope\<lparr>identifiers := [''a'', ''b'']\<rparr>)
   \<and> summary sample_envelope = summary (sample_envelope\<lparr>identifiers := [''a'', ''b'']\<rparr>)"
proof -
  have c: "CanonicalText (sample_envelope\<lparr>identifiers := [''a'', ''b'']\<rparr>) = CanonicalText sample_envelope"
    using canonical_fields_mset [of "[''a'', ''b'']" sample_envelope "attributes sample_envelope"]
    by (simp add: sample_envelope_def add_mset_commute)
  have "envelope_single_line (sample_envelope\<lparr>identifiers := [''a'', ''b'']\<rparr>)" "envelope_single_line sample_envelope"
    by (simp_all add: envelope_single_line_def sample_envelope_def single_line_def)
  with canonical_text_binds [OF c] c show ?thesis by simp
qed

text \<open>
  The canonical text does not determine the list of identifiers: the separator is not escaped,
  so a record whose identifier list is split differently carries the same canonical bytes and is
  accepted under the same signature.
\<close>

theorem canonical_identifiers_ambiguous:
  "CanonicalBytes (e\<lparr>identifiers := [''a,b'']\<rparr>) = CanonicalBytes (e\<lparr>identifiers := [''a'', ''b'']\<rparr>)
   \<and> VerifyEventRecord ec (rec\<lparr>envelope := e\<lparr>identifiers := [''a,b'']\<rparr>\<rparr>)
     = VerifyEventRecord ec (rec\<lparr>envelope := e\<lparr>identifiers := [''a'', ''b'']\<rparr>\<rparr>)"
proof -
  have "''a'' \<le> ''b''" by (simp add: less_eq_char_def)
  then have "CanonicalBytes (e\<lparr>identifiers := [''a,b'']\<rparr>) = CanonicalBytes (e\<lparr>identifiers := [''a'', ''b'']\<rparr>)"
    by (simp add: CanonicalBytes_def CanonicalText_def CanonicalSeed_def identifiers_text_def
        attributes_text_def SortedIdentifiers_def)
  then show ?thesis
    by (cases "PublicKeyFromHex (signer_public_key_hex rec)")
       (simp_all add: VerifyEventRecord_def split: option.splits)
qed

end
