(* ===== verification/Kernel.thy ===== *)
theory Kernel
  imports Primitives
begin

text \<open>
  The chain kernel: \<open>src/Blocxxi/Chain/kernel.h\<close> and \<open>kernel.cpp\<close>. The block store, the snapshot
  store and the validator are abstract classes in the source; here they are the record \<open>services\<close> of
  operations on a shared outside world of type \<open>'w\<close> (the memory of the in-memory stores, the file
  system of the file stores). The locale \<open>chain_store\<close> is the contract the kernel relies on, and
  the invariant of the kernel is proved once against it; the stores interpret it.
\<close>

section \<open>Interfaces\<close>

record 'w services =
  PutBlock :: "Block \<Rightarrow> 'w \<Rightarrow> Status \<times> 'w"
  GetBlock :: "hash \<Rightarrow> 'w \<Rightarrow> Block option res"
  GetChain :: "'w \<Rightarrow> Block list res"
  Save :: "ChainSnapshot \<Rightarrow> 'w \<Rightarrow> Status \<times> 'w"
  Load :: "'w \<Rightarrow> ChainSnapshot option res"
  Validate :: "Block \<Rightarrow> ChainSnapshot \<Rightarrow> Status"

definition BasicBlockValidator_Validate :: "Block \<Rightarrow> ChainSnapshot \<Rightarrow> Status" where
  "BasicBlockValidator_Validate block snapshot =
     (if header_source (header block) = [] then Failure InvalidArgument ''block source is required''
      else if bootstrapped snapshot \<and> transactions block = []
      then Failure InvalidArgument ''non-genesis blocks require transactions''
      else if \<not> bootstrapped snapshot then
        (if header_height (header block) \<noteq> 0 then Failure Rejected ''genesis block must start at height 0''
         else if \<not> Hash_eq (previous_id (header block)) BlockId_default
         then Failure Rejected ''genesis block must use an empty previous id''
         else Success [])
      else if header_height (header block) \<noteq> snap_height snapshot + 1
      then Failure Rejected ''block height does not extend the active head''
      else if \<not> Hash_eq (previous_id (header block)) (head_id snapshot)
      then Failure Rejected ''block does not link to the active head''
      else Success [])"

section \<open>The kernel\<close>

record 'w Kernel =
  config :: ChainConfig
  world :: 'w
  snapshot :: ChainSnapshot
  pending_transactions :: "Transaction list"

definition Kernel_new :: "ChainConfig \<Rightarrow> 'w \<Rightarrow> 'w Kernel" where
  "Kernel_new cfg w = \<lparr>config = cfg, world = w, snapshot = ChainSnapshot_default, pending_transactions = []\<rparr>"

definition Kernel_SubmitTransaction :: "Transaction \<Rightarrow> 'w Kernel \<Rightarrow> Status \<times> 'w Kernel" where
  "Kernel_SubmitTransaction transaction k =
     (if tx_type transaction = [] then (Failure InvalidArgument ''transaction type is required'', k)
      else if tx_payload transaction = [] then (Failure InvalidArgument ''transaction payload is required'', k)
      else if list_ex (\<lambda>pending. Hash_eq (tx_id pending) (tx_id transaction)) (pending_transactions k)
      then (Failure Duplicate ''transaction already pending'', k)
      else (Success [], k\<lparr>pending_transactions := pending_transactions k @ [transaction]\<rparr>))"

definition advance_snapshot :: "Block \<Rightarrow> ChainSnapshot \<Rightarrow> ChainSnapshot" where
  "advance_snapshot block s = s\<lparr>snap_height := header_height (header block), head_id := header_id (header block),
     block_count := block_count s + 1,
     accepted_transactions := accepted_transactions s + word_of_nat (length (transactions block)),
     bootstrapped := True\<rparr>"

definition erase_committed :: "Block \<Rightarrow> Transaction list \<Rightarrow> Transaction list" where
  "erase_committed block pend =
     filter (\<lambda>pending. \<not> list_ex (\<lambda>committed. Hash_eq (tx_id committed) (tx_id pending)) (transactions block)) pend"

definition Kernel_CommitBlock :: "'w services \<Rightarrow> Block \<Rightarrow> 'w Kernel \<Rightarrow> Status \<times> 'w Kernel" where
  "Kernel_CommitBlock ops block k =
     (let status = Validate ops block (snapshot k) in
      if \<not> status_ok status then (status, k)
      else
        let (status, w) = PutBlock ops block (world k); k = k\<lparr>world := w\<rparr> in
        if \<not> status_ok status then (status, k)
        else
          let k = k\<lparr>snapshot := advance_snapshot block (snapshot k),
                    pending_transactions := erase_committed block (pending_transactions k)\<rparr>;
              (status, w) = Save ops (snapshot k) (world k); k = k\<lparr>world := w\<rparr> in
          if \<not> status_ok status then (status, k) else (Success [], k))"

definition pending_block :: "i64 \<Rightarrow> string \<Rightarrow> 'w Kernel \<Rightarrow> Block" where
  "pending_block now source k =
     Block_MakeNext now (head_id (snapshot k))
       (if bootstrapped (snapshot k) then snap_height (snapshot k) + 1 else 0) (pending_transactions k) source"

definition Kernel_CommitPending :: "'w services \<Rightarrow> i64 \<Rightarrow> string \<Rightarrow> 'w Kernel \<Rightarrow> Status \<times> 'w Kernel" where
  "Kernel_CommitPending ops now source k =
     (if pending_transactions k = [] then (Failure Rejected ''no pending transactions to commit'', k)
      else Kernel_CommitBlock ops (pending_block now source k) k)"

definition genesis_block :: "i64 \<Rightarrow> ChainConfig \<Rightarrow> Block" where
  "genesis_block now cfg =
     Block_MakeNext now BlockId_default 0
       [Transaction_FromText ''genesis'' (genesis_payload cfg) (display_name cfg)] ''genesis''"

definition Kernel_Bootstrap :: "'w services \<Rightarrow> i64 \<Rightarrow> 'w Kernel \<Rightarrow> (Status \<times> 'w Kernel) res" where
  "Kernel_Bootstrap ops now k =
     rbind (Load ops (world k)) (\<lambda>loaded. case loaded of
       Some s \<Rightarrow> Inr (Success ''loaded existing chain snapshot'', k\<lparr>snapshot := s\<rparr>)
     | None \<Rightarrow>
         if \<not> create_genesis (config k) then Inr (Success ''bootstrap skipped without genesis creation'', k)
         else Inr (Kernel_CommitBlock ops (genesis_block now (config k)) k))"

definition Kernel_Head :: "'w services \<Rightarrow> 'w Kernel \<Rightarrow> Block option res" where
  "Kernel_Head ops k =
     (if \<not> bootstrapped (snapshot k) then Inr None else GetBlock ops (head_id (snapshot k)) (world k))"

definition Kernel_Chain :: "'w services \<Rightarrow> 'w Kernel \<Rightarrow> Block list res" where
  "Kernel_Chain ops k = GetChain ops (world k)"

section \<open>Linked chains\<close>

lemma Hash_eq_iff [simp]: "Hash_eq a b \<longleftrightarrow> a = b"
  by (simp add: Hash_eq_def list.rel_eq)

fun linked_from :: "u64 \<Rightarrow> hash \<Rightarrow> Block list \<Rightarrow> bool" where
  "linked_from h prev [] = True"
| "linked_from h prev (b # bs) \<longleftrightarrow>
     header_height (header b) = h \<and> previous_id (header b) = prev \<and> linked_from (h + 1) (header_id (header b)) bs"

definition linked :: "Block list \<Rightarrow> bool" where
  "linked bs = linked_from 0 BlockId_default bs"

text \<open>
  The snapshot that describes a chain: the height and identifier of its last block, the number of
  blocks and of transactions in them (as 64-bit counters), and whether there is a block at all.
\<close>

definition snapshot_of :: "Block list \<Rightarrow> ChainSnapshot" where
  "snapshot_of bs = \<lparr>snap_height = (if bs = [] then 0 else header_height (header (last bs))),
     head_id = (if bs = [] then BlockId_default else header_id (header (last bs))),
     block_count = word_of_nat (length bs),
     accepted_transactions = word_of_nat (sum_list (map (length \<circ> transactions) bs)),
     bootstrapped = (bs \<noteq> [])\<rparr>"

lemma linked_from_snoc:
  "linked_from h prev (bs @ [b]) \<longleftrightarrow> linked_from h prev bs
     \<and> header_height (header b) = h + word_of_nat (length bs)
     \<and> previous_id (header b) = (if bs = [] then prev else header_id (header (last bs)))"
  by (induction bs arbitrary: h prev) (auto simp: add.assoc)

lemma linked_snoc:
  "linked (bs @ [b]) \<longleftrightarrow> linked bs \<and> header_height (header b) = word_of_nat (length bs)
     \<and> previous_id (header b) = (if bs = [] then BlockId_default else header_id (header (last bs)))"
  by (simp add: linked_def linked_from_snoc)

lemma linked_from_nth: "linked_from h prev bs \<Longrightarrow> i < length bs \<Longrightarrow> header_height (header (bs ! i)) = h + word_of_nat i"
  by (induction bs arbitrary: h prev i) (auto simp: nth_Cons' less_Suc_eq_0_disj)

lemma linked_nth: "linked bs \<Longrightarrow> i < length bs \<Longrightarrow> header_height (header (bs ! i)) = word_of_nat i"
  using linked_from_nth [of 0 BlockId_default bs i] by (simp add: linked_def)

lemma linked_heights_distinct:
  assumes "linked bs" "length bs \<le> 2 ^ 64"
  shows "distinct (map (header_height \<circ> header) bs)"
proof -
  have "word_of_nat i \<noteq> (word_of_nat j :: u64)" if "i < length bs" "j < length bs" "i \<noteq> j" for i j
    using that assms(2) by (simp add: word_of_nat_eq_iff take_bit_nat_eq_self)
  then show ?thesis
    using assms(1) by (auto simp: distinct_conv_nth linked_nth)
qed

text \<open>The code keeps the snapshot up to date block by block.\<close>

lemma snapshot_of_snoc: "snapshot_of (bs @ [b]) = advance_snapshot b (snapshot_of bs)"
  by (simp add: snapshot_of_def advance_snapshot_def add.commute)

lemma snapshot_of_Nil [simp]: "snapshot_of [] = ChainSnapshot_default"
  by (simp add: snapshot_of_def ChainSnapshot_default_def)

lemma snapshot_of_fields:
  "bootstrapped (snapshot_of bs) \<longleftrightarrow> bs \<noteq> []"
  "block_count (snapshot_of bs) = word_of_nat (length bs)"
  "accepted_transactions (snapshot_of bs) = word_of_nat (sum_list (map (length \<circ> transactions) bs))"
  "head_id (snapshot_of bs) = (if bs = [] then BlockId_default else header_id (header (last bs)))"
  "snap_height (snapshot_of bs) = (if bs = [] then 0 else header_height (header (last bs)))"
  by (simp_all add: snapshot_of_def)

lemma next_height:
  assumes "linked bs"
  shows "(if bootstrapped (snapshot_of bs) then snap_height (snapshot_of bs) + 1 else 0) = word_of_nat (length bs)"
proof (cases bs rule: rev_cases)
  case (snoc ys y)
  then show ?thesis
    using assms by (simp add: snapshot_of_fields linked_snoc)
qed (simp add: ChainSnapshot_default_def)

lemma validate_extends:
  assumes "linked bs"
  shows "status_ok (BasicBlockValidator_Validate b (snapshot_of bs)) \<longleftrightarrow>
    linked (bs @ [b]) \<and> header_source (header b) \<noteq> [] \<and> (bs \<noteq> [] \<longrightarrow> transactions b \<noteq> [])"
  using next_height [OF assms] assms
  by (cases "bs = []")
     (auto simp: BasicBlockValidator_Validate_def snapshot_of_fields ChainSnapshot_default_def
        linked_def linked_from_snoc)

section \<open>The invariant\<close>

text \<open>
  The invariant of a kernel: the stored chain is linked, the snapshot describes it, and the pending
  transactions are well formed and have distinct identifiers.
\<close>

definition kernel_inv :: "('w \<Rightarrow> bool) \<Rightarrow> ('w \<Rightarrow> Block list) \<Rightarrow> 'w Kernel \<Rightarrow> bool" where
  "kernel_inv store_inv chain k \<longleftrightarrow> store_inv (world k) \<and> linked (chain (world k)) \<and> list_all block_wf (chain (world k))
     \<and> snapshot k = snapshot_of (chain (world k))
     \<and> distinct (map tx_id (pending_transactions k))
     \<and> list_all (\<lambda>tx. tx_wf tx \<and> tx_type tx \<noteq> [] \<and> tx_payload tx \<noteq> []) (pending_transactions k)"

text \<open>The snapshot on disk is the one in memory.\<close>

definition synced :: "('w \<Rightarrow> ChainSnapshot option) \<Rightarrow> 'w Kernel \<Rightarrow> bool" where
  "synced saved k \<longleftrightarrow> saved (world k) = (if bootstrapped (snapshot k) then Some (snapshot k) else None)"

section \<open>The contract of the stores\<close>

text \<open>
  \<open>chain w\<close> is the sequence of blocks put into the store, \<open>saved w\<close> the snapshot last saved and
  \<open>store_inv\<close> the store's own invariant; \<open>room w\<close> says that one more block can be told apart from the
  others (heights have 64 bits). A store promises what its operations do when they report
  success; the validator is at least as strict as \<open>BasicBlockValidator\<close>.
\<close>

locale chain_store =
  fixes ops :: "'w services"
    and store_inv :: "'w \<Rightarrow> bool"
    and chain :: "'w \<Rightarrow> Block list"
    and saved :: "'w \<Rightarrow> ChainSnapshot option"
    and room :: "'w \<Rightarrow> bool"
  assumes put_ok: "\<lbrakk>store_inv w; block_wf b; linked (chain w @ [b]); room w;
      PutBlock ops b w = (st, w'); status_ok st\<rbrakk>
      \<Longrightarrow> store_inv w' \<and> chain w' = chain w @ [b] \<and> saved w' = saved w"
    and get_block: "\<lbrakk>store_inv w; b \<in> set (chain w)\<rbrakk>
      \<Longrightarrow> \<exists>b'. GetBlock ops (header_id (header b)) w = Inr (Some b') \<and> b' \<in> set (chain w)
           \<and> header_id (header b') = header_id (header b)"
    and save_ok: "\<lbrakk>store_inv w; length (head_id s) = 32; Save ops s w = (st, w'); status_ok st\<rbrakk>
      \<Longrightarrow> store_inv w' \<and> chain w' = chain w \<and> saved w' = Some s"
    and load_saved: "store_inv w \<Longrightarrow> Load ops w = Inr (saved w)"
    and validator: "status_ok (Validate ops b s) \<Longrightarrow> status_ok (BasicBlockValidator_Validate b s)"
begin

lemma submit_inv:
  assumes "kernel_inv store_inv chain k" "tx_wf tx" "Kernel_SubmitTransaction tx k = (st, k')"
  shows "kernel_inv store_inv chain k' \<and> world k' = world k
     \<and> pending_transactions k' = pending_transactions k @ (if status_ok st then [tx] else [])"
  using assms by (fastforce simp: Kernel_SubmitTransaction_def kernel_inv_def list_ex_iff split: if_splits)

lemma erase_committed_inv:
  "distinct (map tx_id pend) \<Longrightarrow> distinct (map tx_id (erase_committed b pend))"
  "list_all P pend \<Longrightarrow> list_all P (erase_committed b pend)"
  by (auto simp: erase_committed_def distinct_map_filter list_all_iff)

lemma commit_block_ok:
  assumes k: "kernel_inv store_inv chain k" "block_wf b" "room (world k)"
    and c: "Kernel_CommitBlock ops b k = (st, k')" "status_ok st"
  shows "kernel_inv store_inv chain k' \<and> synced saved k' \<and> chain (world k') = chain (world k) @ [b]
     \<and> pending_transactions k' = erase_committed b (pending_transactions k) \<and> config k' = config k"
proof -
  let ?bs = "chain (world k)"
  obtain st1 w1 where put: "PutBlock ops b (world k) = (st1, w1)" by fastforce
  obtain st2 w2 where save: "Save ops (advance_snapshot b (snapshot k)) w1 = (st2, w2)" by fastforce
  have ok: "status_ok (Validate ops b (snapshot k))" "status_ok st1" "status_ok st2"
    and k': "k' = k\<lparr>world := w2, snapshot := advance_snapshot b (snapshot k),
      pending_transactions := erase_committed b (pending_transactions k)\<rparr>"
    using c put save by (auto simp: Kernel_CommitBlock_def Let_def split: if_splits)
  have lk: "linked (?bs @ [b])"
    using validate_extends [of ?bs b] validator [OF ok(1)] k(1) by (simp add: kernel_inv_def)
  have w1: "store_inv w1 \<and> chain w1 = ?bs @ [b] \<and> saved w1 = saved (world k)"
    using put_ok [OF _ k(2) lk k(3) put ok(2)] k(1) by (simp add: kernel_inv_def)
  have "length (head_id (advance_snapshot b (snapshot k))) = 32"
    using k(2) by (simp add: advance_snapshot_def block_wf_def)
  then have w2: "store_inv w2 \<and> chain w2 = ?bs @ [b] \<and> saved w2 = Some (advance_snapshot b (snapshot k))"
    using save_ok [OF _ _ save ok(3)] w1 by simp
  have "bootstrapped (advance_snapshot b (snapshot k))"
    by (simp add: advance_snapshot_def)
  then show ?thesis
    using w2 lk k(1,2) erase_committed_inv unfolding kernel_inv_def synced_def k'
    by (simp add: snapshot_of_snoc)
qed

lemma pending_block_wf:
  assumes "kernel_inv store_inv chain k"
  shows "block_wf (pending_block now source k)"
proof -
  have "length (head_id (snapshot_of bs)) = 32" if "list_all block_wf bs" for bs
    using that
    by (cases bs rule: rev_cases) (simp_all add: snapshot_of_fields block_wf_def ChainSnapshot_default_def)
  then show ?thesis
    using assms unfolding kernel_inv_def pending_block_def
    by (auto intro!: block_wf_MakeNext simp: list_all_iff)
qed

lemma commit_pending_ok:
  assumes "kernel_inv store_inv chain k" "room (world k)"
    and "Kernel_CommitPending ops now source k = (st, k')" "status_ok st"
  shows "kernel_inv store_inv chain k' \<and> synced saved k' \<and> pending_transactions k' = []
     \<and> chain (world k') = chain (world k) @ [pending_block now source k]
     \<and> transactions (pending_block now source k) = pending_transactions k"
proof -
  have c: "Kernel_CommitBlock ops (pending_block now source k) k = (st, k')"
    using assms(3,4) by (auto simp: Kernel_CommitPending_def split: if_splits)
  have "transactions (pending_block now source k) = pending_transactions k"
    by (simp add: pending_block_def)
  then show ?thesis
    using commit_block_ok [OF assms(1) pending_block_wf [OF assms(1)] assms(2) c assms(4)]
    by (auto simp: erase_committed_def filter_empty_conv list_ex_iff)
qed

lemma genesis_wf: "block_wf (genesis_block now cfg)"
  unfolding genesis_block_def by (rule block_wf_MakeNext) simp_all

lemma bootstrap_ok:
  assumes k: "kernel_inv store_inv chain k" "synced saved k" "room (world k)"
    and b: "Kernel_Bootstrap ops now k = Inr (st, k')" "status_ok st"
  shows "kernel_inv store_inv chain k' \<and> synced saved k'"
proof (cases "saved (world k)")
  case None
  then have "create_genesis (config k) \<Longrightarrow> Kernel_CommitBlock ops (genesis_block now (config k)) k = (st, k')"
    "\<not> create_genesis (config k) \<Longrightarrow> k' = k"
    using b(1) k(1) by (auto simp: Kernel_Bootstrap_def load_saved kernel_inv_def split: if_splits)
  then show ?thesis
    using commit_block_ok [OF k(1) genesis_wf k(3) _ b(2)] k by (cases "create_genesis (config k)") auto
next
  case (Some s)
  then have "k' = k\<lparr>snapshot := snapshot k\<rparr>"
    using b(1) k(1,2) by (auto simp: Kernel_Bootstrap_def load_saved kernel_inv_def synced_def split: if_splits)
  then show ?thesis using k by simp
qed

text \<open>A new kernel over the same stores takes up the chain where the old one left it.\<close>

lemma restart:
  assumes "kernel_inv store_inv chain k" "synced saved k" "bootstrapped (snapshot k)"
  shows "\<exists>st k'. Kernel_Bootstrap ops now (Kernel_new cfg (world k)) = Inr (st, k') \<and> status_ok st
     \<and> snapshot k' = snapshot k \<and> world k' = world k \<and> kernel_inv store_inv chain k'"
  using assms
  by (auto simp: Kernel_Bootstrap_def Kernel_new_def load_saved kernel_inv_def synced_def)

lemma head_last:
  assumes "kernel_inv store_inv chain k" "chain (world k) \<noteq> []"
  shows "\<exists>b. Kernel_Head ops k = Inr (Some b) \<and> b \<in> set (chain (world k))
     \<and> header_id (header b) = header_id (header (last (chain (world k))))"
  using assms get_block [of "world k" "last (chain (world k))"]
  by (simp add: Kernel_Head_def kernel_inv_def snapshot_of_fields)

end

section \<open>Reachable states\<close>

text \<open>
  The operations a client can call, in any order. Transactions and blocks given by the client have
  identifiers of 32 bytes, which their C++ types enforce.
\<close>

inductive kernel_step :: "'w services \<Rightarrow> 'w Kernel \<Rightarrow> 'w Kernel \<Rightarrow> bool" for ops where
  step_submit: "tx_wf tx \<Longrightarrow> kernel_step ops k (snd (Kernel_SubmitTransaction tx k))"
| step_commit_block: "block_wf b \<Longrightarrow> kernel_step ops k (snd (Kernel_CommitBlock ops b k))"
| step_commit_pending: "kernel_step ops k (snd (Kernel_CommitPending ops now source k))"
| step_bootstrap: "Kernel_Bootstrap ops now k = Inr (st, k') \<Longrightarrow> kernel_step ops k k'"

inductive_cases kernel_stepE: "kernel_step ops k k'"

text \<open>
  Stores that are reliable: saving never fails, and a block that is refused leaves the store as it was.
\<close>

locale reliable_store = chain_store +
  assumes save_succeeds: "Save ops s w = (st, w') \<Longrightarrow> status_ok st"
    and put_refused: "\<lbrakk>PutBlock ops b w = (st, w'); \<not> status_ok st\<rbrakk> \<Longrightarrow> w' = w"
    and always_room: "room w"
begin

lemma commit_block_failed:
  assumes "Kernel_CommitBlock ops b k = (st, k')" "\<not> status_ok st"
  shows "k' = k"
proof -
  obtain st1 w1 where put: "PutBlock ops b (world k) = (st1, w1)" by fastforce
  obtain st2 w2 where save: "Save ops (advance_snapshot b (snapshot k)) w1 = (st2, w2)" by fastforce
  show ?thesis
    using assms put save save_succeeds [OF save] put_refused [OF put]
    by (auto simp: Kernel_CommitBlock_def Let_def split: if_splits)
qed

lemma commit_block_inv:
  assumes "kernel_inv store_inv chain k" "synced saved k" "block_wf b" "Kernel_CommitBlock ops b k = (st, k')"
  shows "kernel_inv store_inv chain k' \<and> synced saved k' \<and> chain (world k') = chain (world k) @ (if status_ok st then [b] else [])"
  using commit_block_ok [OF assms(1,3) always_room assms(4)] commit_block_failed [OF assms(4)] assms(1,2)
  by (cases "status_ok st") auto

lemma step_inv:
  assumes "kernel_step ops k k'" "kernel_inv store_inv chain k" "synced saved k"
  shows "kernel_inv store_inv chain k' \<and> synced saved k'"
  using assms(1)
proof cases
  case (step_submit tx)
  then show ?thesis
    using submit_inv [OF assms(2), of tx "fst (Kernel_SubmitTransaction tx k)" k'] assms(3)
    by (auto simp: synced_def Kernel_SubmitTransaction_def split: if_splits)
next
  case (step_commit_block b)
  then show ?thesis
    using commit_block_inv [OF assms(2,3), of b "fst (Kernel_CommitBlock ops b k)" k'] by simp
next
  case (step_commit_pending now source)
  then show ?thesis
    using commit_block_inv [OF assms(2,3) pending_block_wf [OF assms(2)],
        of now source "fst (Kernel_CommitBlock ops (pending_block now source k) k)" k'] assms(2,3)
    by (auto simp: Kernel_CommitPending_def split: if_splits)
next
  case (step_bootstrap now st)
  then show ?thesis
  proof (cases "status_ok st")
    case False
    then have "Kernel_CommitBlock ops (genesis_block now (config k)) k = (st, k')"
      using step_bootstrap by (auto simp: Kernel_Bootstrap_def rbind_eq_Inr split: option.splits if_splits)
    then show ?thesis
      using commit_block_failed False assms(2,3) by blast
  qed (use bootstrap_ok [OF assms(2,3) always_room] in blast)
qed

lemma reach_inv:
  assumes "rtranclp (kernel_step ops) k0 k" "kernel_inv store_inv chain k0" "synced saved k0"
  shows "kernel_inv store_inv chain k \<and> synced saved k"
  using assms by (induction rule: rtranclp_induct) (auto dest: step_inv)

lemma new_inv:
  assumes "store_inv w" "chain w = []" "saved w = None"
  shows "kernel_inv store_inv chain (Kernel_new cfg w) \<and> synced saved (Kernel_new cfg w)"
  using assms
  by (simp add: kernel_inv_def synced_def Kernel_new_def linked_def ChainSnapshot_default_def
      snapshot_of_def)

end

end
