(* ===== verification/MemoryStore.thy ===== *)
theory MemoryStore
  imports Kernel StdMap
begin

text \<open>
  The in-memory stores of \<open>src/Blocxxi/Storage/in_memory_store.cpp\<close>: a map from hexadecimal
  identifiers to blocks with the order of insertion, and an optional snapshot. They satisfy the
  strongest contract of the kernel, so the kernel's invariant holds in every state reachable over them.
\<close>

record MemoryStore =
  blocks :: "(string, Block) std_map"
  block_order :: "string list"
  stored_snapshot :: "ChainSnapshot option"

definition MemoryStore_new :: MemoryStore where
  "MemoryStore_new = \<lparr>blocks = [], block_order = [], stored_snapshot = None\<rparr>"

definition Memory_PutBlock :: "Block \<Rightarrow> MemoryStore \<Rightarrow> Status \<times> MemoryStore" where
  "Memory_PutBlock block m =
     (let key = Hash_ToHex (header_id (header block)) in
      if map_find (blocks m) key \<noteq> None
      then (Failure Duplicate ''block already exists in memory store'', m)
      else (Success [], m\<lparr>block_order := block_order m @ [key], blocks := map_emplace key block (blocks m)\<rparr>))"

definition Memory_GetBlock :: "hash \<Rightarrow> MemoryStore \<Rightarrow> Block option res" where
  "Memory_GetBlock bid m = Inr (map_find (blocks m) (Hash_ToHex bid))"

definition Memory_GetChain :: "MemoryStore \<Rightarrow> Block list res" where
  "Memory_GetChain m =
     rmap (\<lambda>key. case map_find (blocks m) key of None \<Rightarrow> Inl (OutOfRangeExn ''map::at'') | Some b \<Rightarrow> Inr b)
       (block_order m)"

definition Memory_Save :: "ChainSnapshot \<Rightarrow> MemoryStore \<Rightarrow> Status \<times> MemoryStore" where
  "Memory_Save s m = (Success [], m\<lparr>stored_snapshot := Some s\<rparr>)"

definition Memory_Load :: "MemoryStore \<Rightarrow> ChainSnapshot option res" where
  "Memory_Load m = Inr (stored_snapshot m)"

definition memory_services :: "MemoryStore services" where
  "memory_services = \<lparr>PutBlock = Memory_PutBlock, GetBlock = Memory_GetBlock, GetChain = Memory_GetChain,
     Save = Memory_Save, Load = Memory_Load, Validate = BasicBlockValidator_Validate\<rparr>"

section \<open>Invariant\<close>

definition memory_inv :: "MemoryStore \<Rightarrow> bool" where
  "memory_inv m \<longleftrightarrow> map_wf (blocks m) \<and> distinct (block_order m)
     \<and> (\<forall>key. key \<in> set (block_order m) \<longleftrightarrow> map_find (blocks m) key \<noteq> None)
     \<and> (\<forall>key b. map_find (blocks m) key = Some b \<longrightarrow> Hash_ToHex (header_id (header b)) = key)"

definition memory_chain :: "MemoryStore \<Rightarrow> Block list" where
  "memory_chain m = map (\<lambda>key. the (map_find (blocks m) key)) (block_order m)"

lemma memory_new_inv: "memory_inv MemoryStore_new" "memory_chain MemoryStore_new = []"
  "stored_snapshot MemoryStore_new = None"
  by (simp_all add: memory_inv_def MemoryStore_new_def memory_chain_def map_find_def)

lemma memory_put:
  assumes "memory_inv m" "Memory_PutBlock b m = (st, m')" "status_ok st"
  shows "memory_inv m' \<and> memory_chain m' = memory_chain m @ [b] \<and> stored_snapshot m' = stored_snapshot m"
proof -
  let ?key = "Hash_ToHex (header_id (header b))"
  have new: "map_find (blocks m) ?key = None"
    and m': "m' = m\<lparr>block_order := block_order m @ [?key], blocks := map_emplace ?key b (blocks m)\<rparr>"
    using assms(2,3) by (auto simp: Memory_PutBlock_def Let_def split: if_splits)
  have find: "map_find (blocks m') key = (if key = ?key then Some b else map_find (blocks m) key)" for key
    using assms(1) new by (simp add: m' memory_inv_def smap_simps)
  have notin: "?key \<notin> set (block_order m)"
    using assms(1) new by (simp add: memory_inv_def)
  then have "memory_chain m' = memory_chain m @ [b]"
    unfolding memory_chain_def find by (auto simp: m')
  moreover have "map_wf (blocks m')"
    using assms(1) by (simp add: m' memory_inv_def smap_simps)
  ultimately show ?thesis
    using assms(1) notin unfolding memory_inv_def find by (auto simp: m')
qed

lemma memory_get:
  assumes "memory_inv m"
  shows "Memory_GetBlock bid m = Inr (find (\<lambda>b. header_id (header b) = bid) (memory_chain m))"
proof (cases "map_find (blocks m) (Hash_ToHex bid)")
  case None
  have "header_id (header b) \<noteq> bid" if "b \<in> set (memory_chain m)" for b
    using that assms None by (auto simp: memory_chain_def memory_inv_def)
  then show ?thesis
    using None by (auto simp: Memory_GetBlock_def find_None_iff eq_commute [of None])
next
  case (Some b)
  then have b: "header_id (header b) = bid"
    using assms by (force simp: memory_inv_def)
  have unique: "c = b" if "c \<in> set (memory_chain m)" "header_id (header c) = bid" for c
    using that assms Some by (auto simp: memory_chain_def memory_inv_def)
  have "b \<in> set (memory_chain m)"
    using Some assms by (force simp: memory_chain_def memory_inv_def)
  then have "find (\<lambda>b. header_id (header b) = bid) (memory_chain m) = Some b"
    using unique b by (metis (mono_tags, lifting) find_None_iff find_Some_iff nth_mem option.exhaust)
  then show ?thesis
    using Some by (simp add: Memory_GetBlock_def)
qed

lemma memory_get_chain: "memory_inv m \<Longrightarrow> Memory_GetChain m = Inr (memory_chain m)"
  unfolding Memory_GetChain_def memory_chain_def
  by (rule rmap_Inr) (auto simp: memory_inv_def)

interpretation mem: reliable_store memory_services memory_inv memory_chain stored_snapshot "\<lambda>_. True"
proof
  fix w :: MemoryStore and b assume w: "memory_inv w" "b \<in> set (memory_chain w)"
  then obtain b' where b': "find (\<lambda>c. header_id (header c) = header_id (header b)) (memory_chain w) = Some b'"
    by (metis (mono_tags, lifting) find_None_iff option.exhaust)
  then have "b' \<in> set (memory_chain w)" "header_id (header b') = header_id (header b)"
    by (auto simp: find_Some_iff)
  then show "\<exists>b'. GetBlock memory_services (header_id (header b)) w = Inr (Some b') \<and> b' \<in> set (memory_chain w)
      \<and> header_id (header b') = header_id (header b)"
    using memory_get [OF w(1)] b' by (simp add: memory_services_def)
next
  fix w w' :: MemoryStore and b st
  assume "memory_inv w" "PutBlock memory_services b w = (st, w')" "status_ok st"
  then show "memory_inv w' \<and> memory_chain w' = memory_chain w @ [b] \<and> stored_snapshot w' = stored_snapshot w"
    using memory_put [of w b st w'] by (simp add: memory_services_def)
next
  fix w w' :: MemoryStore and s st
  assume "memory_inv w" "Save memory_services s w = (st, w')"
  then show "memory_inv w' \<and> memory_chain w' = memory_chain w \<and> stored_snapshot w' = Some s"
    by (auto simp: memory_services_def Memory_Save_def memory_inv_def memory_chain_def)
qed (auto simp: memory_services_def Memory_Load_def Memory_Save_def Memory_PutBlock_def Let_def
      split: if_splits)

section \<open>Properties\<close>

text \<open>
  C2: in every state of a kernel over the in-memory stores that is reachable from a new kernel by any
  sequence of bootstrapping, submitting and committing, successful or not, the chain returned by
  \<open>Chain()\<close> is linked (heights count up from 0, each block names its predecessor), the snapshot
  counts its blocks and transactions and names its last block, the stored snapshot is the current
  one, and pending transactions have distinct identifiers.
\<close>

theorem kernel_reachable_inv:
  assumes "rtranclp (kernel_step memory_services) (Kernel_new cfg MemoryStore_new) k"
  shows "\<exists>bs. Kernel_Chain memory_services k = Inr bs \<and> linked bs \<and> snapshot k = snapshot_of bs
    \<and> synced stored_snapshot k \<and> distinct (map tx_id (pending_transactions k))"
  using mem.reach_inv [OF assms] mem.new_inv [of MemoryStore_new cfg] memory_new_inv
  by (auto simp: kernel_inv_def Kernel_Chain_def memory_services_def memory_get_chain)

theorem kernel_reachable_inv_witness:
  "\<exists>k bs. rtranclp (kernel_step memory_services) (Kernel_new ChainConfig_default MemoryStore_new) k
    \<and> Kernel_Chain memory_services k = Inr bs \<and> linked bs \<and> bs \<noteq> []"
proof -
  define k where "k = snd (Kernel_CommitBlock memory_services (genesis_block 0 ChainConfig_default)
      (Kernel_new ChainConfig_default MemoryStore_new))"
  have r: "rtranclp (kernel_step memory_services) (Kernel_new ChainConfig_default MemoryStore_new) k"
    unfolding k_def by (intro r_into_rtranclp step_commit_block mem.genesis_wf)
  obtain bs where bs: "Kernel_Chain memory_services k = Inr bs" "linked bs"
    using kernel_reachable_inv [OF r] by blast
  have "Kernel_Chain memory_services k = Inr [genesis_block 0 ChainConfig_default]"
    by (simp add: k_def Kernel_CommitBlock_def memory_services_def BasicBlockValidator_Validate_def
        genesis_block_def Kernel_new_def ChainSnapshot_default_def Memory_PutBlock_def MemoryStore_new_def
        map_find_def Memory_Save_def Kernel_Chain_def Memory_GetChain_def Let_def)
  with r bs show ?thesis by auto
qed

text \<open>
  C5: \<open>CommitPending\<close> over the in-memory stores, from a state that satisfies the invariant: when
  it reports success, the chain grows by exactly one block, which holds exactly the transactions that
  were pending, and nothing is pending afterwards; when it reports a failure, kernel and stores are
  unchanged. It fails only if nothing is pending, the source is empty, or the identifier of the new
  block is already taken.
\<close>

theorem commit_pending_effect:
  assumes "kernel_inv memory_inv memory_chain k"
    and "Kernel_CommitPending memory_services now source k = (st, k')"
  shows "(status_ok st \<longrightarrow> pending_transactions k' = []
      \<and> memory_chain (world k') = memory_chain (world k) @ [pending_block now source k]
      \<and> transactions (pending_block now source k) = pending_transactions k
      \<and> kernel_inv memory_inv memory_chain k')
    \<and> (\<not> status_ok st \<longrightarrow> k' = k)
    \<and> (status_ok st \<longleftrightarrow> pending_transactions k \<noteq> [] \<and> source \<noteq> []
        \<and> header_id (header (pending_block now source k)) \<notin> set (map (header_id \<circ> header) (memory_chain (world k))))"
proof -
  let ?b = "pending_block now source k"
  have "memory_inv (world k)" using assms(1) by (simp add: kernel_inv_def)
  then have free: "map_find (blocks (world k)) (Hash_ToHex (header_id (header ?b))) = None \<longleftrightarrow>
      header_id (header ?b) \<notin> set (map (header_id \<circ> header) (memory_chain (world k)))"
    using memory_get [of "world k" "header_id (header ?b)"]
    by (simp add: Memory_GetBlock_def find_None_iff image_iff) metis
  have v: "status_ok (BasicBlockValidator_Validate ?b (snapshot k)) \<longleftrightarrow> source \<noteq> []"
    if "pending_transactions k \<noteq> []"
    using that assms(1) by (auto simp: BasicBlockValidator_Validate_def pending_block_def kernel_inv_def snapshot_of_fields)
  have "status_ok st \<longleftrightarrow> pending_transactions k \<noteq> [] \<and> source \<noteq> []
      \<and> map_find (blocks (world k)) (Hash_ToHex (header_id (header ?b))) = None"
    using assms(2) v
    by (auto simp: Kernel_CommitPending_def Kernel_CommitBlock_def memory_services_def Memory_PutBlock_def
        Memory_Save_def Let_def split: if_splits)
  moreover have "k' = k" if "\<not> status_ok st"
    using mem.commit_block_failed [of ?b k st k'] assms(2) that
    by (auto simp: Kernel_CommitPending_def split: if_splits)
  ultimately show ?thesis
    using mem.commit_pending_ok [OF assms(1) TrueI assms(2)] free by blast
qed

definition sample_kernel :: "MemoryStore Kernel" where
  "sample_kernel = snd (Kernel_SubmitTransaction (Transaction_FromText ''t'' ''p'' [])
     (Kernel_new ChainConfig_default MemoryStore_new))"

theorem commit_pending_effect_witness:
  "\<exists>k'. Kernel_CommitPending memory_services 0 ''local'' sample_kernel = (Success [], k')
    \<and> pending_transactions k' = []
    \<and> memory_chain (world k') = [pending_block 0 ''local'' sample_kernel]"
proof -
  have new: "kernel_inv memory_inv memory_chain (Kernel_new ChainConfig_default MemoryStore_new)"
    using mem.new_inv [of MemoryStore_new ChainConfig_default] memory_new_inv by simp
  have i: "kernel_inv memory_inv memory_chain sample_kernel"
    using mem.submit_inv [OF new tx_wf_FromText prod.collapse [symmetric]] by (simp add: sample_kernel_def)
  have w: "world sample_kernel = MemoryStore_new" "pending_transactions sample_kernel \<noteq> []"
    by (simp_all add: sample_kernel_def Kernel_SubmitTransaction_def Kernel_new_def Transaction_FromText_def ToBytes_def)
  obtain st k' where c: "Kernel_CommitPending memory_services 0 ''local'' sample_kernel = (st, k')"
    by fastforce
  have ok: "status_ok st"
    using commit_pending_effect [OF i c] w by (simp add: memory_new_inv)
  then have "st = Success []"
    using c by (auto simp: Kernel_CommitPending_def Kernel_CommitBlock_def Let_def split: if_splits prod.splits)
  then show ?thesis
    using commit_pending_effect [OF i c] ok c w by (simp add: memory_new_inv)
qed

end
