(* ===== verification/FileStore.thy ===== *)
theory FileStore
  imports Kernel "HOL-Library.List_Lexorder" "HOL-Library.Char_ord" "HOL-Library.Multiset"
begin

text \<open>
  The file stores of \<open>src/Blocxxi/Storage/file_store.cpp\<close>: one text file per block under
  \<open>blocks/\<close> and one text file for the snapshot. The file system is explicit: the regular files of
  the block directory in the order the directory iterator yields them, and the snapshot file. A field
  says what goes wrong with the next write, if anything; the environment may set it between operations.
\<close>

section \<open>The file system\<close>

datatype IoFault =
    NoFault
  | MkdirFails
  | OpenFails
  | WriteFails nat \<comment> \<open>the stream fails after so many characters, and reports it\<close>
  | FlushFails nat \<comment> \<open>the buffer is lost after so many characters when the stream is closed\<close>

record FileSystem =
  blocks_dir :: bool
  block_files :: "(string \<times> string) list"
  snapshot_file :: "string option"
  fault :: IoFault

definition FileSystem_new :: FileSystem where
  "FileSystem_new = \<lparr>blocks_dir = False, block_files = [], snapshot_file = None, fault = NoFault\<rparr>"

text \<open>\<open>std::ofstream(path, trunc)\<close>: the result of \<open>good()\<close> before closing, and what the file holds after.\<close>

definition stream_out :: "IoFault \<Rightarrow> string \<Rightarrow> bool \<times> string" where
  "stream_out f text =
     (case f of WriteFails n \<Rightarrow> (False, take n text) | FlushFails n \<Rightarrow> (True, take n text) | _ \<Rightarrow> (True, text))"

fun file_put :: "string \<Rightarrow> string \<Rightarrow> (string \<times> string) list \<Rightarrow> (string \<times> string) list" where
  "file_put name text [] = [(name, text)]"
| "file_put name text ((n, t) # fs) = (if n = name then (name, text) # fs else (n, t) # file_put name text fs)"

text \<open>\<open>std::getline\<close> until the stream ends.\<close>

fun getlines :: "string \<Rightarrow> string \<Rightarrow> string list" where
  "getlines cur [] = (if cur = [] then [] else [cur])"
| "getlines cur (c # cs) = (if c = CHR 0x0A then cur # getlines [] cs else getlines (cur @ [c]) cs)"

section \<open>Text forms\<close>

definition EncodeString :: "string \<Rightarrow> string" where
  "EncodeString text = hex_Encode (map byte_of_char text) False True"

definition DecodeString :: "string \<Rightarrow> string res" where
  "DecodeString hex_value =
     (let bytes = replicate (length hex_value div 2) 0 in
      rbind (if hex_value \<noteq> [] then hex_Decode hex_value bytes False else Inr bytes)
        (\<lambda>bytes. Inr (map char_of_byte bytes)))"

definition block_file_name :: "Block \<Rightarrow> string" where
  "block_file_name block =
     show_nat (unat (header_height (header block))) @ ''-'' @ Hash_ToHex (header_id (header block)) @ ''.blk''"

definition ParseLine :: "string \<Rightarrow> string \<times> string" where
  "ParseLine line =
     (if CHR ''='' \<notin> set line then (line, [])
      else (takeWhile (\<lambda>c. c \<noteq> CHR ''='') line, tl (dropWhile (\<lambda>c. c \<noteq> CHR ''='') line)))"

fun split_parts :: "string \<Rightarrow> string \<Rightarrow> string list" where
  "split_parts cur [] = [cur]"
| "split_parts cur (c # cs) = (if c = CHR ''|'' then cur # split_parts [] cs else split_parts (cur @ [c]) cs)"

text \<open>The index \<open>parts[i]\<close> of a vector; out of range it is undefined behaviour.\<close>

definition part :: "string list \<Rightarrow> nat \<Rightarrow> string res" where
  "part parts i = (if i < length parts then Inr (parts ! i) else Inl UndefinedBehaviour)"

definition ParseTransaction :: "string \<Rightarrow> Transaction res" where
  "ParseTransaction line =
     (let parts = split_parts [] line in
      rbind (part parts 2) (\<lambda>p2.
      rbind (let payload = replicate (length p2 div 2) 0 in
             if p2 \<noteq> [] then hex_Decode p2 payload False else Inr payload) (\<lambda>payload.
      rbind (part parts 0) (\<lambda>p0. rbind (Hash_FromHex 256 p0 False) (\<lambda>tid.
      rbind (part parts 1) (\<lambda>p1. rbind (DecodeString p1) (\<lambda>type.
      rbind (part parts 3) (\<lambda>p3. rbind (DecodeString p3) (\<lambda>meta.
        Inr \<lparr>tx_id = tid, tx_type = type, tx_payload = payload, tx_metadata = meta\<rparr>)))))))))"

definition set_header :: "(BlockHeader \<Rightarrow> BlockHeader) \<Rightarrow> Block \<Rightarrow> Block" where
  "set_header f b = b\<lparr>header := f (header b)\<rparr>"

definition read_block_line :: "string \<Rightarrow> Block \<Rightarrow> Block res" where
  "read_block_line line block =
     (if line = [] then Inr block
      else let (key, text) = ParseLine line in
        if key = ''id'' then rbind (Hash_FromHex 256 text False) (\<lambda>h. Inr (set_header (\<lambda>d. d\<lparr>header_id := h\<rparr>) block))
        else if key = ''previous'' then rbind (Hash_FromHex 256 text False) (\<lambda>h. Inr (set_header (\<lambda>d. d\<lparr>previous_id := h\<rparr>) block))
        else if key = ''height'' then rbind (std_stoull text) (\<lambda>n. Inr (set_header (\<lambda>d. d\<lparr>header_height := n\<rparr>) block))
        else if key = ''timestamp'' then rbind (std_stoll text) (\<lambda>n. Inr (set_header (\<lambda>d. d\<lparr>timestamp_utc := n\<rparr>) block))
        else if key = ''source'' then rbind (DecodeString text) (\<lambda>s. Inr (set_header (\<lambda>d. d\<lparr>header_source := s\<rparr>) block))
        else if key = ''tx'' then rbind (ParseTransaction text) (\<lambda>t. Inr (block\<lparr>transactions := transactions block @ [t]\<rparr>))
        else Inr block)"

fun read_lines :: "(string \<Rightarrow> 'a \<Rightarrow> 'a res) \<Rightarrow> string list \<Rightarrow> 'a \<Rightarrow> 'a res" where
  "read_lines f [] x = Inr x"
| "read_lines f (l # ls) x = rbind (f l x) (read_lines f ls)"

text \<open>\<open>ReadBlock\<close> on a file with the given contents.\<close>

definition ReadBlock :: "string \<Rightarrow> Block res" where
  "ReadBlock text = read_lines read_block_line (getlines [] text) Block_default"

definition tx_line :: "Transaction \<Rightarrow> string" where
  "tx_line tx = ''tx='' @ Hash_ToHex (tx_id tx) @ ''|'' @ EncodeString (tx_type tx) @ ''|''
     @ hex_Encode (tx_payload tx) False True @ ''|'' @ EncodeString (tx_metadata tx) @ [CHR 0x0A]"

definition block_text :: "Block \<Rightarrow> string" where
  "block_text b =
     ''id='' @ Hash_ToHex (header_id (header b)) @ [CHR 0x0A]
     @ ''previous='' @ Hash_ToHex (previous_id (header b)) @ [CHR 0x0A]
     @ ''height='' @ show_nat (unat (header_height (header b))) @ [CHR 0x0A]
     @ ''timestamp='' @ show_int (sint (timestamp_utc (header b))) @ [CHR 0x0A]
     @ ''source='' @ EncodeString (header_source (header b)) @ [CHR 0x0A]
     @ concat (map tx_line (transactions b))"

definition snapshot_text :: "ChainSnapshot \<Rightarrow> string" where
  "snapshot_text s =
     ''height='' @ show_nat (unat (snap_height s)) @ [CHR 0x0A]
     @ ''head='' @ Hash_ToHex (head_id s) @ [CHR 0x0A]
     @ ''block_count='' @ show_nat (unat (block_count s)) @ [CHR 0x0A]
     @ ''accepted_transactions='' @ show_nat (unat (accepted_transactions s)) @ [CHR 0x0A]
     @ ''bootstrapped='' @ (if bootstrapped s then ''1'' else ''0'') @ [CHR 0x0A]"

definition read_snapshot_line :: "string \<Rightarrow> ChainSnapshot \<Rightarrow> ChainSnapshot res" where
  "read_snapshot_line line s =
     (let (key, text) = ParseLine line in
      if key = ''height'' then rbind (std_stoull text) (\<lambda>n. Inr (s\<lparr>snap_height := n\<rparr>))
      else if key = ''head'' then rbind (Hash_FromHex 256 text False) (\<lambda>h. Inr (s\<lparr>head_id := h\<rparr>))
      else if key = ''block_count'' then rbind (std_stoull text) (\<lambda>n. Inr (s\<lparr>block_count := n\<rparr>))
      else if key = ''accepted_transactions'' then rbind (std_stoull text) (\<lambda>n. Inr (s\<lparr>accepted_transactions := n\<rparr>))
      else if key = ''bootstrapped'' then Inr (s\<lparr>bootstrapped := (text = ''1'')\<rparr>)
      else Inr s)"

definition ReadSnapshot :: "string \<Rightarrow> ChainSnapshot res" where
  "ReadSnapshot text = read_lines read_snapshot_line (getlines [] text) ChainSnapshot_default"

section \<open>Store operations\<close>

definition File_PutBlock :: "Block \<Rightarrow> FileSystem \<Rightarrow> Status \<times> FileSystem" where
  "File_PutBlock block fs =
     (if fault fs = MkdirFails then (Failure IOError ''failed to create block store directory'', fs)
      else
        let fs = fs\<lparr>blocks_dir := True\<rparr> in
        if fault fs = OpenFails then (Failure IOError ''failed to open block file for writing'', fs)
        else
          let (good, text) = stream_out (fault fs) (block_text block);
              fs = fs\<lparr>block_files := file_put (block_file_name block) text (block_files fs)\<rparr> in
          if \<not> good then (Failure IOError ''failed to persist block contents'', fs)
          else (Success [], fs))"

fun find_block :: "hash \<Rightarrow> (string \<times> string) list \<Rightarrow> Block option res" where
  "find_block bid [] = Inr None"
| "find_block bid ((n, t) # files) =
     rbind (ReadBlock t) (\<lambda>b. if Hash_eq (header_id (header b)) bid then Inr (Some b) else find_block bid files)"

definition File_GetBlock :: "hash \<Rightarrow> FileSystem \<Rightarrow> Block option res" where
  "File_GetBlock bid fs = (if \<not> blocks_dir fs then Inr None else find_block bid (block_files fs))"

definition File_GetChain :: "FileSystem \<Rightarrow> Block list res" where
  "File_GetChain fs =
     (if \<not> blocks_dir fs then Inr []
      else rmap (\<lambda>(n, t). ReadBlock t) (sort_key fst (block_files fs)))"

definition File_Save :: "ChainSnapshot \<Rightarrow> FileSystem \<Rightarrow> Status \<times> FileSystem" where
  "File_Save s fs =
     (if fault fs = MkdirFails then (Failure IOError ''failed to create snapshot directory'', fs)
      else if fault fs = OpenFails then (Failure IOError ''failed to open snapshot file for writing'', fs)
      else
        let (good, text) = stream_out (fault fs) (snapshot_text s); fs = fs\<lparr>snapshot_file := Some text\<rparr> in
        if good then (Success [], fs) else (Failure IOError ''failed to persist snapshot contents'', fs))"

definition File_Load :: "FileSystem \<Rightarrow> ChainSnapshot option res" where
  "File_Load fs =
     (case snapshot_file fs of None \<Rightarrow> Inr None
      | Some text \<Rightarrow> rbind (ReadSnapshot text) (\<lambda>s. Inr (Some s)))"

definition file_services :: "FileSystem services" where
  "file_services = \<lparr>PutBlock = File_PutBlock, GetBlock = File_GetBlock, GetChain = File_GetChain,
     Save = File_Save, Load = File_Load, Validate = BasicBlockValidator_Validate\<rparr>"

section \<open>Reading back what was written\<close>

named_theorems line_simps

lemma getlines_line [line_simps]:
  "CHR 0x0A \<notin> set l \<Longrightarrow> getlines cur (l @ CHR 0x0A # rest) = (cur @ l) # getlines [] rest"
  by (induction l arbitrary: cur) auto

lemmas [line_simps] = stoull_show stoll_show

lemma hex_text_set [line_simps]:
  "CHR 0x0A \<notin> set (hex_Encode bs False True)" "CHR ''|'' \<notin> set (hex_Encode bs False True)"
  "CHR 0x0A \<notin> set (Hash_ToHex bs)" "CHR ''|'' \<notin> set (Hash_ToHex bs)"
  "CHR 0x0A \<notin> set (EncodeString t)" "CHR ''|'' \<notin> set (EncodeString t)"
  using set_hex_Encode [of _ _ False True]
  by (auto simp: Hash_ToHex_def EncodeString_def alphabet_def ALPHABET_LC_def)

lemma number_text_set [line_simps]: "CHR 0x0A \<notin> set (show_nat n)" "CHR 0x0A \<notin> set (show_int i)"
  using show_nat_set [of "CHR 0x0A" n] show_int_set [of "CHR 0x0A" i] by auto

lemma hex_bytes_back [line_simps]:
  "hex_Encode bs False True = [] \<longleftrightarrow> bs = []"
  "hex_Decode (hex_Encode bs False True) (replicate (length bs) 0) False = Inr bs"
proof -
  show "hex_Encode bs False True = [] \<longleftrightarrow> bs = []"
    using length_hex_Encode [of bs False True] by (metis length_0_conv mult_eq_0_iff zero_neq_numeral)
  show "hex_Decode (hex_Encode bs False True) (replicate (length bs) 0) False = Inr bs"
    using hex_Decode_Encode [of bs "replicate (length bs) 0" False True] by simp
qed

lemma DecodeString_EncodeString [line_simps]: "DecodeString (EncodeString t) = Inr t"
  using hex_bytes_back [of "map byte_of_char t"] by (simp add: DecodeString_def EncodeString_def Let_def)

lemma FromHex_ToHex_256 [line_simps]: "length h = 32 \<Longrightarrow> Hash_FromHex 256 (Hash_ToHex h) False = Inr h"
  by (rule Hash_FromHex_ToHex) (simp add: Hash_Size_def)

lemma split_parts_bar [line_simps]:
  "CHR ''|'' \<notin> set l \<Longrightarrow> split_parts cur (l @ CHR ''|'' # rest) = (cur @ l) # split_parts [] rest"
  "CHR ''|'' \<notin> set l \<Longrightarrow> split_parts cur l = [cur @ l]"
  by (induction l arbitrary: cur) auto

lemma ParseTransaction_line:
  assumes "tx_wf tx"
  shows "ParseTransaction (Hash_ToHex (tx_id tx) @ ''|'' @ EncodeString (tx_type tx) @ ''|''
     @ hex_Encode (tx_payload tx) False True @ ''|'' @ EncodeString (tx_metadata tx)) = Inr tx"
  using assms unfolding ParseTransaction_def Let_def
  by (simp add: line_simps part_def tx_wf_def)

lemma ParseLine_key:
  "CHR ''='' \<notin> set key \<Longrightarrow> ParseLine (key @ CHR ''='' # text) = (key, text)"
  by (induction key) (auto simp: ParseLine_def)

lemmas ParseLine_keys [line_simps] =
  ParseLine_key [of "''id''", simplified] ParseLine_key [of "''previous''", simplified]
  ParseLine_key [of "''height''", simplified] ParseLine_key [of "''timestamp''", simplified]
  ParseLine_key [of "''source''", simplified] ParseLine_key [of "''tx''", simplified]
  ParseLine_key [of "''head''", simplified] ParseLine_key [of "''block_count''", simplified]
  ParseLine_key [of "''accepted_transactions''", simplified] ParseLine_key [of "''bootstrapped''", simplified]

text \<open>A line that begins with a fixed key.\<close>

lemma getlines_key [line_simps]:
  "c \<noteq> CHR 0x0A \<Longrightarrow> getlines cur (c # cs) = getlines (cur @ [c]) cs"
  by simp

lemma tx_lines:
  assumes "list_all tx_wf txs"
  shows "read_lines read_block_line (getlines [] (concat (map tx_line txs))) b
    = Inr (b\<lparr>transactions := transactions b @ txs\<rparr>)"
  using assms
proof (induction txs arbitrary: b)
  case (Cons tx txs)
  let ?l = "Hash_ToHex (tx_id tx) @ ''|'' @ EncodeString (tx_type tx) @ ''|''
     @ hex_Encode (tx_payload tx) False True @ ''|'' @ EncodeString (tx_metadata tx)"
  have n: "CHR 0x0A \<notin> set (''tx='' @ ?l)" by (simp add: line_simps)
  have t: "tx_line tx = (''tx='' @ ?l) @ [CHR 0x0A]" by (simp add: tx_line_def)
  have "getlines [] (concat (map tx_line (tx # txs))) = (''tx='' @ ?l) # getlines [] (concat (map tx_line txs))"
    using getlines_line [OF n, of "[]" "concat (map tx_line txs)"] by (simp only: t list.map concat.simps append_assoc append_Cons append_Nil)
  moreover have "read_block_line (''tx='' @ ?l) b = Inr (b\<lparr>transactions := transactions b @ [tx]\<rparr>)"
    using ParseTransaction_line [of tx] Cons(2) by (simp add: read_block_line_def line_simps)
  ultimately show ?case
    using Cons by simp
qed simp

lemma ReadBlock_text:
  assumes "block_wf b"
  shows "ReadBlock (block_text b) = Inr b"
proof -
  have "ReadBlock (block_text b) = read_lines read_block_line (getlines [] (concat (map tx_line (transactions b))))
      \<lparr>header = header b, transactions = []\<rparr>"
    using assms unfolding ReadBlock_def block_text_def
    by (cases "header b") (simp add: line_simps read_block_line_def set_header_def Block_default_def BlockHeader_default_def
        block_wf_def)
  then show ?thesis
    using assms tx_lines [of "transactions b"] by (simp add: block_wf_def)
qed

lemma ReadSnapshot_text:
  assumes "length (head_id s) = 32"
  shows "ReadSnapshot (snapshot_text s) = Inr s"
  using assms unfolding ReadSnapshot_def snapshot_text_def
  by (cases "bootstrapped s") (simp_all add: line_simps read_snapshot_line_def)

section \<open>The contract of the kernel\<close>

definition block_entry :: "Block \<Rightarrow> string \<times> string" where
  "block_entry b = (block_file_name b, block_text b)"

text \<open>The blocks of the directory and the snapshot, as the reading routines see them.\<close>

definition file_chain :: "FileSystem \<Rightarrow> Block list" where
  "file_chain fs = map (\<lambda>(n, t). projr (ReadBlock t)) (block_files fs)"

definition file_saved :: "FileSystem \<Rightarrow> ChainSnapshot option" where
  "file_saved fs = map_option (\<lambda>t. projr (ReadSnapshot t)) (snapshot_file fs)"

definition file_room :: "FileSystem \<Rightarrow> bool" where
  "file_room fs \<longleftrightarrow> length (block_files fs) < 2 ^ 64"

text \<open>
  The directory holds block files only, each written completely and under its name, and the snapshot
  file, if there is one, was written completely. Errors of a flush after \<open>good()\<close> are excluded.
\<close>

definition file_inv :: "FileSystem \<Rightarrow> bool" where
  "file_inv fs \<longleftrightarrow>
     list_all block_wf (file_chain fs) \<and> block_files fs = map block_entry (file_chain fs)
     \<and> distinct (map fst (block_files fs))
     \<and> (block_files fs \<noteq> [] \<longrightarrow> blocks_dir fs)
     \<and> (\<forall>t. snapshot_file fs = Some t \<longrightarrow>
          (\<exists>s. file_saved fs = Some s \<and> length (head_id s) = 32 \<and> t = snapshot_text s))
     \<and> (\<forall>n. fault fs \<noteq> FlushFails n)"

lemma file_put_new: "name \<notin> fst ` set fs \<Longrightarrow> file_put name text fs = fs @ [(name, text)]"
  by (induction fs) auto

lemma file_name_height: "block_file_name b = block_file_name c \<Longrightarrow> header_height (header b) = header_height (header c)"
proof -
  have d: "CHR ''-'' \<notin> set (show_nat n)" for n
    using show_nat_set [of "CHR ''-''" n] by auto
  have "takeWhile (\<lambda>c. c \<noteq> CHR ''-'') (block_file_name x) = show_nat (unat (header_height (header x)))" for x
    unfolding block_file_name_def by (subst takeWhile_append2) (use d in auto)
  then show "block_file_name b = block_file_name c \<Longrightarrow> ?thesis"
    by (metis show_nat_inj word_unat_eq_iff)
qed

lemma file_name_fresh:
  assumes "linked (bs @ [b])" "length bs < 2 ^ 64"
  shows "block_file_name b \<notin> block_file_name ` set bs"
proof
  assume "block_file_name b \<in> block_file_name ` set bs"
  then obtain c where "c \<in> set bs" "header_height (header b) = header_height (header c)"
    by (auto dest: file_name_height)
  moreover have "distinct (map (header_height \<circ> header) (bs @ [b]))"
    using assms by (intro linked_heights_distinct) simp_all
  ultimately show False by (auto simp: image_iff)
qed

lemma file_put_ok:
  assumes fs: "file_inv fs" "block_wf b" "linked (file_chain fs @ [b])" "file_room fs"
    and p: "File_PutBlock b fs = (st, fs')" "status_ok st"
  shows "file_inv fs' \<and> file_chain fs' = file_chain fs @ [b] \<and> file_saved fs' = file_saved fs"
proof -
  have so: "stream_out (fault fs) t = (g, t') \<Longrightarrow> g \<Longrightarrow> t' = t" for t g t'
    using fs(1) by (auto simp: stream_out_def file_inv_def split: IoFault.splits)
  have "fs' = fs\<lparr>blocks_dir := True, block_files := file_put (block_file_name b) (block_text b) (block_files fs)\<rparr>"
    using p by (auto simp: File_PutBlock_def Let_def split: if_splits prod.splits dest: so)
  moreover have "block_file_name b \<notin> fst ` set (block_files fs)"
  proof -
    have "fst ` set (block_files fs) = block_file_name ` set (file_chain fs)"
      using fs(1) by (auto simp: file_inv_def block_entry_def image_image)
    then show ?thesis
      using file_name_fresh [OF fs(3)] fs(4) by (simp add: file_room_def file_chain_def)
  qed
  ultimately have fs': "fs' = fs\<lparr>blocks_dir := True, block_files := block_files fs @ [block_entry b]\<rparr>"
    and fresh: "block_file_name b \<notin> fst ` set (block_files fs)"
    by (simp_all add: file_put_new block_entry_def)
  have c: "file_chain fs' = file_chain fs @ [b]"
    by (simp add: fs' file_chain_def block_entry_def ReadBlock_text [OF fs(2)])
  have e: "map block_entry (file_chain fs) = block_files fs" "distinct (map fst (block_files fs))"
    using fs(1) unfolding file_inv_def by metis+
  have "distinct (map fst (block_files fs @ [block_entry b]))"
    using e(2) fresh by (simp add: block_entry_def)
  moreover have "file_saved fs' = file_saved fs"
    by (simp add: fs' file_saved_def)
  moreover have "list_all block_wf (file_chain fs)" "\<forall>n. fault fs \<noteq> FlushFails n"
    "\<forall>t. snapshot_file fs = Some t \<longrightarrow>
      (\<exists>s. file_saved fs = Some s \<and> length (head_id s) = 32 \<and> t = snapshot_text s)"
    using fs(1) unfolding file_inv_def by metis+
  ultimately show ?thesis
    using fs(2) unfolding file_inv_def c by (simp add: e(1) fs')
qed

lemma file_find:
  "list_all block_wf bs \<Longrightarrow>
   find_block bid (map block_entry bs) = Inr (find (\<lambda>b. header_id (header b) = bid) bs)"
  by (induction bs) (auto simp: block_entry_def ReadBlock_text)

lemma file_save_ok:
  assumes "file_inv fs" "length (head_id s) = 32" "File_Save s fs = (st, fs')" "status_ok st"
  shows "file_inv fs' \<and> file_chain fs' = file_chain fs \<and> file_saved fs' = Some s"
proof -
  have so: "stream_out (fault fs) t = (g, t') \<Longrightarrow> g \<Longrightarrow> t' = t" for t g t'
    using assms(1) by (auto simp: stream_out_def file_inv_def split: IoFault.splits)
  have "fs' = fs\<lparr>snapshot_file := Some (snapshot_text s)\<rparr>"
    using assms(3,4) by (auto simp: File_Save_def Let_def split: if_splits prod.splits dest: so)
  then show ?thesis
    using assms(1,2) by (auto simp: file_inv_def file_chain_def file_saved_def ReadSnapshot_text)
qed

lemma file_load:
  assumes "file_inv fs"
  shows "File_Load fs = Inr (file_saved fs)"
proof (cases "snapshot_file fs")
  case (Some t)
  then obtain s where s: "file_saved fs = Some s" "length (head_id s) = 32" "t = snapshot_text s"
    using assms by (auto simp: file_inv_def)
  then show ?thesis
    using Some by (simp add: File_Load_def ReadSnapshot_text)
qed (simp add: File_Load_def file_saved_def)

lemma file_get_block:
  assumes "file_inv w"
  shows "File_GetBlock bid w = Inr (find (\<lambda>b. header_id (header b) = bid) (file_chain w))"
proof (cases "blocks_dir w")
  case True
  then have "File_GetBlock bid w = find_block bid (map block_entry (file_chain w))"
    using assms by (simp add: File_GetBlock_def file_inv_def)
  then show ?thesis
    using assms by (simp add: file_find file_inv_def)
next
  case False
  then show ?thesis
    using assms by (auto simp: File_GetBlock_def file_inv_def file_chain_def)
qed

interpretation fstore: chain_store file_services file_inv file_chain file_saved file_room
proof
  fix w :: FileSystem and b assume w: "file_inv w" "b \<in> set (file_chain w)"
  then have g: "File_GetBlock bid w = Inr (find (\<lambda>b. header_id (header b) = bid) (file_chain w))" for bid
    using file_get_block by blast
  obtain b' where b': "find (\<lambda>c. header_id (header c) = header_id (header b)) (file_chain w) = Some b'"
    using w(2) by (metis (mono_tags, lifting) find_None_iff option.exhaust)
  then have "b' \<in> set (file_chain w)" "header_id (header b') = header_id (header b)"
    by (auto simp: find_Some_iff)
  then show "\<exists>b'. GetBlock file_services (header_id (header b)) w = Inr (Some b') \<and> b' \<in> set (file_chain w)
      \<and> header_id (header b') = header_id (header b)"
    using g b' by (simp add: file_services_def)
next
  fix w w' b st
  assume "file_inv w" "block_wf b" "linked (file_chain w @ [b])" "file_room w"
    "PutBlock file_services b w = (st, w')" "status_ok st"
  then show "file_inv w' \<and> file_chain w' = file_chain w @ [b] \<and> file_saved w' = file_saved w"
    by (intro file_put_ok [of w b st w']) (simp_all add: file_services_def)
next
  fix w w' s st
  assume "file_inv w" "length (head_id s) = 32" "Save file_services s w = (st, w')" "status_ok st"
  then show "file_inv w' \<and> file_chain w' = file_chain w \<and> file_saved w' = Some s"
    by (intro file_save_ok [of w s st w']) (simp_all add: file_services_def)
qed (simp_all add: file_services_def file_load)

section \<open>The order of the chain\<close>

lemma file_get_chain:
  assumes "file_inv fs" "blocks_dir fs"
  shows "\<exists>cs. File_GetChain fs = Inr cs \<and> mset cs = mset (file_chain fs)
    \<and> sorted (map block_file_name cs) \<and> (sorted (map block_file_name (file_chain fs)) \<longrightarrow> cs = file_chain fs)"
proof -
  have b: "block_files fs = map block_entry (file_chain fs)" "list_all block_wf (file_chain fs)"
    using assms(1) unfolding file_inv_def by metis+
  have s: "sort_key fst (map block_entry bs) = map block_entry (sort_key block_file_name bs)" for bs
  proof -
    have "insort_key fst (block_entry x) (map block_entry ys) = map block_entry (insort_key block_file_name x ys)" for x ys
      by (induction ys) (simp_all add: block_entry_def)
    then show ?thesis by (induction bs) simp_all
  qed
  have "rmap (\<lambda>(n, t). ReadBlock t) (map block_entry bs) = Inr bs" if "list_all block_wf bs" for bs
    using that by (induction bs) (simp_all add: block_entry_def ReadBlock_text)
  then have "File_GetChain fs = Inr (sort_key block_file_name (file_chain fs))"
    using assms(2) b(2) unfolding File_GetChain_def b(1) s by (simp add: list_all_iff)
  then show ?thesis
    by (auto simp: sort_key_id_if_sorted)
qed

lemma linked_unat_height:
  "linked bs \<Longrightarrow> length bs \<le> 2 ^ 64 \<Longrightarrow> i < length bs \<Longrightarrow> unat (header_height (header (bs ! i))) = i"
  by (simp add: linked_nth unat_of_nat take_bit_nat_eq_self)

lemma show_nat_digit: "n < 10 \<Longrightarrow> show_nat n = [digit_char n]"
  by (simp add: show_nat.simps [of n])

lemma digit_char_less: "a < b \<Longrightarrow> b < 10 \<Longrightarrow> digit_char a < digit_char b"
  by (simp add: less_char_def of_char_digit_char)

lemma small_names_sorted:
  assumes "linked bs" "length bs \<le> 10"
  shows "sorted (map block_file_name bs)"
proof -
  have "block_file_name (bs ! i) \<le> block_file_name (bs ! j)" if "i < j" "j < length bs" for i j
    using that assms linked_unat_height [of bs i] linked_unat_height [of bs j] digit_char_less [of i j]
    by (simp add: block_file_name_def show_nat_digit less_imp_le)
  then show ?thesis
    by (auto simp: sorted_wrt_iff_nth_less sorted_wrt_map)
qed

lemma names_not_sorted:
  assumes "linked cs" "10 < length cs"
  shows "\<not> sorted (map block_file_name cs)"
proof
  assume "sorted (map block_file_name cs)"
  then have "block_file_name (cs ! 2) \<le> block_file_name (cs ! 10)"
    using assms(2) sorted_nth_mono [of "map block_file_name cs" 2 10] by simp
  moreover have "header_height (header (cs ! 2)) = 2" "header_height (header (cs ! 10)) = 10"
    using assms by (simp_all add: linked_nth)
  moreover have "show_nat 10 = [digit_char 1, digit_char 0]" "show_nat 2 = [digit_char 2]"
    by (simp_all add: show_nat.simps)
  ultimately show False
    by (simp add: block_file_name_def digit_char_def less_eq_char_def less_char_def)
qed

section \<open>Properties\<close>

text \<open>
  reading the file written for a block gives the block back, whatever text and bytes its
  transactions hold.
\<close>

theorem block_file_roundtrip:
  assumes "block_wf b"
  shows "ReadBlock (block_text b) = Inr b"
  using assms by (rule ReadBlock_text)

theorem block_file_roundtrip_witness:
  "ReadBlock (block_text (genesis_block 5 ChainConfig_default)) = Inr (genesis_block 5 ChainConfig_default)"
  by (rule block_file_roundtrip) (rule fstore.genesis_wf)

text \<open>reading the file written for a snapshot gives the snapshot back.\<close>

theorem snapshot_file_roundtrip:
  assumes "length (head_id s) = 32"
  shows "ReadSnapshot (snapshot_text s) = Inr s"
  using assms by (rule ReadSnapshot_text)

theorem snapshot_file_roundtrip_witness:
  "ReadSnapshot (snapshot_text ChainSnapshot_default) = Inr ChainSnapshot_default"
  by (rule snapshot_file_roundtrip) (simp add: ChainSnapshot_default_def)


lemma file_new_inv: "kernel_inv file_inv file_chain (Kernel_new cfg FileSystem_new)"
  by (simp add: kernel_inv_def file_inv_def FileSystem_new_def Kernel_new_def file_chain_def linked_def)

lemma file_genesis_commit:
  "fst (Kernel_CommitBlock file_services (genesis_block 0 cfg) (Kernel_new cfg FileSystem_new)) = Success []"
  by (simp add: Kernel_CommitBlock_def file_services_def BasicBlockValidator_Validate_def genesis_block_def
      Kernel_new_def ChainSnapshot_default_def File_PutBlock_def FileSystem_new_def stream_out_def File_Save_def Let_def)


text \<open>
  C6: \<open>GetChain\<close> of the file store returns the stored blocks, but sorted by file name, and the
  height in the name is not padded: for a linked chain, the sequence it returns is linked exactly
  when there are at most ten blocks. From the eleventh block on, block 10 comes before block 2.
\<close>

theorem file_chain_order:
  assumes "file_inv fs" "blocks_dir fs" "linked (file_chain fs)"
  shows "\<exists>cs. File_GetChain fs = Inr cs \<and> mset cs = mset (file_chain fs)
    \<and> (linked cs \<longleftrightarrow> length (file_chain fs) \<le> 10)"
proof -
  obtain cs where cs: "File_GetChain fs = Inr cs" "mset cs = mset (file_chain fs)"
      "sorted (map block_file_name cs)" "sorted (map block_file_name (file_chain fs)) \<longrightarrow> cs = file_chain fs"
    using file_get_chain [OF assms(1,2)] by blast
  have "length cs = length (file_chain fs)"
    using cs(2) by (rule mset_eq_length)
  then have "linked cs \<longleftrightarrow> length (file_chain fs) \<le> 10"
    using cs(3,4) assms(3) small_names_sorted [of "file_chain fs"] names_not_sorted [of cs] by force
  with cs show ?thesis by blast
qed

theorem file_chain_order_witness:
  "\<exists>fs cs. file_inv fs \<and> file_chain fs = [genesis_block 0 ChainConfig_default]
    \<and> File_GetChain fs = Inr cs \<and> linked cs"
proof -
  let ?k = "Kernel_new ChainConfig_default FileSystem_new"
  let ?b = "genesis_block 0 ChainConfig_default"
  obtain k1 where k1: "Kernel_CommitBlock file_services ?b ?k = (Success [], k1)"
    using file_genesis_commit [of ChainConfig_default] by (metis prod.collapse)
  have "file_room (world ?k)" "file_chain (world ?k) = []"
    by (simp_all add: file_room_def Kernel_new_def FileSystem_new_def file_chain_def)
  then have i: "kernel_inv file_inv file_chain k1" "file_chain (world k1) = [?b]"
    using fstore.commit_block_ok [OF file_new_inv fstore.genesis_wf _ k1] by auto
  then have f: "file_inv (world k1)" "linked (file_chain (world k1))"
    by (simp_all add: kernel_inv_def)
  then have "blocks_dir (world k1)"
    using i(2) by (auto simp: file_inv_def file_chain_def)
  then show ?thesis
    using file_chain_order [OF f(1) _ f(2)] i(2) f(1) by auto
qed

text \<open>
  Writing a block is not atomic. When the stream fails at once, \<open>PutBlock\<close> reports an error but
  the truncated file stays, and the chain read from the store then contains a default block that was
  never put; when the contents are lost only as the stream is closed, \<open>PutBlock\<close> reports success
  although the block cannot be read back.
\<close>

theorem file_put_not_atomic:
  "(\<exists>st fs. File_PutBlock b (FileSystem_new\<lparr>fault := WriteFails 0\<rparr>) = (st, fs) \<and> \<not> status_ok st
      \<and> File_GetChain fs = Inr [Block_default])
   \<and> (\<exists>st fs. File_PutBlock b (FileSystem_new\<lparr>fault := FlushFails 0\<rparr>) = (st, fs) \<and> status_ok st
      \<and> File_GetChain fs = Inr [Block_default])"
  by (simp add: File_PutBlock_def FileSystem_new_def stream_out_def File_GetChain_def ReadBlock_def Let_def)

end
