(* ===== verification/Node.thy ===== *)
theory Node
  imports MemoryStore FileStore
begin

text \<open>
  The node of \<open>src/Blocxxi/Node/node.h\<close>, \<open>node.cpp\<close> and \<open>service.h\<close>: it owns a kernel, delivers
  events to plugins and handlers, and schedules services with retry and backoff. The classes derived
  from \<open>Service\<close> are the argument \<open>api\<close>, a record of functions over a service state \<open>'s\<close>; they
  act on the part of the node that its public interface exposes to them (\<open>NodeCore\<close>, everything but
  the list of services). Deliveries are recorded in the order in which the code makes them. The clocks
  are arguments: \<open>now\<close> in nanoseconds of the steady clock, \<open>utc\<close> in seconds of the wall clock.
\<close>

section \<open>Data\<close>

datatype StorageMode = InMemory | FileSystemMode

record NodeOptions =
  opt_chain :: ChainConfig
  storage_mode :: StorageMode
  opt_storage_root :: string
  start_discovery :: bool
  discovery_name :: string

record ServicePolicy =
  interval :: int
  retry_backoff :: int
  max_retries :: u64

record ServiceState =
  svc_name :: string
  started :: bool
  run_count :: u64
  failure_count :: u64
  last_success_utc :: int
  last_error :: string
  checkpoint :: string
  next_run_utc :: int

datatype Subscriber = PluginSub nat | HandlerSub nat

text \<open>
  Handlers and plugins are kept as flags that say whether the stored function or pointer is set;
  \<open>checkpoints\<close> are the files of the \<open>services\<close> directory.
\<close>

record 'w NodeCore =
  node_options :: NodeOptions
  running :: bool
  kernel :: "'w Kernel"
  handlers :: "bool list"
  plugins :: "bool list"
  attached_services :: "string list"
  checkpoints :: "(string \<times> string) list"
  delivered :: "(Subscriber \<times> ChainEvent) list"

record ('w, 's) ServiceApi =
  svc_Name :: "'s \<Rightarrow> string"
  svc_Policy :: "'s \<Rightarrow> ServicePolicy"
  svc_Start :: "'s \<Rightarrow> 'w NodeCore \<Rightarrow> Status \<times> 's \<times> 'w NodeCore"
  svc_Poll :: "'s \<Rightarrow> 'w NodeCore \<Rightarrow> Status \<times> 's \<times> 'w NodeCore"
  svc_Stop :: "'s \<Rightarrow> 'w NodeCore \<Rightarrow> Status \<times> 's \<times> 'w NodeCore"
  svc_Checkpoint :: "'s \<Rightarrow> string"
  svc_RestoreCheckpoint :: "string \<Rightarrow> 's \<Rightarrow> Status \<times> 's"

record 's ManagedService =
  managed :: "'s option"
  svc_state :: ServiceState
  next_due :: int

record ('w, 's) Node =
  core :: "'w NodeCore"
  node_services :: "'s ManagedService list"

section \<open>Events\<close>

definition ChainEvent_of :: "EventType \<Rightarrow> string \<Rightarrow> ChainSnapshot \<Rightarrow> ChainEvent" where
  "ChainEvent_of ty msg snap = \<lparr>event_kind = ty, event_message = msg, event_snapshot = snap,
     event_transaction = None, event_block = None\<rparr>"

definition subscribers :: "'w NodeCore \<Rightarrow> Subscriber list" where
  "subscribers c = map PluginSub (filter (\<lambda>i. plugins c ! i) [0..<length (plugins c)])
     @ map HandlerSub (filter (\<lambda>i. handlers c ! i) [0..<length (handlers c)])"

definition Emit :: "ChainEvent \<Rightarrow> 'w NodeCore \<Rightarrow> 'w NodeCore" where
  "Emit event c = c\<lparr>delivered := delivered c @ map (\<lambda>s. (s, event)) (subscribers c)\<rparr>"

definition SnapshotNow :: "'w NodeCore \<Rightarrow> ChainSnapshot" where
  "SnapshotNow c = snapshot (kernel c)"

definition emit_now :: "EventType \<Rightarrow> string \<Rightarrow> 'w NodeCore \<Rightarrow> 'w NodeCore" where
  "emit_now ty msg c = Emit (ChainEvent_of ty msg (SnapshotNow c)) c"

section \<open>Services\<close>

definition safe_char :: "char \<Rightarrow> bool" where
  "safe_char ch \<longleftrightarrow> (CHR ''a'' \<le> ch \<and> ch \<le> CHR ''z'') \<or> (CHR ''A'' \<le> ch \<and> ch \<le> CHR ''Z'')
     \<or> (CHR ''0'' \<le> ch \<and> ch \<le> CHR ''9'') \<or> ch = CHR ''-'' \<or> ch = CHR ''_''"

definition SanitizeServiceName :: "string \<Rightarrow> string" where
  "SanitizeServiceName name = map (\<lambda>ch. if \<not> safe_char ch then CHR ''-'' else ch) name"

definition CheckpointPath :: "string \<Rightarrow> string" where
  "CheckpointPath service_name = SanitizeServiceName service_name @ ''.checkpoint''"

definition PersistCheckpoint :: "'s ManagedService \<Rightarrow> 'w NodeCore \<Rightarrow> 'w NodeCore" where
  "PersistCheckpoint entry c =
     (if storage_mode (node_options c) \<noteq> FileSystemMode then c
      else c\<lparr>checkpoints := file_put (CheckpointPath (svc_name (svc_state entry)))
               (checkpoint (svc_state entry)) (checkpoints c)\<rparr>)"

definition Node_RestoreCheckpoint ::
  "('w, 's) ServiceApi \<Rightarrow> 'w NodeCore \<Rightarrow> 's ManagedService \<Rightarrow> 's ManagedService" where
  "Node_RestoreCheckpoint api c entry =
     (if storage_mode (node_options c) \<noteq> FileSystemMode then entry
      else case map_of (checkpoints c) (CheckpointPath (svc_name (svc_state entry))) of
        None \<Rightarrow> entry
      | Some data \<Rightarrow>
          let entry = entry\<lparr>svc_state := (svc_state entry)\<lparr>checkpoint := data\<rparr>\<rparr> in
          case managed entry of None \<Rightarrow> entry
          | Some s \<Rightarrow>
              let (restore, s) = svc_RestoreCheckpoint api data s; entry = entry\<lparr>managed := Some s\<rparr> in
              if \<not> status_ok restore
              then entry\<lparr>svc_state := (svc_state entry)\<lparr>last_error := status_message restore\<rparr>\<rparr>
              else entry)"

text \<open>\<open>duration_cast<seconds>\<close> of a number of milliseconds truncates towards zero.\<close>

definition to_seconds :: "int \<Rightarrow> int" where
  "to_seconds ms = (if ms < 0 then - (- ms div 1000) else ms div 1000)"

text \<open>The first part of \<open>RunManagedServiceOnce\<close>: a service that has not been started is started.\<close>

definition start_service ::
  "('w, 's) ServiceApi \<Rightarrow> 's \<Rightarrow> 's ManagedService \<Rightarrow> 'w NodeCore \<Rightarrow> Status \<times> 's ManagedService \<times> 'w NodeCore" where
  "start_service api s entry c =
     (if started (svc_state entry) then (Success [], entry, c)
      else
        let (status, s, c) = svc_Start api s c; entry = entry\<lparr>managed := Some s\<rparr> in
        if \<not> status_ok status then
          (status, entry\<lparr>svc_state := (svc_state entry)\<lparr>last_error := status_message status\<rparr>\<rparr>,
           emit_now ServiceFailed (svc_name (svc_state entry) @ '': '' @ status_message status) c)
        else
          (Success [], entry\<lparr>svc_state := (svc_state entry)\<lparr>started := True\<rparr>\<rparr>,
           emit_now ServiceStarted (svc_name (svc_state entry)) c))"

text \<open>
  The second part: the service is polled and the next run is scheduled. Points of the steady clock
  are in nanoseconds, intervals in milliseconds. \<open>retry_backoff * failure_count\<close> multiplies a
  signed duration by a \<open>std::size_t\<close>, so the product, its conversion to nanoseconds and the sum
  with the current time are unsigned 64-bit arithmetic that wraps; the sum is then stored as the
  signed \<open>next_due\<close>. The signed arithmetic of the successful branch is unbounded in the model.
\<close>

definition backoff_ms :: "ServicePolicy \<Rightarrow> u64 \<Rightarrow> u64" where
  "backoff_ms policy failures = word_of_int (retry_backoff policy) * failures"

definition poll_service ::
  "('w, 's) ServiceApi \<Rightarrow> int \<Rightarrow> int \<Rightarrow> 's \<Rightarrow> 's ManagedService \<Rightarrow> 'w NodeCore \<Rightarrow> Status \<times> 's ManagedService \<times> 'w NodeCore" where
  "poll_service api now utc s entry c =
     (let (status, s, c) = svc_Poll api s c; policy = svc_Policy api s; st = svc_state entry in
      if status_ok status then
        let st = st\<lparr>run_count := run_count st + 1, failure_count := 0, last_success_utc := utc,
                    last_error := [], checkpoint := svc_Checkpoint api s,
                    next_run_utc := utc + to_seconds (interval policy)\<rparr>;
            entry = \<lparr>managed = Some s, svc_state = st, next_due = now + interval policy * 1000000\<rparr>;
            c = PersistCheckpoint entry c in
        (Success [], entry, emit_now ServiceCompleted (svc_name st) c)
      else
        let st = st\<lparr>failure_count := failure_count st + 1, last_error := status_message status\<rparr>;
            backoff = backoff_ms policy (failure_count st);
            st = st\<lparr>next_run_utc := utc + sint (backoff div 1000)\<rparr>;
            entry = \<lparr>managed = Some s, svc_state = st, next_due = sint (word_of_int now + backoff * 1000000)\<rparr>;
            c = emit_now ServiceFailed (svc_name st @ '': '' @ status_message status) c in
        (if failure_count st > max_retries policy then status else Success [], entry, c))"

definition RunManagedServiceOnce ::
  "('w, 's) ServiceApi \<Rightarrow> int \<Rightarrow> int \<Rightarrow> 's ManagedService \<Rightarrow> 'w NodeCore \<Rightarrow> Status \<times> 's ManagedService \<times> 'w NodeCore" where
  "RunManagedServiceOnce api now utc entry c =
     (case managed entry of
        None \<Rightarrow> (Success [], entry, c)
      | Some s \<Rightarrow>
          let (status, entry, c) = start_service api s entry c in
          if \<not> status_ok status then (status, entry, c)
          else if now < next_due entry then (Success [], entry, c)
          else case managed entry of None \<Rightarrow> (Success [], entry, c)
               | Some s \<Rightarrow> poll_service api now utc s entry c)"

section \<open>Node operations\<close>

definition AttachDiscovery :: "string \<Rightarrow> 'w NodeCore \<Rightarrow> Status \<times> 'w NodeCore" where
  "AttachDiscovery service_name c =
     (if service_name = [] then (Failure InvalidArgument ''discovery service name is required'', c)
      else (Success [], emit_now DiscoveryAttached service_name
              (c\<lparr>attached_services := attached_services c @ [service_name]\<rparr>)))"

definition AttachAdapter :: "string \<Rightarrow> 'w NodeCore \<Rightarrow> Status \<times> 'w NodeCore" where
  "AttachAdapter adapter_name c =
     (if adapter_name = [] then (Failure InvalidArgument ''adapter name is required'', c)
      else (Success [], emit_now AdapterAttached adapter_name c))"

definition Node_Start :: "'w services \<Rightarrow> i64 \<Rightarrow> 'w NodeCore \<Rightarrow> (Status \<times> 'w NodeCore) res" where
  "Node_Start ops utc c =
     (if running c then Inr (Success ''node already running'', c)
      else
        let c = emit_now NodeStarting ''starting node'' c in
        rbind (Kernel_Bootstrap ops utc (kernel c)) (\<lambda>(status, k).
          let c = c\<lparr>kernel := k\<rparr> in
          if \<not> status_ok status then Inr (status, c)
          else
            let c = c\<lparr>running := True\<rparr>;
                (discovery_status, c) =
                  (if start_discovery (node_options c) then AttachDiscovery (discovery_name (node_options c)) c
                   else (Success [], c)) in
            if \<not> status_ok discovery_status then Inr (discovery_status, c)
            else Inr (Success [], emit_now NodeStarted ''node running'' c)))"

definition stop_service ::
  "('w, 's) ServiceApi \<Rightarrow> 's ManagedService \<Rightarrow> 'w NodeCore \<Rightarrow> 's ManagedService \<times> 'w NodeCore" where
  "stop_service api entry c =
     (case managed entry of None \<Rightarrow> (entry, c)
      | Some s \<Rightarrow>
          if \<not> started (svc_state entry) then (entry, c)
          else
            let (status, s, c) = svc_Stop api s c;
                c = (if \<not> status_ok status
                     then emit_now ServiceFailed (svc_name (svc_state entry) @ '': '' @ status_message status) c
                     else c) in
            (entry\<lparr>managed := Some s, svc_state := (svc_state entry)\<lparr>started := False\<rparr>\<rparr>, c))"

fun stop_services ::
  "('w, 's) ServiceApi \<Rightarrow> 's ManagedService list \<Rightarrow> 'w NodeCore \<Rightarrow> 's ManagedService list \<times> 'w NodeCore" where
  "stop_services api [] c = ([], c)"
| "stop_services api (e # es) c =
     (let (e', c1) = stop_service api e c; (es', c2) = stop_services api es c1 in (e' # es', c2))"

definition Node_Stop :: "('w, 's) ServiceApi \<Rightarrow> ('w, 's) Node \<Rightarrow> Status \<times> ('w, 's) Node" where
  "Node_Stop api n =
     (if \<not> running (core n) then (Success ''node already stopped'', n)
      else
        let (es, c) = stop_services api (node_services n) (core n) in
        (Success [], n\<lparr>core := emit_now NodeStopped ''node stopped'' (c\<lparr>running := False\<rparr>), node_services := es\<rparr>))"

definition Node_Subscribe :: "bool \<Rightarrow> 'w NodeCore \<Rightarrow> nat \<times> 'w NodeCore" where
  "Node_Subscribe handler c = (let hs = handlers c @ [handler] in (length hs, c\<lparr>handlers := hs\<rparr>))"

definition Node_RegisterPlugin :: "bool \<Rightarrow> 'w NodeCore \<Rightarrow> nat \<times> 'w NodeCore" where
  "Node_RegisterPlugin plugin c = (let ps = plugins c @ [plugin] in (length ps, c\<lparr>plugins := ps\<rparr>))"

definition ServiceState_new :: "string \<Rightarrow> int \<Rightarrow> ServiceState" where
  "ServiceState_new name utc = \<lparr>svc_name = name, started = False, run_count = 0, failure_count = 0,
     last_success_utc = 0, last_error = [], checkpoint = [], next_run_utc = utc\<rparr>"

definition Node_RegisterService ::
  "('w, 's) ServiceApi \<Rightarrow> int \<Rightarrow> int \<Rightarrow> 's option \<Rightarrow> ('w, 's) Node \<Rightarrow> nat \<times> ('w, 's) Node" where
  "Node_RegisterService api now utc service n =
     (case service of None \<Rightarrow> (length (node_services n), n)
      | Some s \<Rightarrow>
          let entry = \<lparr>managed = Some s, svc_state = ServiceState_new (svc_Name api s) utc, next_due = now\<rparr>;
              entry = Node_RestoreCheckpoint api (core n) entry;
              es = node_services n @ [entry];
              n = n\<lparr>node_services := es,
                    core := emit_now ServiceRegistered (svc_name (svc_state (last es))) (core n)\<rparr> in
          (length es, n))"

definition Node_SubmitTransaction :: "Transaction \<Rightarrow> 'w NodeCore \<Rightarrow> Status \<times> 'w NodeCore" where
  "Node_SubmitTransaction transaction c =
     (if \<not> running c then (Failure Rejected ''node must be started before submitting transactions'', c)
      else
        let (status, k) = Kernel_SubmitTransaction transaction (kernel c); c = c\<lparr>kernel := k\<rparr> in
        if status_ok status
        then (status, Emit ((ChainEvent_of TransactionAccepted ''transaction accepted'' (SnapshotNow c))
                              \<lparr>event_transaction := Some transaction\<rparr>) c)
        else (status, c))"

definition Node_CommitPending :: "'w services \<Rightarrow> i64 \<Rightarrow> string \<Rightarrow> 'w NodeCore \<Rightarrow> (Status \<times> 'w NodeCore) res" where
  "Node_CommitPending ops utc source c =
     (if \<not> running c then Inr (Failure Rejected ''node must be started before committing blocks'', c)
      else
        let (status, k) = Kernel_CommitPending ops utc source (kernel c); c = c\<lparr>kernel := k\<rparr> in
        if status_ok status
        then rbind (Kernel_Head ops k) (\<lambda>head.
          Inr (status, Emit ((ChainEvent_of BlockCommitted ''pending transactions committed'' (SnapshotNow c))
                              \<lparr>event_block := head\<rparr>) c))
        else Inr (status, c))"

definition Node_SubmitBlock :: "'w services \<Rightarrow> Block \<Rightarrow> 'w NodeCore \<Rightarrow> Status \<times> 'w NodeCore" where
  "Node_SubmitBlock ops block c =
     (if \<not> running c then (Failure Rejected ''node must be started before submitting blocks'', c)
      else
        let (status, k) = Kernel_CommitBlock ops block (kernel c); c = c\<lparr>kernel := k\<rparr> in
        if status_ok status
        then (status, Emit ((ChainEvent_of BlockCommitted ''block committed'' (SnapshotNow c))
                              \<lparr>event_block := Some block\<rparr>) c)
        else (status, c))"

fun run_services ::
  "('w, 's) ServiceApi \<Rightarrow> int \<Rightarrow> int \<Rightarrow> 's ManagedService list \<Rightarrow> 'w NodeCore \<Rightarrow> Status
     \<Rightarrow> Status \<times> 's ManagedService list \<times> 'w NodeCore" where
  "run_services api now utc [] c overall = (overall, [], c)"
| "run_services api now utc (e # es) c overall =
     (let (status, e', c1) = RunManagedServiceOnce api now utc e c;
          (overall', es', c2) = run_services api now utc es c1 (if \<not> status_ok status then status else overall) in
      (overall', e' # es', c2))"

definition Node_RunServicesOnce :: "('w, 's) ServiceApi \<Rightarrow> int \<Rightarrow> int \<Rightarrow> ('w, 's) Node \<Rightarrow> Status \<times> ('w, 's) Node" where
  "Node_RunServicesOnce api now utc n =
     (if \<not> running (core n) then (Failure Rejected ''node must be started before running services'', n)
      else
        let (overall, es, c) = run_services api now utc (node_services n) (core n) (Success []) in
        (overall, n\<lparr>core := c, node_services := es\<rparr>))"

text \<open>
  \<open>RunServiceLoop\<close>: \<open>turns\<close> are the clock readings of the turns for which \<open>should_continue\<close>
  answered true, in order; the list ends when it answers false.
\<close>

fun RunServiceLoop :: "('w, 's) ServiceApi \<Rightarrow> (int \<times> int) list \<Rightarrow> ('w, 's) Node \<Rightarrow> Status \<Rightarrow> Status \<times> ('w, 's) Node" where
  "RunServiceLoop api [] n overall = (overall, n)"
| "RunServiceLoop api ((now, utc) # turns) n overall =
     (let (status, n') = Node_RunServicesOnce api now utc n in
      RunServiceLoop api turns n' (if \<not> status_ok status then status else overall))"

definition Node_RunServicesFor ::
  "('w, 's) ServiceApi \<Rightarrow> int \<Rightarrow> int \<Rightarrow> (int \<times> int) list \<Rightarrow> ('w, 's) Node \<Rightarrow> Status \<times> ('w, 's) Node" where
  "Node_RunServicesFor api begin_time duration readings n =
     (let deadline = begin_time + duration * 1000000 in
      RunServiceLoop api (takeWhile (\<lambda>(now, utc). now < deadline) readings) n (Success []))"

definition ServiceStates :: "('w, 's) Node \<Rightarrow> ServiceState list" where
  "ServiceStates n = map svc_state (node_services n)"

section \<open>The node refines the kernel\<close>

lemma emit_fields [simp]:
  "kernel (Emit ev c) = kernel c" "running (Emit ev c) = running c" "checkpoints (Emit ev c) = checkpoints c"
  "node_options (Emit ev c) = node_options c" "attached_services (Emit ev c) = attached_services c"
  "plugins (Emit ev c) = plugins c" "handlers (Emit ev c) = handlers c"
  "delivered (Emit ev c) = delivered c @ map (\<lambda>s. (s, ev)) (subscribers c)"
  by (simp_all add: Emit_def)

lemma emit_now_fields [simp]:
  "kernel (emit_now ty m c) = kernel c" "running (emit_now ty m c) = running c"
  "checkpoints (emit_now ty m c) = checkpoints c" "node_options (emit_now ty m c) = node_options c"
  by (simp_all add: emit_now_def)

lemma persist_fields [simp]:
  "kernel (PersistCheckpoint e c) = kernel c" "running (PersistCheckpoint e c) = running c"
  "node_options (PersistCheckpoint e c) = node_options c"
  by (simp_all add: PersistCheckpoint_def)

text \<open>A service changes the kernel only through the operations the node offers.\<close>

definition api_respects :: "'w services \<Rightarrow> ('w, 's) ServiceApi \<Rightarrow> bool" where
  "api_respects ops api \<longleftrightarrow> (\<forall>s c.
     rtranclp (kernel_step ops) (kernel c) (kernel (snd (snd (svc_Start api s c))))
     \<and> rtranclp (kernel_step ops) (kernel c) (kernel (snd (snd (svc_Poll api s c))))
     \<and> rtranclp (kernel_step ops) (kernel c) (kernel (snd (snd (svc_Stop api s c)))))"

inductive node_step :: "'w services \<Rightarrow> ('w, 's) ServiceApi \<Rightarrow> ('w, 's) Node \<Rightarrow> ('w, 's) Node \<Rightarrow> bool" for ops api where
  start: "Node_Start ops utc (core n) = Inr (st, c) \<Longrightarrow> node_step ops api n (n\<lparr>core := c\<rparr>)"
| stop: "node_step ops api n (snd (Node_Stop api n))"
| subscribe: "node_step ops api n (n\<lparr>core := snd (Node_Subscribe h (core n))\<rparr>)"
| plugin: "node_step ops api n (n\<lparr>core := snd (Node_RegisterPlugin h (core n))\<rparr>)"
| register: "node_step ops api n (snd (Node_RegisterService api now utc' s n))"
| submit_tx: "tx_wf tx \<Longrightarrow> node_step ops api n (n\<lparr>core := snd (Node_SubmitTransaction tx (core n))\<rparr>)"
| commit_pending: "Node_CommitPending ops utc source (core n) = Inr (st, c) \<Longrightarrow> node_step ops api n (n\<lparr>core := c\<rparr>)"
| submit_block: "block_wf b \<Longrightarrow> node_step ops api n (n\<lparr>core := snd (Node_SubmitBlock ops b (core n))\<rparr>)"
| run_once: "node_step ops api n (snd (Node_RunServicesOnce api now utc' n))"
| discovery: "node_step ops api n (n\<lparr>core := snd (AttachDiscovery name (core n))\<rparr>)"
| adapter: "node_step ops api n (n\<lparr>core := snd (AttachAdapter name (core n))\<rparr>)"

abbreviation kernel_reach :: "'w services \<Rightarrow> 'w Kernel \<Rightarrow> 'w Kernel \<Rightarrow> bool" where
  "kernel_reach ops \<equiv> rtranclp (kernel_step ops)"

lemma RunManagedServiceOnce_reach:
  assumes "api_respects ops api" "RunManagedServiceOnce api now utc e c = (st, e', c')"
  shows "kernel_reach ops (kernel c) (kernel c')"
proof (cases "managed e")
  case (Some s)
  obtain st1 e1 c1 where s1: "start_service api s e c = (st1, e1, c1)" by (metis prod_cases3)
  have "kernel_reach ops (kernel c) (kernel (snd (snd (svc_Start api s c))))"
    using assms(1) by (simp add: api_respects_def)
  then have r1: "kernel_reach ops (kernel c) (kernel c1)"
    using s1 by (auto simp: start_service_def Let_def split: if_splits prod.splits)
  have p: "kernel_reach ops (kernel c1) (kernel c2)" if "poll_service api now utc s' e1 c1 = (st2, e2, c2)" for s' st2 e2 c2
  proof -
    have "kernel_reach ops (kernel c1) (kernel (snd (snd (svc_Poll api s' c1))))"
      using assms(1) by (simp add: api_respects_def)
    then show ?thesis
      using that by (auto simp: poll_service_def Let_def split: if_splits prod.splits)
  qed
  show ?thesis
    using assms(2) s1 r1 p Some
    by (auto simp: RunManagedServiceOnce_def split: if_splits option.splits intro: rtranclp_trans)
qed (use assms(2) in \<open>simp add: RunManagedServiceOnce_def\<close>)

lemma run_services_reach:
  assumes "api_respects ops api"
  shows "run_services api now utc es c ov = (st, es', c') \<Longrightarrow> kernel_reach ops (kernel c) (kernel c')"
proof (induction es arbitrary: c ov st es' c')
  case (Cons e es)
  obtain st1 e1 c1 where e1: "RunManagedServiceOnce api now utc e c = (st1, e1, c1)" by (metis prod_cases3)
  obtain st2 es2 c2 where es2: "run_services api now utc es c1 (if \<not> status_ok st1 then st1 else ov) = (st2, es2, c2)"
    by (metis prod_cases3)
  have "kernel_reach ops (kernel c) (kernel c1)"
    using e1 by (rule RunManagedServiceOnce_reach [OF assms])
  also have "kernel_reach ops (kernel c1) (kernel c2)"
    using es2 by (rule Cons(1))
  finally show ?case
    using Cons(2) e1 es2 by simp
qed simp

lemma stop_services_reach:
  assumes "api_respects ops api"
  shows "stop_services api es c = (es', c') \<Longrightarrow> kernel_reach ops (kernel c) (kernel c')"
proof (induction es arbitrary: c es' c')
  case (Cons e es)
  obtain e1 c1 where e1: "stop_service api e c = (e1, c1)" by fastforce
  have stop: "kernel_reach ops (kernel c) (kernel (snd (snd (svc_Stop api s c))))" for s
    using assms by (simp add: api_respects_def)
  have r1: "kernel_reach ops (kernel c) (kernel c1)"
  proof (cases "managed e")
    case (Some s)
    then show ?thesis
      using e1 stop [of s] by (auto simp: stop_service_def Let_def split: if_splits prod.splits)
  qed (use e1 in \<open>simp add: stop_service_def\<close>)
  obtain es2 c2 where es2: "stop_services api es c1 = (es2, c2)" by fastforce
  have "kernel_reach ops (kernel c) (kernel c2)"
    using r1 Cons(1) [OF es2] by (rule rtranclp_trans)
  then show ?case
    using Cons(2) e1 es2 by simp
qed simp

lemma start_reach:
  assumes "Node_Start ops utc c = Inr (st, c')"
  shows "kernel_reach ops (kernel c) (kernel c')"
proof (cases "running c")
  case False
  then obtain st1 k where b: "Kernel_Bootstrap ops utc (kernel c) = Inr (st1, k)" and k: "kernel c' = k"
    using assms
    by (auto simp: Node_Start_def Let_def rbind_eq_Inr AttachDiscovery_def split: if_splits prod.splits)
  then show ?thesis
    using step_bootstrap [OF b] by simp
qed (use assms in \<open>simp add: Node_Start_def\<close>)

lemma commit_pending_reach:
  assumes "Node_CommitPending ops utc source c = Inr (st, c')"
  shows "kernel_reach ops (kernel c) (kernel c')"
proof (cases "running c")
  case True
  then have "kernel c' = snd (Kernel_CommitPending ops utc source (kernel c))"
    using assms by (auto simp: Node_CommitPending_def rbind_eq_Inr Let_def split: if_splits prod.splits)
  then show ?thesis
    using step_commit_pending [of ops "kernel c" utc source] by simp
qed (use assms in \<open>simp add: Node_CommitPending_def\<close>)

lemma node_step_reach:
  assumes "node_step ops api n n'" "api_respects ops api"
  shows "kernel_reach ops (kernel (core n)) (kernel (core n'))"
  using assms(1)
proof cases
  case stop
  then show ?thesis
    using stop_services_reach [OF assms(2), of "node_services n" "core n"]
    by (auto simp: Node_Stop_def split: prod.splits)
next
  case (run_once now utc')
  then show ?thesis
    using run_services_reach [OF assms(2), of now utc' "node_services n" "core n" "Success []"]
    by (auto simp: Node_RunServicesOnce_def split: prod.splits)
next
  case (submit_tx tx)
  then have "kernel (core n') \<in> {kernel (core n), snd (Kernel_SubmitTransaction tx (kernel (core n)))}"
    by (auto simp: Node_SubmitTransaction_def Let_def split: prod.splits)
  then show ?thesis
    using step_submit [OF submit_tx(2), of ops "kernel (core n)"] by auto
next
  case (submit_block b)
  then have "kernel (core n') \<in> {kernel (core n), snd (Kernel_CommitBlock ops b (kernel (core n)))}"
    by (auto simp: Node_SubmitBlock_def Let_def split: prod.splits)
  then show ?thesis
    using step_commit_block [OF submit_block(2), of ops "kernel (core n)"] by auto
qed (auto simp: start_reach commit_pending_reach Node_Subscribe_def Node_RegisterPlugin_def Let_def
      AttachDiscovery_def AttachAdapter_def Node_RegisterService_def split: option.splits)

lemma node_reach:
  assumes "rtranclp (node_step ops api) n n'" "api_respects ops api"
  shows "kernel_reach ops (kernel (core n)) (kernel (core n'))"
  using assms(1) by (induction rule: rtranclp_induct) (auto dest: node_step_reach [OF _ assms(2)] intro: rtranclp_trans)

lemma map_of_file_put: "map_of (file_put name t fs) name' = (if name' = name then Some t else map_of fs name')"
  by (induction fs) auto

section \<open>Properties\<close>

text \<open>A new node, over given stores.\<close>

definition Node_new :: "NodeOptions \<Rightarrow> 'w \<Rightarrow> ('w, 's) Node" where
  "Node_new opts w = \<lparr>core = \<lparr>node_options = opts, running = False, kernel = Kernel_new (opt_chain opts) w,
     handlers = [], plugins = [], attached_services = [], checkpoints = [], delivered = []\<rparr>, node_services = []\<rparr>"

text \<open>
  C1: the node refines the kernel: whatever sequence of node operations is called, service runs,
  starts and stops included, the kernel inside goes through a sequence of kernel operations, as long as
  the services change it only through the node. Over the in-memory stores, the chain of every
  reachable node is therefore linked and described by the snapshot that events carry.
\<close>

theorem node_refines_kernel:
  assumes "api_respects memory_services api" "rtranclp (node_step memory_services api) (Node_new opts MemoryStore_new) n"
  shows "kernel_reach memory_services (Kernel_new (opt_chain opts) MemoryStore_new) (kernel (core n))
    \<and> (\<exists>bs. Kernel_Chain memory_services (kernel (core n)) = Inr bs \<and> linked bs
          \<and> SnapshotNow (core n) = snapshot_of bs)"
proof -
  have r: "kernel_reach memory_services (Kernel_new (opt_chain opts) MemoryStore_new) (kernel (core n))"
    using node_reach [OF assms(2,1)] by (simp add: Node_new_def)
  have "kernel_inv memory_inv memory_chain (kernel (core n))"
    using mem.reach_inv [OF r] mem.new_inv [of MemoryStore_new] memory_new_inv by blast
  then show ?thesis
    using r by (auto simp: kernel_inv_def Kernel_Chain_def memory_services_def memory_get_chain SnapshotNow_def)
qed

text \<open>A service that commits what is pending each time it is polled.\<close>

definition committer :: "(MemoryStore, unit) ServiceApi" where
  "committer = \<lparr>svc_Name = (\<lambda>_. ''committer''),
     svc_Policy = (\<lambda>_. \<lparr>interval = 1000, retry_backoff = 250, max_retries = 3\<rparr>),
     svc_Start = (\<lambda>s c. (Success [], s, c)),
     svc_Poll = (\<lambda>s c. let (st, k) = Kernel_CommitPending memory_services 0 ''svc'' (kernel c) in (st, s, c\<lparr>kernel := k\<rparr>)),
     svc_Stop = (\<lambda>s c. (Success [], s, c)), svc_Checkpoint = (\<lambda>s. ''cp''),
     svc_RestoreCheckpoint = (\<lambda>d s. (Success [], s))\<rparr>"

definition sample_options :: "StorageMode \<Rightarrow> NodeOptions" where
  "sample_options m = \<lparr>opt_chain = ChainConfig_default, storage_mode = m, opt_storage_root = [], start_discovery = False,
     discovery_name = ''blocxxi.p2p''\<rparr>"

lemma committer_respects: "api_respects memory_services committer"
proof -
  have "kernel (snd (snd (svc_Poll committer s c))) = snd (Kernel_CommitPending memory_services 0 ''svc'' (kernel c))" for s c
    by (simp add: committer_def split: prod.splits)
  then show ?thesis
    using step_commit_pending [of memory_services _ 0 "''svc''"]
    by (simp add: api_respects_def r_into_rtranclp) (simp add: committer_def)
qed

theorem node_refines_kernel_witness:
  "\<exists>n. node_step memory_services committer (Node_new (sample_options InMemory) MemoryStore_new) n
    \<and> running (core n) \<and> (\<exists>bs. Kernel_Chain memory_services (kernel (core n)) = Inr bs \<and> linked bs)"
proof -
  let ?n = "Node_new (sample_options InMemory) MemoryStore_new :: (MemoryStore, unit) Node"
  obtain st c where s: "Node_Start memory_services 0 (core ?n) = Inr (st, c)" "running c"
    by (simp add: Node_Start_def Node_new_def Kernel_Bootstrap_def memory_services_def Memory_Load_def
        MemoryStore_new_def Kernel_new_def sample_options_def ChainConfig_default_def Kernel_CommitBlock_def
        BasicBlockValidator_Validate_def genesis_block_def ChainSnapshot_default_def Memory_PutBlock_def
        map_find_def Memory_Save_def Let_def)
  have step: "node_step memory_services committer ?n (?n\<lparr>core := c\<rparr>)"
    using s(1) by (rule node_step.start)
  have "rtranclp (node_step memory_services committer) ?n (?n\<lparr>core := c\<rparr>)"
    using step by (rule r_into_rtranclp)
  then show ?thesis
    using node_refines_kernel [OF committer_respects, of "sample_options InMemory" "?n\<lparr>core := c\<rparr>"] step s(2)
    by fastforce
qed

text \<open>
  a node that is not running refuses transactions, commits, blocks and service runs with the status
  \<open>Rejected\<close>, and nothing changes and no event is delivered.
\<close>

theorem stopped_node_rejects:
  assumes "\<not> running (core n)"
  shows "(\<exists>m. Node_SubmitTransaction tx (core n) = (Failure Rejected m, core n))
    \<and> (\<exists>m. Node_CommitPending ops utc source (core n) = Inr (Failure Rejected m, core n))
    \<and> (\<exists>m. Node_SubmitBlock ops b (core n) = (Failure Rejected m, core n))
    \<and> (\<exists>m. Node_RunServicesOnce api now utc' n = (Failure Rejected m, n))"
  using assms
  by (simp add: Node_SubmitTransaction_def Node_CommitPending_def Node_SubmitBlock_def Node_RunServicesOnce_def)
     blast

theorem stopped_node_rejects_witness:
  "\<exists>m. Node_RunServicesOnce committer 0 0 (Node_new (sample_options InMemory) MemoryStore_new)
    = (Failure Rejected m, Node_new (sample_options InMemory) MemoryStore_new)"
  using stopped_node_rejects [of "Node_new (sample_options InMemory) MemoryStore_new"
      "Transaction_FromText ''t'' ''p'' []" memory_services 0 "[]" Block_default committer 0 0]
  by (simp add: Node_new_def)

text \<open>
  a running node delivers the acceptance of a transaction exactly once to every plugin and handler
  that is set, plugins first, with the transaction in the event and after the kernel has taken it; a
  refused transaction changes neither the kernel nor the deliveries.
\<close>

theorem submit_delivers_once:
  assumes "running c" "Node_SubmitTransaction tx c = (st, c')"
  shows "(status_ok st \<longrightarrow> pending_transactions (kernel c') = pending_transactions (kernel c) @ [tx]
      \<and> (\<exists>ev. delivered c' = delivered c @ map (\<lambda>s. (s, ev)) (subscribers c)
            \<and> event_kind ev = TransactionAccepted \<and> event_transaction ev = Some tx))
    \<and> (\<not> status_ok st \<longrightarrow> kernel c' = kernel c \<and> delivered c' = delivered c)"
proof -
  obtain k where k: "Kernel_SubmitTransaction tx (kernel c) = (st, k)"
    using assms by (auto simp: Node_SubmitTransaction_def Let_def split: prod.splits if_splits)
  have sub: "subscribers (c\<lparr>kernel := k\<rparr>) = subscribers c"
    by (simp add: subscribers_def)
  show ?thesis
    using assms k sub
    by (auto simp: Node_SubmitTransaction_def Let_def ChainEvent_of_def Kernel_SubmitTransaction_def
        split: if_splits)
qed

definition sample_core :: "MemoryStore NodeCore" where
  "sample_core = (core (Node_new (sample_options InMemory) MemoryStore_new :: (MemoryStore, unit) Node))
     \<lparr>running := True, plugins := [True], handlers := [True, False]\<rparr>"

theorem submit_delivers_once_witness:
  "\<exists>st c' ev. Node_SubmitTransaction (Transaction_FromText ''t'' ''p'' []) sample_core = (st, c') \<and> status_ok st
    \<and> delivered c' = [(PluginSub 0, ev), (HandlerSub 0, ev)]"
proof -
  obtain st c' where s: "Node_SubmitTransaction (Transaction_FromText ''t'' ''p'' []) sample_core = (st, c')"
    by fastforce
  have r: "running sample_core" "delivered sample_core = []" "subscribers sample_core = [PluginSub 0, HandlerSub 0]"
    by (simp_all add: sample_core_def Node_new_def subscribers_def upt_rec)
  have "status_ok st"
    using s by (auto simp: Node_SubmitTransaction_def sample_core_def Node_new_def Kernel_new_def
        Kernel_SubmitTransaction_def Transaction_FromText_def ToBytes_def Let_def)
  then show ?thesis
    using submit_delivers_once [OF r(1) s] s r by auto
qed

lemma backoff_due:
  assumes "0 \<le> now" "0 \<le> retry_backoff policy" "now + retry_backoff policy * uint n * 1000000 < 2 ^ 63"
  shows "sint (word_of_int now + backoff_ms policy n * 1000000) = now + retry_backoff policy * uint n * 1000000"
proof -
  have "word_of_int now + backoff_ms policy n * 1000000
      = (word_of_int (now + retry_backoff policy * uint n * 1000000) :: u64)"
    by (simp add: backoff_ms_def)
  moreover have "0 \<le> now + retry_backoff policy * uint n * 1000000"
    using assms(1,2) by simp
  ultimately show ?thesis
    using assms(3) by (simp only: sint_sbintrunc') (simp add: signed_take_bit_int_eq_self)
qed

text \<open>
  scheduling of a started service that is due and whose poll fails: the failure count grows by one,
  the next run is put off by the backoff times the count when this many nanoseconds after now fit
  the clock, the failure is reported to the caller
  exactly when the count exceeds the allowed retries, the last checkpoint is kept, and until the new
  due time the service is not polled again.
\<close>

theorem service_backoff:
  assumes "managed e = Some s" "started (svc_state e)" "next_due e \<le> now"
    and "svc_Poll api s c = (st, s', c1)" "\<not> status_ok st"
    and "0 \<le> now" "0 \<le> retry_backoff (svc_Policy api s')"
    and "now + retry_backoff (svc_Policy api s') * uint (failure_count (svc_state e) + 1) * 1000000 < 2 ^ 63"
  shows "\<exists>r e' c'. RunManagedServiceOnce api now utc e c = (r, e', c')
    \<and> failure_count (svc_state e') = failure_count (svc_state e) + 1
    \<and> next_due e' = now + retry_backoff (svc_Policy api s') * uint (failure_count (svc_state e')) * 1000000
    \<and> (status_ok r \<longleftrightarrow> failure_count (svc_state e') \<le> max_retries (svc_Policy api s'))
    \<and> checkpoint (svc_state e') = checkpoint (svc_state e) \<and> run_count (svc_state e') = run_count (svc_state e)
    \<and> (\<forall>now' utc' c2. now' < next_due e' \<longrightarrow> RunManagedServiceOnce api now' utc' e' c2 = (Success [], e', c2))"
  using assms(1-5) backoff_due [OF assms(6-8)]
  by (auto simp: RunManagedServiceOnce_def start_service_def poll_service_def Let_def not_less split: if_splits)

definition sample_service :: "unit ManagedService" where
  "sample_service = \<lparr>managed = Some (), svc_state = (ServiceState_new ''svc.a'' 0)\<lparr>started := True\<rparr>, next_due = 10\<rparr>"

theorem service_backoff_witness:
  "\<exists>r e' c'. RunManagedServiceOnce committer 20 0 sample_service sample_core = (r, e', c')
    \<and> next_due e' = 250000020 \<and> status_ok r"
proof -
  have p: "svc_Poll committer () sample_core = (Failure Rejected ''no pending transactions to commit'', (), sample_core)"
    by (simp add: committer_def Kernel_CommitPending_def sample_core_def Node_new_def Kernel_new_def)
  have e: "managed sample_service = Some ()" "started (svc_state sample_service)" "next_due sample_service \<le> 20"
    "failure_count (svc_state sample_service) = 0"
    by (simp_all add: sample_service_def ServiceState_new_def)
  show ?thesis
    using service_backoff [OF e(1-3) p, of 0] e(4) by (auto simp: committer_def)
qed

text \<open>
  checkpoints survive a restart: on file storage, after a successful poll a service registered under
  the same name gets the checkpoint the old one reported, both in its state and through its
  \<open>RestoreCheckpoint\<close>.
\<close>

theorem checkpoint_restored:
  assumes "managed e = Some s" "started (svc_state e)" "next_due e \<le> now"
    and "svc_Poll api s c = (st, s', c1)" "status_ok st" "storage_mode (node_options c1) = FileSystemMode"
    and "svc_Name api fresh = svc_name (svc_state e)"
    and "RunManagedServiceOnce api now utc e c = (r, e', c')"
    and "svc_RestoreCheckpoint api (svc_Checkpoint api s') fresh = (rst, fresh')"
    and "Node_RegisterService api now' utc' (Some fresh) \<lparr>core = c', node_services = []\<rparr> = (num, n)"
  shows "\<exists>e2. node_services n = [e2] \<and> managed e2 = Some fresh' \<and> num = 1
    \<and> checkpoint (svc_state e2) = svc_Checkpoint api s'"
  using assms
  by (auto simp: RunManagedServiceOnce_def start_service_def poll_service_def Let_def not_less
      PersistCheckpoint_def Node_RegisterService_def Node_RestoreCheckpoint_def map_of_file_put
      ServiceState_new_def split: if_splits)


text \<open>A service with a counter as its state and checkpoint.\<close>

definition counter :: "(MemoryStore, nat) ServiceApi" where
  "counter = \<lparr>svc_Name = (\<lambda>_. ''counter''),
     svc_Policy = (\<lambda>_. \<lparr>interval = 1000, retry_backoff = 250, max_retries = 3\<rparr>),
     svc_Start = (\<lambda>s c. (Success [], s, c)), svc_Poll = (\<lambda>s c. (Success [], s + 1, c)),
     svc_Stop = (\<lambda>s c. (Success [], s, c)), svc_Checkpoint = show_nat,
     svc_RestoreCheckpoint = (\<lambda>d s. (Success [], digits_val d))\<rparr>"

theorem checkpoint_restored_witness:
  "\<exists>num n e2. Node_RegisterService counter 9 9 (Some 0)
      \<lparr>core = snd (snd (RunManagedServiceOnce counter 5 5 \<lparr>managed = Some 6,
           svc_state = (ServiceState_new ''counter'' 0)\<lparr>started := True\<rparr>, next_due = 0\<rparr>
           (sample_core\<lparr>node_options := sample_options FileSystemMode\<rparr>))), node_services = []\<rparr> = (num, n)
    \<and> node_services n = [e2] \<and> managed e2 = Some 7"
proof -
  let ?e = "\<lparr>managed = Some (6 :: nat), svc_state = (ServiceState_new ''counter'' 0)\<lparr>started := True\<rparr>, next_due = 0\<rparr>"
  let ?c = "sample_core\<lparr>node_options := sample_options FileSystemMode\<rparr>"
  obtain r e' c' where r: "RunManagedServiceOnce counter 5 5 ?e ?c = (r, e', c')" by (metis prod_cases3)
  obtain num n where n: "Node_RegisterService counter 9 9 (Some 0) \<lparr>core = c', node_services = []\<rparr> = (num, n)"
    by fastforce
  have p: "svc_Poll counter 6 ?c = (Success [], 7, ?c)" "svc_RestoreCheckpoint counter (svc_Checkpoint counter 7) 0 = (Success [], 7)"
    "svc_Name counter 0 = svc_name (svc_state ?e)"
    by (simp_all add: counter_def ServiceState_new_def)
  have "\<exists>e2. node_services n = [e2] \<and> managed e2 = Some 7 \<and> num = 1
      \<and> checkpoint (svc_state e2) = svc_Checkpoint counter 7"
    by (rule checkpoint_restored [OF _ _ _ p(1) _ _ p(3) r p(2) n])
       (simp_all add: ServiceState_new_def sample_options_def)
  then show ?thesis
    using r n by auto
qed

text \<open>
  The file of a checkpoint does not determine the service: two services with different names can
  have the same file, and then each poll of one overwrites the checkpoint of the other.
\<close>

theorem checkpoint_collision:
  "CheckpointPath ''btc.main'' = CheckpointPath ''btc/main''
   \<and> (storage_mode (node_options c) = FileSystemMode \<longrightarrow>
        map_of (checkpoints (PersistCheckpoint (e\<lparr>svc_state := (svc_state e)\<lparr>svc_name := ''btc/main''\<rparr>\<rparr>) c))
          (CheckpointPath ''btc.main'') = Some (checkpoint (svc_state e)))"
proof -
  have "CheckpointPath ''btc.main'' = CheckpointPath ''btc/main''"
    by (simp add: CheckpointPath_def SanitizeServiceName_def safe_char_def less_eq_char_def)
  then show ?thesis
    by (simp add: PersistCheckpoint_def map_of_file_put)
qed

theorem checkpoint_collision_witness:
  "map_of (checkpoints (PersistCheckpoint (sample_service\<lparr>svc_state := (svc_state sample_service)\<lparr>svc_name := ''btc/main''\<rparr>\<rparr>)
      (sample_core\<lparr>node_options := sample_options FileSystemMode\<rparr>))) (CheckpointPath ''btc.main'') = Some []"
  using checkpoint_collision [of "sample_core\<lparr>node_options := sample_options FileSystemMode\<rparr>" sample_service]
  by (auto simp: sample_options_def sample_service_def ServiceState_new_def)

end
