(* ===== verification/Kademlia.thy ===== *)
theory Kademlia
  imports Bencode CryptoHash
begin

text \<open>
  The Kademlia data of \<open>src/Blocxxi/P2P/kademlia\<close>: endpoints (\<open>endpoint.h\<close>), nodes with their
  distance metric and URL form (\<open>node.h\<close>, \<open>node.cpp\<close>), and the KRPC messages of the DHT with their
  bencode and compact forms (\<open>krpc.h\<close>, \<open>krpc.cpp\<close>). The text form of an IP address belongs to the
  asio library: it is the pair of arguments \<open>to_string\<close> and \<open>make_address\<close>.
\<close>

section \<open>Endpoints and nodes\<close>

datatype Address = AddressV4 "byte list" | AddressV6 "byte list"

record IpEndpoint =
  ep_address :: Address
  ep_port :: u16

definition endpoint_eq :: "IpEndpoint \<Rightarrow> IpEndpoint \<Rightarrow> bool" where
  "endpoint_eq lhs rhs \<longleftrightarrow> ep_address lhs = ep_address rhs \<and> ep_port lhs = ep_port rhs"

definition endpoint_ToString :: "(Address \<Rightarrow> string) \<Rightarrow> IpEndpoint \<Rightarrow> string" where
  "endpoint_ToString to_string e = to_string (ep_address e) @ '':'' @ show_nat (unat (ep_port e))"

definition NODE_FAILED_COMMS_BEFORE_STALE :: int where
  "NODE_FAILED_COMMS_BEFORE_STALE = 2"

definition NODE_INACTIVE_TIME_BEFORE_QUESTIONABLE :: int where
  "NODE_INACTIVE_TIME_BEFORE_QUESTIONABLE = 15 * 60 * 1000"

text \<open>Times are milliseconds of the steady clock.\<close>

record KNode =
  node_id :: hash
  endpoint :: IpEndpoint
  node_url :: "string option"
  failed_requests_count :: int
  last_seen_time :: int

definition KNode_new :: "hash \<Rightarrow> IpEndpoint \<Rightarrow> KNode" where
  "KNode_new i e = \<lparr>node_id = i, endpoint = e, node_url = None, failed_requests_count = 0, last_seen_time = 0\<rparr>"

definition KNode_eq :: "KNode \<Rightarrow> KNode \<Rightarrow> bool" where
  "KNode_eq lhs rhs \<longleftrightarrow> Hash_eq (node_id lhs) (node_id rhs) \<or> endpoint_eq (endpoint lhs) (endpoint rhs)"

definition IncFailuresCount :: "KNode \<Rightarrow> KNode" where
  "IncFailuresCount n = n\<lparr>failed_requests_count := failed_requests_count n + 1\<rparr>"

definition IsStale :: "KNode \<Rightarrow> bool" where
  "IsStale n \<longleftrightarrow> failed_requests_count n = NODE_FAILED_COMMS_BEFORE_STALE"

definition IsQuestionable :: "int \<Rightarrow> KNode \<Rightarrow> bool" where
  "IsQuestionable now n \<longleftrightarrow> now - last_seen_time n > NODE_INACTIVE_TIME_BEFORE_QUESTIONABLE"

definition DistanceTo :: "bool \<Rightarrow> KNode \<Rightarrow> hash \<Rightarrow> hash" where
  "DistanceTo le n h = Hash_xor le (node_id n) h"

text \<open>The subtraction is on \<open>size_t\<close> and wraps.\<close>

definition LogDistanceTo :: "(u32 \<Rightarrow> nat) option \<Rightarrow> bool \<Rightarrow> KNode \<Rightarrow> hash \<Rightarrow> nat" where
  "LogDistanceTo hw le n h =
     (let dist = DistanceTo le n h; lzc = Hash_LeadingZeroBits hw le dist in
      (2 ^ 64 + Hash_BitSize 160 - 1 - lzc) mod 2 ^ 64)"

text \<open>The table of leading zeros of a byte, by runs of equal entries.\<close>

definition lzcount :: "nat list" where
  "lzcount = [8, 7] @ replicate 2 6 @ replicate 4 5 @ replicate 8 4 @ replicate 16 3 @ replicate 32 2
     @ replicate 64 1 @ replicate 128 0"

fun shared_prefix_loop :: "byte list \<Rightarrow> byte list \<Rightarrow> nat \<Rightarrow> nat" where
  "shared_prefix_loop (a # ida) (b # idb) lz =
     (let x = a XOR b in if x = 0 then shared_prefix_loop ida idb (lz + 8) else lz + lzcount ! unat x)"
| "shared_prefix_loop _ _ lz = lz"

definition SharedPrefixSize :: "KNode \<Rightarrow> KNode \<Rightarrow> nat" where
  "SharedPrefixSize a b = shared_prefix_loop (node_id a) (node_id b) 0"

section \<open>Node URLs\<close>

definition url_text :: "(Address \<Rightarrow> string) \<Rightarrow> KNode \<Rightarrow> string" where
  "url_text to_string n = ''knode://'' @ Hash_ToHex (node_id n) @ ''@'' @ to_string (ep_address (endpoint n))
     @ '':'' @ show_nat (unat (ep_port (endpoint n)))"

text \<open>\<open>ToString\<close> computes the text once and keeps it.\<close>

definition KNode_ToString :: "(Address \<Rightarrow> string) \<Rightarrow> KNode \<Rightarrow> string \<times> KNode" where
  "KNode_ToString to_string n =
     (case node_url n of Some u \<Rightarrow> (u, n)
      | None \<Rightarrow> let u = url_text to_string n in (u, n\<lparr>node_url := Some u\<rparr>))"

fun find_sub :: "string \<Rightarrow> string \<Rightarrow> nat option" where
  "find_sub pat [] = (if pat = [] then Some 0 else None)"
| "find_sub pat (c # cs) = (if take (length pat) (c # cs) = pat then Some 0 else map_option Suc (find_sub pat cs))"

definition rfind_char :: "char \<Rightarrow> string \<Rightarrow> nat option" where
  "rfind_char c s = (if c \<in> set s then Some (length s - 1 - length (takeWhile (\<lambda>x. x \<noteq> c) (rev s))) else None)"

definition FromUrlString :: "(string \<Rightarrow> Address res) \<Rightarrow> string \<Rightarrow> KNode res" where
  "FromUrlString make_address url =
     (let bad = Inl (InvalidArgumentExn (''bad node url: '' @ url)) in
      case find_sub ''://'' url of None \<Rightarrow> bad | Some pos \<Rightarrow>
      if sv_substr url 0 pos \<noteq> ''knode'' then bad else
      let start = pos + 3 in
      case sv_find (CHR ''@'') url start of None \<Rightarrow> bad | Some pos \<Rightarrow>
      let hex = sv_substr url start (pos - start) in
      if length hex \<noteq> 40 then bad else
      let start = pos + 1 in
      case rfind_char (CHR '':'') url of None \<Rightarrow> bad | Some pos \<Rightarrow>
      let address = (if start \<le> pos then sv_substr url start (pos - start) else drop start url);
          port = drop (pos + 1) url in
      rbind (Hash_FromHex 160 hex False) (\<lambda>i.
      rbind (std_stoi port) (\<lambda>p.
      rbind (make_address address) (\<lambda>a.
        Inr (KNode_new i \<lparr>ep_address = a, ep_port = ucast p\<rparr>)))))"

section \<open>KRPC messages\<close>

datatype KrpcPayload =
    KrpcQuery string "(string, Value) std_map"
  | KrpcResponse "(string, Value) std_map"
  | KrpcError "64 word" string

datatype KrpcType = TypeQuery | TypeResponse | TypeError

record KrpcMessage =
  transaction_id :: string
  krpc_version :: "string option"
  krpc_payload :: KrpcPayload

definition krpc_GetType :: "KrpcMessage \<Rightarrow> KrpcType" where
  "krpc_GetType m = (case krpc_payload m of KrpcQuery _ _ \<Rightarrow> TypeQuery | KrpcResponse _ \<Rightarrow> TypeResponse
     | KrpcError _ _ \<Rightarrow> TypeError)"

definition RequireString :: "(string, Value) std_map \<Rightarrow> string \<Rightarrow> string res" where
  "RequireString dictionary key =
     (case map_find dictionary key of None \<Rightarrow> Inl (InvalidArgumentExn ''missing KRPC string field'')
      | Some v \<Rightarrow> AsString v)"

definition RequireDictionaryField :: "(string, Value) std_map \<Rightarrow> string \<Rightarrow> (string, Value) std_map res" where
  "RequireDictionaryField dictionary key =
     (case map_find dictionary key of None \<Rightarrow> Inl (InvalidArgumentExn ''missing KRPC dictionary field'')
      | Some v \<Rightarrow> AsDictionary v)"

definition krpc_root :: "KrpcMessage \<Rightarrow> (string, Value) std_map" where
  "krpc_root message =
     (let root = map_emplace ''t'' (BString (transaction_id message)) [];
          root = (case krpc_version message of Some v \<Rightarrow> map_emplace ''v'' (BString v) root | None \<Rightarrow> root) in
      case krpc_payload message of
        KrpcQuery method args \<Rightarrow>
          map_emplace ''a'' (BDictionary args) (map_emplace ''q'' (BString method) (map_emplace ''y'' (BString ''q'') root))
      | KrpcResponse vals \<Rightarrow> map_emplace ''r'' (BDictionary vals) (map_emplace ''y'' (BString ''r'') root)
      | KrpcError code msg \<Rightarrow>
          map_emplace ''e'' (BList [BInteger code, BString msg]) (map_emplace ''y'' (BString ''e'') root))"

definition krpc_Encode :: "KrpcMessage \<Rightarrow> string" where
  "krpc_Encode message = bencode_Encode (BDictionary (krpc_root message))"

definition krpc_of_value :: "Value \<Rightarrow> KrpcMessage res" where
  "krpc_of_value root_value =
     rbind (AsDictionary root_value) (\<lambda>root.
     rbind (RequireString root ''y'') (\<lambda>type.
     rbind (RequireString root ''t'') (\<lambda>tid.
     rbind (case map_find root ''v'' of None \<Rightarrow> Inr None | Some v \<Rightarrow> rbind (AsString v) (\<lambda>s. Inr (Some s))) (\<lambda>ver.
     rbind (if type = ''q'' then
              rbind (RequireString root ''q'') (\<lambda>q. rbind (RequireDictionaryField root ''a'') (\<lambda>a. Inr (KrpcQuery q a)))
            else if type = ''r'' then rbind (RequireDictionaryField root ''r'') (\<lambda>r. Inr (KrpcResponse r))
            else if type = ''e'' then
              (case map_find root ''e'' of None \<Rightarrow> Inl (InvalidArgumentExn ''missing KRPC error field'')
               | Some ev \<Rightarrow> rbind (AsList ev) (\<lambda>err.
                   if length err \<noteq> 2 then Inl (InvalidArgumentExn ''KRPC error must contain code and message'')
                   else rbind (AsInteger (err ! 0)) (\<lambda>code. rbind (AsString (err ! 1)) (\<lambda>msg. Inr (KrpcError code msg)))))
            else Inl (InvalidArgumentExn ''unknown KRPC message type'')) (\<lambda>payload.
       Inr \<lparr>transaction_id = tid, krpc_version = ver, krpc_payload = payload\<rparr>)))))"

definition DecodeKrpc :: "nat \<Rightarrow> string \<Rightarrow> KrpcMessage res option" where
  "DecodeKrpc fuel encoded = map_option (\<lambda>r. rbind r krpc_of_value) (bencode_Decode fuel encoded)"

section \<open>Compact forms\<close>

definition EncodeCompactPeer :: "IpEndpoint \<Rightarrow> string res" where
  "EncodeCompactPeer e =
     (case ep_address e of
        AddressV6 _ \<Rightarrow> Inl (InvalidArgumentExn ''compact peer encoding currently requires IPv4'')
      | AddressV4 address \<Rightarrow> Inr (map char_of_byte address
          @ [char_of_byte (ucast (drop_bit 8 (ep_port e) AND 0xff)), char_of_byte (ucast (ep_port e AND 0xff))]))"

definition DecodeCompactPeer :: "string \<Rightarrow> IpEndpoint res" where
  "DecodeCompactPeer encoded =
     (if length encoded \<noteq> 6 then Inl (InvalidArgumentExn ''compact peer encoding must be 6 bytes'')
      else Inr \<lparr>ep_address = AddressV4 (map byte_of_char (take 4 encoded)),
        ep_port = push_bit 8 (ucast (byte_of_char (encoded ! 4))) OR ucast (byte_of_char (encoded ! 5))\<rparr>)"

definition EncodeCompactNode :: "KNode \<Rightarrow> string res" where
  "EncodeCompactNode n =
     (case ep_address (endpoint n) of
        AddressV6 _ \<Rightarrow> Inl (InvalidArgumentExn ''compact node encoding currently requires IPv4'')
      | AddressV4 _ \<Rightarrow> rbind (EncodeCompactPeer (endpoint n)) (\<lambda>p. Inr (map char_of_byte (node_id n) @ p)))"

definition DecodeCompactNode :: "string \<Rightarrow> KNode res" where
  "DecodeCompactNode encoded =
     (if length encoded \<noteq> 26 then Inl (InvalidArgumentExn ''compact node encoding must be 26 bytes'')
      else rbind (DecodeCompactPeer (drop (Hash_Size 160) encoded)) (\<lambda>e.
        Inr (KNode_new (map byte_of_char (take (Hash_Size 160) encoded)) e)))"

section \<open>Distances\<close>

lemma lzcount_nth:
  assumes "n < 256"
  shows "lzcount ! n = (if n < 1 then 8 else if n < 2 then 7 else if n < 4 then 6 else if n < 8 then 5
    else if n < 16 then 4 else if n < 32 then 3 else if n < 64 then 2 else if n < 128 then 1 else 0)"
  using assms by (auto simp: lzcount_def nth_append nth_Cons')

lemma lzcount_bounds:
  assumes "0 < n" "n < 256"
  shows "lzcount ! n \<le> 7 \<and> 2 ^ (7 - lzcount ! n) \<le> n \<and> n < 2 ^ (8 - lzcount ! n)"
  using assms by (auto simp: lzcount_nth)

lemma xor_zero_iff: "(a :: 'a :: len word) XOR b = 0 \<longleftrightarrow> a = b"
  by (metis xor.assoc xor.left_neutral xor_self_eq)

lemma shared_prefix_bounds:
  assumes "length a = length b"
  shows "\<exists>z. shared_prefix_loop a b lz = lz + z
    \<and> (be_value (map2 (XOR) a b) = 0 \<longrightarrow> z = 8 * length a)
    \<and> (be_value (map2 (XOR) a b) \<noteq> 0 \<longrightarrow> z < 8 * length a
        \<and> 2 ^ (8 * length a - 1 - z) \<le> be_value (map2 (XOR) a b)
        \<and> be_value (map2 (XOR) a b) < 2 ^ (8 * length a - z))"
  using assms
proof (induction a b arbitrary: lz rule: list_induct2)
  case (Cons x xs y ys)
  let ?v = "be_value (map2 (XOR) xs ys)"
  have len: "length (map2 (XOR) xs ys) = length xs" using Cons(1) by simp
  show ?case
  proof (cases "x XOR y = 0")
    case True
    obtain z where z: "shared_prefix_loop xs ys (lz + 8) = lz + 8 + z" "?v = 0 \<longrightarrow> z = 8 * length xs"
        "?v \<noteq> 0 \<longrightarrow> z < 8 * length xs \<and> 2 ^ (8 * length xs - 1 - z) \<le> ?v \<and> ?v < 2 ^ (8 * length xs - z)"
      using Cons(2) [of "lz + 8"] by (elim exE conjE) (rule that)
    have v: "be_value (map2 (XOR) (x # xs) (y # ys)) = ?v"
      using True by (simp add: be_value_Cons)
    show ?thesis
      unfolding v using z True by (intro exI [of _ "8 + z"]) auto
  next
    case False
    let ?n = "unat (x XOR y)" and ?l = "lzcount ! unat (x XOR y)" and ?m = "length xs"
    have n: "0 < ?n" "?n < 256" using False by (simp_all add: unat_gt_0)
    have b: "?l \<le> 7" "2 ^ (7 - ?l) \<le> ?n" "?n < 2 ^ (8 - ?l)"
      using lzcount_bounds [OF n] by simp_all
    have v: "be_value (map2 (XOR) (x # xs) (y # ys)) = ?n * 256 ^ ?m + ?v"
      using Cons(1) by (simp add: be_value_Cons)
    have vm: "?v < 256 ^ ?m" using be_value_less [of "map2 (XOR) xs ys"] len by simp
    have p: "(256 :: nat) ^ ?m = 2 ^ (8 * ?m)" by (simp add: power_mult)
    have "(2 :: nat) ^ (8 * length (x # xs) - 1 - ?l) = 2 ^ (7 - ?l) * 256 ^ ?m"
      unfolding p power_add [symmetric] using b(1) by (intro arg_cong [where f = "power 2"]) simp
    also have "\<dots> \<le> ?n * 256 ^ ?m + ?v" using b(2) by (simp add: trans_le_add1)
    finally have lo: "(2 :: nat) ^ (8 * length (x # xs) - 1 - ?l) \<le> ?n * 256 ^ ?m + ?v" .
    have "?n * 256 ^ ?m + ?v < (?n + 1) * 256 ^ ?m" using vm by simp
    also have "\<dots> \<le> 2 ^ (8 - ?l) * 256 ^ ?m" using b(3) by (intro mult_le_mono1) simp
    also have "\<dots> = 2 ^ (8 * length (x # xs) - ?l)"
      unfolding p power_add [symmetric] using b(1) by (intro arg_cong [where f = "power 2"]) simp
    finally have hi: "?n * 256 ^ ?m + ?v < 2 ^ (8 * length (x # xs) - ?l)" .
    have "?n * 256 ^ ?m + ?v \<noteq> 0" using n(1) by simp
    then show ?thesis
      unfolding v using lo hi False b(1) by (intro exI [of _ ?l]) auto
  qed
qed simp

text \<open>Two numbers of leading zeros that fit the same value are equal.\<close>

lemma leading_zeros_unique:
  fixes v :: nat
  assumes "y < n" "2 ^ (n - 1 - y) \<le> v" "v < 2 ^ (n - y)" "z < n" "2 ^ (n - 1 - z) \<le> v" "v < 2 ^ (n - z)"
  shows "y = z"
proof -
  have "n - 1 - y < n - z" "n - 1 - z < n - y"
    using assms power_less_imp_less_exp [of 2] by (meson le_less_trans one_less_numeral_iff semiring_norm(76))+
  then show ?thesis using assms(1,4) by linarith
qed

lemma SharedPrefix_LeadingZeros:
  assumes "4 dvd length a" "length b = length a" "clz_ok hw"
  shows "shared_prefix_loop a b 0 = Hash_LeadingZeroBits hw le (Hash_xor le a b)"
proof -
  let ?x = "map2 (XOR) a b" and ?n = "8 * length a"
  let ?z = "Hash_LeadingZeroBits hw le ?x"
  have d: "4 dvd length ?x" "length ?x = length a" using assms(1,2) by simp_all
  obtain y where y: "shared_prefix_loop a b 0 = y" "be_value ?x = 0 \<longrightarrow> y = ?n"
      "be_value ?x \<noteq> 0 \<longrightarrow> y < ?n \<and> 2 ^ (?n - 1 - y) \<le> be_value ?x \<and> be_value ?x < 2 ^ (?n - y)"
    using shared_prefix_bounds [of a b 0] assms(2) by auto
  have "y = ?z"
  proof (cases "be_value ?x = 0")
    case False
    then show ?thesis
      using y(3) LeadingZeroBits_spec(2) [OF d(1) assms(3) False, of le] leading_zeros_unique [of y ?n "be_value ?x" ?z] d(2)
      by simp
  qed (use y(2) LeadingZeroBits_spec(1) [OF d(1) assms(3), of le] d(2) in simp)
  then show ?thesis
    using y(1) Hash_xor_bytes [OF assms(1,2)] by simp
qed

lemma xor_bytes_zero: "length a = length b \<Longrightarrow> be_value (map2 (XOR) a b) = 0 \<longleftrightarrow> a = b"
proof (induction a b rule: list_induct2)
  case (Cons x xs y ys)
  have "be_value (map2 (XOR) (x # xs) (y # ys)) = unat (x XOR y) * 256 ^ length xs + be_value (map2 (XOR) xs ys)"
    using Cons(1) by (simp add: be_value_Cons)
  then show ?case
    using Cons(2) by (simp add: unat_eq_0 xor_zero_iff)
qed simp

lemma wrap_sub:
  assumes "z \<le> 160"
  shows "(2 ^ 64 + 160 - 1 - z) mod (2 ^ 64 :: nat) = (if z \<le> 159 then 159 - z else 2 ^ 64 - 1)"
proof (cases "z \<le> 159")
  case True
  then have "2 ^ 64 + 160 - 1 - z = (159 - z) + (2 ^ 64 :: nat)" by simp
  then show ?thesis using True by (simp only: mod_add_self2 if_True) simp
next
  case False
  then have "z = 160" using assms by simp
  then show ?thesis by simp
qed

text \<open>
  C25: \<open>LogDistanceTo\<close> returns, for two different identifiers, the number \<open>n < 160\<close> with
  \<open>2 ^ n \<le> d < 2 ^ (n + 1)\<close> where \<open>d\<close> is their exclusive or as a number, and for equal identifiers the
  value \<open>-1\<close> wrapped to \<open>size_t\<close>; \<open>SharedPrefixSize\<close> is the number of leading zeros of that distance.
\<close>

theorem log_distance_bounds:
  assumes "length (node_id a) = 20" "length (node_id b) = 20" "clz_ok hw"
  shows "(node_id a \<noteq> node_id b \<longrightarrow>
      (\<exists>n. LogDistanceTo hw le a (node_id b) = n \<and> n < 160
         \<and> 2 ^ n \<le> be_value (DistanceTo le a (node_id b)) \<and> be_value (DistanceTo le a (node_id b)) < 2 ^ (n + 1)
         \<and> n = 159 - SharedPrefixSize a b))
    \<and> (node_id a = node_id b \<longrightarrow> LogDistanceTo hw le a (node_id b) = 2 ^ 64 - 1)"
proof -
  let ?d = "Hash_xor le (node_id a) (node_id b)"
  let ?z = "Hash_LeadingZeroBits hw le ?d"
  have len: "4 dvd length (node_id a)" "length (node_id b) = length (node_id a)"
    using assms(1,2) by simp_all
  have x: "?d = map2 (XOR) (node_id a) (node_id b)" by (rule Hash_xor_bytes [OF len])
  then have d: "4 dvd length ?d" "length ?d = 20" using assms(1,2) by simp_all
  have z0: "be_value ?d = 0 \<longleftrightarrow> node_id a = node_id b"
    unfolding x using len(2) by (intro xor_bytes_zero) simp
  have s: "SharedPrefixSize a b = ?z"
    unfolding SharedPrefixSize_def by (rule SharedPrefix_LeadingZeros [OF len assms(3)])
  have l: "LogDistanceTo hw le a (node_id b) = (if ?z \<le> 159 then 159 - ?z else 2 ^ 64 - 1)" if "?z \<le> 160"
    unfolding LogDistanceTo_def DistanceTo_def Hash_BitSize_def Let_def by (rule wrap_sub [OF that])
  show ?thesis
  proof (cases "node_id a = node_id b")
    case True
    then have "?z = 160"
      using LeadingZeroBits_spec(1) [OF d(1) assms(3), of le] z0 d(2) by simp
    then have "LogDistanceTo hw le a (node_id b) = 2 ^ 64 - 1" using l by simp
    then show ?thesis using True by blast
  next
    case False
    have z: "?z < 160" "2 ^ (159 - ?z) \<le> be_value ?d" "be_value ?d < 2 ^ (160 - ?z)"
      using LeadingZeroBits_spec(2) [OF d(1) assms(3), of le] z0 d(2) False by simp_all
    then have "160 - ?z = (159 - ?z) + 1" by simp
    then show ?thesis
      using False z l s by (simp add: DistanceTo_def)
  qed
qed

definition sample_node :: "byte \<Rightarrow> KNode" where
  "sample_node b = KNode_new (b # replicate 19 0) \<lparr>ep_address = AddressV4 [127, 0, 0, 1], ep_port = 6881\<rparr>"

theorem log_distance_bounds_witness:
  "\<exists>n. LogDistanceTo (Some clz_ref) True (sample_node 1) (node_id (sample_node 3)) = n \<and> n < 160
    \<and> n = 159 - SharedPrefixSize (sample_node 1) (sample_node 3)"
  using log_distance_bounds [of "sample_node 1" "sample_node 3" "Some clz_ref" True]
  by (simp add: clz_ok_ref sample_node_def KNode_new_def)

section \<open>Messages\<close>

definition message_wf :: "KrpcMessage \<Rightarrow> bool" where
  "message_wf m = (case krpc_payload m of KrpcQuery _ d \<Rightarrow> value_wf (BDictionary d)
     | KrpcResponse d \<Rightarrow> value_wf (BDictionary d) | KrpcError _ _ \<Rightarrow> True)"

lemma krpc_root_eval:
  "krpc_root m =
     (case krpc_payload m of
        KrpcQuery q a \<Rightarrow> [(''a'', BDictionary a), (''q'', BString q), (''t'', BString (transaction_id m))]
          @ (case krpc_version m of None \<Rightarrow> [] | Some v \<Rightarrow> [(''v'', BString v)]) @ [(''y'', BString ''q'')]
      | KrpcResponse r \<Rightarrow> [(''r'', BDictionary r), (''t'', BString (transaction_id m))]
          @ (case krpc_version m of None \<Rightarrow> [] | Some v \<Rightarrow> [(''v'', BString v)]) @ [(''y'', BString ''r'')]
      | KrpcError c e \<Rightarrow> [(''e'', BList [BInteger c, BString e]), (''t'', BString (transaction_id m))]
          @ (case krpc_version m of None \<Rightarrow> [] | Some v \<Rightarrow> [(''v'', BString v)]) @ [(''y'', BString ''e'')])"
  by (cases "krpc_payload m"; cases "krpc_version m") (simp_all add: krpc_root_def less_char_def)

lemma krpc_root_wf: "message_wf m \<Longrightarrow> value_wf (BDictionary (krpc_root m))"
  by (cases "krpc_payload m"; cases "krpc_version m")
     (simp_all add: krpc_root_eval message_wf_def map_wf_def less_char_def)

lemma krpc_of_root: "krpc_of_value (BDictionary (krpc_root m)) = Inr m"
  by (cases m; cases "krpc_payload m"; cases "krpc_version m")
     (simp_all add: krpc_root_eval krpc_of_value_def RequireString_def RequireDictionaryField_def map_find_def)

lemma DecodeKrpc_Encode:
  "message_wf m \<Longrightarrow> length (krpc_Encode m) < 2 ^ 64 \<Longrightarrow> length (krpc_Encode m) \<le> fuel \<Longrightarrow> DecodeKrpc fuel (krpc_Encode m) = Some (Inr m)"
  using bencode_Decode_Encode [OF krpc_root_wf] by (simp add: DecodeKrpc_def krpc_Encode_def krpc_of_root)

text \<open>
  C26: decoding an encoded KRPC message returns the message (query, response or error, with or without a
  version), and the decoder terminates on it.
\<close>

theorem krpc_roundtrip:
  assumes "message_wf m" "length (krpc_Encode m) < 2 ^ 64" "length (krpc_Encode m) \<le> fuel"
  shows "DecodeKrpc fuel (krpc_Encode m) = Some (Inr m)"
  using assms by (rule DecodeKrpc_Encode)

theorem krpc_roundtrip_witness:
  "DecodeKrpc 60 (krpc_Encode \<lparr>transaction_id = ''aa'', krpc_version = None, krpc_payload = KrpcError 201 ''oops''\<rparr>)
    = Some (Inr \<lparr>transaction_id = ''aa'', krpc_version = None, krpc_payload = KrpcError 201 ''oops''\<rparr>)"
  by (rule krpc_roundtrip)
     (simp_all add: message_wf_def krpc_Encode_def krpc_root_eval bencode_Encode_def AppendEncodedString_def
        show_nat.simps show_int_def digit_char_def)

section \<open>Compact forms\<close>

lemma port_bytes:
  "push_bit 8 (ucast (ucast (drop_bit 8 p AND 0xff) :: byte)) OR ucast (ucast (p AND 0xff) :: byte) = (p :: u16)"
proof -
  have m: "(0xff :: u16) = mask 8" by (simp add: mask_eq_exp_minus_1)
  show ?thesis
    unfolding m by (rule bit_word_eqI) (auto simp: bit_simps)
qed

lemma port_bytes_back:
  "(ucast (drop_bit 8 (push_bit 8 (ucast a) OR ucast b :: u16) AND 0xff) :: byte) = a"
  "(ucast ((push_bit 8 (ucast a) OR ucast b :: u16) AND 0xff) :: byte) = b"
proof -
  have m: "(0xff :: u16) = mask 8" by (simp add: mask_eq_exp_minus_1)
  show "(ucast (drop_bit 8 (push_bit 8 (ucast a) OR ucast b :: u16) AND 0xff) :: byte) = a"
    "(ucast ((push_bit 8 (ucast a) OR ucast b :: u16) AND 0xff) :: byte) = b"
    unfolding m by (rule bit_word_eqI; auto simp: bit_simps dest: bit_byte_less)+
qed

lemma compact_peer_decode:
  assumes "ep_address e = AddressV4 bs" "length bs = 4" "EncodeCompactPeer e = Inr s"
  shows "length s = 6 \<and> DecodeCompactPeer s = Inr e"
  using assms by (auto simp: EncodeCompactPeer_def DecodeCompactPeer_def nth_append port_bytes)

lemma compact_peer_encode:
  assumes "length s = 6"
  shows "\<exists>e. DecodeCompactPeer s = Inr e \<and> EncodeCompactPeer e = Inr s"
proof -
  have "s = take 4 s @ [s ! 4, s ! 5]"
    using assms by (simp add: list_eq_iff_nth_eq nth_append less_Suc_eq numeral_eq_Suc)
  then show ?thesis
    using assms by (simp add: DecodeCompactPeer_def EncodeCompactPeer_def port_bytes_back map_idI del: drop_bit_or)
qed

text \<open>
  the 26-byte compact form of a node is faithful in both directions: decoding the encoding of a node
  with an IPv4 endpoint gives a node with the same identifier and endpoint, and every 26-byte string is
  the encoding of the node it decodes to; the encoder refuses IPv6 endpoints and the decoder every
  other length.
\<close>

theorem compact_node_roundtrip:
  "(length (node_id n) = 20 \<and> ep_address (endpoint n) = AddressV4 bs \<and> length bs = 4 \<longrightarrow>
      (\<exists>s n'. EncodeCompactNode n = Inr s \<and> length s = 26 \<and> DecodeCompactNode s = Inr n'
         \<and> node_id n' = node_id n \<and> endpoint n' = endpoint n))
   \<and> (length t = 26 \<longrightarrow> (\<exists>n'. DecodeCompactNode t = Inr n' \<and> EncodeCompactNode n' = Inr t))
   \<and> (length t \<noteq> 26 \<longrightarrow> (\<exists>e. DecodeCompactNode t = Inl e))
   \<and> (ep_address (endpoint n) = AddressV6 v6 \<longrightarrow> (\<exists>e. EncodeCompactNode n = Inl e))"
proof (intro conjI impI)
  assume n: "length (node_id n) = 20 \<and> ep_address (endpoint n) = AddressV4 bs \<and> length bs = 4"
  obtain p where p: "EncodeCompactPeer (endpoint n) = Inr p"
    using n by (simp add: EncodeCompactPeer_def)
  have "length p = 6 \<and> DecodeCompactPeer p = Inr (endpoint n)"
    using n p by (intro compact_peer_decode) auto
  then show "\<exists>s n'. EncodeCompactNode n = Inr s \<and> length s = 26 \<and> DecodeCompactNode s = Inr n'
         \<and> node_id n' = node_id n \<and> endpoint n' = endpoint n"
    using n p by (simp add: EncodeCompactNode_def DecodeCompactNode_def Hash_Size_def KNode_new_def)
next
  assume t: "length t = 26"
  obtain e where e: "DecodeCompactPeer (drop 20 t) = Inr e" "EncodeCompactPeer e = Inr (drop 20 t)"
    using compact_peer_encode [of "drop 20 t"] t by auto
  then obtain a where a: "ep_address e = AddressV4 a"
    by (auto simp: EncodeCompactPeer_def split: Address.splits)
  show "\<exists>n'. DecodeCompactNode t = Inr n' \<and> EncodeCompactNode n' = Inr t"
    using t e a by (simp add: DecodeCompactNode_def EncodeCompactNode_def Hash_Size_def KNode_new_def)
qed (simp_all add: DecodeCompactNode_def EncodeCompactNode_def)

theorem compact_node_roundtrip_witness:
  "\<exists>s n'. EncodeCompactNode (sample_node 7) = Inr s \<and> length s = 26 \<and> DecodeCompactNode s = Inr n'
     \<and> node_id n' = node_id (sample_node 7) \<and> endpoint n' = endpoint (sample_node 7)"
  using compact_node_roundtrip [of "sample_node 7" "[127, 0, 0, 1]" "[]" "[]"]
  by (simp add: sample_node_def KNode_new_def)

section \<open>URLs\<close>

lemma sv_find_at: "c \<notin> set a \<Longrightarrow> off = length pre \<Longrightarrow> sv_find c (pre @ a @ c # b) off = Some (length pre + length a)"
proof -
  assume "c \<notin> set a" "off = length pre"
  moreover from this(1) have "takeWhile (\<lambda>x. x \<noteq> c) (a @ c # b) = a"
    by (subst takeWhile_append2) auto
  ultimately show ?thesis by (simp add: sv_find_def Let_def)
qed

lemma rfind_char_at:
  assumes "c \<notin> set b"
  shows "rfind_char c (a @ c # b) = Some (length a)"
proof -
  have "takeWhile (\<lambda>x. x \<noteq> c) (rev b @ c # rev a) = rev b"
    using assms by (subst takeWhile_append2) auto
  then show ?thesis by (simp add: rfind_char_def)
qed

lemma hex_no_at: "CHR ''@'' \<notin> set (Hash_ToHex h)"
  using set_hex_Encode [of "CHR ''@''" h False True] by (auto simp: Hash_ToHex_def alphabet_def ALPHABET_LC_def)

lemma find_scheme: "find_sub ''://'' (''knode://'' @ r) = Some 5"
  by simp

text \<open>
  a node URL read back by \<open>FromUrlString\<close> gives a node with the identifier, address and port of the
  node it was printed from, for every address text, also one with colons (IPv6), given that the
  address library reads back what it prints.
\<close>

theorem url_roundtrip:
  assumes "length (node_id n) = 20" "node_url n = None"
    and "make_address (to_string (ep_address (endpoint n))) = Inr (ep_address (endpoint n))"
  shows "\<exists>n'. FromUrlString make_address (fst (KNode_ToString to_string n)) = Inr n'
    \<and> node_id n' = node_id n \<and> endpoint n' = endpoint n"
proof -
  let ?hex = "Hash_ToHex (node_id n)" and ?addr = "to_string (ep_address (endpoint n))"
  let ?port = "show_nat (unat (ep_port (endpoint n)))"
  let ?url = "''knode://'' @ ?hex @ ''@'' @ ?addr @ '':'' @ ?port"
  have u: "fst (KNode_ToString to_string n) = ?url"
    using assms(2) by (simp add: KNode_ToString_def url_text_def Let_def)
  have lh: "length ?hex = 40" using assms(1) by simp
  have at: "sv_find (CHR ''@'') ?url 8 = Some 48"
    using sv_find_at [OF hex_no_at [of "node_id n"], of 8 "''knode://''" "?addr @ '':'' @ ?port"] lh by simp
  have nc: "CHR '':'' \<notin> set ?port" using show_nat_set by fastforce
  have col: "rfind_char (CHR '':'') ?url = Some (49 + length ?addr)"
    using rfind_char_at [OF nc, of "''knode://'' @ ?hex @ ''@'' @ ?addr"] lh by simp
  have parts: "sv_substr ?url 0 5 = ''knode''" "sv_substr ?url 8 40 = ?hex" "sv_substr ?url 49 (length ?addr) = ?addr"
    using lh by (simp_all add: sv_substr_def)
  have pt: "drop (50 + length ?addr) ?url = ?port"
  proof -
    have "?url = (''knode://'' @ ?hex @ ''@'' @ ?addr @ '':'') @ ?port" by simp
    moreover have "length (''knode://'' @ ?hex @ ''@'' @ ?addr @ '':'') = 50 + length ?addr" using lh by simp
    ultimately show ?thesis by (metis append_eq_conv_conj)
  qed
  have hx: "Hash_FromHex 160 ?hex False = Inr (node_id n)"
    using assms(1) by (intro Hash_FromHex_ToHex) (simp add: Hash_Size_def)
  have p: "unat (ep_port (endpoint n)) < 2 ^ 16" using unsigned_less [of "ep_port (endpoint n)"] by simp
  then have st: "std_stoi ?port = Inr (word_of_nat (unat (ep_port (endpoint n))))"
    by (intro stoi_show) simp
  have uc: "ucast (word_of_nat (unat (ep_port (endpoint n))) :: 32 word) = ep_port (endpoint n)"
    by (rule bit_word_eqI) (auto simp: bit_simps)
  show ?thesis
    unfolding u FromUrlString_def
    unfolding find_scheme Let_def option.case parts
    using at col parts pt lh hx st uc assms(3)
    by (simp add: KNode_new_def)
qed

text \<open>An address text that is read back: the raw bytes.\<close>

definition raw_to_string :: "Address \<Rightarrow> string" where
  "raw_to_string a = (case a of AddressV4 bs \<Rightarrow> map char_of_byte bs | AddressV6 bs \<Rightarrow> map char_of_byte bs)"

definition raw_make_address :: "string \<Rightarrow> Address res" where
  "raw_make_address s =
     (if length s = 4 then Inr (AddressV4 (map byte_of_char s))
      else if length s = 16 then Inr (AddressV6 (map byte_of_char s))
      else Inl (InvalidArgumentExn ''address''))"

theorem url_roundtrip_witness:
  "\<exists>n'. FromUrlString raw_make_address (fst (KNode_ToString raw_to_string (sample_node 9))) = Inr n'
    \<and> node_id n' = node_id (sample_node 9) \<and> endpoint n' = endpoint (sample_node 9)"
  by (rule url_roundtrip)
     (simp_all add: sample_node_def KNode_new_def raw_make_address_def raw_to_string_def)

section \<open>Divergences from the documentation\<close>

text \<open>
  A node is stale after exactly \<open>NODE_FAILED_COMMS_BEFORE_STALE\<close> failures: one more failure makes it
  fresh again.
\<close>

lemma stale_forgotten: "IsStale n \<Longrightarrow> \<not> IsStale (IncFailuresCount n)"
  by (simp add: IsStale_def IncFailuresCount_def)

text \<open>Nodes compare equal when identifier or endpoint agree, which is not transitive.\<close>

lemma node_eq_not_transitive:
  "\<exists>a b c. KNode_eq a b \<and> KNode_eq b c \<and> \<not> KNode_eq a c"
proof (intro exI conjI)
  let ?e = "\<lambda>p. \<lparr>ep_address = AddressV4 [127, 0, 0, 1], ep_port = p\<rparr>"
  show "KNode_eq (KNode_new [1] (?e 1)) (KNode_new [1] (?e 2))"
    "KNode_eq (KNode_new [1] (?e 2)) (KNode_new [2] (?e 2))"
    "\<not> KNode_eq (KNode_new [1] (?e 1)) (KNode_new [2] (?e 2))"
    by (simp_all add: KNode_eq_def KNode_new_def Hash_eq_def endpoint_eq_def)
qed

text \<open>A port beyond 16 bits in a URL is cut to 16 bits instead of being refused.\<close>

lemma url_port_truncated:
  "n < 2 ^ 31 \<Longrightarrow> rbind (std_stoi (show_nat n)) (\<lambda>p. Inr (ucast p)) = Inr (word_of_nat n :: u16)"
  by (simp add: stoi_show) (rule bit_word_eqI, auto simp: bit_simps)

text \<open>The message decoder inherits the endless loop of the bencode decoder.\<close>

lemma DecodeKrpc_hangs: "DecodeKrpc fuel looping_input = None"
  using looping_forever by (simp add: DecodeKrpc_def)

end
