(* ===== verification/Channel.thy ===== *)
theory Channel
  imports Kademlia
begin

text \<open>
  \<open>src/Blocxxi/P2P/kademlia/channel.h\<close>: a socket bound to an endpoint of the wanted family, and the sending and receiving of messages
  in one datagram. The resolver, the sockets and what they report are parameters; a failure is the code of a \<open>std::system_error\<close>.
\<close>

section \<open>Errors\<close>

datatype kademlia_error = UNKNOWN_ERROR | INITIAL_PEER_FAILED_TO_RESPOND | UNASSOCIATED_MESSAGE_ID | INVALID_IPV4_ADDRESS
  | INVALID_IPV6_ADDRESS | VALUE_NOT_FOUND | TIMER_MALFUNCTION

fun error_message :: "kademlia_error \<Rightarrow> string" where
  "error_message INITIAL_PEER_FAILED_TO_RESPOND = ''initial peer failed to respond''"
| "error_message UNASSOCIATED_MESSAGE_ID = ''unassociated message id''"
| "error_message INVALID_IPV4_ADDRESS = ''invalid IPv4 address''"
| "error_message INVALID_IPV6_ADDRESS = ''invalid IPv6 address''"
| "error_message VALUE_NOT_FOUND = ''value not found''"
| "error_message TIMER_MALFUNCTION = ''timer malfunction''"
| "error_message UNKNOWN_ERROR = ''unknown error''"

section \<open>Opening\<close>

definition is_v4 :: "Address \<Rightarrow> bool" where
  "is_v4 a = (case a of AddressV4 _ \<Rightarrow> True | AddressV6 _ \<Rightarrow> False)"

text \<open>
  The calls on a socket, in their order: opening for the protocol of the endpoint, the option that keeps a socket of IPv6 to its
  family, the option that allows the address to be reused, and binding. Each may fail with a code.
\<close>

datatype socket_call = OpenSocket bool | V6Only | ReuseAddress | Bind IpEndpoint

fun run_calls :: "(socket_call \<Rightarrow> 'err option) \<Rightarrow> socket_call list \<Rightarrow> ('err + unit)" where
  "run_calls sys [] = Inr ()"
| "run_calls sys (c # cs) = (case sys c of Some err \<Rightarrow> Inl err | None \<Rightarrow> run_calls sys cs)"

definition socket_calls :: "IpEndpoint \<Rightarrow> socket_call list" where
  "socket_calls e = [OpenSocket (is_v4 (ep_address e))] @ (if is_v4 (ep_address e) then [] else [V6Only]) @ [ReuseAddress, Bind e]"

record Channel =
  bound_to :: IpEndpoint

definition CreateUnderlyingSocket :: "(socket_call \<Rightarrow> 'err option) \<Rightarrow> IpEndpoint \<Rightarrow> 'err + Channel" where
  "CreateUnderlyingSocket sys e = (case run_calls sys (socket_calls e) of Inl err \<Rightarrow> Inl err | Inr _ \<Rightarrow> Inr \<lparr>bound_to = e\<rparr>)"

text \<open>Both factories take the first endpoint of their family; every failure on the way, of resolving and of binding, is caught.\<close>

definition Channel_ipv4 ::
  "(string \<Rightarrow> string \<Rightarrow> 'err + IpEndpoint list) \<Rightarrow> (socket_call \<Rightarrow> 'err option) \<Rightarrow> string \<Rightarrow> string \<Rightarrow> kademlia_error + Channel" where
  "Channel_ipv4 resolve sys host service =
     (case resolve host service of Inl _ \<Rightarrow> Inl INVALID_IPV4_ADDRESS
      | Inr endpoints \<Rightarrow>
          (case filter (\<lambda>e. is_v4 (ep_address e)) endpoints of [] \<Rightarrow> Inl INVALID_IPV4_ADDRESS
           | e # _ \<Rightarrow> (case CreateUnderlyingSocket sys e of Inl _ \<Rightarrow> Inl INVALID_IPV4_ADDRESS | Inr ch \<Rightarrow> Inr ch)))"

definition Channel_ipv6 ::
  "(string \<Rightarrow> string \<Rightarrow> 'err + IpEndpoint list) \<Rightarrow> (socket_call \<Rightarrow> 'err option) \<Rightarrow> string \<Rightarrow> string \<Rightarrow> kademlia_error + Channel" where
  "Channel_ipv6 resolve sys host service =
     (case resolve host service of Inl _ \<Rightarrow> Inl INVALID_IPV4_ADDRESS
      | Inr endpoints \<Rightarrow>
          (case filter (\<lambda>e. \<not> is_v4 (ep_address e)) endpoints of [] \<Rightarrow> Inl INVALID_IPV6_ADDRESS
           | e # _ \<Rightarrow> (case CreateUnderlyingSocket sys e of Inl _ \<Rightarrow> Inl INVALID_IPV4_ADDRESS | Inr ch \<Rightarrow> Inr ch)))"

section \<open>Messages\<close>

definition SAFE_PAYLOAD_SIZE :: nat where
  "SAFE_PAYLOAD_SIZE = 1452"

text \<open>What the callback of a sender gets: an error at once, or what the socket reports for the datagram.\<close>

datatype 'err send_failure = ValueTooLarge | SocketFailure 'err

definition AsyncSend ::
  "(byte list \<Rightarrow> IpEndpoint \<Rightarrow> 'n \<Rightarrow> 'err option \<times> 'n) \<Rightarrow> byte list \<Rightarrow> IpEndpoint \<Rightarrow> 'n \<Rightarrow> 'err send_failure option \<times> 'n" where
  "AsyncSend send message e n =
     (if length message > SAFE_PAYLOAD_SIZE then (Some ValueTooLarge, n)
      else case send message e n of (failure, n) \<Rightarrow> (map_option SocketFailure failure, n))"

text \<open>A datagram is written to the buffer of the channel, which cuts it; the callback reads as many bytes as were received.\<close>

definition AsyncReceive :: "IpEndpoint \<Rightarrow> byte list \<Rightarrow> IpEndpoint \<times> byte list" where
  "AsyncReceive sender datagram = (sender, take SAFE_PAYLOAD_SIZE datagram)"

section \<open>Properties\<close>

text \<open>
  A channel over IPv4 is bound to the first resolved endpoint of that family, and only opened when all calls on the socket succeed,
  in which case a socket of IPv6 has been kept to its family.
\<close>

theorem channel_bound:
  assumes "Channel_ipv4 resolve sys host service = Inr ch"
  shows "\<exists>as e bs. resolve host service = Inr (as @ e # bs) \<and> (\<forall>x \<in> set as. \<not> is_v4 (ep_address x)) \<and> is_v4 (ep_address e)
    \<and> ch = \<lparr>bound_to = e\<rparr> \<and> sys (Bind e) = None"
proof -
  obtain es where es: "resolve host service = Inr es" using assms by (auto simp: Channel_ipv4_def split: sum.splits)
  obtain e rest' where f: "filter (\<lambda>e. is_v4 (ep_address e)) es = e # rest'"
    using assms es by (auto simp: Channel_ipv4_def split: list.splits)
  then obtain as bs where "es = as @ e # bs" "\<forall>x \<in> set as. \<not> is_v4 (ep_address x)" "is_v4 (ep_address e)"
    by (auto simp: filter_eq_Cons_iff)
  moreover have "ch = \<lparr>bound_to = e\<rparr>" "sys (Bind e) = None"
    using assms es f by (auto simp: Channel_ipv4_def CreateUnderlyingSocket_def socket_calls_def split: sum.splits option.splits if_splits)
  ultimately show ?thesis using es by blast
qed

theorem channel_bound_witness:
  "\<exists>ch. Channel_ipv4 (\<lambda>h s. Inr [\<lparr>ep_address = AddressV6 [], ep_port = 1\<rparr>, \<lparr>ep_address = AddressV4 [127, 0, 0, 1], ep_port = 1\<rparr>])
      (\<lambda>c. None :: unit option) ''h'' ''1'' = Inr ch \<and> is_v4 (ep_address (bound_to ch))"
proof -
  let ?r = "\<lambda>h s. Inr [\<lparr>ep_address = AddressV6 [], ep_port = 1\<rparr>, \<lparr>ep_address = AddressV4 [127, 0, 0, 1], ep_port = 1\<rparr>] :: unit + IpEndpoint list"
  have "Channel_ipv4 ?r (\<lambda>c. None :: unit option) ''h'' ''1'' = Inr \<lparr>bound_to = \<lparr>ep_address = AddressV4 [127, 0, 0, 1], ep_port = 1\<rparr>\<rparr>"
    by (simp add: Channel_ipv4_def CreateUnderlyingSocket_def socket_calls_def is_v4_def)
  from channel_bound [OF this] this show ?thesis by auto
qed

text \<open>What one channel sends without an error the other receives whole; a longer message is never handed to the socket.\<close>

lemma sent_is_received:
  assumes "AsyncSend send message e n = (None, n')"
  shows "send message e n = (None, n') \<and> snd (AsyncReceive sender message) = message"
  using assms by (auto simp: AsyncSend_def AsyncReceive_def split: if_splits prod.splits)

text \<open>A name that cannot be resolved is reported as an invalid address of the other family.\<close>

lemma ipv6_reports_ipv4: "resolve host service = Inl err \<Longrightarrow> Channel_ipv6 resolve sys host service = Inl INVALID_IPV4_ADDRESS"
  by (simp add: Channel_ipv6_def)

end
