(* ===== verification/ResourceHandle.thy ===== *)
theory ResourceHandle
  imports Prelude
begin

text \<open>
  The 64-bit resource handle of \<open>src/Nova/Base/ResourceHandle.h\<close>, a word with six bit fields, with
  the masks and the setters of the source. The record \<open>HandleFields\<close> is the abstract view: each
  setter is an update of one field of it, and the order of handles is the lexicographic order of
  the fields.
\<close>

type_synonym HandleT = u64

section \<open>Masks\<close>

definition kHandleMask :: HandleT where
  "kHandleMask = - 1"

definition kIndexMask :: HandleT where
  "kIndexMask = push_bit 32 1 - 1"

definition kGenerationMask :: HandleT where
  "kGenerationMask = push_bit 12 1 - 1"

definition kResourceTypeMask :: HandleT where
  "kResourceTypeMask = push_bit 8 1 - 1"

definition kCustomMask :: HandleT where
  "kCustomMask = push_bit 8 1 - 1"

definition kReservedMask :: HandleT where
  "kReservedMask = push_bit 3 1 - 1"

definition kCustomSetMask :: HandleT where
  "kCustomSetMask = (push_bit (32 + 12) 1 - 1) OR push_bit (32 + 12 + 8) kHandleMask"

definition kResourceTypeSetMask :: HandleT where
  "kResourceTypeSetMask = (push_bit (32 + 12 + 8) 1 - 1) OR push_bit (32 + 12 + 8 + 8) kHandleMask"

definition kGenerationSetMask :: HandleT where
  "kGenerationSetMask = push_bit (32 + 12) kHandleMask OR kIndexMask"

definition kIndexSetMask :: HandleT where
  "kIndexSetMask = push_bit 32 kHandleMask"

definition kReservedSetMask :: HandleT where
  "kReservedSetMask = push_bit (64 - 3) 1 - 1"

definition kGenerationMax :: u16 where
  "kGenerationMax = ucast kGenerationMask"

definition kTypeNotInitialized :: byte where
  "kTypeNotInitialized = ucast kResourceTypeMask"

definition kIndexMax :: u32 where
  "kIndexMax = ucast kIndexMask"

definition kInvalidIndex :: u32 where
  "kInvalidIndex = kIndexMax"

section \<open>Operations\<close>

definition Index :: "HandleT \<Rightarrow> u32" where
  "Index h = ucast (h AND kIndexMask)"

definition SetIndex :: "u32 \<Rightarrow> HandleT \<Rightarrow> HandleT" where
  "SetIndex index h = (h AND kIndexSetMask) OR ucast (if index \<le> kIndexMax then index else kInvalidIndex)"

definition ResourceType :: "HandleT \<Rightarrow> byte" where
  "ResourceType h = ucast (drop_bit (32 + 12 + 8) h AND kResourceTypeMask)"

definition SetResourceType :: "byte \<Rightarrow> HandleT \<Rightarrow> HandleT" where
  "SetResourceType type h = (h AND kResourceTypeSetMask) OR push_bit (32 + 12 + 8) (ucast type)"

definition Custom :: "HandleT \<Rightarrow> byte" where
  "Custom h = ucast (drop_bit (32 + 12) h AND kCustomMask)"

definition SetCustom :: "byte \<Rightarrow> HandleT \<Rightarrow> HandleT" where
  "SetCustom custom h = (h AND kCustomSetMask) OR push_bit (32 + 12) (ucast custom)"

definition Reserved :: "HandleT \<Rightarrow> byte" where
  "Reserved h = ucast (drop_bit (64 - 3) h AND kReservedMask)"

definition SetReserved :: "byte \<Rightarrow> HandleT \<Rightarrow> HandleT" where
  "SetReserved reserved h = (h AND kReservedSetMask) OR push_bit (64 - 3) (ucast reserved)"

definition Generation :: "HandleT \<Rightarrow> u16" where
  "Generation h = ucast (drop_bit 32 h AND kGenerationMask)"

definition SetGeneration :: "u16 \<Rightarrow> HandleT \<Rightarrow> HandleT" where
  "SetGeneration generation h =
     (let generation = (if generation > kGenerationMax then 0 else generation) in
      (h AND kGenerationSetMask) OR push_bit 32 (ucast generation))"

definition NewGeneration :: "HandleT \<Rightarrow> HandleT" where
  "NewGeneration h =
     (let current = Generation h; new = (if current = kGenerationMax then 0 else current + 1) in
      (h AND kGenerationSetMask) OR push_bit 32 (ucast new))"

definition IsFree :: "HandleT \<Rightarrow> bool" where
  "IsFree h = ((h AND push_bit (64 - 3 - 1) 1) \<noteq> 0)"

definition SetFree :: "bool \<Rightarrow> HandleT \<Rightarrow> HandleT" where
  "SetFree flag h =
     (let h = h AND NOT (push_bit (64 - 3 - 1) 1) in if flag then h OR push_bit (64 - 3 - 1) 1 else h)"

definition IsValid :: "HandleT \<Rightarrow> bool" where
  "IsValid h = (Index h \<noteq> kInvalidIndex)"

definition Invalidate :: "HandleT \<Rightarrow> HandleT" where
  "Invalidate h = kHandleMask"

text \<open>The constructor, from the initial value \<open>kHandleMask\<close> of the member.\<close>

definition ResourceHandle_of :: "u32 \<Rightarrow> byte \<Rightarrow> HandleT" where
  "ResourceHandle_of index type =
     SetFree False (SetReserved 0 (SetCustom 0 (SetGeneration 0 (SetResourceType type (SetIndex index kHandleMask)))))"

definition handle_less :: "HandleT \<Rightarrow> HandleT \<Rightarrow> bool" where
  "handle_less lhs rhs = (lhs < rhs)"

definition handle_to_string :: "HandleT \<Rightarrow> string" where
  "handle_to_string h =
     (if \<not> IsValid h then ''RH(Invalid)''
      else ''RH(Index: '' @ show_nat (unat (Index h)) @ '', ResourceType: '' @ show_nat (unat (ResourceType h))
        @ '', Generation: '' @ show_nat (unat (Generation h))
        @ (if Custom h \<noteq> 0 then '', Custom: '' @ show_nat (unat (Custom h)) else [])
        @ (if Reserved h \<noteq> 0 then '', Reserved: '' @ show_nat (unat (Reserved h)) else [])
        @ '', IsFree: '' @ (if IsFree h then ''true'' else ''false'') @ '')'')"

definition handle_to_string_compact :: "HandleT \<Rightarrow> string" where
  "handle_to_string_compact h =
     (if \<not> IsValid h then ''RH(Invalid)''
      else ''RH(i:'' @ show_nat (unat (Index h)) @ '', t:'' @ show_nat (unat (ResourceType h))
        @ '', g:'' @ show_nat (unat (Generation h)) @ '', c:'' @ show_nat (unat (Custom h))
        @ '', r:'' @ show_nat (unat (Reserved h)) @ '', f:'' @ (if IsFree h then ''1'' else ''0'') @ '')'')"

section \<open>Bits of the fields\<close>

named_theorems handle_bits

lemma push_bit_1_minus_1: "push_bit n 1 - 1 = (mask n :: u64)"
  by (simp add: mask_eq_exp_minus_1 push_bit_eq_mult)

lemmas mask_defs =
  kHandleMask_def kIndexMask_def kGenerationMask_def kResourceTypeMask_def kCustomMask_def kReservedMask_def
  kCustomSetMask_def kResourceTypeSetMask_def kGenerationSetMask_def kIndexSetMask_def kReservedSetMask_def

lemma kIndexMax_eq: "kIndexMax = - 1"
  by (simp add: kIndexMax_def kIndexMask_def)

lemma index_le_max [simp]: "(i :: u32) \<le> kIndexMax"
  by (simp add: kIndexMax_eq word_order.extremum)

lemma kGenerationMax_eq: "kGenerationMax = 4095"
  by (simp add: kGenerationMax_def kGenerationMask_def)

lemma get_bits [handle_bits]:
  "bit (Index h) n \<longleftrightarrow> n < 32 \<and> bit h n"
  "bit (Generation h) n \<longleftrightarrow> n < 12 \<and> bit h (n + 32)"
  "bit (Custom h) n \<longleftrightarrow> n < 8 \<and> bit h (n + 44)"
  "bit (ResourceType h) n \<longleftrightarrow> n < 8 \<and> bit h (n + 52)"
  "bit (Reserved h) n \<longleftrightarrow> n < 3 \<and> bit h (n + 61)"
  unfolding Index_def Generation_def Custom_def ResourceType_def Reserved_def mask_defs push_bit_1_minus_1
  by (auto simp: bit_simps add.commute)

lemma IsFree_bit: "IsFree h \<longleftrightarrow> bit h 60"
  by (simp add: IsFree_def bit_iff_and_push_bit_not_eq_0)

lemma bit_type_less:
  "bit (a :: u64) n \<Longrightarrow> n < 64" "bit (b :: u32) n \<Longrightarrow> n < 32" "bit (c :: u16) n \<Longrightarrow> n < 16" "bit (d :: byte) n \<Longrightarrow> n < 8"
  by (auto dest: bit_imp_le_length)

lemma set_bits [handle_bits]:
  "bit (SetIndex i h) n \<longleftrightarrow> (if n < 32 then bit i n else bit h n)"
  "bit (SetResourceType t h) n \<longleftrightarrow> (if 52 \<le> n \<and> n < 60 then bit t (n - 52) else bit h n)"
  "bit (SetCustom t h) n \<longleftrightarrow> (if 44 \<le> n \<and> n < 52 then bit t (n - 44) else bit h n)"
  "bit (SetReserved t h) n \<longleftrightarrow> (if 61 \<le> n \<and> n < 64 then bit t (n - 61) else bit h n)"
  unfolding SetIndex_def SetResourceType_def SetCustom_def SetReserved_def mask_defs push_bit_1_minus_1
  by (auto simp: bit_simps not_less dest: bit_type_less)

lemma bit_free_mask: "bit (push_bit 60 1 :: u64) n \<longleftrightarrow> n = 60"
  by (simp only: bit_push_bit_iff bit_1_iff) auto

lemma SetFree_bit [handle_bits]: "bit (SetFree f h) n \<longleftrightarrow> (if n = 60 then f else bit h n)"
proof -
  have p: "(64 - 3 - 1 :: nat) = 60" by simp
  show ?thesis
    unfolding SetFree_def p Let_def
    by (cases f) (simp_all only: if_True if_False bit_or_iff bit_and_iff bit_not_iff bit_free_mask,
      auto dest: bit_type_less)
qed

text \<open>A generation of at most 12 bits.\<close>

definition put_generation :: "u16 \<Rightarrow> HandleT \<Rightarrow> HandleT" where
  "put_generation g h = (h AND kGenerationSetMask) OR push_bit 32 (ucast g)"

lemma small_generation_bit: "(g :: u16) \<le> 4095 \<Longrightarrow> bit g n \<Longrightarrow> n < 12"
proof -
  assume "g \<le> 4095" "bit g n"
  then have "unat g < 2 ^ 12" by (simp add: word_le_nat_alt)
  then have "take_bit 12 g = g"
    by (simp add: word_unat_eq_iff unsigned_take_bit_eq take_bit_nat_eq_self)
  then show "n < 12" using \<open>bit g n\<close> by (metis bit_take_bit_iff)
qed

lemma put_generation_bit [handle_bits]:
  "g \<le> 4095 \<Longrightarrow> bit (put_generation g h) n \<longleftrightarrow> (if 32 \<le> n \<and> n < 44 then bit g (n - 32) else bit h n)"
  unfolding put_generation_def mask_defs push_bit_1_minus_1
  by (auto simp: bit_simps not_less dest: bit_type_less small_generation_bit)

definition next_generation :: "u16 \<Rightarrow> u16" where
  "next_generation g = (if g = 4095 then 0 else g + 1)"

lemma Generation_le: "Generation h \<le> 4095"
proof -
  have "take_bit 12 (Generation h) = Generation h"
    by (rule bit_word_eqI) (auto simp: bit_simps handle_bits)
  then have "unat (Generation h) < 2 ^ 12"
    by (metis take_bit_nat_less_exp unsigned_take_bit_eq)
  then show ?thesis by (simp add: word_le_nat_alt)
qed

lemma next_generation_le: "g \<le> 4095 \<Longrightarrow> next_generation g \<le> 4095"
  by (auto simp: next_generation_def word_le_nat_alt unat_word_ariths word_unat_eq_iff)

lemma NewGeneration_eq: "NewGeneration h = put_generation (next_generation (Generation h)) h"
  by (simp add: NewGeneration_def put_generation_def next_generation_def kGenerationMax_eq Let_def)

lemma SetGeneration_eq: "SetGeneration g h = put_generation (if g > 4095 then 0 else g) h"
  by (simp add: SetGeneration_def put_generation_def kGenerationMax_eq Let_def)

section \<open>The abstract view\<close>

record HandleFields =
  f_reserved :: byte
  f_free :: bool
  f_type :: byte
  f_custom :: byte
  f_generation :: u16
  f_index :: u32

definition fields :: "HandleT \<Rightarrow> HandleFields" where
  "fields h = \<lparr>f_reserved = Reserved h, f_free = IsFree h, f_type = ResourceType h, f_custom = Custom h,
     f_generation = Generation h, f_index = Index h\<rparr>"

lemma fields_inject: "fields h = fields g \<longleftrightarrow> h = g"
proof
  assume "fields h = fields g"
  then have f: "bit (Reserved h) = bit (Reserved g)" "IsFree h = IsFree g" "bit (ResourceType h) = bit (ResourceType g)"
    "bit (Custom h) = bit (Custom g)" "bit (Generation h) = bit (Generation g)" "bit (Index h) = bit (Index g)"
    by (simp_all add: fields_def)
  show "h = g"
  proof (rule bit_word_eqI)
    fix n assume "n < LENGTH(64)"
    then consider "n < 32" | "32 \<le> n" "n - 32 < 12" | "44 \<le> n" "n - 44 < 8" | "52 \<le> n" "n - 52 < 8" | "n = 60"
      | "61 \<le> n" "n - 61 < 3" by simp linarith
    then show "bit h n \<longleftrightarrow> bit g n"
      using fun_cong [OF f(1), of "n - 61"] f(2) fun_cong [OF f(3), of "n - 52"] fun_cong [OF f(4), of "n - 44"]
        fun_cong [OF f(5), of "n - 32"] fun_cong [OF f(6), of n]
      by cases (simp_all add: handle_bits IsFree_bit)
  qed
qed simp

lemma field_eqI:
  "(\<And>n. bit (Reserved h) n = bit (f_reserved r) n) \<Longrightarrow> IsFree h = f_free r \<Longrightarrow>
   (\<And>n. bit (ResourceType h) n = bit (f_type r) n) \<Longrightarrow> (\<And>n. bit (Custom h) n = bit (f_custom r) n) \<Longrightarrow>
   (\<And>n. bit (Generation h) n = bit (f_generation r) n) \<Longrightarrow> (\<And>n. bit (Index h) n = bit (f_index r) n) \<Longrightarrow>
   fields h = r"
  unfolding fields_def by (intro HandleFields.equality) (auto intro: bit_eqI)

lemma fields_simps [simp]:
  "f_reserved (fields h) = Reserved h" "f_free (fields h) = IsFree h" "f_type (fields h) = ResourceType h"
  "f_custom (fields h) = Custom h" "f_generation (fields h) = Generation h" "f_index (fields h) = Index h"
  by (simp_all add: fields_def)

lemma fields_SetIndex: "fields (SetIndex i h) = (fields h)\<lparr>f_index := i\<rparr>"
  by (rule field_eqI) (auto simp: handle_bits IsFree_bit dest: bit_type_less)

lemma fields_SetResourceType: "fields (SetResourceType t h) = (fields h)\<lparr>f_type := t\<rparr>"
  by (rule field_eqI) (auto simp: handle_bits IsFree_bit dest: bit_type_less)

lemma fields_SetCustom: "fields (SetCustom t h) = (fields h)\<lparr>f_custom := t\<rparr>"
  by (rule field_eqI) (auto simp: handle_bits IsFree_bit dest: bit_type_less)

lemma fields_SetReserved: "fields (SetReserved t h) = (fields h)\<lparr>f_reserved := t AND 7\<rparr>"
proof -
  have m: "(7 :: byte) = mask 3" by (simp add: mask_eq_exp_minus_1)
  show ?thesis
    unfolding m by (rule field_eqI) (auto simp: handle_bits bit_simps IsFree_bit dest: bit_type_less)
qed

lemma fields_SetFree: "fields (SetFree f h) = (fields h)\<lparr>f_free := f\<rparr>"
  by (rule field_eqI) (auto simp: handle_bits IsFree_bit dest: bit_type_less)

lemma fields_put_generation: "g \<le> 4095 \<Longrightarrow> fields (put_generation g h) = (fields h)\<lparr>f_generation := g\<rparr>"
  by (rule field_eqI) (auto simp: handle_bits IsFree_bit dest: bit_type_less small_generation_bit)

lemma fields_NewGeneration: "fields (NewGeneration h) = (fields h)\<lparr>f_generation := next_generation (Generation h)\<rparr>"
  by (simp add: NewGeneration_eq fields_put_generation next_generation_le Generation_le)

lemma fields_SetGeneration: "fields (SetGeneration g h) = (fields h)\<lparr>f_generation := (if g > 4095 then 0 else g)\<rparr>"
  by (simp add: SetGeneration_eq fields_put_generation not_less)

lemmas fields_set = fields_SetIndex fields_SetResourceType fields_SetCustom fields_SetReserved fields_SetFree
  fields_SetGeneration fields_NewGeneration

text \<open>The fields after a setter, one by one.\<close>

lemma get_set_simps [simp]:
  "Index (SetIndex i h) = i" "Generation (SetIndex i h) = Generation h" "IsFree (SetIndex i h) = IsFree h"
  "ResourceType (SetIndex i h) = ResourceType h"
  "Index (SetFree f h) = Index h" "Generation (SetFree f h) = Generation h" "IsFree (SetFree f h) = f"
  "ResourceType (SetFree f h) = ResourceType h"
  "Index (NewGeneration h) = Index h" "Generation (NewGeneration h) = next_generation (Generation h)"
  "IsFree (NewGeneration h) = IsFree h" "ResourceType (NewGeneration h) = ResourceType h"
  "Index (SetResourceType t h) = Index h" "Generation (SetResourceType t h) = Generation h"
  "IsFree (SetResourceType t h) = IsFree h" "ResourceType (SetResourceType t h) = t"
  using fields_SetIndex [of i h] fields_SetFree [of f h] fields_NewGeneration [of h] fields_SetResourceType [of t h]
  by (simp_all add: fields_def)

lemma ResourceHandle_of_fields:
  "fields (ResourceHandle_of i t) = \<lparr>f_reserved = 0, f_free = False, f_type = t, f_custom = 0, f_generation = 0, f_index = i\<rparr>"
  unfolding ResourceHandle_of_def fields_set by (simp add: fields_def)

section \<open>The order of handles\<close>

lemma unat_field:
  assumes "w \<le> LENGTH('a)"
  shows "unat (ucast (drop_bit k (h :: u64) AND mask w) :: 'a :: len word) = unat h div 2 ^ k mod 2 ^ w"
proof -
  have "unat h < 2 ^ 64" using unsigned_less [of h] by simp
  then have h: "take_bit 64 (unat h) = unat h" by (rule take_bit_nat_eq_self)
  have "unat (ucast (take_bit w (drop_bit k h)) :: 'a word) = take_bit LENGTH('a) (take_bit w (drop_bit k (unat h)))"
    by (simp only: unsigned_ucast_eq unsigned_take_bit_eq unsigned_drop_bit_eq) (simp add: h min.commute)
  also have "\<dots> = unat h div 2 ^ k mod 2 ^ w"
    using assms by (simp add: min_absorb2) (simp add: take_bit_eq_mod drop_bit_eq_div)
  finally show ?thesis by (simp add: take_bit_eq_mask)
qed

lemma field_nat:
  "unat (Index h) = unat h mod 2 ^ 32"
  "unat (Generation h) = unat h div 2 ^ 32 mod 2 ^ 12"
  "unat (Custom h) = unat h div 2 ^ 44 mod 2 ^ 8"
  "unat (ResourceType h) = unat h div 2 ^ 52 mod 2 ^ 8"
  "of_bool (IsFree h) = unat h div 2 ^ 60 mod 2"
  "unat (Reserved h) = unat h div 2 ^ 61"
proof -
  note f = mask_defs push_bit_1_minus_1
  have n: "(32 + 12 :: nat) = 44" "(44 + 8 :: nat) = 52" "(64 - 3 :: nat) = 61" by simp_all
  show "unat (Index h) = unat h mod 2 ^ 32"
    using unat_field [of 32 0 h, where 'a = 32] by (simp only: Index_def f drop_bit_0) simp
  show "unat (Generation h) = unat h div 2 ^ 32 mod 2 ^ 12" "unat (Custom h) = unat h div 2 ^ 44 mod 2 ^ 8"
    "unat (ResourceType h) = unat h div 2 ^ 52 mod 2 ^ 8"
    unfolding Generation_def Custom_def ResourceType_def f n by (rule unat_field; simp)+
  have "unat h < 2 ^ 64" using unsigned_less [of h] by simp
  then have "unat h div 2 ^ 61 < 2 ^ 3" by (simp add: less_mult_imp_div_less)
  then show "unat (Reserved h) = unat h div 2 ^ 61"
    unfolding Reserved_def f n by (subst unat_field) (simp_all add: mod_less)
  show "of_bool (IsFree h) = unat h div 2 ^ 60 mod 2"
  proof -
    have "bit h 60 \<longleftrightarrow> bit (unat h) 60" by (simp add: bit_unsigned_iff)
    also have "\<dots> \<longleftrightarrow> odd (unat h div 2 ^ 60)" by (rule bit_iff_odd)
    finally show ?thesis unfolding IsFree_bit by (simp add: odd_iff_mod_2_eq_one)
  qed
qed

text \<open>The order the code gives to handles, field by field.\<close>

definition fields_less :: "HandleFields \<Rightarrow> HandleFields \<Rightarrow> bool" where
  "fields_less a b \<longleftrightarrow> f_reserved a < f_reserved b \<or> f_reserved a = f_reserved b \<and>
     (\<not> f_free a \<and> f_free b \<or> f_free a = f_free b \<and>
     (f_type a < f_type b \<or> f_type a = f_type b \<and>
     (f_custom a < f_custom b \<or> f_custom a = f_custom b \<and>
     (f_generation a < f_generation b \<or> f_generation a = f_generation b \<and> f_index a < f_index b))))"

lemma less_div_mod: "(a :: nat) < b \<longleftrightarrow> a div m < b div m \<or> a div m = b div m \<and> a mod m < b mod m"
proof (cases "a div m" "b div m" rule: linorder_cases)
  case less
  then have "a < b" using div_le_mono [of b a m] by linarith
  then show ?thesis using less by auto
next
  case equal
  then have "a = b div m * m + a mod m" "b = b div m * m + b mod m" by (metis div_mult_mod_eq)+
  then show ?thesis using equal by (metis nat_add_left_cancel_less less_irrefl)
next
  case greater
  then have "\<not> a < b" using div_le_mono [of a b m] by linarith
  then show ?thesis using greater by auto
qed

lemma eq_div_mod: "(a :: nat) = b \<longleftrightarrow> a div m = b div m \<and> a mod m = b mod m"
  by (metis div_mult_mod_eq)

lemma handle_less_fields: "handle_less g h \<longleftrightarrow> fields_less (fields g) (fields h)"
proof -
  let ?g = "unat g" and ?h = "unat h"
  have b: "\<not> x \<and> y \<longleftrightarrow> (of_bool x :: nat) < of_bool y" "x = y \<longleftrightarrow> (of_bool x :: nat) = of_bool y" for x y by auto
  have d: "n div 2 ^ 32 div 2 ^ 12 = n div 2 ^ 44" "n div 2 ^ 44 div 2 ^ 8 = n div 2 ^ 52"
    "n div 2 ^ 52 div 2 ^ 8 = n div 2 ^ 60" "n div 2 ^ 60 div 2 = n div 2 ^ 61" for n :: nat
    by (simp_all add: div_mult2_eq [symmetric])
  have "handle_less g h \<longleftrightarrow> ?g < ?h" by (simp add: handle_less_def word_less_nat_alt)
  also have "\<dots> \<longleftrightarrow> fields_less (fields g) (fields h)"
  proof -
    note l = less_div_mod [of ?g ?h "2 ^ 32"] less_div_mod [of "?g div 2 ^ 32" "?h div 2 ^ 32" "2 ^ 12", unfolded d]
      less_div_mod [of "?g div 2 ^ 44" "?h div 2 ^ 44" "2 ^ 8", unfolded d]
      less_div_mod [of "?g div 2 ^ 52" "?h div 2 ^ 52" "2 ^ 8", unfolded d]
      less_div_mod [of "?g div 2 ^ 60" "?h div 2 ^ 60" "2", unfolded d]
    note e = eq_div_mod [of "?g div 2 ^ 32" "?h div 2 ^ 32" "2 ^ 12", unfolded d]
      eq_div_mod [of "?g div 2 ^ 44" "?h div 2 ^ 44" "2 ^ 8", unfolded d]
      eq_div_mod [of "?g div 2 ^ 52" "?h div 2 ^ 52" "2 ^ 8", unfolded d]
      eq_div_mod [of "?g div 2 ^ 60" "?h div 2 ^ 60" "2", unfolded d]
    show ?thesis
      unfolding fields_less_def fields_simps word_less_nat_alt word_unat_eq_iff b [of "IsFree g" "IsFree h"] field_nat
      using l e by argo
  qed
  finally show ?thesis .
qed

section \<open>Properties\<close>

text \<open>
  every setter of a handle is the update of one field of the abstract view and leaves the five other
  fields alone (a reserved value is cut to three bits, a generation beyond the maximum becomes 0, the
  generation after the maximum is 0), the constructor gives the documented fields, and the fields
  determine the handle.
\<close>

theorem handle_fields_refine:
  "fields (SetIndex i h) = (fields h)\<lparr>f_index := i\<rparr>
   \<and> fields (SetResourceType t h) = (fields h)\<lparr>f_type := t\<rparr>
   \<and> fields (SetCustom t h) = (fields h)\<lparr>f_custom := t\<rparr>
   \<and> fields (SetReserved t h) = (fields h)\<lparr>f_reserved := t AND 7\<rparr>
   \<and> fields (SetFree b h) = (fields h)\<lparr>f_free := b\<rparr>
   \<and> fields (SetGeneration g h) = (fields h)\<lparr>f_generation := (if g > 4095 then 0 else g)\<rparr>
   \<and> fields (NewGeneration h) = (fields h)\<lparr>f_generation := (if Generation h = 4095 then 0 else Generation h + 1)\<rparr>
   \<and> fields (ResourceHandle_of i t)
       = \<lparr>f_reserved = 0, f_free = False, f_type = t, f_custom = 0, f_generation = 0, f_index = i\<rparr>
   \<and> (fields h = fields h' \<longleftrightarrow> h = h')"
  by (simp only: fields_set ResourceHandle_of_fields fields_inject next_generation_def)

text \<open>
  the order of handles compares the reserved bits, then the free bit, then the resource type, then
  the custom bits, then the generation, then the index.
\<close>

theorem handle_order_lex:
  "handle_less g h \<longleftrightarrow> Reserved g < Reserved h \<or> Reserved g = Reserved h \<and>
     (\<not> IsFree g \<and> IsFree h \<or> IsFree g = IsFree h \<and>
     (ResourceType g < ResourceType h \<or> ResourceType g = ResourceType h \<and>
     (Custom g < Custom h \<or> Custom g = Custom h \<and>
     (Generation g < Generation h \<or> Generation g = Generation h \<and> Index g < Index h))))"
  using handle_less_fields [of g h] by (simp only: fields_less_def fields_simps)

end
