(* ===== verification/ResourceTable.thy ===== *)
theory ResourceTable
  imports ResourceHandle
begin

text \<open>
  The slot map of \<open>src/Nova/Base/ResourceTable.h\<close>: a sparse table of inner handles with an embedded
  free list, the dense array of items, and the array of back links; its invariant, its abstraction to
  a map from slots to generations and items, and the specification of \<open>Insert\<close>, \<open>Erase\<close> and \<open>Clear\<close>.
\<close>

section \<open>The table\<close>

record 'a ResourceTable =
  freelist_front :: u32
  freelist_back :: u32
  item_type :: byte
  sparse_table :: "HandleT list"
  items :: "'a list"
  meta :: "u32 list"
  fragmented :: bool

definition ResourceTable_new :: "byte \<Rightarrow> 'a ResourceTable" where
  "ResourceTable_new ty = \<lparr>freelist_front = kInvalidIndex, freelist_back = kInvalidIndex, item_type = ty,
     sparse_table = [], items = [], meta = [], fragmented = False\<rparr>"

definition NewIndex :: "'b list \<Rightarrow> u32" where
  "NewIndex xs = word_of_nat (length xs)"

definition IsFreeListEmpty :: "'a ResourceTable \<Rightarrow> bool" where
  "IsFreeListEmpty t = (freelist_front t = kIndexMax)"

definition Table_Size :: "'a ResourceTable \<Rightarrow> nat" where
  "Table_Size t = length (items t)"

abbreviation slot :: "HandleT \<Rightarrow> nat" where
  "slot h \<equiv> unat (Index h)"

definition Contains :: "'a ResourceTable \<Rightarrow> HandleT \<Rightarrow> bool" where
  "Contains t h =
     (if length (sparse_table t) \<le> slot h \<or> ResourceType h \<noteq> item_type t then False
      else let inner = sparse_table t ! slot h in
        if IsFree inner then False else Generation h = Generation inner)"

definition TryGet :: "'a ResourceTable \<Rightarrow> HandleT \<Rightarrow> 'a option" where
  "TryGet t h =
     (if length (sparse_table t) \<le> slot h \<or> ResourceType h \<noteq> item_type t then None
      else let inner = sparse_table t ! slot h in
        if IsFree inner then None
        else if Generation h \<noteq> Generation inner then None
        else Some (items t ! slot inner))"

definition GetInnerIndex :: "'a ResourceTable \<Rightarrow> HandleT \<Rightarrow> u32 res" where
  "GetInnerIndex t h =
     (if \<not> IsValid h then Inl (InvalidArgumentExn ''invalid handle'')
      else if NewIndex (sparse_table t) \<le> Index h then Inl (OutOfRangeExn ''bad handle, index out of range'')
      else if ResourceType h \<noteq> item_type t then Inl (InvalidArgumentExn ''item type mismatch, using wrong table?'')
      else let inner = sparse_table t ! slot h in
        if IsFree inner then Inl (InvalidArgumentExn ''bad handle, item already erased'')
        else if Generation h \<noteq> Generation inner
        then Inl (InvalidArgumentExn ''external handle is stale (obsolete generation)'')
        else Inr (Index inner))"

definition ItemAt :: "'a ResourceTable \<Rightarrow> HandleT \<Rightarrow> 'a res" where
  "ItemAt t h = rbind (GetInnerIndex t h) (\<lambda>i. Inr (items t ! unat i))"

definition Table_Insert :: "'a \<Rightarrow> 'a ResourceTable \<Rightarrow> HandleT \<times> 'a ResourceTable" where
  "Table_Insert item t =
     (let handle = ResourceHandle_of kInvalidIndex (item_type t); t = t\<lparr>fragmented := True\<rparr>;
          (handle, t) =
            (if IsFreeListEmpty t then
               let handle = SetFree False (SetResourceType (item_type t) (SetIndex (NewIndex (sparse_table t)) handle)) in
               (handle, t\<lparr>sparse_table := sparse_table t @ [handle]\<rparr>)
             else
               let outer_index = freelist_front t;
                   inner = sparse_table t ! unat outer_index;
                   t = t\<lparr>freelist_front := Index inner\<rparr>;
                   t = (if IsFreeListEmpty t then t\<lparr>freelist_back := freelist_front t\<rparr> else t);
                   inner = SetIndex (NewIndex (items t)) (SetFree False inner);
                   t = t\<lparr>sparse_table := (sparse_table t)[unat outer_index := inner]\<rparr> in
               (SetIndex outer_index inner, t)) in
      (handle, t\<lparr>items := items t @ [item], meta := meta t @ [Index handle]\<rparr>))"

text \<open>\<open>sparse_table_[i].SetIndex(v)\<close>\<close>

definition set_slot_index :: "nat \<Rightarrow> u32 \<Rightarrow> HandleT list \<Rightarrow> HandleT list" where
  "set_slot_index i v sp = sp[i := SetIndex v (sp ! i)]"

definition swap_at :: "nat \<Rightarrow> nat \<Rightarrow> 'b list \<Rightarrow> 'b list" where
  "swap_at i j xs = xs[i := xs ! j, j := xs ! i]"

definition Table_Erase :: "HandleT \<Rightarrow> 'a ResourceTable \<Rightarrow> nat \<times> 'a ResourceTable" where
  "Table_Erase h t =
     (if \<not> Contains t h then (0, t)
      else
        let t = t\<lparr>fragmented := True\<rparr>;
            inner = sparse_table t ! slot h;
            inner_index = unat (Index inner);
            inner = SetIndex kIndexMax (NewGeneration (SetFree True inner));
            t = t\<lparr>sparse_table := (sparse_table t)[slot h := inner]\<rparr>;
            t = (if IsFreeListEmpty t then t\<lparr>freelist_front := Index h, freelist_back := Index h\<rparr>
                 else t\<lparr>sparse_table := set_slot_index (unat (freelist_back t)) (Index h) (sparse_table t),
                        freelist_back := Index h\<rparr>);
            last_index = length (items t) - 1;
            t = (if inner_index \<noteq> last_index then
                   let t = t\<lparr>items := swap_at inner_index last_index (items t),
                             meta := swap_at inner_index last_index (meta t)\<rparr> in
                   t\<lparr>sparse_table := set_slot_index (unat (meta t ! inner_index)) (word_of_nat inner_index) (sparse_table t)\<rparr>
                 else t) in
        (1, t\<lparr>items := butlast (items t), meta := butlast (meta t)\<rparr>))"

fun EraseItems_loop :: "HandleT list \<Rightarrow> nat \<Rightarrow> 'a ResourceTable \<Rightarrow> nat \<times> 'a ResourceTable" where
  "EraseItems_loop [] removed t = (removed, t)"
| "EraseItems_loop (h # hs) removed t =
     (let (n, t') = Table_Erase h t in EraseItems_loop hs (removed + n) t')"

definition EraseItems :: "HandleT list \<Rightarrow> 'a ResourceTable \<Rightarrow> nat \<times> 'a ResourceTable" where
  "EraseItems hs t = EraseItems_loop hs 0 t"

definition clear_slot :: "nat \<Rightarrow> HandleT \<Rightarrow> HandleT" where
  "clear_slot i h = SetIndex (word_of_nat i + 1) (NewGeneration (SetFree True h))"

definition Table_Clear :: "'a ResourceTable \<Rightarrow> 'a ResourceTable" where
  "Table_Clear t =
     (let size = length (sparse_table t) in
      if 0 < size then
        t\<lparr>items := [], meta := [], freelist_front := 0, freelist_back := NewIndex (sparse_table t) - 1, fragmented := False,
          sparse_table := set_slot_index (size - 1) kInvalidIndex
            (map (\<lambda>i. clear_slot i (sparse_table t ! i)) [0..<size])\<rparr>
      else t)"

definition Table_Reset :: "'a ResourceTable \<Rightarrow> 'a ResourceTable" where
  "Table_Reset t = t\<lparr>freelist_front := kIndexMax, freelist_back := kIndexMax, fragmented := False,
     items := [], meta := [], sparse_table := []\<rparr>"

text \<open>
  \<open>Defragment\<close> is an insertion sort of the dense set; \<open>trivial\<close> is \<open>std::is_trivially_copyable_v<T>\<close>. For
  trivially copyable items the inner loop only relinks the slots and the items are moved together.
\<close>

fun defrag_scan :: "('a \<Rightarrow> 'a \<Rightarrow> bool) \<Rightarrow> 'a \<Rightarrow> nat \<Rightarrow> 'a ResourceTable \<Rightarrow> nat \<times> 'a ResourceTable" where
  "defrag_scan cmp tmp 0 t = (0, t)"
| "defrag_scan cmp tmp (Suc i) t =
     (if cmp (items t ! i) tmp then
        defrag_scan cmp tmp i
          (t\<lparr>sparse_table := set_slot_index (unat (meta t ! i)) (word_of_nat (Suc i)) (sparse_table t)\<rparr>)
      else (Suc i, t))"

definition memmove :: "nat \<Rightarrow> nat \<Rightarrow> nat \<Rightarrow> 'b list \<Rightarrow> 'b list" where
  "memmove dest src n xs = take dest xs @ take n (drop src xs) @ drop (dest + n) xs"

definition defrag_insert_trivial :: "('a \<Rightarrow> 'a \<Rightarrow> bool) \<Rightarrow> nat \<Rightarrow> nat \<Rightarrow> 'a ResourceTable \<Rightarrow> nat \<times> 'a ResourceTable" where
  "defrag_insert_trivial cmp index swaps t =
     (let tmp = items t ! index; tmp_meta = meta t ! index; (j, t) = defrag_scan cmp tmp index t in
      if j \<noteq> index then
        let t = t\<lparr>items := memmove (j + 1) j (index - j) (items t), meta := memmove (j + 1) j (index - j) (meta t)\<rparr>;
            t = t\<lparr>items := (items t)[j := tmp], meta := (meta t)[j := tmp_meta]\<rparr> in
        (swaps + 1, t\<lparr>sparse_table := set_slot_index (unat (meta t ! j)) (word_of_nat j) (sparse_table t)\<rparr>)
      else (swaps, t))"

text \<open>The loop for other items moves them one by one; the first component is the place that is open.\<close>

fun defrag_shift :: "('a \<Rightarrow> 'a \<Rightarrow> bool) \<Rightarrow> nat \<Rightarrow> 'a \<Rightarrow> nat \<Rightarrow> nat \<Rightarrow> 'a ResourceTable \<Rightarrow> nat \<times> nat \<times> 'a ResourceTable" where
  "defrag_shift cmp max_swaps tmp 0 swaps t = (0, swaps, t)"
| "defrag_shift cmp max_swaps tmp (Suc i) swaps t =
     (if (max_swaps = 0 \<or> swaps < max_swaps) \<and> cmp (items t ! i) tmp then
        let t = t\<lparr>items := (items t)[Suc i := items t ! i], meta := (meta t)[Suc i := meta t ! i]\<rparr>;
            t = t\<lparr>sparse_table := set_slot_index (unat (meta t ! Suc i)) (word_of_nat (Suc i)) (sparse_table t)\<rparr> in
        defrag_shift cmp max_swaps tmp i (swaps + 1) t
      else (Suc i, swaps, t))"

definition defrag_insert_standard :: "('a \<Rightarrow> 'a \<Rightarrow> bool) \<Rightarrow> nat \<Rightarrow> nat \<Rightarrow> nat \<Rightarrow> 'a ResourceTable \<Rightarrow> nat \<times> 'a ResourceTable" where
  "defrag_insert_standard cmp max_swaps index swaps t =
     (let tmp = items t ! index; tmp_meta = meta t ! index;
          (j, swaps, t) = defrag_shift cmp max_swaps tmp index swaps t in
      if j \<noteq> index then
        let t = t\<lparr>items := (items t)[j := tmp], meta := (meta t)[j := tmp_meta]\<rparr> in
        (swaps, t\<lparr>sparse_table := set_slot_index (unat (meta t ! j)) (word_of_nat j) (sparse_table t)\<rparr>)
      else (swaps, t))"

definition defrag_insert :: "bool \<Rightarrow> ('a \<Rightarrow> 'a \<Rightarrow> bool) \<Rightarrow> nat \<Rightarrow> nat \<Rightarrow> nat \<Rightarrow> 'a ResourceTable \<Rightarrow> nat \<times> 'a ResourceTable" where
  "defrag_insert trivial cmp max_swaps index swaps t =
     (if trivial then defrag_insert_trivial cmp index swaps t else defrag_insert_standard cmp max_swaps index swaps t)"

function defrag_loop :: "bool \<Rightarrow> ('a \<Rightarrow> 'a \<Rightarrow> bool) \<Rightarrow> nat \<Rightarrow> nat \<Rightarrow> nat \<Rightarrow> nat \<Rightarrow> 'a ResourceTable \<Rightarrow> nat \<times> nat \<times> 'a ResourceTable" where
  "defrag_loop trivial cmp max_swaps n index swaps t =
     (if index < n \<and> (max_swaps = 0 \<or> swaps < max_swaps) then
        let (swaps, t) = defrag_insert trivial cmp max_swaps index swaps t in
        defrag_loop trivial cmp max_swaps n (index + 1) swaps t
      else (index, swaps, t))"
  by pat_completeness auto
termination by (relation "measure (\<lambda>(triv, cmp, ms, n, index, sw, t). n - index)") auto

declare defrag_loop.simps [simp del]

definition Table_Defragment :: "bool \<Rightarrow> ('a \<Rightarrow> 'a \<Rightarrow> bool) \<Rightarrow> nat \<Rightarrow> 'a ResourceTable \<Rightarrow> nat \<times> 'a ResourceTable" where
  "Table_Defragment trivial cmp max_swaps t =
     (if \<not> fragmented t then (0, t)
      else
        let (index, swaps, t) = defrag_loop trivial cmp max_swaps (length (items t)) 1 0 t in
        (swaps, if index = length (items t) then t\<lparr>fragmented := False\<rparr> else t))"

section \<open>Links between the dense and the sparse set\<close>

definition links :: "HandleT list \<Rightarrow> nat \<Rightarrow> u32 list \<Rightarrow> bool" where
  "links sp n mt \<longleftrightarrow> length mt = n
     \<and> (\<forall>d < n. unat (mt ! d) < length sp \<and> \<not> IsFree (sp ! unat (mt ! d)) \<and> slot (sp ! unat (mt ! d)) = d)
     \<and> (\<forall>s < length sp. \<not> IsFree (sp ! s) \<longrightarrow> slot (sp ! s) < n \<and> unat (mt ! slot (sp ! s)) = s)"

lemma linksD:
  assumes "links sp n mt"
  shows "length mt = n" "d < n \<Longrightarrow> unat (mt ! d) < length sp" "d < n \<Longrightarrow> \<not> IsFree (sp ! unat (mt ! d))"
    "d < n \<Longrightarrow> slot (sp ! unat (mt ! d)) = d" "s < length sp \<Longrightarrow> \<not> IsFree (sp ! s) \<Longrightarrow> slot (sp ! s) < n"
    "s < length sp \<Longrightarrow> \<not> IsFree (sp ! s) \<Longrightarrow> unat (mt ! slot (sp ! s)) = s"
  using assms by (auto simp: links_def)

lemma links_inj: "links sp n mt \<Longrightarrow> c < n \<Longrightarrow> d < n \<Longrightarrow> unat (mt ! c) = unat (mt ! d) \<longleftrightarrow> c = d"
  by (metis linksD(4))

lemma links_count:
  assumes "links sp n mt"
  shows "n = card {s. s < length sp \<and> \<not> IsFree (sp ! s)}"
proof -
  have "bij_betw (\<lambda>d. unat (mt ! d)) {..<n} {s. s < length sp \<and> \<not> IsFree (sp ! s)}"
    by (rule bij_betw_byWitness [where f' = "\<lambda>s. slot (sp ! s)"])
       (auto simp: linksD [OF assms])
  then show ?thesis
    using bij_betw_same_card by fastforce
qed

lemma links_le: "links sp n mt \<Longrightarrow> n \<le> length sp"
  using links_count [of sp n mt] card_mono [of "{..<length sp}" "{s. s < length sp \<and> \<not> IsFree (sp ! s)}"] by fastforce

lemma links_full:
  assumes "links sp n mt" "\<forall>s < length sp. \<not> IsFree (sp ! s)"
  shows "n = length sp"
proof -
  have "{s. s < length sp \<and> \<not> IsFree (sp ! s)} = {..<length sp}" using assms(2) by auto
  then show ?thesis using links_count [OF assms(1)] by simp
qed

lemma links_insert:
  assumes l: "links sp n mt"
    and s: "s < length sp'" "unat i = s" "\<not> IsFree (sp' ! s)" "slot (sp' ! s) = n" "s < length sp \<Longrightarrow> IsFree (sp ! s)"
    and len: "length sp \<le> length sp'" "\<And>u. u < length sp' \<Longrightarrow> u \<noteq> s \<Longrightarrow> u < length sp"
    and same: "\<And>u. u < length sp \<Longrightarrow> u \<noteq> s \<Longrightarrow> sp' ! u = sp ! u"
  shows "links sp' (Suc n) (mt @ [i])"
proof -
  have ne: "unat (mt ! d) \<noteq> s" if "d < n" for d
    using that linksD [OF l] s(5) by metis
  note L = linksD [OF l]
  show ?thesis
    unfolding links_def
  proof (intro conjI allI impI)
    show "length (mt @ [i]) = Suc n" using L(1) by simp
  next
    fix x assume x: "x < Suc n"
    have m: "unat ((mt @ [i]) ! x) = (if x < n then unat (mt ! x) else s)"
      using x L(1) s(2) by (auto simp: nth_append less_Suc_eq)
    show "unat ((mt @ [i]) ! x) < length sp'" "\<not> IsFree (sp' ! unat ((mt @ [i]) ! x))"
      "slot (sp' ! unat ((mt @ [i]) ! x)) = x"
      unfolding m using x L(2-4) [of x] s ne [of x] len(1) same [of "unat (mt ! x)"] by auto
  next
    fix u assume u: "u < length sp'" "\<not> IsFree (sp' ! u)"
    show "slot (sp' ! u) < Suc n" "unat ((mt @ [i]) ! slot (sp' ! u)) = u"
    proof -
      have "slot (sp' ! u) < Suc n \<and> unat ((mt @ [i]) ! slot (sp' ! u)) = u"
      proof (cases "u = s")
        case False
        then have "u < length sp" "sp' ! u = sp ! u" using u len same by auto
        then show ?thesis using u L(1) L(5,6) [of u] by (auto simp: nth_append)
      qed (use s L(1) in \<open>simp add: nth_append\<close>)
      then show "slot (sp' ! u) < Suc n" "unat ((mt @ [i]) ! slot (sp' ! u)) = u" by blast+
    qed
  qed
qed

lemma links_erase:
  assumes l: "links sp n mt" and s: "s < length sp" "\<not> IsFree (sp ! s)" "d = slot (sp ! s)" "e = unat (mt ! (n - 1))"
    and len: "length sp' = length sp" and free: "IsFree (sp' ! s)"
    and same: "\<And>u. u < length sp \<Longrightarrow> u \<noteq> s \<Longrightarrow> IsFree (sp' ! u) = IsFree (sp ! u)"
    and idx: "\<And>u. u < length sp \<Longrightarrow> u \<noteq> s \<Longrightarrow> \<not> IsFree (sp ! u) \<Longrightarrow> slot (sp' ! u) = (if u = e then d else slot (sp ! u))"
  shows "links sp' (n - 1) ((butlast mt)[d := mt ! (n - 1)])"
proof -
  have d: "d < n" "unat (mt ! d) = s" using linksD [OF l] s(1-3) by auto
  then have n: "n - 1 < n" by simp
  have e: "e < length sp" "\<not> IsFree (sp ! e)" "slot (sp ! e) = n - 1"
    using linksD [OF l] n s(4) by auto
  have es: "e = s \<longleftrightarrow> d = n - 1" using d e s by auto
  let ?mt = "(butlast mt)[d := mt ! (n - 1)]"
  have mt: "?mt ! x = (if x = d then mt ! (n - 1) else mt ! x)" if "x < n - 1" for x
    using that linksD(1) [OF l] by (simp add: nth_butlast nth_list_update)
  show ?thesis
    unfolding links_def
  proof (intro conjI allI impI)
    show "length ?mt = n - 1" using linksD(1) [OF l] by simp
  next
    fix x assume x: "x < n - 1"
    define u where "u = unat (?mt ! x)"
    have u: "u < length sp" "\<not> IsFree (sp ! u)" "u \<noteq> s" "slot (sp ! u) = (if x = d then n - 1 else x)" "u = e \<longleftrightarrow> x = d"
      using mt [OF x] x d e s linksD(2-4) [OF l, of x] es links_inj [OF l, of x d] links_inj [OF l, of x "n - 1"]
      unfolding u_def by (auto split: if_splits)
    show "unat (?mt ! x) < length sp'" "\<not> IsFree (sp' ! unat (?mt ! x))" "slot (sp' ! unat (?mt ! x)) = x"
      unfolding u_def [symmetric] using u same [of u] idx [of u] len by auto
  next
    fix u assume u: "u < length sp'" "\<not> IsFree (sp' ! u)"
    then have us: "u \<noteq> s" "u < length sp" "\<not> IsFree (sp ! u)"
      using free len same by auto
    then have b: "slot (sp ! u) < n" "unat (mt ! slot (sp ! u)) = u" "slot (sp ! u) \<noteq> d"
      using linksD [OF l] d by auto
    show "slot (sp' ! u) < n - 1" "unat (?mt ! slot (sp' ! u)) = u"
    proof -
      have "slot (sp' ! u) < n - 1 \<and> unat (?mt ! slot (sp' ! u)) = u"
      proof (cases "u = e")
        case True
        then have "d \<noteq> n - 1" "slot (sp' ! u) = d" using es us(1) idx [OF us(2,1,3)] by auto
        then show ?thesis using d(1) mt [of d] True s(4) by simp
      next
        case False
        then have "slot (sp ! u) < n - 1" using b s(4) by (cases "slot (sp ! u) = n - 1") auto
        then show ?thesis using False idx [OF us(2,1,3)] mt [of "slot (sp ! u)"] b by simp
      qed
      then show "slot (sp' ! u) < n - 1" "unat (?mt ! slot (sp' ! u)) = u" by blast+
    qed
  qed
qed

section \<open>The free list\<close>

fun chain :: "HandleT list \<Rightarrow> u32 \<Rightarrow> nat list \<Rightarrow> bool" where
  "chain sp f [] \<longleftrightarrow> f = kIndexMax"
| "chain sp f (x # xs) \<longleftrightarrow> unat f = x \<and> x < length sp \<and> IsFree (sp ! x) \<and> chain sp (Index (sp ! x)) xs"

lemma chain_cong:
  "chain sp f fl \<Longrightarrow> length sp \<le> length sp' \<Longrightarrow> (\<And>x. x \<in> set fl \<Longrightarrow> sp' ! x = sp ! x) \<Longrightarrow> chain sp' f fl"
  by (induction sp f fl rule: chain.induct) auto

lemma chain_bound: "chain sp f fl \<Longrightarrow> x \<in> set fl \<Longrightarrow> x < length sp \<and> IsFree (sp ! x)"
  by (induction sp f fl rule: chain.induct) auto

lemma unat_kIndexMax: "unat kIndexMax = 2 ^ 32 - 1"
  by (simp add: kIndexMax_eq unsigned_minus_1_eq_mask mask_eq_exp_minus_1)

lemma chain_empty_iff: "chain sp f fl \<Longrightarrow> length sp < 2 ^ 32 \<Longrightarrow> f = kIndexMax \<longleftrightarrow> fl = []"
  by (cases fl) (auto simp: unat_kIndexMax)

lemma chain_snoc:
  assumes "chain sp f fl" "distinct fl" "fl \<noteq> []"
    and "s < length sp" "s \<notin> set fl" "unat i = s" "IsFree (sp' ! s)" "Index (sp' ! s) = kIndexMax"
    and "sp' ! last fl = SetIndex i (sp ! last fl)" "length sp' = length sp"
    and "\<And>x. x \<in> set fl \<Longrightarrow> x \<noteq> last fl \<Longrightarrow> sp' ! x = sp ! x"
  shows "chain sp' f (fl @ [s])"
  using assms
proof (induction sp f fl rule: chain.induct)
  case (2 sp f x xs)
  show ?case
  proof (cases "xs = []")
    case False
    then have "x \<noteq> last xs" using 2(3) by auto
    then have "sp' ! x = sp ! x" using 2(12) [of x] False by simp
    moreover have "chain sp' (Index (sp ! x)) (xs @ [s])"
      by (rule 2(1)) (use 2(2-) False in auto)
    ultimately show ?thesis using 2(2) 2(11) by simp
  qed (use 2(2-) in auto)
qed simp

definition free_chain :: "HandleT list \<Rightarrow> u32 \<Rightarrow> u32 \<Rightarrow> nat list \<Rightarrow> bool" where
  "free_chain sp front back fl \<longleftrightarrow> chain sp front fl \<and> distinct fl
     \<and> set fl = {s. s < length sp \<and> IsFree (sp ! s)} \<and> (fl \<noteq> [] \<longrightarrow> unat back = last fl)"

definition table_inv :: "'a ResourceTable \<Rightarrow> bool" where
  "table_inv t \<longleftrightarrow> links (sparse_table t) (length (items t)) (meta t)
     \<and> length (sparse_table t) < 2 ^ 32
     \<and> (\<forall>h \<in> set (sparse_table t). ResourceType h = item_type t)
     \<and> (\<exists>fl. free_chain (sparse_table t) (freelist_front t) (freelist_back t) fl)"

definition table_map :: "'a ResourceTable \<Rightarrow> nat \<Rightarrow> (u16 \<times> 'a) option" where
  "table_map t s =
     (if s < length (sparse_table t) \<and> \<not> IsFree (sparse_table t ! s)
      then Some (Generation (sparse_table t ! s), items t ! slot (sparse_table t ! s)) else None)"

text \<open>The generation of a slot, in use or free; a slot that does not exist yet starts with generation 0.\<close>

definition table_gen :: "'a ResourceTable \<Rightarrow> nat \<Rightarrow> u16" where
  "table_gen t s = (if s < length (sparse_table t) then Generation (sparse_table t ! s) else 0)"

lemma TryGet_map:
  "TryGet t h = (if ResourceType h \<noteq> item_type t then None
     else case table_map t (slot h) of None \<Rightarrow> None
       | Some (g, x) \<Rightarrow> if Generation h = g then Some x else None)"
  by (auto simp: TryGet_def table_map_def Let_def)

lemma Contains_TryGet: "Contains t h \<longleftrightarrow> TryGet t h \<noteq> None"
  by (simp add: Contains_def TryGet_def Let_def)

lemma table_inv_new: "table_inv (ResourceTable_new ty)"
  by (auto simp: table_inv_def ResourceTable_new_def links_def free_chain_def kInvalidIndex_def
        intro: exI [of _ "[]"])

lemma table_inv_Reset: "table_inv (Table_Reset t)"
  by (auto simp: table_inv_def Table_Reset_def links_def free_chain_def intro: exI [of _ "[]"])

section \<open>Insertion\<close>

lemma Insert_fresh:
  assumes "IsFreeListEmpty t"
  shows "Table_Insert x t =
    (let h = SetIndex (NewIndex (sparse_table t)) (ResourceHandle_of kInvalidIndex (item_type t)) in
     (h, t\<lparr>fragmented := True, sparse_table := sparse_table t @ [h], items := items t @ [x], meta := meta t @ [NewIndex (sparse_table t)]\<rparr>))"
proof -
  have h: "SetFree False (SetResourceType ty (SetIndex i (ResourceHandle_of kInvalidIndex ty)))
     = SetIndex i (ResourceHandle_of kInvalidIndex ty)" for ty i
    by (rule fields_inject [THEN iffD1]) (simp add: fields_set ResourceHandle_of_fields)
  show ?thesis
    using assms by (simp add: Table_Insert_def IsFreeListEmpty_def Let_def h)
qed

lemma Insert_reuse:
  assumes "\<not> IsFreeListEmpty t"
  shows "Table_Insert x t =
    (let s = unat (freelist_front t); old = sparse_table t ! s; inner = SetIndex (NewIndex (items t)) (SetFree False old) in
     (SetIndex (freelist_front t) inner,
      t\<lparr>fragmented := True, freelist_front := Index old,
        freelist_back := (if Index old = kIndexMax then kIndexMax else freelist_back t),
        sparse_table := (sparse_table t)[s := inner], items := items t @ [x], meta := meta t @ [freelist_front t]\<rparr>))"
  using assms by (simp add: Table_Insert_def IsFreeListEmpty_def Let_def)

lemma ResourceHandle_of_simps [simp]:
  "ResourceType (ResourceHandle_of i ty) = ty" "Generation (ResourceHandle_of i ty) = 0"
  "IsFree (ResourceHandle_of i ty) = False" "Index (ResourceHandle_of i ty) = i"
  using ResourceHandle_of_fields [of i ty] by (simp_all add: ResourceHandle.fields_def)

lemma unat_NewIndex: "length xs < 2 ^ 32 \<Longrightarrow> unat (NewIndex xs) = length xs"
  by (simp add: NewIndex_def unat_of_nat take_bit_nat_eq_self)

lemma NewIndex_valid: "length xs < 2 ^ 32 - 1 \<Longrightarrow> NewIndex xs \<noteq> kIndexMax"
  using unat_NewIndex [of xs] unat_kIndexMax by auto

text \<open>What insertion promises.\<close>

definition insert_spec :: "'a \<Rightarrow> 'a ResourceTable \<Rightarrow> HandleT \<Rightarrow> 'a ResourceTable \<Rightarrow> bool" where
  "insert_spec x t h t' \<longleftrightarrow> table_inv t' \<and> item_type t' = item_type t \<and> ResourceType h = item_type t \<and> IsValid h
     \<and> table_map t (slot h) = None \<and> table_map t' = (table_map t)(slot h \<mapsto> (Generation h, x))
     \<and> Generation h = table_gen t (slot h) \<and> table_gen t' = table_gen t
     \<and> length (items t') = length (items t) + 1"

lemma table_invD:
  assumes "table_inv t"
  shows "links (sparse_table t) (length (items t)) (meta t)" "length (sparse_table t) < 2 ^ 32"
    "s < length (sparse_table t) \<Longrightarrow> ResourceType (sparse_table t ! s) = item_type t"
    "length (items t) \<le> length (sparse_table t)"
  using assms links_le unfolding table_inv_def by auto

lemma Insert_fresh_spec:
  assumes t: "table_inv t" and e: "IsFreeListEmpty t" and room: "length (items t) < 2 ^ 32 - 1"
    and r: "Table_Insert x t = (h, t')"
  shows "insert_spec x t h t'"
proof -
  let ?sp = "sparse_table t"
  note T = table_invD [OF t]
  obtain fl where fl: "free_chain ?sp (freelist_front t) (freelist_back t) fl"
    using t unfolding table_inv_def by blast
  have nil: "fl = []" "chain ?sp (freelist_front t) []"
    using fl e T(2) chain_empty_iff unfolding free_chain_def IsFreeListEmpty_def by auto
  then have used: "\<forall>s < length ?sp. \<not> IsFree (?sp ! s)" using fl unfolding free_chain_def by auto
  then have n: "length (items t) = length ?sp" using links_full [OF T(1)] by simp
  define h0 where "h0 = SetIndex (NewIndex ?sp) (ResourceHandle_of kInvalidIndex (item_type t))"
  have h0: "slot h0 = length ?sp" "\<not> IsFree h0" "ResourceType h0 = item_type t" "Generation h0 = 0" "IsValid h0"
    using room n unat_NewIndex [of ?sp] NewIndex_valid [of ?sp]
    by (simp_all add: h0_def IsValid_def kInvalidIndex_def)
  have eq: "h = h0" "t' = t\<lparr>fragmented := True, sparse_table := ?sp @ [h0], items := items t @ [x], meta := meta t @ [NewIndex ?sp]\<rparr>"
    using r unfolding Insert_fresh [OF e] h0_def Let_def by auto
  have links: "links (?sp @ [h0]) (Suc (length (items t))) (meta t @ [NewIndex ?sp])"
    by (rule links_insert [OF T(1), where s = "length ?sp"]) (use h0 n T(2) unat_NewIndex [of ?sp] in \<open>auto simp: nth_append\<close>)
  have "free_chain (?sp @ [h0]) (freelist_front t) (freelist_back t) []"
    using nil used h0(2) unfolding free_chain_def by (auto simp: nth_append)
  then have "table_inv t'"
    using links T(3) h0(3) room n unfolding table_inv_def eq by (auto simp: in_set_conv_nth)
  moreover have "table_map t' = (table_map t)(slot h0 \<mapsto> (Generation h0, x))"
    using h0(1,2) n linksD(5) [OF T(1)] unfolding eq
    by (auto simp: table_map_def fun_eq_iff nth_append)
  moreover have "table_gen t' = table_gen t"
    using h0(4) unfolding eq by (auto simp: table_gen_def fun_eq_iff nth_append less_Suc_eq)
  ultimately show ?thesis
    using h0 unfolding insert_spec_def by (simp add: eq table_map_def table_gen_def)
qed

lemma Insert_reuse_spec:
  assumes t: "table_inv t" and e: "\<not> IsFreeListEmpty t" 
    and r: "Table_Insert x t = (h, t')"
  shows "insert_spec x t h t'"
proof -
  let ?sp = "sparse_table t" and ?n = "length (items t)" and ?i = "freelist_front t"
  note T = table_invD [OF t]
  obtain fl where fl: "free_chain ?sp ?i (freelist_back t) fl"
    using t unfolding table_inv_def by blast
  then obtain s rest where sr: "fl = s # rest"
    using e unfolding free_chain_def IsFreeListEmpty_def by (cases fl) auto
  define old where "old = ?sp ! s"
  define inner where "inner = SetIndex (NewIndex (items t)) (SetFree False old)"
  have s: "unat ?i = s" "s < length ?sp" "IsFree old" "chain ?sp (Index old) rest" "s \<notin> set rest"
    using fl sr unfolding free_chain_def old_def by auto
  have n: "?n < 2 ^ 32" using T(2,4) by simp
  have inner: "\<not> IsFree inner" "slot inner = ?n" "Generation inner = Generation old" "ResourceType inner = item_type t"
    using unat_NewIndex [OF n] T(3) [OF s(2)] by (simp_all add: inner_def old_def)
  have eq: "h = SetIndex ?i inner" "t' = t\<lparr>fragmented := True, freelist_front := Index old,
        freelist_back := (if Index old = kIndexMax then kIndexMax else freelist_back t),
        sparse_table := ?sp[s := inner], items := items t @ [x], meta := meta t @ [?i]\<rparr>"
    using r unfolding Insert_reuse [OF e] Let_def s(1) old_def inner_def by auto
  have links: "links (?sp[s := inner]) (Suc ?n) (meta t @ [?i])"
    by (rule links_insert [OF T(1), where s = s]) (use s inner in \<open>auto simp: old_def\<close>)
  have "chain (?sp[s := inner]) (Index old) rest"
    by (rule chain_cong [OF s(4)]) (use s(5) in \<open>auto intro!: nth_list_update_neq\<close>)
  moreover have "set rest = {u. u < length ?sp \<and> IsFree (?sp[s := inner] ! u)}"
  proof -
    have "set rest = set fl - {s}" using fl sr s(5) by (auto simp: free_chain_def)
    also have "\<dots> = {u. u < length ?sp \<and> IsFree (?sp ! u)} - {s}" using fl by (simp add: free_chain_def)
    finally have rest: "set rest = {u. u < length ?sp \<and> IsFree (?sp ! u)} - {s}" .
    show ?thesis unfolding rest using inner(1) s(2) by (auto simp: nth_list_update split: if_splits)
  qed
  ultimately have "free_chain (?sp[s := inner]) (Index old) (if Index old = kIndexMax then kIndexMax else freelist_back t) rest"
    using fl sr chain_empty_iff [OF s(4) T(2)] unfolding free_chain_def by auto
  then have "table_inv t'"
    using links T(2,3) inner(4) s(2) unfolding table_inv_def eq by (auto simp: in_set_conv_nth nth_list_update)
  moreover have "table_map t' = (table_map t)(s \<mapsto> (Generation old, x))"
    using inner s linksD(5) [OF T(1)] unfolding eq by (auto simp: table_map_def fun_eq_iff nth_append nth_list_update)
  moreover have "table_gen t' = table_gen t"
    using inner(3) s(2) unfolding eq by (auto simp: table_gen_def fun_eq_iff nth_list_update old_def)
  ultimately show ?thesis
    using inner s e unfolding insert_spec_def
    by (simp add: eq table_map_def table_gen_def IsValid_def kInvalidIndex_def IsFreeListEmpty_def flip: old_def)
qed

lemma Insert_spec:
  assumes "table_inv t" "length (items t) < 2 ^ 32 - 1" "Table_Insert x t = (h, t')"
  shows "insert_spec x t h t'"
  using Insert_fresh_spec [OF assms(1) _ assms(2,3)] Insert_reuse_spec [OF assms(1) _ assms(3)] by blast

section \<open>Erasure\<close>

lemma free_chainD:
  assumes "free_chain sp f b fl"
  shows "chain sp f fl" "distinct fl" "x \<in> set fl \<longleftrightarrow> x < length sp \<and> IsFree (sp ! x)" "fl \<noteq> [] \<Longrightarrow> unat b = last fl"
  using assms unfolding free_chain_def by auto

lemma free_chain_empty:
  assumes "free_chain sp f b fl" "length sp < 2 ^ 32"
  shows "f = kIndexMax \<longleftrightarrow> fl = []"
  using assms chain_empty_iff unfolding free_chain_def by blast

lemma back_free:
  assumes t: "table_inv t" and ne: "\<not> IsFreeListEmpty t"
  shows "unat (freelist_back t) < length (sparse_table t) \<and> IsFree (sparse_table t ! unat (freelist_back t))"
proof -
  obtain fl where fl: "free_chain (sparse_table t) (freelist_front t) (freelist_back t) fl"
    using t unfolding table_inv_def by blast
  have "fl \<noteq> []" using ne free_chain_empty [OF fl table_invD(2) [OF t]] unfolding IsFreeListEmpty_def by simp
  then show ?thesis using free_chainD(3,4) [OF fl] last_in_set by metis
qed

lemma butlast_swap:
  assumes "d < length xs" "d \<noteq> length xs - 1"
  shows "butlast (swap_at d (length xs - 1) xs) = (butlast xs)[d := xs ! (length xs - 1)]"
  using assms by (simp add: swap_at_def butlast_list_update)

lemma butlast_same: "d = length xs - 1 \<Longrightarrow> (butlast xs)[d := x] = butlast xs"
  by (simp add: list_update_beyond)

definition dead :: "HandleT \<Rightarrow> HandleT" where
  "dead h = SetIndex kIndexMax (NewGeneration (SetFree True h))"

definition erased_slots :: "'a ResourceTable \<Rightarrow> HandleT \<Rightarrow> HandleT list" where
  "erased_slots t h =
     (let s = slot h; sp = sparse_table t; n = length (items t); d = slot (sp ! s); sp1 = sp[s := dead (sp ! s)];
          sp2 = (if IsFreeListEmpty t then sp1 else set_slot_index (unat (freelist_back t)) (Index h) sp1) in
      if d \<noteq> n - 1 then set_slot_index (unat (meta t ! (n - 1))) (word_of_nat d) sp2 else sp2)"

lemma Erase_eq:
  assumes t: "table_inv t" and c: "Contains t h"
  defines "d \<equiv> slot (sparse_table t ! slot h)" and "n \<equiv> length (items t)"
  shows "Table_Erase h t = (1, t\<lparr>fragmented := True,
     freelist_front := (if IsFreeListEmpty t then Index h else freelist_front t), freelist_back := Index h,
     sparse_table := erased_slots t h, items := (butlast (items t))[d := items t ! (n - 1)],
     meta := (butlast (meta t))[d := meta t ! (n - 1)]\<rparr>)"
proof -
  note T = table_invD [OF t]
  have s: "slot h < length (sparse_table t)" "\<not> IsFree (sparse_table t ! slot h)"
    using c by (auto simp: Contains_def Let_def split: if_splits)
  have d: "d < n" and m: "length (meta t) = n"
    using linksD [OF T(1)] s unfolding d_def n_def by auto
  have b: "d \<noteq> n - 1 \<Longrightarrow> butlast (swap_at d (n - 1) (items t)) = (butlast (items t))[d := items t ! (n - 1)]"
    "d \<noteq> n - 1 \<Longrightarrow> butlast (swap_at d (n - 1) (meta t)) = (butlast (meta t))[d := meta t ! (n - 1)]"
    "d = n - 1 \<Longrightarrow> (butlast (items t))[d := items t ! (n - 1)] = butlast (items t)"
    "d = n - 1 \<Longrightarrow> (butlast (meta t))[d := meta t ! (n - 1)] = butlast (meta t)"
    using butlast_swap [of d "items t"] butlast_swap [of d "meta t"] butlast_same [of d "items t"] butlast_same [of d "meta t"] d m
    unfolding n_def by auto
  have sw: "swap_at d (n - 1) (meta t) ! d = meta t ! (n - 1)"
    using d m by (auto simp: swap_at_def nth_list_update)
  show ?thesis
    using c b sw
    by (cases "d = n - 1"; cases "IsFreeListEmpty t")
       (simp_all add: Table_Erase_def Let_def erased_slots_def dead_def IsFreeListEmpty_def flip: d_def n_def)
qed

lemma erased_slots_nth:
  assumes t: "table_inv t" and s: "slot h < length (sparse_table t)" "\<not> IsFree (sparse_table t ! slot h)"
    and u: "u < length (sparse_table t)"
  defines "n \<equiv> length (items t)" and "d \<equiv> slot (sparse_table t ! slot h)"
  shows "erased_slots t h ! u =
     (if u = slot h then dead (sparse_table t ! u)
      else if u = unat (meta t ! (n - 1)) then SetIndex (word_of_nat d) (sparse_table t ! u)
      else if \<not> IsFreeListEmpty t \<and> u = unat (freelist_back t) then SetIndex (Index h) (sparse_table t ! u)
      else sparse_table t ! u)"
    and "length (erased_slots t h) = length (sparse_table t)"
proof -
  note T = table_invD [OF t]
  let ?sp = "sparse_table t" and ?e = "unat (meta t ! (n - 1))"
  have d: "d < n" "unat (meta t ! d) = slot h" using linksD [OF T(1)] s unfolding d_def n_def by auto
  have e: "?e < length ?sp" "\<not> IsFree (?sp ! ?e)" "slot (?sp ! ?e) = n - 1"
    using linksD(2-4) [OF T(1), of "n - 1"] d(1) unfolding n_def by auto
  have es: "?e = slot h \<longleftrightarrow> d = n - 1" using d e unfolding d_def by auto
  note bk = back_free [OF t]
  then have ne: "\<not> IsFreeListEmpty t \<Longrightarrow> unat (freelist_back t) \<noteq> slot h \<and> unat (freelist_back t) \<noteq> ?e"
    using e(2) s(2) by auto
  show "length (erased_slots t h) = length ?sp"
    by (simp add: erased_slots_def Let_def set_slot_index_def)
  show "erased_slots t h ! u =
     (if u = slot h then dead (?sp ! u)
      else if u = ?e then SetIndex (word_of_nat d) (?sp ! u)
      else if \<not> IsFreeListEmpty t \<and> u = unat (freelist_back t) then SetIndex (Index h) (?sp ! u)
      else ?sp ! u)"
    using u e s es ne bk unfolding erased_slots_def Let_def set_slot_index_def
    by (cases "IsFreeListEmpty t"; cases "d = n - 1") (auto simp: nth_list_update simp flip: d_def n_def)
qed

definition erase_spec :: "HandleT \<Rightarrow> 'a ResourceTable \<Rightarrow> 'a ResourceTable \<Rightarrow> bool" where
  "erase_spec h t t' \<longleftrightarrow> table_inv t' \<and> item_type t' = item_type t
     \<and> table_map t' = (table_map t)(slot h := None)
     \<and> table_gen t' = (table_gen t)(slot h := next_generation (table_gen t (slot h)))
     \<and> length (items t) = length (items t') + 1"

lemma dead_simps [simp]: "IsFree (dead h)" "Index (dead h) = kIndexMax" "ResourceType (dead h) = ResourceType h"
  "Generation (dead h) = next_generation (Generation h)"
  by (simp_all add: dead_def)

lemma erased_free_chain:
  assumes t: "table_inv t" and s: "slot h < length (sparse_table t)" "\<not> IsFree (sparse_table t ! slot h)"
  shows "\<exists>fl. free_chain (erased_slots t h) (if IsFreeListEmpty t then Index h else freelist_front t) (Index h) fl"
proof -
  let ?sp = "sparse_table t" and ?e = "unat (meta t ! (length (items t) - 1))"
  note T = table_invD [OF t] and E = erased_slots_nth [OF t s]
  have e: "\<not> IsFree (?sp ! ?e)"
    using linksD(3,5) [OF T(1)] s by force
  obtain fl where fl: "free_chain ?sp (freelist_front t) (freelist_back t) fl"
    using t unfolding table_inv_def by blast
  have free: "{u. u < length ?sp \<and> IsFree (erased_slots t h ! u)} = insert (slot h) (set fl)"
    using fl s E unfolding free_chain_def by (auto split: if_splits)
  have out: "slot h \<notin> set fl" "?e \<notin> set fl" using fl s(2) e unfolding free_chain_def by auto
  have "chain (erased_slots t h) (if IsFreeListEmpty t then Index h else freelist_front t) (fl @ [slot h])"
  proof (cases "fl = []")
    case True
    then show ?thesis using fl E s by (simp add: free_chain_def IsFreeListEmpty_def)
  next
    case False
    have ne: "\<not> IsFreeListEmpty t"
      using False free_chain_empty [OF fl T(2)] unfolding IsFreeListEmpty_def by simp
    have last: "last fl \<in> set fl" "unat (freelist_back t) = last fl"
      using False free_chainD(4) [OF fl] last_in_set [of fl] by simp_all
    have fls: "x < length ?sp" if "x \<in> set fl" for x
      using free_chainD(3) [OF fl] that by blast
    have "chain (erased_slots t h) (freelist_front t) (fl @ [slot h])"
    proof (rule chain_snoc [where sp = ?sp and i = "Index h"])
      show "erased_slots t h ! last fl = SetIndex (Index h) (?sp ! last fl)"
        using E(1) [OF fls [OF last(1)]] out last ne by auto
      show "erased_slots t h ! x = ?sp ! x" if "x \<in> set fl" "x \<noteq> last fl" for x
        using E(1) [OF fls [OF that(1)]] out last that by auto
    qed (use fl False out s E in \<open>auto simp: free_chain_def\<close>)
    then show ?thesis using ne by simp
  qed
  then show ?thesis
    using fl out free E(2) [OF s(1)] unfolding free_chain_def
    by (intro exI [of _ "fl @ [slot h]"]) auto
qed

lemma Erase_spec:
  assumes t: "table_inv t" and c: "Contains t h" and r: "Table_Erase h t = (k, t')"
  shows "k = 1 \<and> erase_spec h t t'"
proof -
  let ?sp = "sparse_table t" and ?n = "length (items t)" and ?d = "slot (sparse_table t ! slot h)"
  let ?e = "unat (meta t ! (length (items t) - 1))"
  note T = table_invD [OF t] and L = linksD [OF table_invD(1) [OF t]]
  have s: "slot h < length ?sp" "\<not> IsFree (?sp ! slot h)"
    using c by (auto simp: Contains_def Let_def split: if_splits)
  note E = erased_slots_nth [OF t s]
  have len: "length (erased_slots t h) = length ?sp" using E(2) s(1) by blast
  have eq: "k = 1" "t' = t\<lparr>fragmented := True,
     freelist_front := (if IsFreeListEmpty t then Index h else freelist_front t), freelist_back := Index h,
     sparse_table := erased_slots t h, items := (butlast (items t))[?d := items t ! (?n - 1)],
     meta := (butlast (meta t))[?d := meta t ! (?n - 1)]\<rparr>"
    using r unfolding Erase_eq [OF t c] by auto
  have d: "?d < ?n" "unat (meta t ! ?d) = slot h" using L(5,6) s by auto
  have n: "?n - 1 < ?n" "?n < 2 ^ 32" using d T(2,4) by auto
  have e: "?e < length ?sp" "\<not> IsFree (?sp ! ?e)" "slot (?sp ! ?e) = ?n - 1" using L(2-4) n(1) by auto
  have es: "?e = slot h \<longleftrightarrow> ?d = ?n - 1" using d e by auto
  have dw: "unat (word_of_nat ?d :: u32) = ?d"
    using d n by (simp add: unat_of_nat take_bit_nat_eq_self)
  note bk = back_free [OF t]
  have live: "slot (erased_slots t h ! u) = (if u = ?e then ?d else slot (?sp ! u))"
    if "u < length ?sp" "u \<noteq> slot h" "\<not> IsFree (?sp ! u)" for u
    using E(1) [OF that(1)] that bk dw by auto
  have free: "IsFree (erased_slots t h ! u) \<longleftrightarrow> u = slot h \<or> IsFree (?sp ! u)" if "u < length ?sp" for u
    using E(1) [OF that] by auto
  have gen: "Generation (erased_slots t h ! u) = (if u = slot h then next_generation (Generation (?sp ! u)) else Generation (?sp ! u))"
    "ResourceType (erased_slots t h ! u) = item_type t"
    if "u < length ?sp" for u
    using E(1) [OF that] T(3) [OF that] by auto
  have links: "links (erased_slots t h) (?n - 1) ((butlast (meta t))[?d := meta t ! (?n - 1)])"
    by (rule links_erase [OF T(1) s refl refl]) (use len live free s in auto)
  have inv: "table_inv t'"
    using links erased_free_chain [OF t s] T(2) gen(2) len unfolding table_inv_def eq
    by (auto simp: in_set_conv_nth)
  have it: "(butlast (items t))[?d := items t ! (?n - 1)] ! slot (erased_slots t h ! u) = items t ! slot (?sp ! u)"
    if u: "u < length ?sp" "u \<noteq> slot h" "\<not> IsFree (?sp ! u)" for u
  proof -
    have a: "slot (?sp ! u) < ?n" "unat (meta t ! slot (?sp ! u)) = u" using L(5,6) u by auto
    have b: "slot (?sp ! u) = ?n - 1 \<longleftrightarrow> u = ?e" using a e by auto
    show ?thesis
    proof (cases "u = ?e")
      case True
      then show ?thesis using live [OF u] b es u d by (simp add: nth_list_update)
    next
      case False
      then have "slot (?sp ! u) < ?n - 1" "slot (?sp ! u) \<noteq> ?d" using a b d u by auto
      then show ?thesis using live [OF u] False by (simp add: nth_butlast)
    qed
  qed
  have "table_map t' = (table_map t)(slot h := None)"
  proof
    fix u show "table_map t' u = ((table_map t)(slot h := None)) u"
      using it [of u] free [of u] gen(1) [of u] len unfolding eq by (auto simp: table_map_def)
  qed
  moreover have "table_gen t' = (table_gen t)(slot h := next_generation (table_gen t (slot h)))"
    using gen(1) len s(1) unfolding eq by (auto simp: table_gen_def fun_eq_iff)
  ultimately show ?thesis
    using inv n(1) eq(1) unfolding erase_spec_def by (simp add: eq(2))
qed

lemma Erase_unknown: "\<not> Contains t h \<Longrightarrow> Table_Erase h t = (0, t)"
  by (simp add: Table_Erase_def)

section \<open>Clear\<close>

lemma SetIndex_SetIndex [simp]: "SetIndex i (SetIndex j h) = SetIndex i h"
  by (rule fields_inject [THEN iffD1]) (simp add: fields_set)

lemma unat_u32: "n < 2 ^ 32 \<Longrightarrow> unat (word_of_nat n :: u32) = n"
  by (simp add: unat_of_nat take_bit_nat_eq_self)

lemma cleared_chain:
  "k \<le> length sp \<Longrightarrow> length sp < 2 ^ 32 \<Longrightarrow> 0 < k
    \<Longrightarrow> (\<And>i. i < length sp \<Longrightarrow> IsFree (sp ! i))
    \<Longrightarrow> (\<And>i. Suc i < length sp \<Longrightarrow> Index (sp ! i) = word_of_nat i + 1)
    \<Longrightarrow> Index (sp ! (length sp - 1)) = kIndexMax
    \<Longrightarrow> chain sp (word_of_nat (length sp - k)) [length sp - k ..< length sp]"
proof (induction k)
  case (Suc k)
  let ?i = "length sp - Suc k"
  have i: "?i < length sp" "unat (word_of_nat ?i :: u32) = ?i"
    using Suc.prems unat_u32 [of ?i] by simp_all
  have l: "[?i ..< length sp] = ?i # [Suc ?i ..< length sp]" using i(1) by (simp add: upt_conv_Cons)
  show ?case
  proof (cases "k = 0")
    case True
    then show ?thesis using Suc.prems i l by simp
  next
    case False
    have "chain sp (word_of_nat (length sp - k)) [length sp - k ..< length sp]"
      by (rule Suc.IH) (use Suc.prems False in auto)
    moreover have "Suc ?i = length sp - k" using Suc.prems by simp
    moreover have "Index (sp ! ?i) = word_of_nat (Suc ?i)" using Suc.prems(5) [of ?i] Suc.prems(1) False by simp
    ultimately show ?thesis using l i Suc.prems(4) by simp
  qed
qed simp

lemma Clear_spec:
  assumes t: "table_inv t"
  shows "table_inv (Table_Clear t) \<and> table_map (Table_Clear t) = Map.empty \<and> item_type (Table_Clear t) = item_type t
    \<and> items (Table_Clear t) = []
    \<and> table_gen (Table_Clear t) = (\<lambda>s. if s < length (sparse_table t) then next_generation (table_gen t s) else 0)"
proof (cases "sparse_table t = []")
  case True
  then have "items t = []" using table_invD(4) [OF t] by simp
  then show ?thesis using True t by (auto simp: Table_Clear_def table_map_def table_gen_def fun_eq_iff)
next
  case False
  let ?sp = "sparse_table t" and ?t = "Table_Clear t"
  let ?m = "length (sparse_table t)"
  note T = table_invD [OF t]
  have eq: "?t = t\<lparr>items := [], meta := [], freelist_front := 0, freelist_back := NewIndex ?sp - 1, fragmented := False,
      sparse_table := sparse_table ?t\<rparr>"
    using False by (simp add: Table_Clear_def Let_def)
  have len: "length (sparse_table ?t) = ?m"
    using False by (simp add: Table_Clear_def Let_def set_slot_index_def)
  have nth: "sparse_table ?t ! i = SetIndex (if i = ?m - 1 then kInvalidIndex else word_of_nat i + 1) (clear_slot i (?sp ! i))"
    if "i < ?m" for i
    using that by (auto simp: Table_Clear_def Let_def set_slot_index_def nth_list_update clear_slot_def)
  have S: "IsFree (sparse_table ?t ! i)" "ResourceType (sparse_table ?t ! i) = item_type t"
      "Generation (sparse_table ?t ! i) = next_generation (Generation (?sp ! i))" if "i < ?m" for i
    using nth [OF that] T(3) [OF that] by (simp_all add: clear_slot_def)
  have "chain (sparse_table ?t) (word_of_nat (?m - ?m)) [?m - ?m ..< length (sparse_table ?t)]"
    unfolding len [symmetric] by (rule cleared_chain) (use len S(1) nth T(2) False in \<open>auto simp: kInvalidIndex_def\<close>)
  moreover have "unat (NewIndex ?sp - 1) = ?m - 1"
  proof -
    have "NewIndex ?sp - 1 = word_of_nat (?m - 1)" using False by (simp add: NewIndex_def of_nat_diff Suc_leI)
    then show ?thesis using unat_u32 [of "?m - 1"] T(2) by simp
  qed
  ultimately have "free_chain (sparse_table ?t) (freelist_front ?t) (freelist_back ?t) [0..<?m]"
    using len S(1) False unfolding free_chain_def by (subst (1 3) eq) auto
  moreover have "links (sparse_table ?t) (length (items ?t)) (meta ?t)"
    using S(1) len by (subst (2 3) eq) (auto simp: links_def)
  moreover have "item_type ?t = item_type t" "items ?t = []" by (subst eq, simp)+
  ultimately show ?thesis
    using S len T(2) unfolding table_inv_def by (auto simp: in_set_conv_nth table_map_def table_gen_def fun_eq_iff)
qed

end
