(* ===== verification/TableDefrag.thy ===== *)
theory TableDefrag
  imports ResourceTable "HOL-Library.Multiset"
begin

text \<open>
  \<open>ResourceTable::Defragment\<close>: both versions of its insertion sort are sequences of exchanges of
  neighbours, which keep the invariant and every lookup; without a limit on the swaps they agree and
  leave the dense set in descending order.
\<close>

section \<open>Defragmentation\<close>

text \<open>Exchanging two neighbours of the dense set, with their links: the step that both versions of the
  inner loop amount to.\<close>

definition swap_adj :: "nat \<Rightarrow> 'a ResourceTable \<Rightarrow> 'a ResourceTable" where
  "swap_adj i t = t\<lparr>items := swap_at i (Suc i) (items t), meta := swap_at i (Suc i) (meta t),
     sparse_table := set_slot_index (unat (meta t ! Suc i)) (word_of_nat i)
       (set_slot_index (unat (meta t ! i)) (word_of_nat (Suc i)) (sparse_table t))\<rparr>"

definition same_entries :: "'a ResourceTable \<Rightarrow> 'a ResourceTable \<Rightarrow> bool" where
  "same_entries t t' \<longleftrightarrow> table_inv t' \<and> table_map t' = table_map t \<and> table_gen t' = table_gen t
     \<and> item_type t' = item_type t \<and> mset (items t') = mset (items t) \<and> fragmented t' = fragmented t"

lemma same_entries_trans: "same_entries t t' \<Longrightarrow> same_entries t' t'' \<Longrightarrow> same_entries t t''"
  by (simp add: same_entries_def)

lemma swap_at_nth:
  "i < length xs \<Longrightarrow> j < length xs \<Longrightarrow> swap_at i j xs ! k = (if k = j then xs ! i else if k = i then xs ! j else xs ! k)"
  by (simp add: swap_at_def nth_list_update)

lemma length_swap_at [simp]: "length (swap_at i j xs) = length xs"
  by (simp add: swap_at_def)

lemma length_set_slot_index [simp]: "length (set_slot_index i v sp) = length sp"
  by (simp add: set_slot_index_def)

lemma mset_swap_at: "i < length xs \<Longrightarrow> j < length xs \<Longrightarrow> mset (swap_at i j xs) = mset xs"
  by (simp add: swap_at_def mset_swap)

lemma swap_adj_slots:
  assumes t: "table_inv t" and i: "Suc i < length (items t)" and u: "u < length (sparse_table t)"
  shows "sparse_table (swap_adj i t) ! u =
     (if u = unat (meta t ! Suc i) then SetIndex (word_of_nat i) (sparse_table t ! u)
      else if u = unat (meta t ! i) then SetIndex (word_of_nat (Suc i)) (sparse_table t ! u) else sparse_table t ! u)"
proof -
  note L = linksD [OF table_invD(1) [OF t]]
  have "unat (meta t ! Suc i) \<noteq> unat (meta t ! i)" using links_inj [OF table_invD(1) [OF t]] i by simp
  then show ?thesis using u L(2) [of i] L(2) [of "Suc i"] i
    by (auto simp: swap_adj_def set_slot_index_def nth_list_update)
qed

lemma swap_adj_same:
  assumes t: "table_inv t" and i: "Suc i < length (items t)"
  shows "same_entries t (swap_adj i t)"
proof -
  note T = table_invD [OF t] and L = linksD [OF table_invD(1) [OF t]] 
  let ?sp = "sparse_table t" and ?n = "length (items t)" and ?m = "meta t"
  define sp' where "sp' = sparse_table (swap_adj i t)"
  note S = swap_adj_slots [OF t i, folded sp'_def]
  define p where "p = (\<lambda>d. if d = i then Suc i else if d = Suc i then i else d)"
  have pp: "p (p d) = d" "d < ?n \<Longrightarrow> p d < ?n" for d using i by (auto simp: p_def)
  have eq: "swap_adj i t = t\<lparr>items := swap_at i (Suc i) (items t), meta := swap_at i (Suc i) ?m, sparse_table := sp'\<rparr>"
    by (simp add: swap_adj_def sp'_def)
  have len: "length sp' = length ?sp" by (simp add: swap_adj_def sp'_def)
  have nth: "swap_at i (Suc i) (items t) ! d = items t ! p d" "swap_at i (Suc i) ?m ! d = ?m ! p d" if "d < ?n" for d
    using i that L(1) by (auto simp: swap_at_nth p_def)
  have w: "unat (word_of_nat i :: u32) = i" "unat (word_of_nat (Suc i) :: u32) = Suc i"
    using i T(2,4) unat_u32 [of i] unat_u32 [of "Suc i"] by simp_all
  have other: "IsFree (sp' ! u) = IsFree (?sp ! u)" "Generation (sp' ! u) = Generation (?sp ! u)"
      "ResourceType (sp' ! u) = ResourceType (?sp ! u)" if "u < length ?sp" for u
    using S [OF that] by simp_all
  have idx: "slot (sp' ! u) = p (slot (?sp ! u))" if u: "u < length ?sp" "\<not> IsFree (?sp ! u)" for u
  proof -
    have "slot (?sp ! u) = k \<longleftrightarrow> u = unat (?m ! k)" if "k < ?n" for k using L(4-6) u that by metis
    moreover have "unat (?m ! Suc i) \<noteq> unat (?m ! i)" using links_inj [OF T(1)] i by simp
    ultimately show ?thesis using S [OF u(1)] w i by (simp add: p_def)
  qed
  have free_same: "sp' ! u = ?sp ! u" if "u < length ?sp" "IsFree (?sp ! u)" for u
    using S [OF that(1)] L(3) [of i] L(3) [of "Suc i"] i that(2) by auto
  have links: "links sp' ?n (swap_at i (Suc i) ?m)"
    unfolding links_def
  proof (intro conjI allI impI)
    show "length (swap_at i (Suc i) ?m) = ?n" using L(1) by simp
  next
    fix d assume d: "d < ?n"
    have P: "p d < ?n" using pp(2) d .
    show "unat (swap_at i (Suc i) ?m ! d) < length sp'" "\<not> IsFree (sp' ! unat (swap_at i (Suc i) ?m ! d))"
      "slot (sp' ! unat (swap_at i (Suc i) ?m ! d)) = d"
      unfolding nth(2) [OF d] using L(2-4) [OF P] other(1) idx pp(1) [of d] len by auto
  next
    fix u assume u: "u < length sp'" "\<not> IsFree (sp' ! u)"
    then have u': "u < length ?sp" "\<not> IsFree (?sp ! u)" using len other(1) by auto
    show "slot (sp' ! u) < ?n" "unat (swap_at i (Suc i) ?m ! slot (sp' ! u)) = u"
      unfolding idx [OF u'] using L(5,6) [OF u'] pp nth(2) by auto
  qed
  obtain fl where fl: "free_chain ?sp (freelist_front t) (freelist_back t) fl"
    using t unfolding table_inv_def by blast
  have "chain sp' (freelist_front t) fl"
    by (rule chain_cong [OF free_chainD(1) [OF fl]]) (use len free_same free_chainD(3) [OF fl] in auto)
  then have "free_chain sp' (freelist_front t) (freelist_back t) fl"
    using free_chainD [OF fl] len other(1) unfolding free_chain_def by auto
  then have "table_inv (swap_adj i t)"
    using links T(2,3) len other(3) unfolding table_inv_def eq by (auto simp: in_set_conv_nth)
  moreover have "table_map (swap_adj i t) = table_map t"
  proof
    fix u
    show "table_map (swap_adj i t) u = table_map t u"
  proof (cases "u < length ?sp \<and> \<not> IsFree (?sp ! u)")
    case True
    then have "slot (sp' ! u) < ?n" "p (slot (sp' ! u)) = slot (?sp ! u)" using idx L(5) pp by auto
    then show ?thesis using True other nth(1) len by (simp add: table_map_def eq)
  qed (use other(1) len in \<open>auto simp: table_map_def eq\<close>)
  qed
  moreover have "table_gen (swap_adj i t) = table_gen t"
    using other(2) len by (auto simp: table_gen_def fun_eq_iff eq)
  ultimately show ?thesis
    using i unfolding same_entries_def by (auto simp: swap_adj_def mset_swap_at)
qed

text \<open>Sinking the item at \<open>i\<close> to its place by exchanges of neighbours.\<close>

fun table_sink :: "('a \<Rightarrow> 'a \<Rightarrow> bool) \<Rightarrow> nat \<Rightarrow> nat \<Rightarrow> nat \<Rightarrow> 'a ResourceTable \<Rightarrow> nat \<times> nat \<times> 'a ResourceTable" where
  "table_sink cmp ms 0 sw t = (0, sw, t)"
| "table_sink cmp ms (Suc i) sw t =
     (if (ms = 0 \<or> sw < ms) \<and> cmp (items t ! i) (items t ! Suc i)
      then table_sink cmp ms i (sw + 1) (swap_adj i t) else (Suc i, sw, t))"

lemma table_sink_same:
  "table_inv t \<Longrightarrow> i < length (items t) \<Longrightarrow> table_sink cmp ms i sw t = (j, sw', t') \<Longrightarrow> same_entries t t' \<and> j \<le> i"
proof (induction cmp ms i sw t arbitrary: j sw' t' rule: table_sink.induct)
  case (2 cmp ms i sw t)
  show ?case
  proof (cases "(ms = 0 \<or> sw < ms) \<and> cmp (items t ! i) (items t ! Suc i)")
    case True
    have s: "same_entries t (swap_adj i t)" by (rule swap_adj_same) (use 2 in auto)
    have "same_entries (swap_adj i t) t' \<and> j \<le> i"
      by (rule 2(1) [OF True]) (use 2(2-) True s in \<open>auto simp: same_entries_def swap_adj_def\<close>)
    then show ?thesis using same_entries_trans [OF s] by auto
  qed (use 2 in \<open>auto simp: same_entries_def\<close>)
qed (auto simp: same_entries_def)


lemma swap_adj_items [simp]: "length (items (swap_adj i t)) = length (items t)" "length (meta (swap_adj i t)) = length (meta t)"
  by (simp_all add: swap_adj_def)

text \<open>The open place of the loop for arbitrary items, filled with the item held in \<open>tmp\<close>.\<close>

definition filled :: "'a \<Rightarrow> u32 \<Rightarrow> nat \<Rightarrow> 'a ResourceTable \<Rightarrow> 'a ResourceTable" where
  "filled tmp m j t = t\<lparr>items := (items t)[j := tmp], meta := (meta t)[j := m],
     sparse_table := set_slot_index (unat m) (word_of_nat j) (sparse_table t)\<rparr>"

definition shifted :: "nat \<Rightarrow> 'a ResourceTable \<Rightarrow> 'a ResourceTable" where
  "shifted i t = t\<lparr>items := (items t)[Suc i := items t ! i], meta := (meta t)[Suc i := meta t ! i],
     sparse_table := set_slot_index (unat (meta t ! i)) (word_of_nat (Suc i)) (sparse_table t)\<rparr>"

lemma set_slot_index_twice: "set_slot_index i v (set_slot_index i w sp) = set_slot_index i v sp"
  by (cases "i < length sp") (simp_all add: set_slot_index_def list_update_beyond)

lemma set_slot_index_swap: "i \<noteq> j \<Longrightarrow> set_slot_index i v (set_slot_index j w sp) = set_slot_index j w (set_slot_index i v sp)"
  by (simp add: set_slot_index_def list_update_swap)

lemma filled_shifted:
  assumes "Suc i < length (items t)" "length (meta t) = length (items t)" "unat m \<noteq> unat (meta t ! i)"
  shows "filled tmp m i (shifted i t) = swap_adj i (filled tmp m (Suc i) t)"
  using assms
  by (simp add: filled_def shifted_def swap_adj_def swap_at_def list_update_swap set_slot_index_twice
        set_slot_index_swap [of "unat m" "unat (meta t ! i)"])

lemma shift_sink:
  "table_inv (filled tmp m i t) \<Longrightarrow> i < length (items t) \<Longrightarrow> length (meta t) = length (items t)
    \<Longrightarrow> defrag_shift cmp ms tmp i sw t = (j, sw', t')
    \<Longrightarrow> table_sink cmp ms i sw (filled tmp m i t) = (j, sw', filled tmp m j t')"
proof (induction cmp ms tmp i sw t arbitrary: j sw' t' rule: defrag_shift.induct)
  case (2 cmp ms tmp i sw t)
  have it: "items (filled tmp m (Suc i) t) ! i = items t ! i" "items (filled tmp m (Suc i) t) ! Suc i = tmp"
    "meta (filled tmp m (Suc i) t) ! i = meta t ! i" "meta (filled tmp m (Suc i) t) ! Suc i = m"
    using 2 by (simp_all add: filled_def)
  show ?case
  proof (cases "(ms = 0 \<or> sw < ms) \<and> cmp (items t ! i) tmp")
    case True
    have "unat m \<noteq> unat (meta t ! i)"
      using links_inj [OF table_invD(1) [OF 2(2)], of i "Suc i"] it 2(3) by (simp add: filled_def)
    then have eq: "filled tmp m i (shifted i t) = swap_adj i (filled tmp m (Suc i) t)"
      by (rule filled_shifted [OF 2(3,4)])
    have inv: "table_inv (swap_adj i (filled tmp m (Suc i) t))"
      using swap_adj_same [OF 2(2)] 2(3) by (simp add: same_entries_def filled_def)
    have sh: "defrag_shift cmp ms tmp i (sw + 1) (shifted i t) = (j, sw', t')"
      using 2(3-5) True by (simp add: shifted_def Let_def)
    show ?thesis
      using 2(1) [OF True refl refl, of j sw' t'] inv eq sh it True 2(3,4)
      by (simp add: shifted_def Let_def)
  qed (use 2 it in auto)
qed simp

lemma shift_result:
  "defrag_shift cmp ms tmp i sw t = (j, sw', t') \<Longrightarrow> length (items t') = length (items t) \<and> length (meta t') = length (meta t) \<and> j \<le> i \<and> (j = i \<longrightarrow> t' = t)"
proof (induction cmp ms tmp i sw t arbitrary: j sw' t' rule: defrag_shift.induct)
  case (2 cmp ms tmp i sw t)
  show ?case
  proof (cases "(ms = 0 \<or> sw < ms) \<and> cmp (items t ! i) tmp")
    case True
    show ?thesis using 2(1) [OF True refl refl, of j sw' t'] 2(2) True by (simp add: Let_def)
  qed (use 2 in auto)
qed simp

lemma SetIndex_same: "SetIndex (Index h) h = h"
  by (rule fields_inject [THEN iffD1], unfold fields_SetIndex) (simp add: ResourceHandle.fields_def)

lemma filled_same:
  assumes "table_inv t" "i < length (items t)"
  shows "filled (items t ! i) (meta t ! i) i t = t"
proof -
  note L = linksD [OF table_invD(1) [OF assms(1)]]
  have "slot (sparse_table t ! unat (meta t ! i)) = i" using L(4) assms(2) by simp
  then have "(word_of_nat i :: u32) = word_of_nat (slot (sparse_table t ! unat (meta t ! i)))" by simp
  then have "(word_of_nat i :: u32) = Index (sparse_table t ! unat (meta t ! i))" by simp
  then show ?thesis by (simp add: filled_def set_slot_index_def SetIndex_same)
qed

lemma insert_standard_sink:
  assumes "table_inv t" "i < length (items t)"
  shows "defrag_insert_standard cmp ms i sw t = snd (table_sink cmp ms i sw t)"
proof -
  obtain j sw' t' where sh: "defrag_shift cmp ms (items t ! i) i sw t = (j, sw', t')"
    by (cases "defrag_shift cmp ms (items t ! i) i sw t")
  have m: "length (meta t) = length (items t)" using linksD(1) [OF table_invD(1)] assms(1) .
  have F: "filled (items t ! i) (meta t ! i) i t = t" using filled_same assms by blast
  have "table_sink cmp ms i sw t = (j, sw', filled (items t ! i) (meta t ! i) j t')"
    using shift_sink [of "items t ! i" "meta t ! i" i t, OF _ assms(2) m sh] F assms(1) by simp
  moreover have "defrag_insert_standard cmp ms i sw t = (sw', filled (items t ! i) (meta t ! i) j t')"
    using sh shift_result [OF sh] F m assms(2)
    by (cases "j = i") (simp_all add: defrag_insert_standard_def filled_def Let_def)
  ultimately show ?thesis by simp
qed


text \<open>The table that the loop for trivially copyable items stands for when it has scanned down to \<open>j\<close>.\<close>

definition moved :: "nat \<Rightarrow> nat \<Rightarrow> 'b \<Rightarrow> 'b list \<Rightarrow> 'b list" where
  "moved index j x xs = (memmove (j + 1) j (index - j) xs)[j := x]"

lemma moved_nth:
  assumes "j \<le> index" "index < length xs"
  shows "length (moved index j x xs) = length xs"
    and "k < length xs \<Longrightarrow> moved index j x xs ! k = (if k = j then x else if j < k \<and> k \<le> index then xs ! (k - 1) else xs ! k)"
  using assms by (auto simp: moved_def memmove_def nth_list_update nth_append nth_take nth_drop min_def)

lemma moved_step:
  assumes "Suc i \<le> index" "index < length xs"
  shows "moved index i x xs = swap_at i (Suc i) (moved index (Suc i) x xs)"
  by (rule nth_equalityI) (use assms in \<open>auto simp: moved_nth swap_at_nth\<close>)

definition relinked :: "nat \<Rightarrow> 'a \<Rightarrow> u32 \<Rightarrow> nat \<Rightarrow> 'a ResourceTable \<Rightarrow> 'a ResourceTable" where
  "relinked index tmp m j t = t\<lparr>items := moved index j tmp (items t), meta := moved index j m (meta t),
     sparse_table := set_slot_index (unat m) (word_of_nat j) (sparse_table t)\<rparr>"

definition scanned :: "nat \<Rightarrow> 'a ResourceTable \<Rightarrow> 'a ResourceTable" where
  "scanned i t = t\<lparr>sparse_table := set_slot_index (unat (meta t ! i)) (word_of_nat (Suc i)) (sparse_table t)\<rparr>"

lemma relinked_scanned:
  assumes "Suc i \<le> index" "index < length (items t)" "length (meta t) = length (items t)" "unat m \<noteq> unat (meta t ! i)"
  shows "relinked index tmp m i (scanned i t) = swap_adj i (relinked index tmp m (Suc i) t)"
  using assms
  by (simp add: relinked_def scanned_def swap_adj_def moved_step [symmetric] moved_nth set_slot_index_twice
        set_slot_index_swap [of "unat m" "unat (meta t ! i)"])

lemma scan_sink:
  "table_inv (relinked index tmp m i t) \<Longrightarrow> i \<le> index \<Longrightarrow> index < length (items t) \<Longrightarrow> length (meta t) = length (items t)
    \<Longrightarrow> defrag_scan cmp tmp i t = (j, t')
    \<Longrightarrow> \<exists>sw'. table_sink cmp 0 i sw (relinked index tmp m i t) = (j, sw', relinked index tmp m j t')"
proof (induction cmp tmp i t arbitrary: j t' sw rule: defrag_scan.induct)
  case (2 cmp tmp i t)
  let ?r = "relinked index tmp m (Suc i) t"
  have it: "items ?r ! i = items t ! i" "items ?r ! Suc i = tmp" "meta ?r ! i = meta t ! i" "meta ?r ! Suc i = m"
    and len: "length (items ?r) = length (items t)"
    using 2 by (simp_all add: relinked_def moved_nth)
  show ?case
  proof (cases "cmp (items t ! i) tmp")
    case True
    have "unat m \<noteq> unat (meta t ! i)"
      using links_inj [OF table_invD(1) [OF 2(2)], of i "Suc i"] it len 2(3,4) by simp
    then have eq: "relinked index tmp m i (scanned i t) = swap_adj i ?r"
      by (rule relinked_scanned [OF 2(3-5)])
    have inv: "table_inv (swap_adj i ?r)"
      using swap_adj_same [OF 2(2)] 2(3,4) len by (simp add: same_entries_def)
    have sh: "defrag_scan cmp tmp i (scanned i t) = (j, t')" using 2(6) True by (simp add: scanned_def)
    show ?thesis
      using 2(1) [OF True, of j t' "sw + 1"] inv eq sh it True 2(3-5) by (simp add: scanned_def)
  qed (use 2 it in auto)
qed auto

lemma scan_result: "defrag_scan cmp tmp i t = (j, t') \<Longrightarrow> items t' = items t \<and> meta t' = meta t \<and> j \<le> i \<and> (j = i \<longrightarrow> t' = t)"
proof (induction cmp tmp i t arbitrary: j t' rule: defrag_scan.induct)
  case (2 cmp tmp i t)
  show ?case
  proof (cases "cmp (items t ! i) tmp")
    case True
    show ?thesis using 2(1) [OF True, of j t'] 2(2) True by simp
  qed (use 2 in auto)
qed simp

lemma moved_same: "i < length xs \<Longrightarrow> moved i i (xs ! i) xs = xs"
  by (rule nth_equalityI) (auto simp: moved_nth)

lemma insert_trivial_sink:
  assumes "table_inv t" "i < length (items t)"
  shows "snd (defrag_insert_trivial cmp i sw t) = snd (snd (table_sink cmp 0 i sw' t))"
proof -
  obtain j t' where sh: "defrag_scan cmp (items t ! i) i t = (j, t')"
    by (cases "defrag_scan cmp (items t ! i) i t")
  have m: "length (meta t) = length (items t)" using linksD(1) [OF table_invD(1)] assms(1) .
  have F: "relinked i (items t ! i) (meta t ! i) i t = t"
    using filled_same [OF assms] assms(2) m by (simp add: relinked_def filled_def moved_same)
  obtain sw2 where "table_sink cmp 0 i sw' t = (j, sw2, relinked i (items t ! i) (meta t ! i) j t')"
    using scan_sink [of i "items t ! i" "meta t ! i" i t, OF _ le_refl assms(2) m sh] F assms(1) by metis
  moreover have "snd (defrag_insert_trivial cmp i sw t) = relinked i (items t ! i) (meta t ! i) j t'"
  proof (cases "j = i")
    case True
    then show ?thesis using sh scan_result [OF sh] F by (simp add: defrag_insert_trivial_def)
  next
    case False
    then have "moved i j (meta t ! i) (meta t) ! j = meta t ! i"
      using scan_result [OF sh] m assms(2) by (simp add: moved_nth)
    then show ?thesis using sh scan_result [OF sh] False
      by (simp add: defrag_insert_trivial_def relinked_def moved_def Let_def)
  qed
  ultimately show ?thesis by simp
qed

lemma defrag_insert_same:
  assumes "table_inv t" "i < length (items t)" "defrag_insert trivial cmp ms i sw t = (sw', t')"
  shows "same_entries t t'"
proof (cases trivial)
  case True
  obtain j sw2 t2 where s: "table_sink cmp 0 i 0 t = (j, sw2, t2)" by (cases "table_sink cmp 0 i 0 t")
  have "t2 = t'" using insert_trivial_sink [OF assms(1,2), of cmp sw 0] assms(3) True s by (simp add: defrag_insert_def)
  then show ?thesis using table_sink_same [OF assms(1,2) s] by simp
next
  case False
  obtain j sw2 t2 where s: "table_sink cmp ms i sw t = (j, sw2, t2)" by (cases "table_sink cmp ms i sw t")
  have "t2 = t'" using insert_standard_sink [OF assms(1,2), of cmp ms sw] assms(3) False s by (simp add: defrag_insert_def)
  then show ?thesis using table_sink_same [OF assms(1,2) s] by simp
qed

lemma same_entries_length: "same_entries t t' \<Longrightarrow> length (items t') = length (items t)"
  unfolding same_entries_def by (metis size_mset)

lemma defrag_loop_same:
  "table_inv t \<Longrightarrow> n = length (items t) \<Longrightarrow> defrag_loop trivial cmp ms n i sw t = (j, sw', t') \<Longrightarrow> same_entries t t'"
proof (induction trivial cmp ms n i sw t arbitrary: j sw' t' rule: defrag_loop.induct)
  case (1 trivial cmp ms n i sw t)
  show ?case
  proof (cases "i < n \<and> (ms = 0 \<or> sw < ms)")
    case True
    obtain sw1 t1 where ins: "defrag_insert trivial cmp ms i sw t = (sw1, t1)" by (cases "defrag_insert trivial cmp ms i sw t")
    have s: "same_entries t t1" by (rule defrag_insert_same [OF 1(2) _ ins]) (use True 1(3) in simp)
    have "same_entries t1 t'"
      by (rule 1(1) [OF True ins [symmetric] refl])
         (use 1(2-4) True ins s same_entries_length [OF s] in \<open>auto simp: same_entries_def defrag_loop.simps [of _ _ _ _ i]\<close>)
    then show ?thesis using same_entries_trans [OF s] by blast
  next
    case False
    have "t' = t" using 1(4) by (simp add: defrag_loop.simps [of _ _ _ _ i] False)
    then show ?thesis using 1(2) by (simp add: same_entries_def)
  qed
qed

lemma fragmented_irrelevant [simp]:
  "table_inv (t\<lparr>fragmented := b\<rparr>) = table_inv t" "table_map (t\<lparr>fragmented := b\<rparr>) = table_map t"
  "table_gen (t\<lparr>fragmented := b\<rparr>) = table_gen t"
  by (simp_all add: table_inv_def table_map_def table_gen_def fun_eq_iff)

lemma Defragment_same:
  assumes "table_inv t" "Table_Defragment trivial cmp ms t = (sw, t')"
  shows "table_inv t' \<and> table_map t' = table_map t \<and> table_gen t' = table_gen t \<and> item_type t' = item_type t
    \<and> mset (items t') = mset (items t)"
proof (cases "fragmented t")
  case True
  obtain j sw2 t2 where l: "defrag_loop trivial cmp ms (length (items t)) 1 0 t = (j, sw2, t2)"
    by (cases "defrag_loop trivial cmp ms (length (items t)) 1 0 t")
  have "same_entries t t2" by (rule defrag_loop_same [OF assms(1) refl l])
  moreover have "t' = t2 \<or> t' = t2\<lparr>fragmented := False\<rparr>"
    using assms(2) True l by (auto simp: Table_Defragment_def split: if_splits)
  ultimately show ?thesis unfolding same_entries_def by auto
qed (use assms in \<open>simp add: Table_Defragment_def\<close>)

text \<open>Without a limit on the swaps both versions of the loop compute the same table.\<close>

lemma defrag_loop_versions:
  "table_inv t \<Longrightarrow> n = length (items t)
    \<Longrightarrow> snd (snd (defrag_loop True cmp 0 n i sw t)) = snd (snd (defrag_loop False cmp 0 n i sw' t))
      \<and> fst (defrag_loop True cmp 0 n i sw t) = fst (defrag_loop False cmp 0 n i sw' t)"
proof (induction "n - i" arbitrary: i sw sw' t)
  case 0
  then show ?case by (simp add: defrag_loop.simps)
next
  case (Suc k)
  then have i: "i < length (items t)" by simp
  obtain a t1 where a: "defrag_insert True cmp 0 i sw t = (a, t1)" by (cases "defrag_insert True cmp 0 i sw t")
  obtain b t2 where b: "defrag_insert False cmp 0 i sw' t = (b, t2)" by (cases "defrag_insert False cmp 0 i sw' t")
  have "t1 = t2"
    using a b insert_trivial_sink [OF Suc(3) i, of cmp sw sw'] insert_standard_sink [OF Suc(3) i, of cmp 0 sw']
    by (simp add: defrag_insert_def)
  moreover have s: "same_entries t t1" by (rule defrag_insert_same [OF Suc(3) i a])
  ultimately have "defrag_loop True cmp 0 n i sw t = defrag_loop True cmp 0 n (Suc i) a t1"
    "defrag_loop False cmp 0 n i sw' t = defrag_loop False cmp 0 n (Suc i) b t1"
    using i a b Suc(4) by (subst defrag_loop.simps, simp)+
  moreover have "table_inv t1" "n = length (items t1)" "k = n - Suc i"
    using s same_entries_length [OF s] Suc(2,4) unfolding same_entries_def by simp_all
  ultimately show ?case using Suc(1) [of "Suc i" t1 a b] by simp
qed

section \<open>The order after defragmentation\<close>

lemma scan_position:
  "defrag_scan cmp tmp i t = (j, t') \<Longrightarrow> (\<forall>k. j \<le> k \<and> k < i \<longrightarrow> cmp (items t ! k) tmp) \<and> (0 < j \<longrightarrow> \<not> cmp (items t ! (j - 1)) tmp)"
proof (induction cmp tmp i t arbitrary: j t' rule: defrag_scan.induct)
  case (2 cmp tmp i t)
  show ?case
  proof (cases "cmp (items t ! i) tmp")
    case True
    then show ?thesis using 2(1) [OF True, of j t'] 2(2) less_Suc_eq by auto
  qed (use 2 in auto)
qed simp

lemma moved_sorted:
  assumes asym: "\<And>a b. cmp a b \<Longrightarrow> \<not> cmp b a" and negtrans: "\<And>a b c. \<not> cmp a b \<Longrightarrow> \<not> cmp b c \<Longrightarrow> \<not> cmp a c"
    and i: "i < length xs" "j \<le> i" and srt: "\<And>p q. p < q \<Longrightarrow> q < i \<Longrightarrow> \<not> cmp (xs ! p) (xs ! q)"
    and above: "\<And>k. j \<le> k \<Longrightarrow> k < i \<Longrightarrow> cmp (xs ! k) (xs ! i)" and below: "0 < j \<Longrightarrow> \<not> cmp (xs ! (j - 1)) (xs ! i)"
    and pq: "p < q" "q \<le> i"
  shows "\<not> cmp (moved i j (xs ! i) xs ! p) (moved i j (xs ! i) xs ! q)"
proof -
  have left: "\<not> cmp (xs ! p) (xs ! i)" if "p < j" for p
  proof (cases "p = j - 1")
    case False
    then have "\<not> cmp (xs ! p) (xs ! (j - 1))" using srt [of p "j - 1"] that i by simp
    then show ?thesis using negtrans below that by (metis gr0I not_less0)
  qed (use below that in simp)
  have m: "moved i j (xs ! i) xs ! k = (if k = j then xs ! i else if j < k then xs ! (k - 1) else xs ! k)" if "k \<le> i" for k
    using moved_nth(2) [OF i(2,1), of k] that i by simp
  consider "q < j" | "q = j" | "p < j" "j < q" | "p = j" | "j < p" using pq by linarith
  then show ?thesis
  proof cases
    case 4
    then have "cmp (xs ! (q - 1)) (xs ! i)" using above [of "q - 1"] pq by simp
    then show ?thesis using m [of p] m [of q] 4 pq asym by simp
  qed (use m [of p] m [of q] pq srt [of p q] srt [of p "q - 1"] srt [of "p - 1" "q - 1"] left [of p] i in auto)
qed

definition descending :: "('a \<Rightarrow> 'a \<Rightarrow> bool) \<Rightarrow> nat \<Rightarrow> 'a list \<Rightarrow> bool" where
  "descending cmp k xs \<longleftrightarrow> (\<forall>p q. p < q \<and> q < k \<longrightarrow> \<not> cmp (xs ! p) (xs ! q))"

lemma insert_trivial_descending:
  assumes w: "weak_order cmp" and inv: "table_inv t" and i: "i < length (items t)" and d: "descending cmp i (items t)"
  shows "descending cmp (Suc i) (items (snd (defrag_insert_trivial cmp i sw t)))"
proof -
  obtain j t' where sc: "defrag_scan cmp (items t ! i) i t = (j, t')" by (cases "defrag_scan cmp (items t ! i) i t")
  note R = scan_result [OF sc] and P = scan_position [OF sc]
  have it: "items (snd (defrag_insert_trivial cmp i sw t)) = moved i j (items t ! i) (items t)"
  proof (cases "j = i")
    case True
    then show ?thesis using sc R i by (simp add: defrag_insert_trivial_def moved_same)
  next
    case False
    then show ?thesis using sc R by (simp add: defrag_insert_trivial_def moved_def Let_def)
  qed
  have "\<not> cmp (moved i j (items t ! i) (items t) ! p) (moved i j (items t ! i) (items t) ! q)" if "p < q" "q < Suc i" for p q
  proof (rule moved_sorted)
    show "\<And>a b. cmp a b \<Longrightarrow> \<not> cmp b a" "\<And>a b c. \<not> cmp a b \<Longrightarrow> \<not> cmp b c \<Longrightarrow> \<not> cmp a c"
      using w unfolding weak_order_def by blast+
    show "\<And>p q. p < q \<Longrightarrow> q < i \<Longrightarrow> \<not> cmp (items t ! p) (items t ! q)" using d unfolding descending_def by blast
  qed (use i R P that in auto)
  then show ?thesis unfolding it descending_def by blast
qed

lemma defrag_loop_descending:
  "weak_order cmp \<Longrightarrow> table_inv t \<Longrightarrow> n = length (items t) \<Longrightarrow> descending cmp i (items t) \<Longrightarrow> i \<le> n
    \<Longrightarrow> descending cmp n (items (snd (snd (defrag_loop True cmp 0 n i sw t)))) \<and> fst (defrag_loop True cmp 0 n i sw t) = n"
proof (induction "n - i" arbitrary: i sw t)
  case 0
  then show ?case by (simp add: defrag_loop.simps)
next
  case (Suc k)
  then have i: "i < length (items t)" by simp
  obtain a t1 where a: "defrag_insert True cmp 0 i sw t = (a, t1)" by (cases "defrag_insert True cmp 0 i sw t")
  have s: "same_entries t t1" by (rule defrag_insert_same [OF Suc(4) i a])
  have "descending cmp (Suc i) (items t1)"
    using insert_trivial_descending [OF Suc(3,4) i Suc(6), of sw] a by (simp add: defrag_insert_def)
  moreover have "defrag_loop True cmp 0 n i sw t = defrag_loop True cmp 0 n (Suc i) a t1"
    using i a Suc(5) by (subst defrag_loop.simps, simp)
  moreover have "table_inv t1" "n = length (items t1)" "k = n - Suc i" "Suc i \<le> n"
    using s same_entries_length [OF s] Suc(2,5) i unfolding same_entries_def by simp_all
  ultimately show ?case using Suc(1) [of "Suc i" t1 a] Suc(3) by simp
qed

lemma Defragment_descending:
  assumes w: "weak_order cmp" and inv: "table_inv t" and f: "fragmented t" and r: "Table_Defragment trivial cmp 0 t = (sw, t')"
  shows "descending cmp (length (items t')) (items t') \<and> (items t \<noteq> [] \<longrightarrow> \<not> fragmented t')"
proof -
  let ?n = "length (items t)"
  obtain j sw2 t2 where l: "defrag_loop trivial cmp 0 ?n 1 0 t = (j, sw2, t2)"
    by (cases "defrag_loop trivial cmp 0 ?n 1 0 t")
  have V: "t2 = snd (snd (defrag_loop True cmp 0 ?n 1 0 t))" "j = fst (defrag_loop True cmp 0 ?n 1 0 t)"
    using defrag_loop_versions [OF inv refl, of cmp 1 0 0] l by (cases trivial; simp)+
  have n: "length (items t2) = ?n" using same_entries_length [OF defrag_loop_same [OF inv refl l]] .
  have t': "t' = (if j = length (items t2) then t2\<lparr>fragmented := False\<rparr> else t2)"
    using r f l by (auto simp: Table_Defragment_def)
  show ?thesis
  proof (cases "?n = 0")
    case True
    then show ?thesis using n t' by (auto simp: descending_def)
  next
    case False
    then have "1 \<le> ?n" by (simp add: Suc_leI)
    moreover have "descending cmp 1 (items t)" by (simp add: descending_def)
    ultimately have "descending cmp ?n (items t2) \<and> j = ?n"
      using defrag_loop_descending [OF w inv refl] unfolding V by blast
    then show ?thesis using n t' by auto
  qed
qed

end
