(* ===== verification/SlotMap.thy ===== *)
theory SlotMap
  imports TableDefrag
begin

text \<open>
  What clients of \<open>ResourceTable\<close> rely on. The locale \<open>slot_map\<close> states the contract (an insertion returns
  a handle that was not in use, a lookup after an insertion or an erasure) and proves what follows for
  sequences of operations; the table interprets it.
\<close>

section \<open>Generations of a slot\<close>

lemma next_generation_nat: "g \<le> 4095 \<Longrightarrow> unat (next_generation g) = (unat g + 1) mod 4096"
proof -
  assume g: "g \<le> 4095"
  show ?thesis
  proof (cases "g = 4095")
    case False
    then have "unat g < 4095" using g by (simp add: word_le_nat_alt word_unat_eq_iff)
    then show ?thesis using False by (simp add: next_generation_def unat_word_ariths)
  qed (simp add: next_generation_def)
qed

lemma next_generation_pow:
  "g \<le> 4095 \<Longrightarrow> unat ((next_generation ^^ k) g) = (unat g + k) mod 4096 \<and> (next_generation ^^ k) g \<le> 4095"
proof (induction k)
  case 0
  then show ?case by (simp add: word_le_nat_alt)
next
  case (Suc k)
  then show ?case
    using next_generation_nat [of "(next_generation ^^ k) g"] next_generation_le [of "(next_generation ^^ k) g"]
    by (simp add: mod_Suc_eq)
qed

lemma next_generation_differs:
  assumes "g \<le> 4095" "0 < k" "k < 4096"
  shows "(next_generation ^^ k) g \<noteq> g"
proof
  assume "(next_generation ^^ k) g = g"
  then have e: "unat g = (unat g + k) mod 4096" using next_generation_pow [OF assms(1), of k] by simp
  have "unat g < 4096" using assms(1) by (simp add: word_le_nat_alt)
  then show False using e assms(2,3) by (simp add: mod_if split: if_splits)
qed

lemma next_generation_wraps: "g \<le> 4095 \<Longrightarrow> (next_generation ^^ 4096) g = g"
  using next_generation_pow [of g 4096] by (simp add: word_unat_eq_iff word_le_nat_alt del: funpow.simps)

section \<open>The contract of a slot map\<close>

datatype ('a, 'h) slot_op = OpInsert 'a | OpErase 'h

fun run_ops :: "('a \<Rightarrow> 't \<Rightarrow> 'h \<times> 't) \<Rightarrow> ('h \<Rightarrow> 't \<Rightarrow> nat \<times> 't) \<Rightarrow> ('a, 'h) slot_op list \<Rightarrow> 't \<Rightarrow> 't" where
  "run_ops ins del [] t = t"
| "run_ops ins del (OpInsert x # ops) t = run_ops ins del ops (snd (ins x t))"
| "run_ops ins del (OpErase h # ops) t = run_ops ins del ops (snd (del h t))"

definition insert_count :: "('a, 'h) slot_op list \<Rightarrow> nat" where
  "insert_count ops = length (filter (\<lambda>c. case c of OpInsert x \<Rightarrow> True | _ \<Rightarrow> False) ops)"

lemma insert_count_simps [simp]: "insert_count [] = 0" "insert_count (OpInsert x # ops) = Suc (insert_count ops)"
  "insert_count (OpErase h # ops) = insert_count ops"
  by (simp_all add: insert_count_def)

locale slot_map =
  fixes invar :: "'t \<Rightarrow> bool" and lookup :: "'t \<Rightarrow> 'h \<Rightarrow> 'a option" and size_of :: "'t \<Rightarrow> nat" and limit :: nat
    and same :: "'h \<Rightarrow> 'h \<Rightarrow> bool" and ins :: "'a \<Rightarrow> 't \<Rightarrow> 'h \<times> 't" and del :: "'h \<Rightarrow> 't \<Rightarrow> nat \<times> 't"
  assumes ins_invar: "invar t \<Longrightarrow> size_of t < limit \<Longrightarrow> ins x t = (h, t') \<Longrightarrow> invar t'"
    and ins_size: "invar t \<Longrightarrow> size_of t < limit \<Longrightarrow> ins x t = (h, t') \<Longrightarrow> size_of t' = size_of t + 1"
    and ins_fresh: "invar t \<Longrightarrow> size_of t < limit \<Longrightarrow> ins x t = (h, t') \<Longrightarrow> lookup t h = None"
    and ins_lookup: "invar t \<Longrightarrow> size_of t < limit \<Longrightarrow> ins x t = (h, t') \<Longrightarrow> lookup t' g = (if same g h then Some x else lookup t g)"
    and del_invar: "invar t \<Longrightarrow> del h t = (k, t') \<Longrightarrow> invar t'"
    and del_size: "invar t \<Longrightarrow> del h t = (k, t') \<Longrightarrow> size_of t = size_of t' + k"
    and del_lookup: "invar t \<Longrightarrow> del h t = (k, t') \<Longrightarrow> lookup t' g = (if same g h then None else lookup t g)"
    and same_lookup: "same g h \<Longrightarrow> lookup t g = lookup t h"
begin

lemma run_ops_invar: "invar t \<Longrightarrow> size_of t + insert_count ops \<le> limit \<Longrightarrow> invar (run_ops ins del ops t)"
proof (induction ops arbitrary: t)
  case (Cons c ops)
  show ?case
  proof (cases c)
    case (OpInsert x)
    obtain h t' where r: "ins x t = (h, t')" by (cases "ins x t")
    then show ?thesis using Cons OpInsert ins_invar [OF _ _ r] ins_size [OF _ _ r] by simp
  next
    case (OpErase g)
    obtain k t' where r: "del g t = (k, t')" by (cases "del g t")
    then show ?thesis using Cons OpErase del_invar [OF _ r] del_size [OF _ r] by simp
  qed
qed simp

lemma run_ops_persist:
  "invar t \<Longrightarrow> size_of t + insert_count ops \<le> limit \<Longrightarrow> lookup t h = Some x
    \<Longrightarrow> (\<And>g. OpErase g \<in> set ops \<Longrightarrow> \<not> same h g) \<Longrightarrow> lookup (run_ops ins del ops t) h = Some x"
proof (induction ops arbitrary: t)
  case (Cons c ops)
  show ?case
  proof (cases c)
    case (OpInsert y)
    obtain g t' where r: "ins y t = (g, t')" by (cases "ins y t")
    have room: "size_of t < limit" using Cons.prems(2) OpInsert by simp
    have "\<not> same h g" using same_lookup [of h g t] ins_fresh [OF Cons.prems(1) room r] Cons.prems(3) by auto
    then have "lookup t' h = Some x" using ins_lookup [OF Cons.prems(1) room r, of h] Cons.prems(3) by simp
    then show ?thesis
      using Cons OpInsert r ins_invar [OF Cons.prems(1) room r] ins_size [OF Cons.prems(1) room r] by simp
  next
    case (OpErase g)
    obtain k t' where r: "del g t = (k, t')" by (cases "del g t")
    have "lookup t' h = Some x" using del_lookup [OF Cons.prems(1) r, of h] Cons.prems(3,4) OpErase by simp
    then show ?thesis using Cons OpErase r del_invar [OF Cons.prems(1) r] del_size [OF Cons.prems(1) r] by simp
  qed
qed simp

end

definition same_handle :: "HandleT \<Rightarrow> HandleT \<Rightarrow> bool" where
  "same_handle g h \<longleftrightarrow> Index g = Index h \<and> Generation g = Generation h \<and> ResourceType g = ResourceType h"

lemma TryGet_same: "same_handle g h \<Longrightarrow> TryGet t g = TryGet t h"
  by (simp add: TryGet_def same_handle_def Let_def)

lemma Insert_lookup:
  assumes "table_inv t" "length (items t) < 2 ^ 32 - 1" "Table_Insert x t = (h, t')"
  shows "TryGet t' g = (if same_handle g h then Some x else TryGet t g)" "TryGet t h = None"
proof -
  note I = Insert_spec [OF assms, unfolded insert_spec_def]
  show "TryGet t h = None" using I by (simp add: TryGet_map)
  show "TryGet t' g = (if same_handle g h then Some x else TryGet t g)"
    using I by (auto simp: TryGet_map same_handle_def word_unat_eq_iff split: option.splits)
qed

lemma Erase_lookup:
  assumes "table_inv t" "Table_Erase h t = (k, t')"
  shows "table_inv t'" "length (items t) = length (items t') + k" "k = (if TryGet t h = None then 0 else 1)"
    "TryGet t' g = (if same_handle g h then None else TryGet t g)"
proof -
  have "table_inv t' \<and> length (items t) = length (items t') + k \<and> k = (if TryGet t h = None then 0 else 1)
     \<and> TryGet t' g = (if same_handle g h then None else TryGet t g)"
  proof (cases "Contains t h")
    case True
    note E = Erase_spec [OF assms(1) True assms(2), unfolded erase_spec_def]
    obtain x where x: "TryGet t h = Some x" using True by (auto simp: Contains_TryGet)
    have "TryGet t' g = (if same_handle g h then None else TryGet t g)"
      using E x by (auto simp: TryGet_map same_handle_def word_unat_eq_iff split: option.splits if_splits prod.splits)
    then show ?thesis using E x by simp
  next
    case False
    then show ?thesis
      using assms Erase_unknown [OF False] TryGet_same [of g h t] by (auto simp: Contains_TryGet)
  qed
  then show "table_inv t'" "length (items t) = length (items t') + k" "k = (if TryGet t h = None then 0 else 1)"
    "TryGet t' g = (if same_handle g h then None else TryGet t g)" by blast+
qed

interpretation table: slot_map table_inv TryGet Table_Size "2 ^ 32 - 1" same_handle Table_Insert Table_Erase
proof (unfold_locales, goal_cases)
  case (1 t x h t') then show ?case using Insert_spec [of t x h t'] by (simp add: Table_Size_def insert_spec_def)
next
  case (2 t x h t') then show ?case using Insert_spec [of t x h t'] by (simp add: Table_Size_def insert_spec_def)
next
  case (3 t x h t') then show ?case using Insert_lookup(2) [of t x h t'] by (simp add: Table_Size_def)
next
  case (4 t x h t' g) then show ?case using Insert_lookup(1) [of t x h t' g] by (simp add: Table_Size_def)
next
  case (5 t h k t') then show ?case using Erase_lookup(1) by blast
next
  case (6 t h k t') then show ?case using Erase_lookup(2) by (simp add: Table_Size_def)
next
  case (7 t h k t' g) then show ?case using Erase_lookup(4) by blast
next
  case (8 g h t) then show ?case by (rule TryGet_same)
qed


section \<open>Reachable tables\<close>

inductive table_reachable :: "'a ResourceTable \<Rightarrow> bool" where
  new: "table_reachable (ResourceTable_new ty)"
| insertion: "table_reachable t \<Longrightarrow> length (items t) < 2 ^ 32 - 1 \<Longrightarrow> table_reachable (snd (Table_Insert x t))"
| erasure: "table_reachable t \<Longrightarrow> table_reachable (snd (Table_Erase h t))"
| clearing: "table_reachable t \<Longrightarrow> table_reachable (Table_Clear t)"
| resetting: "table_reachable t \<Longrightarrow> table_reachable (Table_Reset t)"
| defragmenting: "table_reachable t \<Longrightarrow> table_reachable (snd (Table_Defragment trivial cmp ms t))"

lemma reachable_table_inv: "table_reachable t \<Longrightarrow> table_inv t"
proof (induction rule: table_reachable.induct)
  case (insertion t x)
  then show ?case using Insert_spec [of t x] unfolding insert_spec_def by (metis prod.collapse)
next
  case (erasure t h)
  then show ?case using Erase_lookup(1) by (metis prod.collapse)
next
  case (defragmenting t trivial cmp ms)
  then show ?case using Defragment_same by (metis prod.collapse)
qed (simp_all add: table_inv_new Clear_spec table_inv_Reset)

lemma ItemAt_TryGet:
  assumes "table_inv t" "TryGet t h = Some x"
  shows "ItemAt t h = Inr x"
proof -
  have s: "slot h < length (sparse_table t)" and x: "x = items t ! slot (sparse_table t ! slot h)"
    and h: "ResourceType h = item_type t" "\<not> IsFree (sparse_table t ! slot h)" "Generation h = Generation (sparse_table t ! slot h)"
    using assms(2) by (auto simp: TryGet_def Let_def split: if_splits)
  note T = table_invD [OF assms(1)]
  have "Index h \<noteq> kIndexMax" using s T(2) unat_kIndexMax by auto
  moreover have "\<not> NewIndex (sparse_table t) \<le> Index h" using s unat_NewIndex [OF T(2)] by (simp add: word_le_nat_alt)
  ultimately show ?thesis using h x by (simp add: ItemAt_def GetInnerIndex_def IsValid_def kInvalidIndex_def Let_def)
qed

lemma ItemAt_error:
  assumes "table_inv t" "TryGet t h = None"
  shows "\<exists>e. ItemAt t h = Inl e"
proof -
  have "NewIndex (sparse_table t) \<le> Index h \<longleftrightarrow> length (sparse_table t) \<le> slot h"
    using unat_NewIndex [OF table_invD(2) [OF assms(1)]] by (simp add: word_le_nat_alt)
  then show ?thesis using assms(2) by (auto simp: TryGet_def ItemAt_def GetInnerIndex_def Let_def split: if_splits)
qed

section \<open>Stale handles\<close>

definition erase_count :: "('a, 'h) slot_op list \<Rightarrow> nat" where
  "erase_count ops = length (filter (\<lambda>c. case c of OpErase h \<Rightarrow> True | _ \<Rightarrow> False) ops)"

lemma erase_count_simps [simp]: "erase_count [] = 0" "erase_count (OpInsert x # ops) = erase_count ops"
  "erase_count (OpErase h # ops) = Suc (erase_count ops)"
  by (simp_all add: erase_count_def)

abbreviation table_run :: "('a, HandleT) slot_op list \<Rightarrow> 'a ResourceTable \<Rightarrow> 'a ResourceTable" where
  "table_run \<equiv> run_ops Table_Insert Table_Erase"

lemma Erase_gen:
  assumes "table_inv t" "Table_Erase h t = (k, t')"
  shows "table_gen t' s = table_gen t s \<or> table_gen t' s = next_generation (table_gen t s)"
  using assms Erase_spec [OF assms(1) _ assms(2)] Erase_unknown [of t h] by (cases "Contains t h") (auto simp: erase_spec_def)

lemma run_gen:
  "table_inv t \<Longrightarrow> length (items t) + insert_count ops \<le> 2 ^ 32 - 1
    \<Longrightarrow> \<exists>m \<le> erase_count ops. table_gen (table_run ops t) s = (next_generation ^^ m) (table_gen t s)"
proof (induction ops arbitrary: t)
  case (Cons c ops)
  show ?case
  proof (cases c)
    case (OpInsert x)
    obtain h t' where r: "Table_Insert x t = (h, t')" by (cases "Table_Insert x t")
    have "insert_spec x t h t'" by (rule Insert_spec) (use Cons.prems OpInsert r in auto)
    then have "table_inv t'" "length (items t') = length (items t) + 1" "table_gen t' = table_gen t"
      by (simp_all add: insert_spec_def)
    then show ?thesis using Cons.IH [of t'] Cons.prems OpInsert r by simp
  next
    case (OpErase g)
    obtain k t' where r: "Table_Erase g t = (k, t')" by (cases "Table_Erase g t")
    note E = Erase_lookup [OF Cons.prems(1) r]
    obtain m where m: "m \<le> erase_count ops" "table_gen (table_run ops t') s = (next_generation ^^ m) (table_gen t' s)"
      using Cons.IH [OF E(1)] E(2) Cons.prems(2) OpErase by auto
    consider "table_gen t' s = table_gen t s" | "table_gen t' s = next_generation (table_gen t s)"
      using Erase_gen [OF Cons.prems(1) r] by blast
    then show ?thesis
    proof cases
      case 1
      then show ?thesis using m OpErase r by (intro exI [of _ m]) simp
    next
      case 2
      then show ?thesis using m OpErase r by (intro exI [of _ "Suc m"]) (simp add: funpow_Suc_right del: funpow.simps)
    qed
  qed
qed simp

lemma TryGet_gen: "TryGet t h = Some x \<Longrightarrow> Generation h = table_gen t (slot h)"
  by (auto simp: TryGet_def table_gen_def Let_def split: if_splits)

lemma table_gen_le: "table_gen t s \<le> 4095"
  by (simp add: table_gen_def Generation_le)

section \<open>Properties\<close>

text \<open>C36: Every reachable table satisfies its invariant: dense and sparse sets are linked both ways, the
  free list runs once through exactly the free slots and ends at \<open>freelist_back\<close>, and the number of items
  is the number of entries.\<close>

theorem table_reachable_inv:
  assumes "table_reachable t"
  shows "table_inv t \<and> Table_Size t = card (dom (table_map t))"
proof -
  have inv: "table_inv t" using assms by (rule reachable_table_inv)
  have "dom (table_map t) = {s. s < length (sparse_table t) \<and> \<not> IsFree (sparse_table t ! s)}"
    by (auto simp: table_map_def dom_def split: if_splits)
  then show ?thesis using inv links_count [OF table_invD(1) [OF inv]] by (simp add: Table_Size_def)
qed

definition sample_table :: "nat ResourceTable" where
  "sample_table = snd (Table_Insert 7 (snd (Table_Insert 5 (ResourceTable_new 3))))"

lemma sample_reachable: "table_reachable sample_table"
  unfolding sample_table_def
  by (intro insertion new) (simp_all add: ResourceTable_new_def Table_Insert_def IsFreeListEmpty_def kInvalidIndex_def Let_def)

theorem table_reachable_inv_witness:
  "table_inv sample_table \<and> Table_Size sample_table = card (dom (table_map sample_table))"
  by (rule table_reachable_inv [OF sample_reachable])

text \<open>C35: The table implements a finite map from slots to a generation and an item: \<open>Insert\<close> adds one
  entry in a slot that was not in use and returns its handle, \<open>Erase\<close> removes the entry of a handle it
  contains and otherwise changes nothing, \<open>Clear\<close> and \<open>Reset\<close> remove all of them, and lookups read the map.\<close>

theorem table_refines_map:
  assumes "table_reachable t"
  shows "(\<forall>x h t'. length (items t) < 2 ^ 32 - 1 \<and> Table_Insert x t = (h, t') \<longrightarrow>
           table_map t (slot h) = None \<and> table_map t' = (table_map t)(slot h \<mapsto> (Generation h, x)) \<and> IsValid h
             \<and> ResourceType h = item_type t)
    \<and> (\<forall>h k t'. Table_Erase h t = (k, t') \<longrightarrow>
           (if Contains t h then k = 1 \<and> table_map t' = (table_map t)(slot h := None) else k = 0 \<and> t' = t))
    \<and> table_map (Table_Clear t) = Map.empty \<and> table_map (Table_Reset t) = Map.empty
    \<and> (\<forall>h. TryGet t h = (if ResourceType h \<noteq> item_type t then None
           else case table_map t (slot h) of None \<Rightarrow> None | Some (g, y) \<Rightarrow> if Generation h = g then Some y else None))"
proof (intro conjI allI impI)
  note inv = reachable_table_inv [OF assms]
  {
    fix x h t' assume "length (items t) < 2 ^ 32 - 1 \<and> Table_Insert x t = (h, t')"
    then have "insert_spec x t h t'" using Insert_spec [OF inv] by blast
    then show "table_map t (slot h) = None" "table_map t' = (table_map t)(slot h \<mapsto> (Generation h, x))" "IsValid h"
      "ResourceType h = item_type t"
      by (simp_all add: insert_spec_def)
  }
  show "if Contains t h then k = 1 \<and> table_map t' = (table_map t)(slot h := None) else k = 0 \<and> t' = t"
    if "Table_Erase h t = (k, t')" for h k t'
    using Erase_spec [OF inv _ that] Erase_unknown [of t h] that by (auto simp: erase_spec_def)
  show "table_map (Table_Clear t) = Map.empty" "table_map (Table_Reset t) = Map.empty"
    using Clear_spec [OF inv] by (simp_all add: Table_Reset_def table_map_def fun_eq_iff)
qed (rule TryGet_map)

definition sample_handle :: HandleT where
  "sample_handle = fst (Table_Insert (5 :: nat) (ResourceTable_new 3))"

abbreviation table_one :: "nat ResourceTable" where
  "table_one \<equiv> snd (Table_Insert 5 (ResourceTable_new 3))"

lemma items_Insert: "items (snd (Table_Insert x t)) = items t @ [x]" "fragmented (snd (Table_Insert x t))"
  by (simp_all add: Table_Insert_def IsFreeListEmpty_def Let_def)

lemma sample_values:
  "Table_Insert 5 (ResourceTable_new 3) = (sample_handle, table_one)" "items sample_table = [5, 7]"
  "fragmented sample_table" "length (items (ResourceTable_new 3 :: nat ResourceTable)) < 2 ^ 32 - 1"
  "TryGet sample_table sample_handle = Some 5"
proof -
  show ins: "Table_Insert 5 (ResourceTable_new 3) = (sample_handle, table_one)" by (simp add: sample_handle_def)
  show e: "length (items (ResourceTable_new 3 :: nat ResourceTable)) < 2 ^ 32 - 1" by (simp add: ResourceTable_new_def)
  show "items sample_table = [5, 7]" "fragmented sample_table"
    by (simp_all add: sample_table_def items_Insert ResourceTable_new_def)
  have "insert_spec 5 (ResourceTable_new 3) sample_handle table_one" by (rule Insert_spec [OF table_inv_new e ins])
  then have "table_inv table_one" by (simp add: insert_spec_def)
  moreover have "TryGet table_one sample_handle = Some 5"
    using Insert_lookup(1) [OF table_inv_new e ins, of sample_handle] by (simp add: same_handle_def)
  ultimately have "TryGet (table_run [OpInsert 7] table_one) sample_handle = Some 5"
    by (intro table.run_ops_persist) (simp_all add: Table_Size_def items_Insert ResourceTable_new_def)
  then show "TryGet sample_table sample_handle = Some 5" by (simp add: sample_table_def)
qed

theorem table_refines_map_witness:
  "table_map table_one = (table_map (ResourceTable_new 3))(slot sample_handle \<mapsto> (Generation sample_handle, 5))
    \<and> (if Contains sample_table sample_handle then fst (Table_Erase sample_handle sample_table) = 1
        \<and> table_map (snd (Table_Erase sample_handle sample_table)) = (table_map sample_table)(slot sample_handle := None)
       else fst (Table_Erase sample_handle sample_table) = 0 \<and> snd (Table_Erase sample_handle sample_table) = sample_table)"
proof -
  let ?n = "ResourceTable_new 3 :: nat ResourceTable"
  have "\<forall>x h t'. length (items ?n) < 2 ^ 32 - 1 \<and> Table_Insert x ?n = (h, t')
      \<longrightarrow> table_map t' = (table_map ?n)(slot h \<mapsto> (Generation h, x))"
    using table_refines_map [of ?n, OF new] by blast
  moreover have "\<forall>h k t'. Table_Erase h sample_table = (k, t') \<longrightarrow>
      (if Contains sample_table h then k = 1 \<and> table_map t' = (table_map sample_table)(slot h := None) else k = 0 \<and> t' = sample_table)"
    using table_refines_map [OF sample_reachable] by blast
  ultimately show ?thesis using sample_values(1,4) by (metis prod.collapse)
qed

text \<open>A handle keeps finding its item, through \<open>TryGet\<close> and \<open>ItemAt\<close>, over every sequence of insertions
  and erasures that does not erase that handle, wherever erasures move the item in the dense set.\<close>

theorem table_lookup_persists:
  assumes "table_reachable t" "TryGet t h = Some x" "Table_Size t + insert_count ops \<le> 2 ^ 32 - 1"
    and "\<And>g. OpErase g \<in> set ops \<Longrightarrow> \<not> same_handle h g"
  shows "TryGet (table_run ops t) h = Some x \<and> ItemAt (table_run ops t) h = Inr x"
proof -
  have inv: "table_inv t" using assms(1) by (rule reachable_table_inv)
  have "TryGet (table_run ops t) h = Some x" by (rule table.run_ops_persist [OF inv assms(3,2,4)])
  moreover have "table_inv (table_run ops t)" by (rule table.run_ops_invar [OF inv assms(3)])
  ultimately show ?thesis using ItemAt_TryGet [of "table_run ops t" h x] by simp
qed

theorem table_lookup_persists_witness:
  "TryGet (table_run [OpInsert 9, OpErase (ResourceHandle_of 1 4)] sample_table) sample_handle = Some 5
    \<and> ItemAt (table_run [OpInsert 9, OpErase (ResourceHandle_of 1 4)] sample_table) sample_handle = Inr 5"
proof (rule table_lookup_persists [OF sample_reachable sample_values(5)])
  show "Table_Size sample_table + insert_count [OpInsert (9 :: nat), OpErase (ResourceHandle_of 1 4)] \<le> 2 ^ 32 - 1"
    by (simp add: Table_Size_def sample_values)
  have "ResourceType sample_handle = 3"
    using sample_values(5) reachable_table_inv [OF new, of 3] Insert_spec [OF table_inv_new sample_values(4,1)]
    by (simp add: insert_spec_def ResourceTable_new_def)
  then show "\<not> same_handle sample_handle g"
    if "OpErase g \<in> set [OpInsert (9 :: nat), OpErase (ResourceHandle_of 1 4)]" for g
    using that by (simp add: same_handle_def)
qed

text \<open>C37: An erased handle finds nothing, in \<open>TryGet\<close> and in \<open>ItemAt\<close>, also when its slot is used again, as long as
  fewer than 4095 erasures follow: the generation of the slot differs from that of the handle.\<close>

theorem stale_handle_rejected:
  assumes "table_reachable t" "TryGet t h = Some x" "Table_Erase h t = (k, t')"
    and "Table_Size t' + insert_count ops \<le> 2 ^ 32 - 1" "erase_count ops < 4095"
  shows "TryGet (table_run ops t') h = None \<and> (\<exists>e. ItemAt (table_run ops t') h = Inl e)"
proof -
  have inv: "table_inv t" using assms(1) by (rule reachable_table_inv)
  have "Contains t h" using assms(2) by (simp add: Contains_TryGet)
  then have E: "table_inv t'" "table_gen t' (slot h) = next_generation (table_gen t (slot h))"
    using Erase_spec [OF inv _ assms(3)] by (simp_all add: erase_spec_def)
  obtain m where m: "m \<le> erase_count ops" "table_gen (table_run ops t') (slot h) = (next_generation ^^ m) (table_gen t' (slot h))"
    using run_gen [OF E(1), of ops "slot h"] assms(4) by (auto simp: Table_Size_def)
  have "table_gen (table_run ops t') (slot h) = (next_generation ^^ Suc m) (Generation h)"
    using m(2) E(2) TryGet_gen [OF assms(2)] by (simp add: funpow_Suc_right del: funpow.simps)
  moreover have "(next_generation ^^ Suc m) (Generation h) \<noteq> Generation h"
    by (rule next_generation_differs) (use m(1) assms(5) Generation_le in auto)
  ultimately have "TryGet (table_run ops t') h = None" using TryGet_gen [of "table_run ops t'" h] by (metis not_Some_eq)
  then show ?thesis using ItemAt_error table.run_ops_invar [OF E(1) assms(4)] by blast
qed

theorem stale_handle_rejected_witness:
  "TryGet (table_run [OpInsert 9] (snd (Table_Erase sample_handle sample_table))) sample_handle = None"
proof -
  have "Table_Size sample_table = Table_Size (snd (Table_Erase sample_handle sample_table)) + fst (Table_Erase sample_handle sample_table)"
    using table.del_size [OF reachable_table_inv [OF sample_reachable] prod.collapse [symmetric]] .
  then have "Table_Size (snd (Table_Erase sample_handle sample_table)) \<le> 2" by (simp add: Table_Size_def sample_values)
  then show ?thesis
    using stale_handle_rejected [OF sample_reachable sample_values(5) prod.collapse [symmetric], of "[OpInsert 9]"] by simp
qed

text \<open>C38: \<open>Defragment\<close> keeps every lookup and every item, whatever the comparison and the limit on the swaps, and a table
  that is not marked fragmented is left alone. Run without a limit on a fragmented table, with a comparison that is a strict weak order,
  both versions of its loop give the same dense set, and leave it sorted: no item stands before one it is less than. This is the
  descending order of the comparison, while the comment on \<open>Defragment\<close> has the lesser item ordered before.\<close>

theorem defragment_sorts:
  assumes "table_reachable t" "Table_Defragment trivial cmp max_swaps t = (swaps, t')"
  shows "mset (items t') = mset (items t) \<and> TryGet t' = TryGet t \<and> (\<not> fragmented t \<longrightarrow> swaps = 0 \<and> t' = t)
    \<and> (fragmented t \<and> weak_order cmp \<and> max_swaps = 0 \<longrightarrow>
        sorted_wrt (\<lambda>a b. \<not> cmp a b) (items t') \<and> (items t \<noteq> [] \<longrightarrow> \<not> fragmented t')
        \<and> items t' = items (snd (Table_Defragment (\<not> trivial) cmp max_swaps t)))"
proof (intro conjI impI)
  have inv: "table_inv t" using assms(1) by (rule reachable_table_inv)
  note S = Defragment_same [OF inv assms(2)]
  show "mset (items t') = mset (items t)" using S by blast
  show "TryGet t' = TryGet t" using S by (simp add: TryGet_map fun_eq_iff)
  show "swaps = 0" "t' = t" if "\<not> fragmented t"
    using assms(2) that by (simp_all add: Table_Defragment_def)
  assume c: "fragmented t \<and> weak_order cmp \<and> max_swaps = 0"
  then have r: "Table_Defragment trivial cmp 0 t = (swaps, t')" using assms(2) by simp
  note D = Defragment_descending [OF _ inv _ r]
  show "sorted_wrt (\<lambda>a b. \<not> cmp a b) (items t')"
    using D c by (simp add: sorted_wrt_iff_nth_less descending_def)
  show "\<not> fragmented t'" if "items t \<noteq> []" using D c that by blast
  show "items t' = items (snd (Table_Defragment (\<not> trivial) cmp max_swaps t))"
    using defrag_loop_versions [OF inv refl, of cmp 1 0 0] c r
    by (cases trivial) (auto simp: Table_Defragment_def split_beta)
qed

theorem defragment_sorts_witness:
  "items (snd (Table_Defragment True (<) 0 sample_table)) = [7, 5] \<and> TryGet (snd (Table_Defragment True (<) 0 sample_table)) = TryGet sample_table"
proof -
  have "weak_order ((<) :: nat \<Rightarrow> nat \<Rightarrow> bool)" by (auto simp: weak_order_def)
  with defragment_sorts [OF sample_reachable prod.collapse [symmetric], of True "(<)" 0] sample_values(3)
  have s: "sorted_wrt (\<lambda>a b. \<not> a < b) (items (snd (Table_Defragment True (<) 0 sample_table)))"
    and "mset (items (snd (Table_Defragment True (<) 0 sample_table))) = mset (items sample_table)"
    and t: "TryGet (snd (Table_Defragment True (<) 0 sample_table)) = TryGet sample_table" by blast+
  then have m: "mset (items (snd (Table_Defragment True (<) 0 sample_table))) = mset [7, 5]"
    by (simp add: sample_values)
  have "xs = [7, 5]" if asc: "sorted_wrt (\<lambda>a b. \<not> a < b) xs" and eq: "mset xs = mset [7, 5]" for xs :: "nat list"
  proof -
    obtain a b where xs: "xs = [a, b]"
      using mset_eq_length [OF eq] by (auto simp: length_Suc_conv)
    moreover have "{a, b} = {7, 5}" using mset_eq_setD [OF eq] by (simp add: xs)
    ultimately show ?thesis using asc by (auto simp: doubleton_eq_iff)
  qed
  with s m t show ?thesis by blast
qed

end
