(* ===== verification/StaticVector.thy ===== *)
theory StaticVector
  imports Prelude
begin

text \<open>
  \<open>src/Nova/Base/StaticVector.h\<close>: a vector in raw storage of a fixed capacity. A cell of the storage is raw or holds an object.
  Constructing an object writes its cell, destroying it makes the cell raw, reading or destroying a raw cell is undefined. \<open>debug\<close>
  says whether assertions are compiled in, \<open>trivial\<close> whether the destructor of the elements is trivial, and \<open>moved\<close> is what a
  move leaves in the source. Constructors of elements are taken to return normally.
\<close>

datatype 'a cell = Raw | Obj 'a

record 'a StaticVector =
  storage :: "'a cell list"
  current_size :: u64

section \<open>Cells\<close>

definition read_cell :: "'a cell list \<Rightarrow> nat \<Rightarrow> 'a res" where
  "read_cell cells i = (if i < length cells then (case cells ! i of Raw \<Rightarrow> Inl UndefinedBehaviour | Obj v \<Rightarrow> Inr v) else Inl UndefinedBehaviour)"

definition sv_assert :: "bool \<Rightarrow> bool \<Rightarrow> string \<Rightarrow> unit res" where
  "sv_assert debug condition what = (if debug \<and> \<not> condition then Inl (AbortExn what) else Inr ())"

text \<open>The loops over cells: placement of values from a position on, destruction of some cells, reading of the first ones.\<close>

fun construct :: "nat \<Rightarrow> 'a list \<Rightarrow> 'a cell list \<Rightarrow> 'a cell list res" where
  "construct i [] cells = Inr cells"
| "construct i (v # vs) cells = (if i < length cells then construct (i + 1) vs (cells[i := Obj v]) else Inl UndefinedBehaviour)"

fun destroy :: "nat \<Rightarrow> nat \<Rightarrow> 'a cell list \<Rightarrow> 'a cell list res" where
  "destroy i 0 cells = Inr cells"
| "destroy i (Suc n) cells = rbind (read_cell cells i) (\<lambda>v. destroy (i + 1) n (cells[i := Raw]))"

fun read_cells :: "nat \<Rightarrow> nat \<Rightarrow> 'a cell list \<Rightarrow> 'a list res" where
  "read_cells i 0 cells = Inr []"
| "read_cells i (Suc n) cells = rbind (read_cell cells i) (\<lambda>v. rbind (read_cells (i + 1) n cells) (\<lambda>vs. Inr (v # vs)))"

definition destroy_all :: "bool \<Rightarrow> nat \<Rightarrow> nat \<Rightarrow> 'a cell list \<Rightarrow> 'a cell list res" where
  "destroy_all trivial i n cells = (if trivial then Inr cells else destroy i n cells)"

section \<open>Construction\<close>

definition SV_new :: "nat \<Rightarrow> 'a StaticVector" where
  "SV_new capacity = \<lparr>storage = replicate capacity Raw, current_size = 0\<rparr>"

text \<open>The constructors from a list, from a range, and from a count with a value; all of them cut at the capacity.\<close>

definition SV_from :: "bool \<Rightarrow> nat \<Rightarrow> 'a list \<Rightarrow> 'a StaticVector res" where
  "SV_from debug capacity init =
     rbind (sv_assert debug (length init \<le> capacity) ''initializer list size exceeds maximum size'') (\<lambda>_.
     rbind (construct 0 (take capacity init) (replicate capacity Raw)) (\<lambda>cells.
     Inr \<lparr>storage = cells, current_size = word_of_nat (min (length init) capacity)\<rparr>))"

definition SV_count :: "bool \<Rightarrow> nat \<Rightarrow> u64 \<Rightarrow> 'a \<Rightarrow> 'a StaticVector res" where
  "SV_count debug capacity count v =
     rbind (sv_assert debug (unat count \<le> capacity) ''count exceeds maximum size'') (\<lambda>_.
     rbind (construct 0 (replicate (min (unat count) capacity) v) (replicate capacity Raw)) (\<lambda>cells.
     Inr \<lparr>storage = cells, current_size = word_of_nat (min (unat count) capacity)\<rparr>))"

definition SV_copy :: "'a StaticVector \<Rightarrow> 'a StaticVector res" where
  "SV_copy other =
     rbind (read_cells 0 (unat (current_size other)) (storage other)) (\<lambda>vs.
     rbind (construct 0 vs (replicate (length (storage other)) Raw)) (\<lambda>cells.
     Inr \<lparr>storage = cells, current_size = current_size other\<rparr>))"

text \<open>A move returns the new vector and the one that was moved from.\<close>

definition move_out :: "('a \<Rightarrow> 'a) \<Rightarrow> 'a list \<Rightarrow> 'a StaticVector \<Rightarrow> 'a StaticVector res" where
  "move_out moved vs other = rbind (construct 0 (map moved vs) (storage other)) (\<lambda>cells. Inr \<lparr>storage = cells, current_size = 0\<rparr>)"

definition SV_move :: "('a \<Rightarrow> 'a) \<Rightarrow> 'a StaticVector \<Rightarrow> ('a StaticVector \<times> 'a StaticVector) res" where
  "SV_move moved other =
     rbind (read_cells 0 (unat (current_size other)) (storage other)) (\<lambda>vs.
     rbind (construct 0 vs (replicate (length (storage other)) Raw)) (\<lambda>cells.
     rbind (move_out moved vs other) (\<lambda>left. Inr (\<lparr>storage = cells, current_size = current_size other\<rparr>, left))))"

section \<open>Access\<close>

definition SV_index :: "bool \<Rightarrow> 'a StaticVector \<Rightarrow> u64 \<Rightarrow> 'a res" where
  "SV_index debug sv pos = rbind (sv_assert debug (pos < current_size sv) ''out of bounds access'') (\<lambda>_. read_cell (storage sv) (unat pos))"

definition SV_at :: "bool \<Rightarrow> 'a StaticVector \<Rightarrow> u64 \<Rightarrow> 'a res" where
  "SV_at debug sv pos = (if pos \<ge> current_size sv then Inl (OutOfRangeExn ''StaticVector::at'') else SV_index debug sv pos)"

definition SV_empty :: "'a StaticVector \<Rightarrow> bool" where
  "SV_empty sv \<longleftrightarrow> current_size sv = 0"

definition SV_front :: "bool \<Rightarrow> 'a StaticVector \<Rightarrow> 'a res" where
  "SV_front debug sv = rbind (sv_assert debug (\<not> SV_empty sv) ''front() called on empty container'') (\<lambda>_. SV_index debug sv 0)"

definition SV_back :: "bool \<Rightarrow> 'a StaticVector \<Rightarrow> 'a res" where
  "SV_back debug sv = rbind (sv_assert debug (\<not> SV_empty sv) ''back() called on empty container'') (\<lambda>_. SV_index debug sv (current_size sv - 1))"

section \<open>Modifiers\<close>

definition SV_clear :: "bool \<Rightarrow> 'a StaticVector \<Rightarrow> 'a StaticVector res" where
  "SV_clear trivial sv =
     rbind (destroy_all trivial 0 (unat (current_size sv)) (storage sv)) (\<lambda>cells. Inr \<lparr>storage = cells, current_size = 0\<rparr>)"

text \<open>\<open>push_back\<close> and \<open>emplace_back\<close>; \<open>std::length_error\<close> is a logic error.\<close>

definition SV_push_back :: "'a \<Rightarrow> 'a StaticVector \<Rightarrow> 'a StaticVector res" where
  "SV_push_back v sv =
     (if unat (current_size sv) \<ge> length (storage sv) then Inl (LogicErrorExn ''cannot add element, container is full'')
      else rbind (construct (unat (current_size sv)) [v] (storage sv)) (\<lambda>cells. Inr \<lparr>storage = cells, current_size = current_size sv + 1\<rparr>))"

definition SV_pop_back :: "bool \<Rightarrow> bool \<Rightarrow> 'a StaticVector \<Rightarrow> 'a StaticVector res" where
  "SV_pop_back debug trivial sv =
     rbind (sv_assert debug (\<not> SV_empty sv) ''pop_back called on empty container'') (\<lambda>_.
     rbind (destroy_all trivial (unat (current_size sv - 1)) 1 (storage sv)) (\<lambda>cells.
     Inr \<lparr>storage = cells, current_size = current_size sv - 1\<rparr>))"

definition SV_resize :: "bool \<Rightarrow> u64 \<Rightarrow> 'a \<Rightarrow> 'a StaticVector \<Rightarrow> 'a StaticVector res" where
  "SV_resize trivial new_size v sv =
     (let old = unat (current_size sv); new = unat new_size in
      if new > length (storage sv) then Inl (LogicErrorExn ''new_size exceeds max_size()'')
      else
        rbind (if new > old then construct old (replicate (new - old) v) (storage sv)
               else if new < old then destroy_all trivial new (old - new) (storage sv)
               else Inr (storage sv)) (\<lambda>cells. Inr \<lparr>storage = cells, current_size = new_size\<rparr>))"

text \<open>The assignments; \<open>self\<close> says whether both sides are the same object.\<close>

definition SV_assign_copy :: "bool \<Rightarrow> bool \<Rightarrow> 'a StaticVector \<Rightarrow> 'a StaticVector \<Rightarrow> 'a StaticVector res" where
  "SV_assign_copy trivial self other sv =
     (if self then Inr sv
      else rbind (SV_clear trivial sv) (\<lambda>sv.
        rbind (read_cells 0 (unat (current_size other)) (storage other)) (\<lambda>vs.
        rbind (construct 0 vs (storage sv)) (\<lambda>cells. Inr \<lparr>storage = cells, current_size = current_size other\<rparr>))))"

definition SV_assign_move :: "bool \<Rightarrow> bool \<Rightarrow> ('a \<Rightarrow> 'a) \<Rightarrow> 'a StaticVector \<Rightarrow> 'a StaticVector \<Rightarrow> ('a StaticVector \<times> 'a StaticVector) res" where
  "SV_assign_move trivial self moved other sv =
     (if self then Inr (sv, sv)
      else rbind (SV_clear trivial sv) (\<lambda>sv.
        rbind (read_cells 0 (unat (current_size other)) (storage other)) (\<lambda>vs.
        rbind (construct 0 vs (storage sv)) (\<lambda>cells.
        rbind (move_out moved vs other) (\<lambda>left. Inr (\<lparr>storage = cells, current_size = current_size other\<rparr>, left))))))"

definition SV_assign_list :: "bool \<Rightarrow> bool \<Rightarrow> 'a list \<Rightarrow> 'a StaticVector \<Rightarrow> 'a StaticVector res" where
  "SV_assign_list debug trivial vs sv =
     rbind (SV_clear trivial sv) (\<lambda>sv.
     rbind (sv_assert debug (length vs \<le> length (storage sv)) ''initializer list size exceeds maximum size'') (\<lambda>_.
     rbind (construct 0 (take (length (storage sv)) vs) (storage sv)) (\<lambda>cells.
     Inr \<lparr>storage = cells, current_size = word_of_nat (min (length vs) (length (storage sv)))\<rparr>)))"

definition SV_equal :: "'a StaticVector \<Rightarrow> 'a StaticVector \<Rightarrow> bool res" where
  "SV_equal sv other =
     (if current_size sv \<noteq> current_size other then Inr False
      else rbind (read_cells 0 (unat (current_size sv)) (storage sv)) (\<lambda>xs.
        rbind (read_cells 0 (unat (current_size sv)) (storage other)) (\<lambda>ys. Inr (xs = ys))))"

section \<open>The loops over cells\<close>

text \<open>A vector holds a list: the first cells are its objects, and the others are raw when destructors matter.\<close>

definition holds :: "bool \<Rightarrow> 'a list \<Rightarrow> 'a StaticVector \<Rightarrow> bool" where
  "holds trivial xs sv \<longleftrightarrow> (\<exists>free. storage sv = map Obj xs @ free \<and> unat (current_size sv) = length xs
     \<and> (trivial \<or> free = replicate (length free) Raw) \<and> length (storage sv) < 2 ^ 64)"

lemma construct_cells: "construct (length as) vs (as @ bs @ cs) = Inr (as @ map Obj vs @ cs)" if "length bs = length vs"
  using that
proof (induction vs arbitrary: as bs)
  case (Cons v vs)
  then obtain b bs' where b: "bs = b # bs'" "length bs' = length vs" by (cases bs) simp_all
  have "(as @ b # bs' @ cs)[length as := Obj v] = (as @ [Obj v]) @ bs' @ cs" by simp
  then show ?case using Cons.IH [OF b(2), of "as @ [Obj v]"] b(1) by simp
qed simp

lemma destroy_cells: "destroy (length as) (length vs) (as @ map Obj vs @ cs) = Inr (as @ replicate (length vs) Raw @ cs)"
proof (induction vs arbitrary: as)
  case (Cons v vs)
  have "(as @ Obj v # map Obj vs @ cs)[length as := Raw] = (as @ [Raw]) @ map Obj vs @ cs" by simp
  then show ?case using Cons.IH [of "as @ [Raw]"] by (simp add: read_cell_def rbind_def)
qed simp

lemma read_cells_map: "read_cells (length as) (length vs) (as @ map Obj vs @ cs) = Inr vs"
proof (induction vs arbitrary: as)
  case (Cons v vs)
  then show ?case using Cons.IH [of "as @ [Obj v]"] by (simp add: read_cell_def rbind_def)
qed simp

lemma construct_first: "length bs = length vs \<Longrightarrow> construct 0 vs (bs @ cs) = Inr (map Obj vs @ cs)"
  using construct_cells [of bs vs "[]" cs] by simp

lemma destroy_first: "destroy 0 (length vs) (map Obj vs @ cs) = Inr (replicate (length vs) Raw @ cs)"
  using destroy_cells [of "[]" vs cs] by simp

lemma read_first: "read_cells 0 (length vs) (map Obj vs @ cs) = Inr vs"
  using read_cells_map [of "[]" vs cs] by simp

section \<open>The operations on lists\<close>

text \<open>An operation gives a list within a capacity.\<close>

definition gives :: "bool \<Rightarrow> 'a list \<Rightarrow> nat \<Rightarrow> 'a StaticVector res \<Rightarrow> bool" where
  "gives trivial xs capacity r \<longleftrightarrow> (\<exists>sv. r = Inr sv \<and> holds trivial xs sv \<and> length (storage sv) = capacity)"

lemma holds_size: "holds trivial xs sv \<Longrightarrow> unat (current_size sv) = length xs \<and> length xs \<le> length (storage sv) \<and> length (storage sv) < 2 ^ 64"
  by (auto simp: holds_def)

lemma unat_of_length: "n < 2 ^ 64 \<Longrightarrow> unat (word_of_nat n :: u64) = n"
  by (simp add: unsigned_of_nat take_bit_nat_eq_self)

lemma givesI: "r = Inr \<lparr>storage = map Obj xs @ free, current_size = k\<rparr> \<Longrightarrow> unat k = length xs \<Longrightarrow> trivial \<or> free = replicate (length free) Raw
    \<Longrightarrow> length xs + length free = capacity \<Longrightarrow> capacity < 2 ^ 64 \<Longrightarrow> gives trivial xs capacity r"
  by (auto simp: gives_def holds_def)

lemma SV_new_holds: "capacity < 2 ^ 64 \<Longrightarrow> holds trivial [] (SV_new capacity)"
  by (simp add: holds_def SV_new_def)

lemma SV_from_gives: "capacity < 2 ^ 64 \<Longrightarrow> \<not> debug \<or> length init \<le> capacity \<Longrightarrow> gives trivial (take capacity init) capacity (SV_from debug capacity init)"
proof -
  assume c: "capacity < 2 ^ 64" "\<not> debug \<or> length init \<le> capacity"
  let ?n = "min (length init) capacity"
  have r: "replicate capacity Raw = replicate ?n Raw @ replicate (capacity - ?n) (Raw :: 'a cell)" by (simp flip: replicate_add)
  have "construct 0 (take capacity init) (replicate ?n Raw @ replicate (capacity - ?n) Raw) = Inr (map Obj (take capacity init) @ replicate (capacity - ?n) Raw)"
    by (rule construct_first) simp
  then have "SV_from debug capacity init = Inr \<lparr>storage = map Obj (take capacity init) @ replicate (capacity - ?n) Raw, current_size = word_of_nat ?n\<rparr>"
    using c(2) unfolding SV_from_def r [symmetric] by (auto simp: sv_assert_def rbind_def)
  then show ?thesis by (rule givesI) (use c in \<open>simp_all add: unat_of_length\<close>)
qed

lemma SV_push_back_gives:
  assumes h: "holds trivial xs sv"
  shows "if length xs < length (storage sv) then gives trivial (xs @ [v]) (length (storage sv)) (SV_push_back v sv)
    else SV_push_back v sv = Inl (LogicErrorExn ''cannot add element, container is full'')"
proof (cases "length xs < length (storage sv)")
  case True
  obtain free where f: "storage sv = map Obj xs @ free" "unat (current_size sv) = length xs" "trivial \<or> free = replicate (length free) Raw"
      "length (storage sv) < 2 ^ 64"
    using h by (auto simp: holds_def)
  obtain c free' where c: "free = c # free'" using True f(1) by (cases free) simp_all
  have "construct (length xs) [v] (map Obj xs @ [c] @ free') = Inr (map Obj xs @ map Obj [v] @ free')"
    using construct_cells [of "[c]" "[v]" "map Obj xs" free'] by simp
  then have "SV_push_back v sv = Inr \<lparr>storage = map Obj (xs @ [v]) @ free', current_size = current_size sv + 1\<rparr>"
    using True f(1,2) c by (simp add: SV_push_back_def rbind_def)
  moreover have "unat (current_size sv + 1) = length (xs @ [v])"
    using f(2,4) True by (simp add: unat_word_ariths)
  ultimately have "gives trivial (xs @ [v]) (length (storage sv)) (SV_push_back v sv)"
    by (rule givesI) (use f c in auto)
  then show ?thesis using True by simp
next
  case False
  then show ?thesis using holds_size [OF h] by (simp add: SV_push_back_def)
qed

lemma SV_destroyed:
  assumes h: "holds trivial (xs @ ys) sv"
  shows "\<exists>cells. destroy_all trivial (length xs) (length ys) (storage sv) = Inr cells
    \<and> (\<forall>k. unat k = length xs \<longrightarrow> gives trivial xs (length (storage sv)) (Inr \<lparr>storage = cells, current_size = k\<rparr>))"
proof -
  obtain free where f: "storage sv = map Obj xs @ map Obj ys @ free" "trivial \<or> free = replicate (length free) Raw" "length (storage sv) < 2 ^ 64"
    using h by (auto simp: holds_def)
  show ?thesis
  proof (cases trivial)
    case True
    then show ?thesis using f by (auto simp: destroy_all_def intro!: givesI [where free = "map Obj ys @ free"])
  next
    case False
    let ?free = "replicate (length ys) Raw @ free"
    have "destroy (length xs) (length ys) (storage sv) = Inr (map Obj xs @ ?free)"
      using destroy_cells [of "map Obj xs" ys free] f(1) by simp
    moreover have "?free = replicate (length ?free) Raw" using f(2) False by (metis length_append length_replicate replicate_add)
    ultimately show ?thesis
      using f(1,3) False by (auto simp: destroy_all_def intro!: givesI [where free = ?free])
  qed
qed

lemma SV_pop_back_gives: "holds trivial xs sv \<Longrightarrow> xs \<noteq> [] \<Longrightarrow> gives trivial (butlast xs) (length (storage sv)) (SV_pop_back debug trivial sv)"
proof -
  assume h: "holds trivial xs sv" and x: "xs \<noteq> []"
  have s: "unat (current_size sv) = length xs" using holds_size [OF h] by simp
  then have ne: "current_size sv \<noteq> 0" using x by auto
  then have p: "unat (current_size sv - 1) = length (butlast xs)" using s by (simp add: unat_minus_one)
  have "holds trivial (butlast xs @ [last xs]) sv" using h x by simp
  then obtain cells where "destroy_all trivial (length (butlast xs)) 1 (storage sv) = Inr cells"
      "gives trivial (butlast xs) (length (storage sv)) (Inr \<lparr>storage = cells, current_size = current_size sv - 1\<rparr>)"
    using SV_destroyed [of trivial "butlast xs" "[last xs]" sv] p by auto
  then show ?thesis using ne by (simp add: SV_pop_back_def sv_assert_def SV_empty_def p rbind_def)
qed

lemma SV_clear_gives: "holds trivial xs sv \<Longrightarrow> gives trivial [] (length (storage sv)) (SV_clear trivial sv)"
  using SV_destroyed [of trivial "[]" xs sv] holds_size [of trivial xs sv] by (auto simp: SV_clear_def rbind_def)

lemma SV_resize_gives:
  assumes h: "holds trivial xs sv"
  shows "if unat k \<le> length (storage sv)
    then gives trivial (take (unat k) xs @ replicate (unat k - length xs) v) (length (storage sv)) (SV_resize trivial k v sv)
    else SV_resize trivial k v sv = Inl (LogicErrorExn ''new_size exceeds max_size()'')"
proof -
  obtain free where f: "storage sv = map Obj xs @ free" "unat (current_size sv) = length xs" "trivial \<or> free = replicate (length free) Raw"
      "length (storage sv) < 2 ^ 64"
    using h by (auto simp: holds_def)
  consider (over) "unat k > length (storage sv)" | (grow) "length xs < unat k" "unat k \<le> length (storage sv)"
    | (shrink) "unat k < length xs" | (same) "unat k = length xs"
    by linarith
  then show ?thesis
  proof cases
    case grow
    let ?d = "unat k - length xs"
    have "construct (length xs) (replicate ?d v) (map Obj xs @ take ?d free @ drop ?d free) = Inr (map Obj xs @ map Obj (replicate ?d v) @ drop ?d free)"
      using construct_cells [of "take ?d free" "replicate ?d v" "map Obj xs" "drop ?d free"] grow f(1) by simp
    then have m1: "SV_resize trivial k v sv = Inr \<lparr>storage = map Obj (xs @ replicate ?d v) @ drop ?d free, current_size = k\<rparr>"
      using grow f(1,2) by (simp add: SV_resize_def Let_def rbind_def)
    have m2: "trivial \<or> drop ?d free = replicate (length (drop ?d free)) Raw"
      using f(3) by (metis drop_replicate length_drop)
    have "gives trivial (xs @ replicate ?d v) (length (storage sv)) (SV_resize trivial k v sv)"
      by (rule givesI [OF m1 _ m2]) (use f grow in auto)
    then show ?thesis using grow by simp
  next
    case shrink
    then have "holds trivial (take (unat k) xs @ drop (unat k) xs) sv" using h by simp
    from SV_destroyed [OF this] obtain cells where "destroy_all trivial (unat k) (length xs - unat k) (storage sv) = Inr cells"
        "gives trivial (take (unat k) xs) (length (storage sv)) (Inr \<lparr>storage = cells, current_size = k\<rparr>)"
      using shrink by (auto simp: min_def)
    then show ?thesis using shrink f(1,2) by (simp add: SV_resize_def Let_def rbind_def)
  next
    case same
    have "gives trivial xs (length (storage sv)) (Inr \<lparr>storage = storage sv, current_size = k\<rparr>)"
      by (rule givesI [where free = free and k = k]) (use f same in auto)
    then show ?thesis using same f(1,2) by (simp add: SV_resize_def Let_def rbind_def)
  qed (use f in \<open>simp add: SV_resize_def Let_def\<close>)
qed

lemma SV_at_nth: "holds trivial xs sv \<Longrightarrow>
  SV_at debug sv k = (if unat k < length xs then Inr (xs ! unat k) else Inl (OutOfRangeExn ''StaticVector::at''))"
  by (auto simp: holds_def SV_at_def SV_index_def sv_assert_def read_cell_def rbind_def word_le_nat_alt word_less_nat_alt nth_append)

lemma SV_values: "holds trivial xs sv \<Longrightarrow> read_cells 0 (unat (current_size sv)) (storage sv) = Inr xs"
  by (auto simp: holds_def read_first)

lemma SV_filled:
  assumes "trivial \<or> cells = replicate (length cells) Raw" "length xs \<le> length cells" "length cells < 2 ^ 64" "unat k = length xs"
  shows "\<exists>cells'. construct 0 xs cells = Inr cells' \<and> gives trivial xs (length cells) (Inr \<lparr>storage = cells', current_size = k\<rparr>)"
proof -
  have "construct 0 xs (take (length xs) cells @ drop (length xs) cells) = Inr (map Obj xs @ drop (length xs) cells)"
    by (rule construct_first) (use assms(2) in simp)
  moreover have "trivial \<or> drop (length xs) cells = replicate (length (drop (length xs) cells)) Raw"
    using assms(1) by (metis drop_replicate length_drop)
  then have "gives trivial xs (length cells) (Inr \<lparr>storage = map Obj xs @ drop (length xs) cells, current_size = k\<rparr>)"
    by (intro givesI [OF refl]) (use assms(2-) in auto)
  ultimately show ?thesis by auto
qed

lemma SV_copy_gives: "holds trivial xs sv \<Longrightarrow> gives trivial xs (length (storage sv)) (SV_copy sv)"
  using SV_filled [of trivial "replicate (length (storage sv)) Raw" xs "current_size sv"] holds_size [of trivial xs sv] SV_values [of trivial xs sv]
  by (auto simp: SV_copy_def rbind_def)

lemma SV_assign_copy_gives:
  assumes "holds trivial xs sv" "holds trivial ys other" "length (storage other) = length (storage sv)"
  shows "gives trivial ys (length (storage sv)) (SV_assign_copy trivial False other sv)"
proof -
  obtain sv' where c: "SV_clear trivial sv = Inr sv'" "holds trivial [] sv'" "length (storage sv') = length (storage sv)"
    using SV_clear_gives [OF assms(1)] by (auto simp: gives_def)
  have "trivial \<or> storage sv' = replicate (length (storage sv')) Raw" using c(2) by (auto simp: holds_def)
  then obtain cells where "construct 0 ys (storage sv') = Inr cells" "gives trivial ys (length (storage sv')) (Inr \<lparr>storage = cells, current_size = current_size other\<rparr>)"
    using SV_filled [of trivial "storage sv'" ys "current_size other"] holds_size [OF assms(2)] c(3) assms(3) by auto
  then show ?thesis using c SV_values [OF assms(2)] by (simp add: SV_assign_copy_def rbind_def)
qed

lemma SV_equal_lists: "holds trivial xs sv \<Longrightarrow> holds trivial ys other \<Longrightarrow> SV_equal sv other = Inr (xs = ys)"
proof -
  assume h: "holds trivial xs sv" "holds trivial ys other"
  have "current_size sv = current_size other \<longleftrightarrow> length xs = length ys"
    using holds_size [OF h(1)] holds_size [OF h(2)] by (metis word_unat_eq_iff)
  then show ?thesis using SV_values [OF h(1)] SV_values [OF h(2)] by (auto simp: SV_equal_def rbind_def)
qed

lemma SV_count_gives:
  assumes "capacity < 2 ^ 64"
  shows "if debug \<and> capacity < unat k then SV_count debug capacity k v = Inl (AbortExn ''count exceeds maximum size'')
    else gives trivial (replicate (min (unat k) capacity) v) capacity (SV_count debug capacity k v)"
proof (cases "debug \<and> capacity < unat k")
  case False
  obtain cells where "construct 0 (replicate (min (unat k) capacity) v) (replicate capacity Raw) = Inr cells"
      "gives trivial (replicate (min (unat k) capacity) v) capacity (Inr \<lparr>storage = cells, current_size = word_of_nat (min (unat k) capacity)\<rparr>)"
    using SV_filled [of trivial "replicate capacity Raw" "replicate (min (unat k) capacity) v" "word_of_nat (min (unat k) capacity)"] assms
    by (auto simp: unat_of_length)
  then show ?thesis using False by (auto simp: SV_count_def sv_assert_def rbind_def)
qed (simp add: SV_count_def sv_assert_def rbind_def)

lemma SV_from_refused: "debug \<Longrightarrow> capacity < length init \<Longrightarrow>
  SV_from debug capacity init = Inl (AbortExn ''initializer list size exceeds maximum size'')"
  by (simp add: SV_from_def sv_assert_def rbind_def)

lemma SV_assign_list_gives:
  assumes "holds trivial xs sv"
  shows "if debug \<and> length (storage sv) < length ys
    then SV_assign_list debug trivial ys sv = Inl (AbortExn ''initializer list size exceeds maximum size'')
    else gives trivial (take (length (storage sv)) ys) (length (storage sv)) (SV_assign_list debug trivial ys sv)"
proof -
  let ?k = "word_of_nat (min (length ys) (length (storage sv)))"
  obtain sv' where c: "SV_clear trivial sv = Inr sv'" "holds trivial [] sv'" "length (storage sv') = length (storage sv)"
    using SV_clear_gives [OF assms] by (auto simp: gives_def)
  have "trivial \<or> storage sv' = replicate (length (storage sv')) Raw" using c(2) by (auto simp: holds_def)
  then obtain cells where "construct 0 (take (length (storage sv)) ys) (storage sv') = Inr cells"
      "gives trivial (take (length (storage sv)) ys) (length (storage sv)) (Inr \<lparr>storage = cells, current_size = ?k\<rparr>)"
    using SV_filled [of trivial "storage sv'" "take (length (storage sv)) ys" ?k] holds_size [OF assms] c(3)
    by (auto simp: unat_of_length min.commute)
  then show ?thesis using c by (auto simp: SV_assign_list_def sv_assert_def rbind_def)
qed

lemma SV_access:
  assumes "holds trivial xs sv"
  shows "unat k < length xs \<Longrightarrow> SV_index debug sv k = Inr (xs ! unat k)"
    and "SV_empty sv \<longleftrightarrow> xs = []"
    and "xs \<noteq> [] \<Longrightarrow> SV_front debug sv = Inr (hd xs)"
    and "xs \<noteq> [] \<Longrightarrow> SV_back debug sv = Inr (last xs)"
proof -
  have n: "SV_index debug sv k = Inr (xs ! unat k)" if "unat k < length xs" for k
    using assms that
    by (auto simp: holds_def SV_index_def sv_assert_def read_cell_def rbind_def word_less_nat_alt nth_append)
  have s: "unat (current_size sv) = length xs" using holds_size [OF assms] by simp
  show "unat k < length xs \<Longrightarrow> SV_index debug sv k = Inr (xs ! unat k)" by (rule n)
  show e: "SV_empty sv \<longleftrightarrow> xs = []"
    using s by (auto simp: SV_empty_def unat_eq_zero)
  show "xs \<noteq> [] \<Longrightarrow> SV_front debug sv = Inr (hd xs)"
    using n [of 0] e by (simp add: SV_front_def sv_assert_def rbind_def hd_conv_nth)
  show "SV_back debug sv = Inr (last xs)" if x: "xs \<noteq> []"
  proof -
    have "current_size sv \<noteq> 0" using x e by (simp add: SV_empty_def)
    then have "unat (current_size sv - 1) = length xs - 1" using s by (simp add: unat_minus_one)
    then show ?thesis
      using n [of "current_size sv - 1"] e x by (simp add: SV_back_def sv_assert_def rbind_def last_conv_nth)
  qed
qed

text \<open>What a move leaves behind: a size of zero, and the moved-from objects still in their cells.\<close>

definition moved_from :: "bool \<Rightarrow> ('a \<Rightarrow> 'a) \<Rightarrow> 'a list \<Rightarrow> 'a StaticVector \<Rightarrow> bool" where
  "moved_from trivial moved xs left \<longleftrightarrow> current_size left = 0 \<and> take (length xs) (storage left) = map (\<lambda>x. Obj (moved x)) xs
     \<and> (holds trivial [] left \<longleftrightarrow> trivial \<or> xs = [])"

lemma move_out_leaves:
  assumes "holds trivial xs sv"
  shows "\<exists>left. move_out moved xs sv = Inr left \<and> moved_from trivial moved xs left"
proof -
  obtain free where f: "storage sv = map Obj xs @ free" "trivial \<or> free = replicate (length free) Raw" "length (storage sv) < 2 ^ 64"
    using assms by (auto simp: holds_def)
  let ?left = "\<lparr>storage = map Obj (map moved xs) @ free, current_size = 0 :: u64\<rparr>"
  have "construct 0 (map moved xs) (storage sv) = Inr (map Obj (map moved xs) @ free)"
    using construct_first [of "map Obj xs" "map moved xs" free] f(1) by simp
  then have m: "move_out moved xs sv = Inr ?left" by (simp add: move_out_def rbind_def)
  have "holds trivial [] ?left \<longleftrightarrow> trivial \<or> xs = []"
    using f by (cases xs) (auto simp: holds_def)
  then have "moved_from trivial moved xs ?left" by (simp add: moved_from_def comp_def)
  then show ?thesis using m by blast
qed

lemma SV_move_gives:
  assumes "holds trivial xs sv"
  shows "\<exists>sv' left. SV_move moved sv = Inr (sv', left) \<and> gives trivial xs (length (storage sv)) (Inr sv') \<and> moved_from trivial moved xs left"
proof -
  obtain left where l: "move_out moved xs sv = Inr left" "moved_from trivial moved xs left"
    using move_out_leaves [OF assms] by blast
  obtain cells where "construct 0 xs (replicate (length (storage sv)) Raw) = Inr cells"
      "gives trivial xs (length (storage sv)) (Inr \<lparr>storage = cells, current_size = current_size sv\<rparr>)"
    using SV_filled [of trivial "replicate (length (storage sv)) Raw" xs "current_size sv"] holds_size [OF assms] by auto
  then show ?thesis using l SV_values [OF assms] by (simp add: SV_move_def rbind_def)
qed

lemma SV_assign_move_gives:
  assumes "holds trivial xs sv" "holds trivial ys other" "length (storage other) = length (storage sv)"
  shows "\<exists>sv' left. SV_assign_move trivial False moved other sv = Inr (sv', left)
    \<and> gives trivial ys (length (storage sv)) (Inr sv') \<and> moved_from trivial moved ys left"
proof -
  obtain left where l: "move_out moved ys other = Inr left" "moved_from trivial moved ys left"
    using move_out_leaves [OF assms(2)] by blast
  obtain sv' where c: "SV_clear trivial sv = Inr sv'" "holds trivial [] sv'" "length (storage sv') = length (storage sv)"
    using SV_clear_gives [OF assms(1)] by (auto simp: gives_def)
  have "trivial \<or> storage sv' = replicate (length (storage sv')) Raw" using c(2) by (auto simp: holds_def)
  then obtain cells where "construct 0 ys (storage sv') = Inr cells"
      "gives trivial ys (length (storage sv)) (Inr \<lparr>storage = cells, current_size = current_size other\<rparr>)"
    using SV_filled [of trivial "storage sv'" ys "current_size other"] holds_size [OF assms(2)] c(3) assms(3) by auto
  then show ?thesis using c l SV_values [OF assms(2)] by (simp add: SV_assign_move_def rbind_def)
qed

section \<open>Properties\<close>

text \<open>C11: The static vector is a list within its capacity. On a vector that holds a list, every operation holds the list that the list
  operation gives, with its cells beyond the size raw again when destructors matter, and never touches a cell in the wrong state. A
  full vector refuses an element, a size beyond the capacity is refused with an exception, the checked access reads exactly the
  elements of the list, and what constructors and assignments are given beyond the capacity is cut off, or refused when assertions
  are compiled in. Moves are the exception: the new vector holds the list, but the source is left with the size zero and the
  moved-from objects in its cells, so that it holds the empty list only when destructors do not matter or nothing was moved.
\<close>

theorem static_vector_refines_list:
  assumes "holds trivial xs sv" "capacity = length (storage sv)"
  shows "(if length xs < capacity then gives trivial (xs @ [v]) capacity (SV_push_back v sv)
      else SV_push_back v sv = Inl (LogicErrorExn ''cannot add element, container is full''))
    \<and> (xs \<noteq> [] \<longrightarrow> gives trivial (butlast xs) capacity (SV_pop_back debug trivial sv))
    \<and> (if unat k \<le> capacity
      then gives trivial (take (unat k) xs @ replicate (unat k - length xs) v) capacity (SV_resize trivial k v sv)
      else SV_resize trivial k v sv = Inl (LogicErrorExn ''new_size exceeds max_size()''))
    \<and> gives trivial [] capacity (SV_clear trivial sv)
    \<and> SV_at debug sv k = (if unat k < length xs then Inr (xs ! unat k) else Inl (OutOfRangeExn ''StaticVector::at''))
    \<and> (unat k < length xs \<longrightarrow> SV_index debug sv k = Inr (xs ! unat k)) \<and> (SV_empty sv \<longleftrightarrow> xs = [])
    \<and> (xs \<noteq> [] \<longrightarrow> SV_front debug sv = Inr (hd xs) \<and> SV_back debug sv = Inr (last xs))
    \<and> holds trivial [] (SV_new capacity)
    \<and> (if debug \<and> capacity < length zs then SV_from debug capacity zs = Inl (AbortExn ''initializer list size exceeds maximum size'')
      else gives trivial (take capacity zs) capacity (SV_from debug capacity zs))
    \<and> (if debug \<and> capacity < unat k then SV_count debug capacity k v = Inl (AbortExn ''count exceeds maximum size'')
      else gives trivial (replicate (min (unat k) capacity) v) capacity (SV_count debug capacity k v))
    \<and> (if debug \<and> capacity < length zs
      then SV_assign_list debug trivial zs sv = Inl (AbortExn ''initializer list size exceeds maximum size'')
      else gives trivial (take capacity zs) capacity (SV_assign_list debug trivial zs sv))
    \<and> gives trivial xs capacity (SV_copy sv)
    \<and> (\<exists>sv' left. SV_move moved sv = Inr (sv', left) \<and> gives trivial xs capacity (Inr sv') \<and> moved_from trivial moved xs left)
    \<and> (holds trivial ys other \<longrightarrow> length (storage other) = capacity
      \<longrightarrow> gives trivial ys capacity (SV_assign_copy trivial False other sv) \<and> SV_equal sv other = Inr (xs = ys)
        \<and> (\<exists>sv' left. SV_assign_move trivial False moved other sv = Inr (sv', left)
            \<and> gives trivial ys capacity (Inr sv') \<and> moved_from trivial moved ys left))"
proof -
  have cap: "capacity < 2 ^ 64" using holds_size [OF assms(1)] assms(2) by simp
  have from_list: "if debug \<and> capacity < length zs then SV_from debug capacity zs = Inl (AbortExn ''initializer list size exceeds maximum size'')
      else gives trivial (take capacity zs) capacity (SV_from debug capacity zs)"
    using SV_from_refused [of debug capacity zs] SV_from_gives [OF cap, of debug zs trivial] by auto
  note one = SV_push_back_gives [OF assms(1), folded assms(2)] SV_pop_back_gives [OF assms(1), folded assms(2)]
    SV_resize_gives [OF assms(1), folded assms(2)] SV_clear_gives [OF assms(1), folded assms(2)] SV_at_nth [OF assms(1)]
    SV_access [OF assms(1)] SV_new_holds [OF cap] from_list SV_count_gives [OF cap]
    SV_assign_list_gives [OF assms(1), folded assms(2)] SV_copy_gives [OF assms(1), folded assms(2)] SV_move_gives [OF assms(1), folded assms(2)]
  note two = SV_assign_copy_gives [OF assms(1), folded assms(2)] SV_equal_lists [OF assms(1)] SV_assign_move_gives [OF assms(1), folded assms(2)]
  show ?thesis
    by (intro conjI impI; (rule one two | assumption)+)
qed

theorem static_vector_refines_list_witness:
  "gives False [7 :: nat] 3 (SV_push_back 7 (SV_new 3)) \<and> gives False [] 3 (SV_clear False (SV_new 3 :: nat StaticVector))
    \<and> gives False [5, 6, 7] 3 (SV_assign_list False False [5, 6, 7, 8 :: nat] (SV_new 3))"
proof -
  have l: "3 = length (storage (SV_new 3 :: nat StaticVector))" by (simp add: SV_new_def)
  show ?thesis
    using static_vector_refines_list [OF SV_new_holds [of 3 False] l, of "7 :: nat" False 0 "[5, 6, 7, 8]" id "[]" "SV_new 3"] by simp blast
qed

text \<open>
  A move hands over the elements, but leaves the moved objects in the cells of the source beyond its size of zero: when destructors
  matter they are never destroyed, and the source no longer holds the empty list.
\<close>

theorem moved_objects_leak:
  assumes "holds trivial xs sv"
  shows "\<exists>sv' left. SV_move moved sv = Inr (sv', left) \<and> holds trivial xs sv'
    \<and> current_size left = 0 \<and> take (length xs) (storage left) = map (\<lambda>x. Obj (moved x)) xs
    \<and> (holds trivial [] left \<longleftrightarrow> trivial \<or> xs = [])"
  using SV_move_gives [OF assms, of moved] by (auto simp: moved_from_def gives_def)

theorem moved_objects_leak_witness:
  "\<exists>sv sv' left. SV_push_back (7 :: nat) (SV_new 3) = Inr sv \<and> SV_move id sv = Inr (sv', left) \<and> \<not> holds False [] left"
proof -
  obtain sv where sv: "SV_push_back (7 :: nat) (SV_new 3) = Inr sv" "holds False [7] sv"
    using SV_push_back_gives [OF SV_new_holds [of 3 False], of "7 :: nat"] by (auto simp: gives_def SV_new_def)
  show ?thesis using moved_objects_leak [OF sv(2), of id] sv(1) by auto
qed

end
