(* ===== verification/StateMachine.thy ===== *)
theory StateMachine
  imports Prelude
begin

text \<open>
  \<open>src/Nova/Base/StateMachine.h\<close>: a machine over a tuple of states that hands events to the current one and executes the action that
  its handler returns. The states are the client's: they are given by their position in the tuple, and the client is the record of
  the methods that each of them has. Methods may change their state and may throw.
\<close>

section \<open>Data\<close>

datatype fsm_status = Continue | Terminate | TerminateWithError string | ReissueEvent

text \<open>The actions; \<open>OneOf\<close> and \<open>Maybe\<close> hold one of them and pass everything on to it.\<close>

datatype 'd fsm_action = TransitionTo nat "'d option" | DoNothing | ReportError string

text \<open>A method returns or throws, an exception with a message or something else.\<close>

datatype 'a outcome = Returned 'a | Thrown "string option"

record ('s, 'e, 'd) client =
  fsm_handle :: "nat \<Rightarrow> 'e \<Rightarrow> 's \<Rightarrow> 'd fsm_action outcome \<times> 's"
  on_leave :: "nat \<Rightarrow> ('e \<Rightarrow> 's \<Rightarrow> fsm_status outcome \<times> 's) option"
  on_enter :: "nat \<Rightarrow> ('e \<Rightarrow> 's \<Rightarrow> fsm_status outcome \<times> 's) option"
  on_enter_data :: "nat \<Rightarrow> ('e \<Rightarrow> 'd \<Rightarrow> 's \<Rightarrow> fsm_status outcome \<times> 's) option"

record 's StateMachine =
  fsm_states :: "'s list"
  current_state :: nat

definition StateMachine_new :: "'s list \<Rightarrow> 's StateMachine" where
  "StateMachine_new ss = \<lparr>fsm_states = ss, current_state = 0\<rparr>"

definition fsm_TransitionTo :: "nat \<Rightarrow> 's StateMachine \<Rightarrow> 's StateMachine" where
  "fsm_TransitionTo t m = m\<lparr>current_state := t\<rparr>"

definition IsIn :: "nat \<Rightarrow> 's StateMachine \<Rightarrow> bool" where
  "IsIn t m \<longleftrightarrow> current_state m = t"

section \<open>Actions\<close>

text \<open>A method of a state, when the state has it; otherwise the overload that takes anything continues.\<close>

definition on_state :: "nat \<Rightarrow> ('s \<Rightarrow> fsm_status outcome \<times> 's) option \<Rightarrow> 's StateMachine \<Rightarrow> fsm_status outcome \<times> 's StateMachine" where
  "on_state i f m =
     (case f of None \<Rightarrow> (Returned Continue, m)
      | Some f \<Rightarrow> (case f (fsm_states m ! i) of (r, s) \<Rightarrow> (r, m\<lparr>fsm_states := (fsm_states m)[i := s]\<rparr>)))"

definition Leave :: "('s, 'e, 'd) client \<Rightarrow> nat \<Rightarrow> 'e \<Rightarrow> 's StateMachine \<Rightarrow> fsm_status outcome \<times> 's StateMachine" where
  "Leave c i event m = on_state i (map_option (\<lambda>f. f event) (on_leave c i)) m"

text \<open>With data only the method with data is a candidate, without data only the one without.\<close>

definition Enter :: "('s, 'e, 'd) client \<Rightarrow> nat \<Rightarrow> 'e \<Rightarrow> 'd option \<Rightarrow> 's StateMachine \<Rightarrow> fsm_status outcome \<times> 's StateMachine" where
  "Enter c t event d m =
     on_state t (case d of Some d \<Rightarrow> map_option (\<lambda>f. f event d) (on_enter_data c t) | None \<Rightarrow> map_option (\<lambda>f. f event) (on_enter c t)) m"

fun Execute :: "('s, 'e, 'd) client \<Rightarrow> 'd fsm_action \<Rightarrow> nat \<Rightarrow> 'e \<Rightarrow> 's StateMachine \<Rightarrow> fsm_status outcome \<times> 's StateMachine" where
  "Execute c (TransitionTo t d) prev event m =
     (case Leave c prev event m of
        (Thrown w, m) \<Rightarrow> (Thrown w, m)
      | (Returned Terminate, m) \<Rightarrow> (Returned Terminate, m)
      | (Returned (TerminateWithError w), m) \<Rightarrow> (Returned (TerminateWithError w), m)
      | (Returned _, m) \<Rightarrow> Enter c t event d (fsm_TransitionTo t m))"
| "Execute c DoNothing prev event m = (Returned Continue, m)"
| "Execute c (ReportError w) prev event m = (Returned (TerminateWithError w), m)"

definition fsm_Handle :: "('s, 'e, 'd) client \<Rightarrow> 'e \<Rightarrow> 's StateMachine \<Rightarrow> fsm_status \<times> 's StateMachine" where
  "fsm_Handle c event m =
     (let i = current_state m in
      case fsm_handle c i event (fsm_states m ! i) of (action, s) \<Rightarrow>
      let m = m\<lparr>fsm_states := (fsm_states m)[i := s]\<rparr>;
          (r, m) = (case action of Thrown w \<Rightarrow> (Thrown w, m) | Returned a \<Rightarrow> Execute c a i event m) in
      case r of Returned status \<Rightarrow> (status, m)
      | Thrown (Some w) \<Rightarrow> (TerminateWithError w, m)
      | Thrown None \<Rightarrow> (TerminateWithError ''not std::exception'', m))"

section \<open>Properties\<close>

abbreviation refused :: "fsm_status outcome \<Rightarrow> bool" where
  "refused r \<equiv> (case r of Thrown _ \<Rightarrow> True | Returned Terminate \<Rightarrow> True | Returned (TerminateWithError _) \<Rightarrow> True | Returned _ \<Rightarrow> False)"

lemma on_state_fields: "on_state i f m = (r, m') \<Longrightarrow> current_state m' = current_state m
    \<and> length (fsm_states m') = length (fsm_states m) \<and> (\<forall>j. j \<noteq> i \<longrightarrow> fsm_states m' ! j = fsm_states m ! j)"
  by (auto simp: on_state_def split: option.splits prod.splits)

lemma Execute_transition:
  assumes "Leave c prev event m = (l, m1)" "Execute c (TransitionTo t d) prev event m = (r, m')"
  shows "if refused l then r = l \<and> m' = m1 else Enter c t event d (fsm_TransitionTo t m1) = (r, m')"
  using assms by (cases l) (auto split: fsm_status.splits)

text \<open>
  An event changes the current state exactly when the handler asked for a transition and the old state let it go: the machine is then
  in the target, also when entering it fails or throws; a refusal, an error and an exception of the handler leave the machine where
  it was. Only the states that are left and entered can change.
\<close>

theorem event_moves_machine:
  assumes "fsm_Handle c event m = (status, m')"
    and "fsm_handle c (current_state m) event (fsm_states m ! current_state m) = (a, s)"
    and "Leave c (current_state m) event (m\<lparr>fsm_states := (fsm_states m)[current_state m := s]\<rparr>) = (l, m1)"
  shows "current_state m' = (case a of Returned (TransitionTo t d) \<Rightarrow> if refused l then current_state m else t | _ \<Rightarrow> current_state m)
    \<and> length (fsm_states m') = length (fsm_states m)
    \<and> (\<forall>j. j \<noteq> current_state m \<and> j \<noteq> current_state m' \<longrightarrow> fsm_states m' ! j = fsm_states m ! j)"
proof -
  let ?m = "m\<lparr>fsm_states := (fsm_states m)[current_state m := s]\<rparr>"
  obtain r where r: "(case a of Thrown w \<Rightarrow> (Thrown w, ?m) | Returned a \<Rightarrow> Execute c a (current_state m) event ?m) = (r, m')"
    using assms(1,2) by (auto simp: fsm_Handle_def Let_def split: prod.splits outcome.splits option.splits)
  show ?thesis
  proof (cases a)
    case (Returned act)
    show ?thesis
    proof (cases act)
      case (TransitionTo t d)
      have e: "Execute c (TransitionTo t d) (current_state m) event ?m = (r, m')" using r Returned TransitionTo by simp
      note l = on_state_fields [OF assms(3) [unfolded Leave_def]]
      show ?thesis
      proof (cases "refused l")
        case True
        then show ?thesis using Execute_transition [OF assms(3) e] l Returned TransitionTo by auto
      next
        case False
        then have "Enter c t event d (fsm_TransitionTo t m1) = (r, m')" using Execute_transition [OF assms(3) e] by simp
        note n = on_state_fields [OF this [unfolded Enter_def]]
        have "\<not> refused l \<Longrightarrow> (case l of Thrown _ \<Rightarrow> current_state m | Returned Terminate \<Rightarrow> current_state m
            | Returned (TerminateWithError _) \<Rightarrow> current_state m | Returned _ \<Rightarrow> t) = t"
          by (auto split: outcome.splits fsm_status.splits)
        then show ?thesis using n l Returned TransitionTo False by (auto simp: fsm_TransitionTo_def)
      qed
    qed (use r Returned in auto)
  qed (use r in auto)
qed

definition two_states :: "(nat, nat, nat) client" where
  "two_states = \<lparr>fsm_handle = (\<lambda>i e s. (Returned (if e = 0 then DoNothing else TransitionTo 1 (if e = 1 then None else Some e)), s + 1)),
     on_leave = (\<lambda>i. None), on_enter = (\<lambda>i. Some (\<lambda>e s. (Returned ReissueEvent, s + 10))), on_enter_data = (\<lambda>i. None)\<rparr>"

theorem event_moves_machine_witness:
  "fsm_Handle two_states 1 (StateMachine_new [0, 0]) = (ReissueEvent, \<lparr>fsm_states = [1, 10], current_state = 1\<rparr>)
    \<and> current_state (snd (fsm_Handle two_states 1 (StateMachine_new [0, 0]))) = 1"
proof -
  have h: "fsm_Handle two_states 1 (StateMachine_new [0, 0]) = (ReissueEvent, \<lparr>fsm_states = [1, 10], current_state = 1\<rparr>)"
    by (simp add: fsm_Handle_def two_states_def StateMachine_new_def Leave_def Enter_def on_state_def fsm_TransitionTo_def)
  show ?thesis
    using event_moves_machine [OF h, of "Returned (TransitionTo 1 None)" 1 "Returned Continue" "\<lparr>fsm_states = [1, 0], current_state = 0\<rparr>"] h
    by (simp add: two_states_def StateMachine_new_def Leave_def on_state_def)
qed

text \<open>A target with \<open>OnEnter(event)\<close> only is not entered when the transition carries data, although it may ignore the data.\<close>

lemma data_skips_enter:
  "fsm_Handle two_states 7 (StateMachine_new [0, 0]) = (Continue, \<lparr>fsm_states = [1, 0], current_state = 1\<rparr>)"
  by (simp add: fsm_Handle_def two_states_def StateMachine_new_def Leave_def Enter_def on_state_def fsm_TransitionTo_def)

end
