(* ===== verification/Uuid.thy ===== *)
theory Uuid
  imports CryptoHash
begin

text \<open>
  \<open>src/Nova/Base/Uuid.h\<close> and \<open>Uuid.cpp\<close>: version 7 identifiers, their generation from a clock, a counter and random bits,
  their text form and its parser. The clock and the random engine are parameters; the state is that of one thread.
\<close>

section \<open>Values\<close>

text \<open>An identifier is its sixteen bytes.\<close>

type_synonym uuid = "byte list"

definition Uuid_Version :: "uuid \<Rightarrow> byte" where
  "Uuid_Version u = drop_bit 4 (u ! 6)"

definition IsVersion7 :: "uuid \<Rightarrow> bool" where
  "IsVersion7 u \<longleftrightarrow> Uuid_Version u = 7"

definition HasRfc4122Variant :: "uuid \<Rightarrow> bool" where
  "HasRfc4122Variant u \<longleftrightarrow> u ! 8 AND 0xC0 = 0x80"

definition IsNil :: "uuid \<Rightarrow> bool" where
  "IsNil u \<longleftrightarrow> u = replicate 16 0"

definition IsValidV7 :: "uuid \<Rightarrow> bool" where
  "IsValidV7 u \<longleftrightarrow> \<not> IsNil u \<and> IsVersion7 u \<and> HasRfc4122Variant u"

text \<open>The order of the arrays is lexicographic.\<close>

fun uuid_less :: "uuid \<Rightarrow> uuid \<Rightarrow> bool" where
  "uuid_less (a # u) (b # v) \<longleftrightarrow> a < b \<or> a = b \<and> uuid_less u v"
| "uuid_less u v \<longleftrightarrow> u = [] \<and> v \<noteq> []"

section \<open>Generation\<close>

record 'g ThreadState =
  last_timestamp_ms :: u64
  sequence_counter :: "16 word"
  rng :: 'g

definition ThreadState_new :: "'g \<Rightarrow> 'g ThreadState" where
  "ThreadState_new g = \<lparr>last_timestamp_ms = 0, sequence_counter = 0, rng = g\<rparr>"

text \<open>\<open>CurrentUnixTimestampMs\<close> for a reading of the clock in milliseconds since the epoch.\<close>

definition CurrentUnixTimestampMs :: "int \<Rightarrow> u64" where
  "CurrentUnixTimestampMs reading = (if reading < 0 then 0 else word_of_int reading)"

definition next_tick :: "u64 \<Rightarrow> 'g ThreadState \<Rightarrow> 'g ThreadState" where
  "next_tick current_ms s =
     (let current_ms = max current_ms (last_timestamp_ms s);
          (current_ms, counter) =
            (if current_ms = last_timestamp_ms s then
               if sequence_counter s = 0x0FFF then (last_timestamp_ms s + 1, 0) else (current_ms, sequence_counter s + 1)
             else (current_ms, 0)) in
      s\<lparr>last_timestamp_ms := current_ms, sequence_counter := counter\<rparr>)"

definition uuid_bytes :: "u64 \<Rightarrow> 16 word \<Rightarrow> u64 \<Rightarrow> uuid" where
  "uuid_bytes timestamp_ms counter rand_b =
     (let bytes = [
        ucast (drop_bit 40 timestamp_ms AND 0xFF), ucast (drop_bit 32 timestamp_ms AND 0xFF),
        ucast (drop_bit 24 timestamp_ms AND 0xFF), ucast (drop_bit 16 timestamp_ms AND 0xFF),
        ucast (drop_bit 8 timestamp_ms AND 0xFF), ucast (timestamp_ms AND 0xFF),
        ucast (drop_bit 8 counter AND 0x0F), ucast (counter AND 0xFF),
        ucast (drop_bit 56 rand_b AND 0xFF), ucast (drop_bit 48 rand_b AND 0xFF),
        ucast (drop_bit 40 rand_b AND 0xFF), ucast (drop_bit 32 rand_b AND 0xFF),
        ucast (drop_bit 24 rand_b AND 0xFF), ucast (drop_bit 16 rand_b AND 0xFF),
        ucast (drop_bit 8 rand_b AND 0xFF), ucast (rand_b AND 0xFF)];
          bytes = bytes[6 := (bytes ! 6 AND 0x0F) OR 0x70] in
      bytes[8 := (bytes ! 8 AND 0x3F) OR 0x80])"

definition Uuid_Generate :: "('g \<Rightarrow> u64 \<times> 'g) \<Rightarrow> int \<Rightarrow> 'g ThreadState \<Rightarrow> uuid \<times> 'g ThreadState" where
  "Uuid_Generate draw reading s =
     (let s = next_tick (CurrentUnixTimestampMs reading) s;
          timestamp_ms = last_timestamp_ms s AND 0x0000FFFFFFFFFFFF;
          (rand_b, g) = draw (rng s) in
      (uuid_bytes timestamp_ms (sequence_counter s) rand_b, s\<lparr>rng := g\<rparr>))"

text \<open>The identifiers that one thread generates at the readings of its clock.\<close>

fun generate_all :: "('g \<Rightarrow> u64 \<times> 'g) \<Rightarrow> int list \<Rightarrow> 'g ThreadState \<Rightarrow> uuid list" where
  "generate_all draw [] s = []"
| "generate_all draw (r # rs) s = (let (u, s) = Uuid_Generate draw r s in u # generate_all draw rs s)"

section \<open>Text\<close>

definition hex_digit :: "nat \<Rightarrow> char" where
  "hex_digit n = ''0123456789abcdef'' ! n"

definition hex2 :: "byte \<Rightarrow> string" where
  "hex2 b = [hex_digit (unat b div 16), hex_digit (unat b mod 16)]"

definition Uuid_ToString :: "uuid \<Rightarrow> string" where
  "Uuid_ToString u = concat (map (\<lambda>i. (if i = 4 \<or> i = 6 \<or> i = 8 \<or> i = 10 then ''-'' else []) @ hex2 (u ! i)) [0..<length u])"

definition ParseHexNibble :: "char \<Rightarrow> byte" where
  "ParseHexNibble c =
     (let n = of_char c :: nat in
      if 48 \<le> n \<and> n \<le> 57 then word_of_nat (n - 48)
      else if 97 \<le> n \<and> n \<le> 102 then word_of_nat (n - 97 + 10)
      else if 65 \<le> n \<and> n \<le> 70 then word_of_nat (n - 65 + 10)
      else 0xFF)"

definition HasCanonicalHyphens :: "string \<Rightarrow> bool" where
  "HasCanonicalHyphens s \<longleftrightarrow> list_all (\<lambda>position. s ! position = CHR ''-'') [8, 13, 18, 23]"

definition HasOnlyLowercaseHexDigits :: "string \<Rightarrow> bool" where
  "HasOnlyLowercaseHexDigits s \<longleftrightarrow> list_all (\<lambda>c. c = CHR ''-'' \<or>
     (let n = of_char c :: nat in 48 \<le> n \<and> n \<le> 57 \<or> 97 \<le> n \<and> n \<le> 102)) s"

fun parse_pairs :: "string \<Rightarrow> nat \<Rightarrow> byte list \<Rightarrow> (nat \<times> byte list) option" where
  "parse_pairs [] byte_index bytes = Some (byte_index, bytes)"
| "parse_pairs (c # cs) byte_index bytes =
     (if c = CHR ''-'' then parse_pairs cs byte_index bytes
      else case cs of [] \<Rightarrow> None
      | d # ds \<Rightarrow>
          if d = CHR ''-'' then None
          else let high = ParseHexNibble c; low = ParseHexNibble d in
            if high = 0xFF \<or> low = 0xFF then None
            else if byte_index \<ge> length bytes then None
            else parse_pairs ds (byte_index + 1) (bytes[byte_index := push_bit 4 high OR low]))"

definition Uuid_FromBytes :: "byte list \<Rightarrow> uuid option" where
  "Uuid_FromBytes bytes = (if \<not> IsValidV7 bytes then None else Some bytes)"

definition Uuid_FromString :: "string \<Rightarrow> uuid option" where
  "Uuid_FromString s =
     (if length s \<noteq> 36 \<or> \<not> HasCanonicalHyphens s \<or> \<not> HasOnlyLowercaseHexDigits s then None
      else case parse_pairs s 0 (replicate 16 0) of None \<Rightarrow> None
      | Some (byte_index, bytes) \<Rightarrow> if byte_index \<noteq> length bytes then None else Uuid_FromBytes bytes)"

section \<open>Digits\<close>

definition lower_hex :: "char \<Rightarrow> bool" where
  "lower_hex c \<longleftrightarrow> (let n = of_char c :: nat in 48 \<le> n \<and> n \<le> 57 \<or> 97 \<le> n \<and> n \<le> 102)"

lemma hex_digit_props:
  assumes "n < 16"
  shows "lower_hex (hex_digit n)" "ParseHexNibble (hex_digit n) = word_of_nat n" "hex_digit n \<noteq> CHR ''-''"
proof -
  have "list_all (\<lambda>n. lower_hex (hex_digit n) \<and> ParseHexNibble (hex_digit n) = word_of_nat n \<and> hex_digit n \<noteq> CHR ''-'') [0..<16]"
    by code_simp
  then show "lower_hex (hex_digit n)" "ParseHexNibble (hex_digit n) = word_of_nat n" "hex_digit n \<noteq> CHR ''-''"
    using assms by (auto simp: list_all_iff)
qed

lemma lower_hex_digit: "lower_hex c \<Longrightarrow> \<exists>n < 16. c = hex_digit n"
proof -
  assume "lower_hex c"
  then have c: "(of_char c :: nat) \<in> set ([48..<58] @ [97..<103])" by (simp only: lower_hex_def Let_def set_append set_upt Un_iff atLeastLessThan_iff) arith
  have "list_all (\<lambda>k. list_ex (\<lambda>n. char_of k = hex_digit n) [0..<16]) ([48..<58] @ [97..<103])" by code_simp
  then have "list_ex (\<lambda>n. char_of (of_char c :: nat) = hex_digit n) [0..<16]" using c unfolding list_all_iff by blast
  then show ?thesis by (auto simp: list_ex_iff)
qed

lemma nibble_pair: "a < 16 \<Longrightarrow> b < 16 \<Longrightarrow> push_bit 4 (word_of_nat a :: byte) OR word_of_nat b = word_of_nat (a * 16 + b)"
proof -
  assume ab: "a < 16" "b < 16"
  have "list_all (\<lambda>a. list_all (\<lambda>b. push_bit 4 (word_of_nat a :: byte) OR word_of_nat b = word_of_nat (a * 16 + b)) [0..<16]) [0..<16]"
    by code_simp
  then show ?thesis using ab by (auto simp: list_all_iff)
qed

lemma nibble_not_invalid: "n < 16 \<Longrightarrow> (word_of_nat n :: byte) \<noteq> 0xFF"
proof -
  assume n: "n < 16"
  have "list_all (\<lambda>n. (word_of_nat n :: byte) \<noteq> 0xFF) [0..<16]" by code_simp
  then show ?thesis using n by (auto simp: list_all_iff)
qed

lemma parse_pair:
  "a < 16 \<Longrightarrow> b < 16 \<Longrightarrow> parse_pairs (hex_digit a # hex_digit b # ds) i bytes
    = (if i \<ge> length bytes then None else parse_pairs ds (i + 1) (bytes[i := word_of_nat (a * 16 + b)]))"
  using hex_digit_props [of a] hex_digit_props [of b] by (simp add: nibble_not_invalid nibble_pair)

section \<open>Reading back\<close>

lemma parse_hyphen: "parse_pairs (CHR ''-'' # cs) i bytes = parse_pairs cs i bytes"
  by simp

lemma byte_digits: "word_of_nat (unat b div 16 * 16 + unat b mod 16) = (b :: byte)"
  by simp

lemma parse_hex2: "parse_pairs (hex2 b @ ds) i bytes = (if i \<ge> length bytes then None else parse_pairs ds (i + 1) (bytes[i := b]))"
  using parse_pair [of "unat b div 16" "unat b mod 16" ds i bytes] unfolding hex2_def byte_digits by simp

lemma parse_hex2_end: "parse_pairs (hex2 b) i bytes = (if i \<ge> length bytes then None else Some (i + 1, bytes[i := b]))"
  using parse_hex2 [of b "[]"] by simp

lemma sixteen: "length u = 16 \<Longrightarrow> \<exists>b0 b1 b2 b3 b4 b5 b6 b7 b8 b9 b10 b11 b12 b13 b14 b15.
    u = [b0, b1, b2, b3, b4, b5, b6, b7, b8, b9, b10, b11, b12, b13, b14, b15]"
  by (clarsimp simp: numeral_eq_Suc length_Suc_conv)

lemma Uuid_ToString_text:
  "Uuid_ToString [b0, b1, b2, b3, b4, b5, b6, b7, b8, b9, b10, b11, b12, b13, b14, b15] =
    hex2 b0 @ hex2 b1 @ hex2 b2 @ hex2 b3 @ ''-'' @ hex2 b4 @ hex2 b5 @ ''-'' @ hex2 b6 @ hex2 b7 @ ''-'' @ hex2 b8 @ hex2 b9 @ ''-''
    @ hex2 b10 @ hex2 b11 @ hex2 b12 @ hex2 b13 @ hex2 b14 @ hex2 b15"
  by (simp add: Uuid_ToString_def upt_rec)

lemma length_hex2: "length (hex2 b) = 2"
  by (simp add: hex2_def)

lemma hex2_lower: "list_all lower_hex (hex2 b)"
  by (simp add: hex2_def hex_digit_props)

lemma only_lower: "HasOnlyLowercaseHexDigits s \<longleftrightarrow> list_all (\<lambda>c. c = CHR ''-'' \<or> lower_hex c) s"
  by (simp add: HasOnlyLowercaseHexDigits_def lower_hex_def)

lemma FromString_ToString:
  assumes "length u = 16" "IsValidV7 u"
  shows "Uuid_FromString (Uuid_ToString u) = Some u"
proof -
  obtain b0 b1 b2 b3 b4 b5 b6 b7 b8 b9 b10 b11 b12 b13 b14 b15 where u: "u = [b0, b1, b2, b3, b4, b5, b6, b7, b8, b9, b10, b11, b12, b13, b14, b15]"
    using sixteen [OF assms(1)] by blast
  have p: "parse_pairs (Uuid_ToString u) 0 (replicate 16 0) = Some (16, u)"
    unfolding u Uuid_ToString_text by (simp add: parse_hex2 parse_hex2_end numeral_eq_Suc)
  have "list_all (\<lambda>c. c = CHR ''-'' \<or> lower_hex c) (hex2 b)" for b using hex2_lower [of b] by (simp add: list_all_iff)
  then have l: "HasOnlyLowercaseHexDigits (Uuid_ToString u)" unfolding only_lower u Uuid_ToString_text by simp
  have h: "HasCanonicalHyphens (Uuid_ToString u)" unfolding HasCanonicalHyphens_def u Uuid_ToString_text by (simp add: hex2_def)
  have n: "length (Uuid_ToString u) = 36" unfolding u Uuid_ToString_text by (simp add: length_hex2)
  show ?thesis using p l h n assms by (simp add: Uuid_FromString_def Uuid_FromBytes_def)
qed

abbreviation no_hyphen :: "char \<Rightarrow> bool" where
  "no_hyphen c \<equiv> c \<noteq> CHR ''-''"

lemma len8: "LENGTH(8) = 8"
  by simp

lemma hex2_of_digits: "a < 16 \<Longrightarrow> b < 16 \<Longrightarrow> hex2 (word_of_nat (a * 16 + b)) = [hex_digit a, hex_digit b]"
proof -
  assume ab: "a < 16" "b < 16"
  then have "take_bit 8 (a * 16 + b) = a * 16 + b" by (intro take_bit_nat_eq_self) simp
  then have "unat (word_of_nat (a * 16 + b) :: byte) = a * 16 + b" by (simp only: unsigned_of_nat len8 of_nat_id)
  then show ?thesis using ab by (simp add: hex2_def del: of_nat_add of_nat_mult)
qed

lemma parse_pairs_digits:
  "parse_pairs s i bytes = Some (n, bs) \<Longrightarrow> list_all (\<lambda>c. c = CHR ''-'' \<or> lower_hex c) s \<Longrightarrow> i \<le> length bytes \<Longrightarrow>
   i \<le> n \<and> n \<le> length bytes \<and> length bs = length bytes \<and> take i bs = take i bytes
   \<and> filter no_hyphen s = concat (map hex2 (take (n - i) (drop i bs)))"
proof (induction s i bytes rule: parse_pairs.induct)
  case (2 c cs i bytes)
  show ?case
  proof (cases "c = CHR ''-''")
    case True
    then show ?thesis using 2 by simp
  next
    case False
    then obtain d ds where cs: "cs = d # ds" using 2(3) by (cases cs) simp_all
    have d: "d \<noteq> CHR ''-''" using 2(3) False cs by auto
    obtain a b where ab: "a < 16" "b < 16" "c = hex_digit a" "d = hex_digit b"
      using lower_hex_digit [of c] lower_hex_digit [of d] 2(4) False d cs by auto
    let ?v = "word_of_nat (a * 16 + b) :: byte"
    have p: "parse_pairs (c # cs) i bytes = (if i \<ge> length bytes then None else parse_pairs ds (i + 1) (bytes[i := ?v]))"
      using parse_pair [OF ab(1,2)] ab(3,4) cs by simp
    then have i: "i < length bytes" and q: "parse_pairs ds (i + 1) (bytes[i := ?v]) = Some (n, bs)"
      using 2(3) by (simp_all split: if_splits)
    have v: "push_bit 4 (ParseHexNibble c) OR ParseHexNibble d = ?v" using ab hex_digit_props nibble_pair by simp
    have w: "ParseHexNibble c \<noteq> 0xFF" "ParseHexNibble d \<noteq> 0xFF" using ab hex_digit_props nibble_not_invalid by simp_all
    have ih: "i + 1 \<le> n \<and> n \<le> length bytes \<and> length bs = length bytes \<and> take (i + 1) bs = take (i + 1) (bytes[i := ?v])
        \<and> filter no_hyphen ds = concat (map hex2 (take (n - (i + 1)) (drop (i + 1) bs)))"
      using 2(2) [OF False cs d refl refl] w i q 2(4) cs v by simp
    then have b: "bs ! i = ?v" using i by (metis lessI Suc_eq_plus1 nth_list_update_eq nth_take)
    have "take (n - i) (drop i bs) = bs ! i # take (n - (i + 1)) (drop (i + 1) bs)"
      using ih i by (simp add: Cons_nth_drop_Suc [symmetric] take_Cons' del: Cons_nth_drop_Suc)
    moreover have "take i bs = take i bytes"
    proof -
      have "take i (take (i + 1) bs) = take i (take (i + 1) (bytes[i := ?v]))" using ih by simp
      then show ?thesis by (simp add: min_def)
    qed
    ultimately show ?thesis using ih b ab(3,4) cs d False hex2_of_digits [OF ab(1,2)] by simp
  qed
qed simp

lemma filter_full: "length (filter P xs) = length xs \<Longrightarrow> filter P xs = xs"
  by (metis length_filter_less filter_id_conv less_irrefl)

lemma split_at: "k < length s \<Longrightarrow> s ! k = c \<Longrightarrow> s = take k s @ c # drop (Suc k) s"
  using id_take_nth_drop by blast

lemma ToString_FromString:
  assumes "Uuid_FromString s = Some u"
  shows "length u = 16" "IsValidV7 u" "Uuid_ToString u = s"
proof -
  have s: "length s = 36" "HasCanonicalHyphens s" "list_all (\<lambda>c. c = CHR ''-'' \<or> lower_hex c) s"
    using assms by (simp_all add: Uuid_FromString_def only_lower split: if_splits)
  obtain n where "parse_pairs s 0 (replicate 16 0) = Some (n, u)" "n = length u" and v: "IsValidV7 u"
    using assms by (auto simp: Uuid_FromString_def Uuid_FromBytes_def split: if_splits option.splits)
  with parse_pairs_digits [OF this(1) s(3)] have l: "length u = 16" and f: "filter no_hyphen s = concat (map hex2 u)" by simp_all
  let ?s1 = "take 8 s" and ?s2 = "take 4 (drop 9 s)" and ?s3 = "take 4 (drop 14 s)" and ?s4 = "take 4 (drop 19 s)" and ?s5 = "drop 24 s"
  have h: "s ! 8 = CHR ''-''" "drop 9 s ! 4 = CHR ''-''" "drop 14 s ! 4 = CHR ''-''" "drop 19 s ! 4 = CHR ''-''"
    using s(1,2) by (simp_all add: HasCanonicalHyphens_def)
  have parts: "s = ?s1 @ ''-'' @ ?s2 @ ''-'' @ ?s3 @ ''-'' @ ?s4 @ ''-'' @ ?s5"
    using split_at [OF _ h(1)] split_at [OF _ h(2)] split_at [OF _ h(3)] split_at [OF _ h(4)] s(1) by simp
  let ?P = no_hyphen
  have fs: "filter ?P s = filter ?P ?s1 @ filter ?P ?s2 @ filter ?P ?s3 @ filter ?P ?s4 @ filter ?P ?s5"
    by (subst parts) simp
  obtain b0 b1 b2 b3 b4 b5 b6 b7 b8 b9 b10 b11 b12 b13 b14 b15 where u: "u = [b0, b1, b2, b3, b4, b5, b6, b7, b8, b9, b10, b11, b12, b13, b14, b15]"
    using sixteen [OF l] by blast
  have "length (filter ?P s) = 32" unfolding f u by (simp add: length_hex2)
  then have "length (filter ?P ?s1) + length (filter ?P ?s2) + length (filter ?P ?s3) + length (filter ?P ?s4) + length (filter ?P ?s5) = 32"
    unfolding fs by simp
  moreover have n: "length ?s1 = 8" "length ?s2 = 4" "length ?s3 = 4" "length ?s4 = 4" "length ?s5 = 12" using s(1) by simp_all
  moreover note length_filter_le [of ?P ?s1] length_filter_le [of ?P ?s2] length_filter_le [of ?P ?s3] length_filter_le [of ?P ?s4]
    length_filter_le [of ?P ?s5]
  ultimately have "length (filter ?P ?s1) = length ?s1" "length (filter ?P ?s2) = length ?s2" "length (filter ?P ?s3) = length ?s3"
      "length (filter ?P ?s4) = length ?s4" "length (filter ?P ?s5) = length ?s5"
    by linarith+
  note full = this [THEN filter_full]
  have "?s1 @ ?s2 @ ?s3 @ ?s4 @ ?s5 = (hex2 b0 @ hex2 b1 @ hex2 b2 @ hex2 b3) @ (hex2 b4 @ hex2 b5) @ (hex2 b6 @ hex2 b7) @ (hex2 b8 @ hex2 b9)
      @ (hex2 b10 @ hex2 b11 @ hex2 b12 @ hex2 b13 @ hex2 b14 @ hex2 b15)"
    using f fs u by (simp only: full) simp
  then have e: "?s1 = hex2 b0 @ hex2 b1 @ hex2 b2 @ hex2 b3" "?s2 = hex2 b4 @ hex2 b5" "?s3 = hex2 b6 @ hex2 b7" "?s4 = hex2 b8 @ hex2 b9"
      "?s5 = hex2 b10 @ hex2 b11 @ hex2 b12 @ hex2 b13 @ hex2 b14 @ hex2 b15"
    using s(1) by (simp_all add: append_eq_append_conv length_hex2 del: append_assoc)
  have "Uuid_ToString u = ?s1 @ ''-'' @ ?s2 @ ''-'' @ ?s3 @ ''-'' @ ?s4 @ ''-'' @ ?s5" unfolding u Uuid_ToString_text e by simp
  also have "\<dots> = s" by (rule parts [symmetric])
  finally show "Uuid_ToString u = s" .
  show "length u = 16" "IsValidV7 u" using l v by simp_all
qed

section \<open>The order of generated identifiers\<close>

lemma uuid_less_be_value: "length u = length v \<Longrightarrow> uuid_less u v \<longleftrightarrow> be_value u < be_value v"
proof (induction u v rule: uuid_less.induct)
  case (1 a u b v)
  have l: "be_value u < 256 ^ length u" "be_value v < 256 ^ length u" using be_value_less [of u] be_value_less [of v] 1(2) by simp_all
  have "unat a * 256 ^ length u + be_value u < unat b * 256 ^ length u + be_value v
      \<longleftrightarrow> unat a < unat b \<or> unat a = unat b \<and> be_value u < be_value v"
    by (rule lex_step [OF l])
  then show ?case using 1 by (simp add: be_value_Cons word_less_nat_alt word_unat_eq_iff)
qed (simp_all add: be_value_def)

text \<open>The first eight bytes hold the time and the counter, with the version between them.\<close>

definition head_value :: "'g ThreadState \<Rightarrow> nat" where
  "head_value s = unat (last_timestamp_ms s) * 65536 + (28672 + unat (sequence_counter s))"

lemma unat_low_byte: "unat (ucast (drop_bit k (v :: 'a::len word) AND 0xFF) :: byte) = unat v div 2 ^ k mod 256" if "8 \<le> LENGTH('a)"
proof -
  have m: "(0xFF :: 'a word) = mask 8" by (simp add: mask_eq_exp_minus_1)
  have "drop_bit k v AND 0xFF = take_bit 8 (drop_bit k v)" unfolding m take_bit_eq_mask ..
  then have "unat (drop_bit k v AND 0xFF) = take_bit 8 (drop_bit k (unat v))"
    by (simp only: unsigned_take_bit_eq unat_drop_bit_eq)
  then have "unat (drop_bit k v AND 0xFF) = unat v div 2 ^ k mod 256" by (simp add: take_bit_eq_mod drop_bit_eq_div)
  moreover have "unat (ucast w :: byte) = unat w mod 256" for w :: "'a word" by (simp add: unsigned_ucast_eq take_bit_eq_mod)
  ultimately show ?thesis by simp
qed

lemma be_value_digits: "be_value (map (\<lambda>i. word_of_nat (n div 256 ^ i)) (rev [0..<k])) = n mod 256 ^ k"
proof (induction k)
  case (Suc k)
  have "unat (word_of_nat x :: byte) = x mod 256" for x by (simp add: unsigned_of_nat take_bit_eq_mod)
  then show ?case using Suc mod_mult2_eq [of n "256 ^ k" 256] by (simp add: be_value_Cons mult.commute)
qed simp

lemma six_bytes:
  "be_value [ucast (drop_bit 40 t AND 0xFF), ucast (drop_bit 32 t AND 0xFF), ucast (drop_bit 24 t AND 0xFF), ucast (drop_bit 16 t AND 0xFF),
     ucast (drop_bit 8 t AND 0xFF), ucast (t AND 0xFF)] = unat (t :: u64) mod 2 ^ 48"
proof -
  have b: "ucast (drop_bit k t AND 0xFF) = (word_of_nat (unat t div 2 ^ k) :: byte)" for k
    using unat_low_byte [of k t] by (simp add: word_unat_eq_iff unsigned_of_nat take_bit_eq_mod)
  have "[ucast (drop_bit 40 t AND 0xFF), ucast (drop_bit 32 t AND 0xFF), ucast (drop_bit 24 t AND 0xFF), ucast (drop_bit 16 t AND 0xFF),
     ucast (drop_bit 8 t AND 0xFF), ucast (t AND 0xFF)] = (map (\<lambda>i. word_of_nat (unat t div 256 ^ i)) (rev [0..<6]) :: byte list)"
    using b [of 40] b [of 32] b [of 24] b [of 16] b [of 8] b [of 0] by (simp add: upt_rec)
  then show ?thesis by (simp only: be_value_digits) simp
qed

lemma version_byte:
  assumes "x < 16"
  shows "(word_of_nat x :: byte) AND 0x0F OR 0x70 = word_of_nat (112 + x)" "drop_bit 4 (word_of_nat (112 + x) :: byte) = 7"
    "(word_of_nat (112 + x) :: byte) \<noteq> 0"
proof -
  have "list_all (\<lambda>x. (word_of_nat x :: byte) AND 0x0F OR 0x70 = word_of_nat (112 + x) \<and> drop_bit 4 (word_of_nat (112 + x) :: byte) = 7
      \<and> (word_of_nat (112 + x) :: byte) \<noteq> 0) [0..<16]"
    by code_simp
  then show "(word_of_nat x :: byte) AND 0x0F OR 0x70 = word_of_nat (112 + x)" "drop_bit 4 (word_of_nat (112 + x) :: byte) = 7"
    "(word_of_nat (112 + x) :: byte) \<noteq> 0"
    using assms by (auto simp: list_all_iff simp del: of_nat_add)
qed

lemma variant_byte: "((b :: byte) AND 0x3F OR 0x80) AND 0xC0 = 0x80"
proof -
  have "list_all (\<lambda>n. ((word_of_nat n :: byte) AND 0x3F OR 0x80) AND 0xC0 = 0x80) [0..<256]" by code_simp
  moreover have "unat b \<in> set [0..<256]" using unat_byte_less [of b] by simp
  ultimately have "((word_of_nat (unat b) :: byte) AND 0x3F OR 0x80) AND 0xC0 = 0x80" unfolding list_all_iff by blast
  then show ?thesis by (simp only: of_nat_unat ucast_id)
qed

lemma high_counter: "(ucast (drop_bit 8 (c :: 16 word) AND 0x0F) :: byte) = word_of_nat (unat c div 256 mod 16)"
proof -
  have m: "(0x0F :: 16 word) = mask 4" by (simp add: mask_eq_exp_minus_1)
  have "drop_bit 8 c AND 0x0F = take_bit 4 (drop_bit 8 c)" unfolding m take_bit_eq_mask ..
  then have "unat (drop_bit 8 c AND 0x0F) = take_bit 4 (drop_bit 8 (unat c))" by (simp only: unsigned_take_bit_eq unat_drop_bit_eq)
  then have u: "unat (drop_bit 8 c AND 0x0F) = unat c div 256 mod 16" by (simp add: take_bit_eq_mod drop_bit_eq_div)
  have "(ucast w :: byte) = word_of_nat (unat w)" for w :: "16 word" by (simp only: of_nat_unat)
  then show ?thesis unfolding u [symmetric] .
qed

lemma uuid_bytes_spec:
  assumes "unat c < 4096"
  shows "length (uuid_bytes t c r) = 16" "IsValidV7 (uuid_bytes t c r)"
    "be_value (take 8 (uuid_bytes t c r)) = unat t mod 2 ^ 48 * 65536 + (28672 + unat c)"
proof -
  let ?x = "unat c div 256 mod 16"
  have x: "?x < 16" by simp
  have c: "unat c div 256 < 16" using assms by (intro less_mult_imp_div_less) simp
  obtain rest' where u: "uuid_bytes t c r = [ucast (drop_bit 40 t AND 0xFF), ucast (drop_bit 32 t AND 0xFF), ucast (drop_bit 24 t AND 0xFF),
      ucast (drop_bit 16 t AND 0xFF), ucast (drop_bit 8 t AND 0xFF), ucast (t AND 0xFF), word_of_nat (112 + ?x), ucast (c AND 0xFF)]
      @ (ucast (drop_bit 56 r AND 0xFF) AND 0x3F OR 0x80) # rest'" and l: "length rest' = 7"
    using high_counter [of c] version_byte(1) [OF x] by (simp add: uuid_bytes_def Let_def del: of_nat_add)
  show "length (uuid_bytes t c r) = 16" unfolding u using l by simp
  have n: "uuid_bytes t c r ! 6 = word_of_nat (112 + ?x)" "uuid_bytes t c r ! 8 = ucast (drop_bit 56 r AND 0xFF) AND 0x3F OR 0x80"
    unfolding u by (simp_all del: of_nat_add)
  have "uuid_bytes t c r \<noteq> replicate 16 0"
  proof
    assume "uuid_bytes t c r = replicate 16 0"
    then have "uuid_bytes t c r ! 6 = 0" by simp
    then show False using n(1) version_byte(3) [OF x] by simp
  qed
  then show "IsValidV7 (uuid_bytes t c r)"
    unfolding IsValidV7_def IsNil_def IsVersion7_def Uuid_Version_def HasRfc4122Variant_def n
    using version_byte(2) [OF x] variant_byte by blast
  have k: "unat (word_of_nat (112 + ?x) :: byte) = 112 + unat c div 256"
  proof -
    have "take_bit 8 (112 + unat c div 256) = 112 + unat c div 256" using c by (intro take_bit_nat_eq_self) simp
    then show ?thesis using c by (simp only: unsigned_of_nat len8 of_nat_id mod_less)
  qed
  have "take 8 (uuid_bytes t c r) = [ucast (drop_bit 40 t AND 0xFF), ucast (drop_bit 32 t AND 0xFF), ucast (drop_bit 24 t AND 0xFF),
      ucast (drop_bit 16 t AND 0xFF), ucast (drop_bit 8 t AND 0xFF), ucast (t AND 0xFF)] @ [word_of_nat (112 + ?x), ucast (c AND 0xFF)]"
    unfolding u by (simp del: of_nat_add)
  then have "be_value (take 8 (uuid_bytes t c r)) = unat t mod 2 ^ 48 * 256 ^ 2 + ((112 + unat c div 256) * 256 + unat c mod 256)"
    using unat_low_byte [of 0 c] by (simp only: be_value_append six_bytes) (simp add: be_value_Cons k del: of_nat_add)
  then show "be_value (take 8 (uuid_bytes t c r)) = unat t mod 2 ^ 48 * 65536 + (28672 + unat c)" by simp
qed

lemma unat_clock: "nat r < 2 ^ 48 \<Longrightarrow> unat (CurrentUnixTimestampMs r) = nat r"
proof -
  assume r: "nat r < 2 ^ 48"
  have "unat (word_of_int r :: u64) = nat r" if "0 \<le> r"
  proof -
    have "unat (word_of_int r :: u64) = nat (r mod 2 ^ 64)" by (simp add: unsigned_of_int take_bit_eq_mod)
    then show ?thesis using r that by simp
  qed
  then show ?thesis by (simp add: CurrentUnixTimestampMs_def)
qed

lemma next_tick_advances:
  assumes "unat (sequence_counter s) \<le> 4095" "unat (last_timestamp_ms s) + 1 < 2 ^ 48" "unat t < 2 ^ 48"
  shows "head_value s < head_value (next_tick t s)" "unat (sequence_counter (next_tick t s)) \<le> 4095"
    "unat (last_timestamp_ms (next_tick t s)) \<le> max (unat t) (unat (last_timestamp_ms s)) + 1"
proof -
  let ?l = "last_timestamp_ms s" and ?c = "sequence_counter s"
  have l: "unat (?l + 1) = unat ?l + 1" using assms(2) by (simp add: unat_word_ariths)
  have c: "unat (?c + 1) = unat ?c + 1" using assms(1) by (simp add: unat_word_ariths)
  have full: "?c = 0x0FFF \<longleftrightarrow> unat ?c = 4095" by (simp add: word_unat_eq_iff)
  consider (later) "unat ?l < unat t" | (full) "unat t \<le> unat ?l" "unat ?c = 4095" | (same) "unat t \<le> unat ?l" "unat ?c < 4095"
    using assms(1) by linarith
  then have "head_value s < head_value (next_tick t s) \<and> unat (sequence_counter (next_tick t s)) \<le> 4095
    \<and> unat (last_timestamp_ms (next_tick t s)) \<le> max (unat t) (unat ?l) + 1"
  proof cases
    case later
    then have "max t ?l = t" "t \<noteq> ?l" by (auto simp: max_def word_le_nat_alt)
    then have "next_tick t s = s\<lparr>last_timestamp_ms := t, sequence_counter := 0\<rparr>" by (simp add: next_tick_def)
    then show ?thesis using later assms(1) by (simp add: head_value_def)
  next
    case full
    then have "max t ?l = ?l" by (auto simp: max_def word_le_nat_alt word_unat_eq_iff)
    then have "next_tick t s = s\<lparr>last_timestamp_ms := ?l + 1, sequence_counter := 0\<rparr>" using full \<open>?c = 0x0FFF \<longleftrightarrow> _\<close> by (simp add: next_tick_def)
    then show ?thesis using full l by (simp add: head_value_def)
  next
    case same
    then have "max t ?l = ?l" by (auto simp: max_def word_le_nat_alt word_unat_eq_iff)
    then have "next_tick t s = s\<lparr>last_timestamp_ms := ?l, sequence_counter := ?c + 1\<rparr>" using same \<open>?c = 0x0FFF \<longleftrightarrow> _\<close> by (simp add: next_tick_def)
    then show ?thesis using same c by (simp add: head_value_def)
  qed
  then show "head_value s < head_value (next_tick t s)" "unat (sequence_counter (next_tick t s)) \<le> 4095"
    "unat (last_timestamp_ms (next_tick t s)) \<le> max (unat t) (unat (last_timestamp_ms s)) + 1" by blast+
qed

lemma Uuid_Generate_step:
  assumes s: "unat (sequence_counter s) \<le> 4095" "unat (last_timestamp_ms s) + 1 < 2 ^ 48" and r: "nat r + 1 < 2 ^ 48"
    and u: "Uuid_Generate draw r s = (u, s')"
  shows "length u = 16" "IsValidV7 u" "be_value (take 8 u) = head_value s'" "head_value s < head_value s'"
    "unat (sequence_counter s') \<le> 4095" "unat (last_timestamp_ms s') \<le> max (nat r) (unat (last_timestamp_ms s)) + 1"
proof -
  let ?t = "CurrentUnixTimestampMs r" and ?s = "next_tick (CurrentUnixTimestampMs r) s"
  have t: "unat ?t = nat r" using unat_clock [of r] r by simp
  note n = next_tick_advances [of s ?t, unfolded t, OF s]
  have n: "head_value s < head_value ?s" "unat (sequence_counter ?s) \<le> 4095" "unat (last_timestamp_ms ?s) \<le> max (nat r) (unat (last_timestamp_ms s)) + 1"
    using n r by simp_all
  have m: "(0x0000FFFFFFFFFFFF :: u64) = mask 48" by (simp add: mask_eq_exp_minus_1)
  have "last_timestamp_ms ?s AND 0x0000FFFFFFFFFFFF = take_bit 48 (last_timestamp_ms ?s)" unfolding m take_bit_eq_mask ..
  then have "unat (last_timestamp_ms ?s AND 0x0000FFFFFFFFFFFF) = take_bit 48 (unat (last_timestamp_ms ?s))"
    by (simp only: unsigned_take_bit_eq)
  moreover have "unat (last_timestamp_ms ?s) < 2 ^ 48" using n(3) s(2) r by linarith
  ultimately have ts: "unat (last_timestamp_ms ?s AND 0x0000FFFFFFFFFFFF) mod 2 ^ 48 = unat (last_timestamp_ms ?s)"
    by (simp add: take_bit_eq_mod)
  obtain rand_b g where d: "draw (rng ?s) = (rand_b, g)" by (cases "draw (rng ?s)")
  then have u': "u = uuid_bytes (last_timestamp_ms ?s AND 0x0000FFFFFFFFFFFF) (sequence_counter ?s) rand_b" and s': "s' = ?s\<lparr>rng := g\<rparr>"
    using u by (simp_all add: Uuid_Generate_def Let_def)
  have h: "head_value s' = head_value ?s" unfolding s' by (simp add: head_value_def)
  have c: "unat (sequence_counter ?s) < 4096" using n(2) by simp
  show "length u = 16" "IsValidV7 u" unfolding u' by (rule uuid_bytes_spec [OF c])+
  show "be_value (take 8 u) = head_value s'" unfolding h u' uuid_bytes_spec(3) [OF c] ts by (simp add: head_value_def)
  show "head_value s < head_value s'" using n(1) h by simp
  show "unat (sequence_counter s') \<le> 4095" "unat (last_timestamp_ms s') \<le> max (nat r) (unat (last_timestamp_ms s)) + 1"
    using n(2,3) unfolding s' by simp_all
qed

lemma uuid_less_head: "length u = 16 \<Longrightarrow> length v = 16 \<Longrightarrow> be_value (take 8 u) < be_value (take 8 v) \<Longrightarrow> uuid_less u v"
proof -
  assume l: "length u = 16" "length v = 16" and h: "be_value (take 8 u) < be_value (take 8 v)"
  have split: "be_value w = be_value (take 8 w) * 256 ^ 8 + be_value (drop 8 w)" "be_value (drop 8 w) < 256 ^ 8" if "length w = 16" for w
    using that be_value_append [of "take 8 w" "drop 8 w"] be_value_less [of "drop 8 w"] by simp_all
  have "be_value u < be_value v"
    using split [OF l(1)] split [OF l(2)] h lex_step [of "be_value (drop 8 u)" "256 ^ 8" "be_value (drop 8 v)"] by simp
  then show ?thesis using l by (simp add: uuid_less_be_value)
qed

lemma generate_all_above:
  "unat (sequence_counter s) \<le> 4095 \<Longrightarrow> unat (last_timestamp_ms s) + length rs < 2 ^ 48 \<Longrightarrow> \<forall>r\<in>set rs. nat r + length rs < 2 ^ 48 \<Longrightarrow>
   (\<forall>u\<in>set (generate_all draw rs s). length u = 16 \<and> IsValidV7 u \<and> head_value s < be_value (take 8 u)) \<and> sorted_wrt uuid_less (generate_all draw rs s)"
proof (induction rs arbitrary: s)
  case (Cons r rs)
  obtain u s' where g: "Uuid_Generate draw r s = (u, s')" by (cases "Uuid_Generate draw r s")
  have b: "unat (last_timestamp_ms s) + 1 < 2 ^ 48" "nat r + 1 < 2 ^ 48" using Cons.prems by simp_all
  note step = Uuid_Generate_step [OF Cons.prems(1) b g]
  have l: "unat (last_timestamp_ms s') + length rs < 2 ^ 48" using step(6) Cons.prems(2,3) by (simp add: max_def split: if_splits)
  have c: "\<forall>r\<in>set rs. nat r + length rs < 2 ^ 48" using Cons.prems(3) by fastforce
  note ih = Cons.IH [OF step(5) l c]
  have "\<forall>v\<in>set (generate_all draw rs s'). uuid_less u v" using ih step(1,3) by (auto intro: uuid_less_head)
  then show ?case using ih step g by (auto intro: less_trans)
qed simp

section \<open>Properties\<close>

text \<open>
  C24: A text parses to an identifier exactly when it is the canonical lower-case text of a valid version 7 identifier of sixteen
  bytes, and then to that identifier; every other text is refused.
\<close>

theorem uuid_text_canonical: "Uuid_FromString s = Some u \<longleftrightarrow> length u = 16 \<and> IsValidV7 u \<and> s = Uuid_ToString u"
  using ToString_FromString [of s u] FromString_ToString [of u] by blast

text \<open>
  C27: Whatever the clock of a thread reads, forwards, backwards or standing still, and whatever the random engine draws, the
  identifiers that the thread generates are valid version 7 identifiers in strictly increasing order, as long as the readings
  and the ticks borrowed on a rollover of the counter stay below \<open>2 ^ 48\<close> milliseconds.
\<close>

theorem uuid_generation_monotone:
  assumes "unat (sequence_counter s) \<le> 4095" "unat (last_timestamp_ms s) + length readings < 2 ^ 48"
    and "\<forall>r\<in>set readings. nat r + length readings < 2 ^ 48"
  shows "sorted_wrt uuid_less (generate_all draw readings s)
    \<and> (\<forall>u\<in>set (generate_all draw readings s). length u = 16 \<and> IsValidV7 u)"
  using generate_all_above [OF assms] by blast

theorem uuid_generation_monotone_witness:
  "sorted_wrt uuid_less (generate_all (\<lambda>g. (g, g + 1)) [1700000000000, 1600000000000, -5] (ThreadState_new 7))
    \<and> list_all IsValidV7 (generate_all (\<lambda>g. (g, g + 1)) [1700000000000, 1600000000000, -5] (ThreadState_new 7))"
proof -
  have "sorted_wrt uuid_less (generate_all (\<lambda>g. (g, g + 1)) [1700000000000, 1600000000000, -5] (ThreadState_new 7))
    \<and> (\<forall>u\<in>set (generate_all (\<lambda>g. (g, g + 1)) [1700000000000, 1600000000000, -5] (ThreadState_new 7)). length u = 16 \<and> IsValidV7 u)"
    by (rule uuid_generation_monotone) (simp_all add: ThreadState_new_def)
  then show ?thesis by (simp add: list_all_iff)
qed

end
