(* ===== verification/Sha256.thy ===== *)
theory Sha256
  imports Prelude
begin

text \<open>
  The hash of \<open>src/Nova/Base/Sha256.cpp\<close>: the incremental hasher with its software and its SHA-NI block
  functions, and the hash of a file. The three SHA-NI instructions are parameters of the model.
\<close>

unbundle bit_operations_syntax

section \<open>Constants and functions\<close>

definition kK :: "u32 list" where
  "kK =
    [0x428a2f98, 0x71374491, 0xb5c0fbcf, 0xe9b5dba5, 0x3956c25b, 0x59f111f1, 0x923f82a4, 0xab1c5ed5]
    @ [0xd807aa98, 0x12835b01, 0x243185be, 0x550c7dc3, 0x72be5d74, 0x80deb1fe, 0x9bdc06a7, 0xc19bf174]
    @ [0xe49b69c1, 0xefbe4786, 0x0fc19dc6, 0x240ca1cc, 0x2de92c6f, 0x4a7484aa, 0x5cb0a9dc, 0x76f988da]
    @ [0x983e5152, 0xa831c66d, 0xb00327c8, 0xbf597fc7, 0xc6e00bf3, 0xd5a79147, 0x06ca6351, 0x14292967]
    @ [0x27b70a85, 0x2e1b2138, 0x4d2c6dfc, 0x53380d13, 0x650a7354, 0x766a0abb, 0x81c2c92e, 0x92722c85]
    @ [0xa2bfe8a1, 0xa81a664b, 0xc24b8b70, 0xc76c51a3, 0xd192e819, 0xd6990624, 0xf40e3585, 0x106aa070]
    @ [0x19a4c116, 0x1e376c08, 0x2748774c, 0x34b0bcb5, 0x391c0cb3, 0x4ed8aa4a, 0x5b9cca4f, 0x682e6ff3]
    @ [0x748f82ee, 0x78a5636f, 0x84c87814, 0x8cc70208, 0x90befffa, 0xa4506ceb, 0xbef9a3f7, 0xc67178f2]"

definition kInitState :: "u32 list" where
  "kInitState = [0x6a09e667, 0xbb67ae85, 0x3c6ef372, 0xa54ff53a, 0x510e527f, 0x9b05688c, 0x1f83d9ab, 0x5be0cd19]"

definition RotR :: "u32 \<Rightarrow> nat \<Rightarrow> u32" where
  "RotR x n = drop_bit n x OR push_bit (32 - n) x"

definition Ch :: "u32 \<Rightarrow> u32 \<Rightarrow> u32 \<Rightarrow> u32" where
  "Ch x y z = (x AND y) XOR (NOT x AND z)"

definition Maj :: "u32 \<Rightarrow> u32 \<Rightarrow> u32 \<Rightarrow> u32" where
  "Maj x y z = (x AND y) XOR (x AND z) XOR (y AND z)"

definition Sigma0 :: "u32 \<Rightarrow> u32" where
  "Sigma0 x = RotR x 2 XOR RotR x 13 XOR RotR x 22"

definition Sigma1 :: "u32 \<Rightarrow> u32" where
  "Sigma1 x = RotR x 6 XOR RotR x 11 XOR RotR x 25"

definition sigma0 :: "u32 \<Rightarrow> u32" where
  "sigma0 x = RotR x 7 XOR RotR x 18 XOR drop_bit 3 x"

definition sigma1 :: "u32 \<Rightarrow> u32" where
  "sigma1 x = RotR x 17 XOR RotR x 19 XOR drop_bit 10 x"

definition LoadBE32 :: "byte list \<Rightarrow> u32" where
  "LoadBE32 p = push_bit 24 (ucast (p ! 0)) OR push_bit 16 (ucast (p ! 1)) OR push_bit 8 (ucast (p ! 2)) OR ucast (p ! 3)"

definition StoreBE32 :: "u32 \<Rightarrow> byte list" where
  "StoreBE32 v = [ucast (drop_bit 24 v), ucast (drop_bit 16 v), ucast (drop_bit 8 v), ucast v]"

definition StoreBE64 :: "u64 \<Rightarrow> byte list" where
  "StoreBE64 v = [ucast (drop_bit 56 v), ucast (drop_bit 48 v), ucast (drop_bit 40 v), ucast (drop_bit 32 v),
     ucast (drop_bit 24 v), ucast (drop_bit 16 v), ucast (drop_bit 8 v), ucast v]"

section \<open>The software block function\<close>

text \<open>The working variables \<open>a\<close> to \<open>h\<close>.\<close>

type_synonym vars = "u32 \<times> u32 \<times> u32 \<times> u32 \<times> u32 \<times> u32 \<times> u32 \<times> u32"

definition Round :: "u32 \<Rightarrow> u32 \<Rightarrow> vars \<Rightarrow> vars" where
  "Round k w v = (let (a, b, c, d, e, f, g, h) = v;
     t1 = h + Sigma1 e + Ch e f g + k + w;
     t2 = Sigma0 a + Maj a b c in
     (t1 + t2, a, b, c, d + t1, e, f, g))"

definition load_schedule :: "byte list \<Rightarrow> u32 list \<Rightarrow> u32 list" where
  "load_schedule block w = fold (\<lambda>i w. w[i := LoadBE32 (drop (i * 4) block)]) [0..<16] w"

definition expand_schedule :: "u32 list \<Rightarrow> u32 list" where
  "expand_schedule w =
     fold (\<lambda>i w. w[i := sigma1 (w ! (i - 2)) + w ! (i - 7) + sigma0 (w ! (i - 15)) + w ! (i - 16)]) [16..<64] w"

definition rounds8 :: "u32 list \<Rightarrow> nat \<Rightarrow> vars \<Rightarrow> vars" where
  "rounds8 w i v =
     (let v = Round (kK ! (i + 0)) (w ! (i + 0)) v;
          v = Round (kK ! (i + 1)) (w ! (i + 1)) v;
          v = Round (kK ! (i + 2)) (w ! (i + 2)) v;
          v = Round (kK ! (i + 3)) (w ! (i + 3)) v;
          v = Round (kK ! (i + 4)) (w ! (i + 4)) v;
          v = Round (kK ! (i + 5)) (w ! (i + 5)) v;
          v = Round (kK ! (i + 6)) (w ! (i + 6)) v in
      Round (kK ! (i + 7)) (w ! (i + 7)) v)"

definition vars_of :: "u32 list \<Rightarrow> vars" where
  "vars_of s = (s ! 0, s ! 1, s ! 2, s ! 3, s ! 4, s ! 5, s ! 6, s ! 7)"

definition add_vars :: "u32 list \<Rightarrow> vars \<Rightarrow> u32 list" where
  "add_vars s v = (let (a, b, c, d, e, f, g, h) = v in
     [s ! 0 + a, s ! 1 + b, s ! 2 + c, s ! 3 + d, s ! 4 + e, s ! 5 + f, s ! 6 + g, s ! 7 + h])"

definition process_block :: "byte list \<Rightarrow> u32 list \<times> u32 list \<Rightarrow> u32 list \<times> u32 list" where
  "process_block block ws = (let (w, s) = ws; w = expand_schedule (load_schedule block w) in
     (w, add_vars s (fold (rounds8 w) [0, 8, 16, 24, 32, 40, 48, 56] (vars_of s))))"

definition ProcessBlocksSoftware :: "byte list \<Rightarrow> nat \<Rightarrow> u32 list \<Rightarrow> u32 list" where
  "ProcessBlocksSoftware data block_count s =
     snd (fold (\<lambda>blk. process_block (drop (blk * 64) data)) [0..<block_count] (replicate 64 0, s))"

section \<open>The SHA-NI block function\<close>

text \<open>A 128-bit register as its four 32-bit lanes, lane 3 first, as in the comments of the source.\<close>

datatype m128 = M128 (lane3: u32) (lane2: u32) (lane1: u32) (lane0: u32)

definition lane :: "m128 \<Rightarrow> nat \<Rightarrow> u32" where
  "lane x i = [lane0 x, lane1 x, lane2 x, lane3 x] ! i"

definition bytes_of_u32 :: "u32 \<Rightarrow> byte list" where
  "bytes_of_u32 v = [ucast v, ucast (drop_bit 8 v), ucast (drop_bit 16 v), ucast (drop_bit 24 v)]"

definition u32_of_bytes :: "byte list \<Rightarrow> u32" where
  "u32_of_bytes b = ucast (b ! 0) OR push_bit 8 (ucast (b ! 1)) OR push_bit 16 (ucast (b ! 2)) OR push_bit 24 (ucast (b ! 3))"

definition bytes_of_m128 :: "m128 \<Rightarrow> byte list" where
  "bytes_of_m128 x = bytes_of_u32 (lane0 x) @ bytes_of_u32 (lane1 x) @ bytes_of_u32 (lane2 x) @ bytes_of_u32 (lane3 x)"

definition m128_of_bytes :: "byte list \<Rightarrow> m128" where
  "m128_of_bytes b = M128 (u32_of_bytes (drop 12 b)) (u32_of_bytes (drop 8 b)) (u32_of_bytes (drop 4 b)) (u32_of_bytes b)"

text \<open>The vector intrinsics the source uses; \<open>mm_loadu_u32\<close> and \<open>mm_loadu_bytes\<close> are \<open>_mm_loadu_si128\<close> on an array of
  words and of bytes.\<close>

definition mm_loadu_u32 :: "u32 list \<Rightarrow> nat \<Rightarrow> m128" where
  "mm_loadu_u32 p i = M128 (p ! (i + 3)) (p ! (i + 2)) (p ! (i + 1)) (p ! i)"

definition mm_loadu_bytes :: "byte list \<Rightarrow> m128" where
  "mm_loadu_bytes p = m128_of_bytes p"

definition mm_storeu_u32 :: "m128 \<Rightarrow> u32 list" where
  "mm_storeu_u32 x = [lane0 x, lane1 x, lane2 x, lane3 x]"

definition mm_set_epi64x :: "u64 \<Rightarrow> u64 \<Rightarrow> m128" where
  "mm_set_epi64x e1 e0 = M128 (ucast (drop_bit 32 e1)) (ucast e1) (ucast (drop_bit 32 e0)) (ucast e0)"

definition mm_add_epi32 :: "m128 \<Rightarrow> m128 \<Rightarrow> m128" where
  "mm_add_epi32 x y = M128 (lane3 x + lane3 y) (lane2 x + lane2 y) (lane1 x + lane1 y) (lane0 x + lane0 y)"

definition mm_shuffle_epi32 :: "m128 \<Rightarrow> nat \<Rightarrow> m128" where
  "mm_shuffle_epi32 x imm = M128 (lane x (imm div 64 mod 4)) (lane x (imm div 16 mod 4)) (lane x (imm div 4 mod 4)) (lane x (imm mod 4))"

definition mm_unpacklo_epi64 :: "m128 \<Rightarrow> m128 \<Rightarrow> m128" where
  "mm_unpacklo_epi64 x y = M128 (lane1 y) (lane0 y) (lane1 x) (lane0 x)"

definition mm_unpackhi_epi64 :: "m128 \<Rightarrow> m128 \<Rightarrow> m128" where
  "mm_unpackhi_epi64 x y = M128 (lane3 y) (lane2 y) (lane3 x) (lane2 x)"

definition mm_alignr_epi8 :: "m128 \<Rightarrow> m128 \<Rightarrow> nat \<Rightarrow> m128" where
  "mm_alignr_epi8 x y n = m128_of_bytes (take 16 (drop n (bytes_of_m128 y @ bytes_of_m128 x)))"

definition mm_shuffle_epi8 :: "m128 \<Rightarrow> m128 \<Rightarrow> m128" where
  "mm_shuffle_epi8 x sel = m128_of_bytes
     (map (\<lambda>m. if bit m 7 then 0 else bytes_of_m128 x ! unat (m AND 15)) (bytes_of_m128 sel))"

text \<open>The instructions of the SHA extension, parameters of the model.\<close>

record ShaNi =
  sha256rnds2 :: "m128 \<Rightarrow> m128 \<Rightarrow> m128 \<Rightarrow> m128"
  sha256msg1 :: "m128 \<Rightarrow> m128 \<Rightarrow> m128"
  sha256msg2 :: "m128 \<Rightarrow> m128 \<Rightarrow> m128"

type_synonym shani_regs = "m128 \<times> m128 \<times> m128 \<times> m128 \<times> m128 \<times> m128"

definition kShufMask :: m128 where
  "kShufMask = mm_set_epi64x 0x0c0d0e0f08090a0b 0x0405060700010203"

definition shani_rounds_0_15 :: "ShaNi \<Rightarrow> shani_regs \<Rightarrow> shani_regs" where
  "shani_rounds_0_15 ins r =
     (let (msg0, msg1, msg2, msg3, state0, state1) = r;
       msg = mm_add_epi32 msg0 (mm_loadu_u32 kK 0);
       state1 = sha256rnds2 ins state1 state0 msg;
       msg = mm_shuffle_epi32 msg 0x0E;
       state0 = sha256rnds2 ins state0 state1 msg;
       msg = mm_add_epi32 msg1 (mm_loadu_u32 kK 4);
       state1 = sha256rnds2 ins state1 state0 msg;
       msg = mm_shuffle_epi32 msg 0x0E;
       state0 = sha256rnds2 ins state0 state1 msg;
       msg0 = sha256msg1 ins msg0 msg1;
       msg = mm_add_epi32 msg2 (mm_loadu_u32 kK 8);
       state1 = sha256rnds2 ins state1 state0 msg;
       msg = mm_shuffle_epi32 msg 0x0E;
       state0 = sha256rnds2 ins state0 state1 msg;
       msg1 = sha256msg1 ins msg1 msg2;
       msg = mm_add_epi32 msg3 (mm_loadu_u32 kK 12);
       state1 = sha256rnds2 ins state1 state0 msg;
       tmp = mm_alignr_epi8 msg3 msg2 4;
       msg0 = mm_add_epi32 msg0 tmp;
       msg0 = sha256msg2 ins msg0 msg3;
       msg = mm_shuffle_epi32 msg 0x0E;
       state0 = sha256rnds2 ins state0 state1 msg;
       msg2 = sha256msg1 ins msg2 msg3 in
      (msg0, msg1, msg2, msg3, state0, state1))"

definition shani_rounds_16_31 :: "ShaNi \<Rightarrow> shani_regs \<Rightarrow> shani_regs" where
  "shani_rounds_16_31 ins r =
     (let (msg0, msg1, msg2, msg3, state0, state1) = r;
       msg = mm_add_epi32 msg0 (mm_loadu_u32 kK 16);
       state1 = sha256rnds2 ins state1 state0 msg;
       tmp = mm_alignr_epi8 msg0 msg3 4;
       msg1 = mm_add_epi32 msg1 tmp;
       msg1 = sha256msg2 ins msg1 msg0;
       msg = mm_shuffle_epi32 msg 0x0E;
       state0 = sha256rnds2 ins state0 state1 msg;
       msg3 = sha256msg1 ins msg3 msg0;
       msg = mm_add_epi32 msg1 (mm_loadu_u32 kK 20);
       state1 = sha256rnds2 ins state1 state0 msg;
       tmp = mm_alignr_epi8 msg1 msg0 4;
       msg2 = mm_add_epi32 msg2 tmp;
       msg2 = sha256msg2 ins msg2 msg1;
       msg = mm_shuffle_epi32 msg 0x0E;
       state0 = sha256rnds2 ins state0 state1 msg;
       msg0 = sha256msg1 ins msg0 msg1;
       msg = mm_add_epi32 msg2 (mm_loadu_u32 kK 24);
       state1 = sha256rnds2 ins state1 state0 msg;
       tmp = mm_alignr_epi8 msg2 msg1 4;
       msg3 = mm_add_epi32 msg3 tmp;
       msg3 = sha256msg2 ins msg3 msg2;
       msg = mm_shuffle_epi32 msg 0x0E;
       state0 = sha256rnds2 ins state0 state1 msg;
       msg1 = sha256msg1 ins msg1 msg2;
       msg = mm_add_epi32 msg3 (mm_loadu_u32 kK 28);
       state1 = sha256rnds2 ins state1 state0 msg;
       tmp = mm_alignr_epi8 msg3 msg2 4;
       msg0 = mm_add_epi32 msg0 tmp;
       msg0 = sha256msg2 ins msg0 msg3;
       msg = mm_shuffle_epi32 msg 0x0E;
       state0 = sha256rnds2 ins state0 state1 msg;
       msg2 = sha256msg1 ins msg2 msg3 in
      (msg0, msg1, msg2, msg3, state0, state1))"

definition shani_rounds_32_47 :: "ShaNi \<Rightarrow> shani_regs \<Rightarrow> shani_regs" where
  "shani_rounds_32_47 ins r =
     (let (msg0, msg1, msg2, msg3, state0, state1) = r;
       msg = mm_add_epi32 msg0 (mm_loadu_u32 kK 32);
       state1 = sha256rnds2 ins state1 state0 msg;
       tmp = mm_alignr_epi8 msg0 msg3 4;
       msg1 = mm_add_epi32 msg1 tmp;
       msg1 = sha256msg2 ins msg1 msg0;
       msg = mm_shuffle_epi32 msg 0x0E;
       state0 = sha256rnds2 ins state0 state1 msg;
       msg3 = sha256msg1 ins msg3 msg0;
       msg = mm_add_epi32 msg1 (mm_loadu_u32 kK 36);
       state1 = sha256rnds2 ins state1 state0 msg;
       tmp = mm_alignr_epi8 msg1 msg0 4;
       msg2 = mm_add_epi32 msg2 tmp;
       msg2 = sha256msg2 ins msg2 msg1;
       msg = mm_shuffle_epi32 msg 0x0E;
       state0 = sha256rnds2 ins state0 state1 msg;
       msg0 = sha256msg1 ins msg0 msg1;
       msg = mm_add_epi32 msg2 (mm_loadu_u32 kK 40);
       state1 = sha256rnds2 ins state1 state0 msg;
       tmp = mm_alignr_epi8 msg2 msg1 4;
       msg3 = mm_add_epi32 msg3 tmp;
       msg3 = sha256msg2 ins msg3 msg2;
       msg = mm_shuffle_epi32 msg 0x0E;
       state0 = sha256rnds2 ins state0 state1 msg;
       msg1 = sha256msg1 ins msg1 msg2;
       msg = mm_add_epi32 msg3 (mm_loadu_u32 kK 44);
       state1 = sha256rnds2 ins state1 state0 msg;
       tmp = mm_alignr_epi8 msg3 msg2 4;
       msg0 = mm_add_epi32 msg0 tmp;
       msg0 = sha256msg2 ins msg0 msg3;
       msg = mm_shuffle_epi32 msg 0x0E;
       state0 = sha256rnds2 ins state0 state1 msg;
       msg2 = sha256msg1 ins msg2 msg3 in
      (msg0, msg1, msg2, msg3, state0, state1))"

definition shani_rounds_48_63 :: "ShaNi \<Rightarrow> shani_regs \<Rightarrow> shani_regs" where
  "shani_rounds_48_63 ins r =
     (let (msg0, msg1, msg2, msg3, state0, state1) = r;
       msg = mm_add_epi32 msg0 (mm_loadu_u32 kK 48);
       state1 = sha256rnds2 ins state1 state0 msg;
       tmp = mm_alignr_epi8 msg0 msg3 4;
       msg1 = mm_add_epi32 msg1 tmp;
       msg1 = sha256msg2 ins msg1 msg0;
       msg = mm_shuffle_epi32 msg 0x0E;
       state0 = sha256rnds2 ins state0 state1 msg;
       msg3 = sha256msg1 ins msg3 msg0;
       msg = mm_add_epi32 msg1 (mm_loadu_u32 kK 52);
       state1 = sha256rnds2 ins state1 state0 msg;
       tmp = mm_alignr_epi8 msg1 msg0 4;
       msg2 = mm_add_epi32 msg2 tmp;
       msg2 = sha256msg2 ins msg2 msg1;
       msg = mm_shuffle_epi32 msg 0x0E;
       state0 = sha256rnds2 ins state0 state1 msg;
       msg = mm_add_epi32 msg2 (mm_loadu_u32 kK 56);
       state1 = sha256rnds2 ins state1 state0 msg;
       tmp = mm_alignr_epi8 msg2 msg1 4;
       msg3 = mm_add_epi32 msg3 tmp;
       msg3 = sha256msg2 ins msg3 msg2;
       msg = mm_shuffle_epi32 msg 0x0E;
       state0 = sha256rnds2 ins state0 state1 msg;
       msg = mm_add_epi32 msg3 (mm_loadu_u32 kK 60);
       state1 = sha256rnds2 ins state1 state0 msg;
       msg = mm_shuffle_epi32 msg 0x0E;
       state0 = sha256rnds2 ins state0 state1 msg in
      (msg0, msg1, msg2, msg3, state0, state1))"

definition shani_load :: "byte list \<Rightarrow> m128 \<times> m128 \<Rightarrow> shani_regs" where
  "shani_load block s = (let (state0, state1) = s in
     (mm_shuffle_epi8 (mm_loadu_bytes block) kShufMask, mm_shuffle_epi8 (mm_loadu_bytes (drop 16 block)) kShufMask,
      mm_shuffle_epi8 (mm_loadu_bytes (drop 32 block)) kShufMask, mm_shuffle_epi8 (mm_loadu_bytes (drop 48 block)) kShufMask,
      state0, state1))"

definition shani_block :: "ShaNi \<Rightarrow> byte list \<Rightarrow> m128 \<times> m128 \<Rightarrow> m128 \<times> m128" where
  "shani_block ins block s =
     (let (save_state0, save_state1) = s;
          (_, _, _, _, state0, state1) =
            shani_rounds_48_63 ins (shani_rounds_32_47 ins (shani_rounds_16_31 ins (shani_rounds_0_15 ins (shani_load block s)))) in
      (mm_add_epi32 state0 save_state0, mm_add_epi32 state1 save_state1))"

definition shani_enter :: "u32 list \<Rightarrow> m128 \<times> m128" where
  "shani_enter s =
     (let tmp0 = mm_shuffle_epi32 (mm_loadu_u32 s 0) 0xB1; tmp1 = mm_shuffle_epi32 (mm_loadu_u32 s 4) 0xB1 in
      (mm_unpacklo_epi64 tmp1 tmp0, mm_unpackhi_epi64 tmp1 tmp0))"

definition shani_leave :: "m128 \<times> m128 \<Rightarrow> u32 list" where
  "shani_leave s = (let (state0, state1) = s;
     tmp0 = mm_shuffle_epi32 (mm_unpackhi_epi64 state0 state1) 0xB1;
     tmp1 = mm_shuffle_epi32 (mm_unpacklo_epi64 state0 state1) 0xB1 in
     mm_storeu_u32 tmp0 @ mm_storeu_u32 tmp1)"

definition ProcessBlocksShaNi :: "ShaNi \<Rightarrow> byte list \<Rightarrow> nat \<Rightarrow> u32 list \<Rightarrow> u32 list" where
  "ProcessBlocksShaNi ins data block_count s =
     shani_leave (fold (\<lambda>blk. shani_block ins (drop (blk * 64) data)) [0..<block_count] (shani_enter s))"

definition ProcessBlocks :: "ShaNi option \<Rightarrow> byte list \<Rightarrow> nat \<Rightarrow> u32 list \<Rightarrow> u32 list" where
  "ProcessBlocks hw data block_count s =
     (case hw of Some ins \<Rightarrow> ProcessBlocksShaNi ins data block_count s | None \<Rightarrow> ProcessBlocksSoftware data block_count s)"

section \<open>The hasher\<close>

record Sha256 =
  total_bytes :: u64
  buffer :: "byte list"
  buffer_size :: nat
  state :: "u32 list"

definition kBlockSize :: nat where
  "kBlockSize = 64"

definition Sha256_new :: Sha256 where
  "Sha256_new = \<lparr>total_bytes = 0, buffer = replicate kBlockSize 0, buffer_size = 0, state = kInitState\<rparr>"

text \<open>\<open>std::memcpy\<close> into an array at an offset; \<open>std::memset\<close> is the case of a constant source.\<close>

definition memcpy_at :: "nat \<Rightarrow> 'a list \<Rightarrow> 'a list \<Rightarrow> 'a list" where
  "memcpy_at off src dest = take off dest @ src @ drop (off + length src) dest"

definition Sha256_Update :: "ShaNi option \<Rightarrow> byte list \<Rightarrow> Sha256 \<Rightarrow> Sha256" where
  "Sha256_Update hw data s =
     (if data = [] then s
      else
        let ptr = data;
            s = s\<lparr>total_bytes := total_bytes s + word_of_nat (length ptr)\<rparr>;
            (ptr, s) =
              (if buffer_size s \<noteq> 0 then
                 let need = kBlockSize - buffer_size s;
                     n = min need (length ptr);
                     s = s\<lparr>buffer := memcpy_at (buffer_size s) (take n ptr) (buffer s), buffer_size := buffer_size s + n\<rparr>;
                     ptr = drop n ptr in
                 if buffer_size s = kBlockSize
                 then (ptr, s\<lparr>state := ProcessBlocks hw (buffer s) 1 (state s), buffer_size := 0\<rparr>)
                 else (ptr, s)
               else (ptr, s));
            (ptr, s) =
              (if length ptr \<ge> kBlockSize then
                 let blocks = length ptr div kBlockSize in
                 (drop (blocks * kBlockSize) ptr, s\<lparr>state := ProcessBlocks hw ptr blocks (state s)\<rparr>)
               else (ptr, s)) in
        if ptr \<noteq> [] then s\<lparr>buffer := memcpy_at 0 ptr (buffer s), buffer_size := length ptr\<rparr> else s)"

definition Sha256_Finalize :: "ShaNi option \<Rightarrow> Sha256 \<Rightarrow> byte list \<times> Sha256" where
  "Sha256_Finalize hw s =
     (let total_bits = total_bytes s * 8;
          s = s\<lparr>buffer := (buffer s)[buffer_size s := 0x80], buffer_size := buffer_size s + 1\<rparr>;
          s = (if buffer_size s > 56 then
                 let s = s\<lparr>buffer := memcpy_at (buffer_size s) (replicate (kBlockSize - buffer_size s) 0) (buffer s)\<rparr> in
                 s\<lparr>state := ProcessBlocks hw (buffer s) 1 (state s), buffer_size := 0\<rparr>
               else s);
          s = s\<lparr>buffer := memcpy_at (buffer_size s) (replicate (56 - buffer_size s) 0) (buffer s)\<rparr>;
          s = s\<lparr>buffer := memcpy_at 56 (StoreBE64 total_bits) (buffer s)\<rparr>;
          s = s\<lparr>state := ProcessBlocks hw (buffer s) 1 (state s)\<rparr>;
          digest = concat (map (\<lambda>i. StoreBE32 (state s ! i)) [0..<8]) in
      (digest, s\<lparr>state := kInitState, total_bytes := 0, buffer_size := 0\<rparr>))"

definition ComputeSha256 :: "ShaNi option \<Rightarrow> byte list \<Rightarrow> byte list" where
  "ComputeSha256 hw data = fst (Sha256_Finalize hw (Sha256_Update hw data Sha256_new))"

definition Sha256_IsAllZero :: "byte list \<Rightarrow> bool" where
  "Sha256_IsAllZero digest = (fold (\<lambda>b acc. acc OR b) digest 0 = 0)"

text \<open>
  The input stream of \<open>ComputeFileSha256\<close>: the bytes still to be read and, for a medium that fails, after how
  many of them. A read returns fewer bytes than asked for at the end of the file or at the failure.
\<close>

datatype stream_status = Good | Eof | Bad

record ifstream =
  rest :: "byte list"
  bad_after :: "nat option"

definition stream_read :: "nat \<Rightarrow> ifstream \<Rightarrow> byte list \<times> stream_status \<times> ifstream" where
  "stream_read n f =
     (let keep = (\<lambda>k. f\<lparr>rest := drop k (rest f), bad_after := map_option (\<lambda>b. b - k) (bad_after f)\<rparr>) in
      case bad_after f of
        Some b \<Rightarrow>
          if b < n \<and> b \<le> length (rest f) then (take b (rest f), Bad, keep b)
          else if length (rest f) < n then (rest f, Eof, keep n) else (take n (rest f), Good, keep n)
      | None \<Rightarrow> if length (rest f) < n then (rest f, Eof, keep n) else (take n (rest f), Good, keep n))"

definition kBufferSize :: nat where
  "kBufferSize = 256 * 1024"

function file_loop :: "ShaNi option \<Rightarrow> string \<Rightarrow> ifstream \<Rightarrow> Sha256 \<Rightarrow> Sha256 res" where
  "file_loop hw path f s =
     (let (got, status, f') = stream_read kBufferSize f;
          s = (if got \<noteq> [] then Sha256_Update hw got s else s) in
      case status of
        Good \<Rightarrow> file_loop hw path f' s
      | Eof \<Rightarrow> Inr s
      | Bad \<Rightarrow> Inl (RuntimeErrorExn (''Failed while reading file for SHA-256: '' @ path)))"
  by pat_completeness auto
termination
  by (relation "measure (\<lambda>(hw, path, f, s). length (rest f))")
     (auto simp: stream_read_def kBufferSize_def Let_def split: option.splits if_splits)

declare file_loop.simps [simp del]

definition ComputeFileSha256 :: "ShaNi option \<Rightarrow> string \<Rightarrow> ifstream option \<Rightarrow> byte list res" where
  "ComputeFileSha256 hw path file =
     (case file of
        None \<Rightarrow> Inl (RuntimeErrorExn (''Failed to open file for SHA-256: '' @ path))
      | Some f \<Rightarrow> rbind (file_loop hw path f Sha256_new) (\<lambda>s. Inr (fst (Sha256_Finalize hw s))))"

end
