(* ===== verification/Sha256Blocks.thy ===== *)
theory Sha256Blocks
  imports Sha256
begin

text \<open>
  SHA-256 as the standard defines it on a whole message, and the two block functions of
  \<open>src/Nova/Base/Sha256.cpp\<close>: the software loop with its unrolled rounds and the SHA-NI code with its
  interleaved message schedule both compute the compression function of the standard.
\<close>

section \<open>The standard\<close>

text \<open>SHA-256 of a whole message: padding, message schedule and compression on 32-bit words.\<close>

definition sha_Sigma0 :: "u32 \<Rightarrow> u32" where
  "sha_Sigma0 x = word_rotr 2 x XOR word_rotr 13 x XOR word_rotr 22 x"

definition sha_Sigma1 :: "u32 \<Rightarrow> u32" where
  "sha_Sigma1 x = word_rotr 6 x XOR word_rotr 11 x XOR word_rotr 25 x"

definition sha_sigma0 :: "u32 \<Rightarrow> u32" where
  "sha_sigma0 x = word_rotr 7 x XOR word_rotr 18 x XOR drop_bit 3 x"

definition sha_sigma1 :: "u32 \<Rightarrow> u32" where
  "sha_sigma1 x = word_rotr 17 x XOR word_rotr 19 x XOR drop_bit 10 x"

definition be_word :: "byte list \<Rightarrow> u32" where
  "be_word bs = word_of_nat (foldl (\<lambda>n b. 256 * n + unat b) 0 bs)"

fun sha_W :: "byte list \<Rightarrow> nat \<Rightarrow> u32" where
  "sha_W block t =
     (if t < 16 then be_word (take 4 (drop (4 * t) block))
      else sha_sigma1 (sha_W block (t - 2)) + sha_W block (t - 7) + sha_sigma0 (sha_W block (t - 15)) + sha_W block (t - 16))"

declare sha_W.simps [simp del]

definition sha_round :: "byte list \<Rightarrow> nat \<Rightarrow> vars \<Rightarrow> vars" where
  "sha_round block t v = (case v of (a, b, c, d, e, f, g, h) \<Rightarrow>
     let T1 = h + sha_Sigma1 e + ((e AND f) XOR (NOT e AND g)) + kK ! t + sha_W block t;
         T2 = sha_Sigma0 a + ((a AND b) XOR (a AND c) XOR (b AND c)) in
     (T1 + T2, a, b, c, d + T1, e, f, g))"

definition sha_compress :: "byte list \<Rightarrow> u32 list \<Rightarrow> u32 list" where
  "sha_compress block H =
     (case fold (sha_round block) [0..<64] (H ! 0, H ! 1, H ! 2, H ! 3, H ! 4, H ! 5, H ! 6, H ! 7) of
        (a, b, c, d, e, f, g, h) \<Rightarrow> map2 (+) [a, b, c, d, e, f, g, h] H)"

fun sha_blocks :: "byte list \<Rightarrow> u32 list \<Rightarrow> u32 list" where
  "sha_blocks m H = (if length m < 64 then H else sha_blocks (drop 64 m) (sha_compress (take 64 m) H))"

declare sha_blocks.simps [simp del]

definition be_bytes :: "nat \<Rightarrow> nat \<Rightarrow> byte list" where
  "be_bytes k n = map (\<lambda>i. word_of_nat (n div 256 ^ (k - 1 - i))) [0..<k]"

definition sha_pad :: "byte list \<Rightarrow> byte list" where
  "sha_pad m = m @ [0x80] @ replicate ((119 - length m mod 64) mod 64) 0 @ be_bytes 8 (8 * length m)"

definition sha256_spec :: "byte list \<Rightarrow> byte list" where
  "sha256_spec m = concat (map (\<lambda>w. be_bytes 4 (unat w)) (sha_blocks (sha_pad m) kInitState))"

section \<open>Words and bytes\<close>

lemma RotR_rotr: "0 < n \<Longrightarrow> n < 32 \<Longrightarrow> RotR x n = word_rotr n x"
proof (rule bit_word_eqI)
  fix i assume n: "0 < n" "n < 32" and i: "i < LENGTH(32)"
  have m: "(i + n) mod 32 = (if i + n < 32 then i + n else i + n - 32)" using i n by (simp add: mod_if)
  have "\<not> bit x k" if "32 \<le> k" for k using that bit_imp_le_length [of x k] by auto
  then show "bit (RotR x n) i = bit (word_rotr n x) i"
    using n i m by (auto simp: RotR_def bit_word_rotr_iff bit_simps add.commute)
qed

lemma sha_functions:
  "Sigma0 x = sha_Sigma0 x" "Sigma1 x = sha_Sigma1 x" "sigma0 x = sha_sigma0 x" "sigma1 x = sha_sigma1 x"
  by (simp_all add: Sigma0_def Sigma1_def sigma0_def sigma1_def sha_Sigma0_def sha_Sigma1_def sha_sigma0_def sha_sigma1_def RotR_rotr)

lemma Round_sha: "Round (kK ! t) (sha_W block t) v = sha_round block t v"
  by (cases v) (simp add: Round_def sha_round_def Let_def sha_functions Ch_def Maj_def)

lemma ucast_div: "(ucast (drop_bit k v) :: byte) = word_of_nat (unat (v :: 'a::len word) div 2 ^ k)"
proof -
  have "(ucast (drop_bit k v) :: byte) = word_of_nat (unat (drop_bit k v))" by simp
  also have "unat (drop_bit k v) = drop_bit k (unat v)" by (rule unat_drop_bit_eq)
  finally show ?thesis by (simp only: drop_bit_eq_div)
qed

lemma upt_eight: "[0..<4] = [0, 1, 2, 3 :: nat]" "[0..<8] = [0, 1, 2, 3, 4, 5, 6, 7 :: nat]"
  by (simp_all add: upt_rec)

lemma StoreBE32_bytes: "StoreBE32 v = be_bytes 4 (unat v)"
  using ucast_div [of 24 v] ucast_div [of 16 v] ucast_div [of 8 v] ucast_div [of 0 v]
  by (simp add: StoreBE32_def be_bytes_def upt_eight)


lemma StoreBE64_bytes: "StoreBE64 v = be_bytes 8 (unat v)"
  using ucast_div [of 56 v] ucast_div [of 48 v] ucast_div [of 40 v] ucast_div [of 32 v]
    ucast_div [of 24 v] ucast_div [of 16 v] ucast_div [of 8 v] ucast_div [of 0 v]
  by (simp add: StoreBE64_def be_bytes_def upt_eight)

lemma be_bytes_mod: "be_bytes 8 (n mod 2 ^ 64) = be_bytes 8 n"
proof -
  have "(word_of_nat (n mod 2 ^ 64 div 256 ^ k) :: byte) = word_of_nat (n div 256 ^ k)" if "k < 8" for k
  proof -
    have p: "(256 :: nat) ^ k = 2 ^ (8 * k)" by (simp add: power_mult)
    have "take_bit 8 (drop_bit (8 * k) (take_bit 64 n)) = take_bit 8 (drop_bit (8 * k) n)"
      using that by (auto intro!: bit_eqI simp: bit_simps)
    then have "take_bit 8 (n mod 2 ^ 64 div 256 ^ k) = take_bit 8 (n div 256 ^ k)"
      by (simp only: p take_bit_eq_mod drop_bit_eq_div)
    then show ?thesis by (simp add: word_of_nat_eq_iff)
  qed
  then show ?thesis by (simp add: be_bytes_def)
qed

lemma length_bits: "unat (word_of_nat n * 8 :: u64) = (8 * n) mod 2 ^ 64"
proof -
  have "word_of_nat n * 8 = (word_of_nat (8 * n) :: u64)" by simp
  then show ?thesis by (simp only: unat_of_nat take_bit_eq_mod) simp
qed

lemma be_word_four:
  "be_word [a, b, c, d] = push_bit 24 (ucast a) OR push_bit 16 (ucast b) OR push_bit 8 (ucast c) OR ucast d"
proof -
  have "be_word [a, b, c, d] = push_bit 24 (ucast a) + push_bit 16 (ucast b) + push_bit 8 (ucast c) + ucast d"
    by (simp add: be_word_def push_bit_eq_mult algebra_simps)
  also have "\<dots> = push_bit 24 (ucast a) OR push_bit 16 (ucast b) OR push_bit 8 (ucast c) OR ucast d"
    by (subst disjoint_OR_plus, (auto simp: bit_simps dest!: bit_byte_less)[1])+ simp
  finally show ?thesis .
qed


lemma LoadBE32_word:
  assumes "4 \<le> length p"
  shows "LoadBE32 p = be_word (take 4 p)"
proof -
  have "take 4 p = [p ! 0, p ! 1, p ! 2, p ! 3]"
    by (rule nth_equalityI) (use assms in \<open>auto simp: less_Suc_eq numeral_eq_Suc\<close>)
  then show ?thesis by (simp only: be_word_four LoadBE32_def)
qed

section \<open>The software block function\<close>

lemma sha_W_take: "t < 64 \<Longrightarrow> 64 \<le> length b \<Longrightarrow> sha_W (take 64 b) t = sha_W b t"
proof (induction t rule: less_induct)
  case (less t)
  show ?case
  proof (cases "t < 16")
    case True
    then show ?thesis using less.prems by (simp add: sha_W.simps [of _ t] drop_take min_def)
  next
    case False
    have "sha_W (take 64 b) (t - k) = sha_W b (t - k)" if "0 < k" "k \<le> 16" for k
      by (rule less.IH) (use less.prems False that in auto)
    then show ?thesis using False by (simp add: sha_W.simps [of _ t])
  qed
qed

lemma fold_update_inv:
  assumes "P 0 w" "\<And>i w. i < n \<Longrightarrow> P i w \<Longrightarrow> P (Suc i) (f (m + i) w)"
  shows "P n (fold f [m..<m + n] w)"
  using assms by (induction n) auto

lemma load_schedule_W:
  assumes "64 \<le> length b" "length w = 64"
  shows "length (load_schedule b w) = 64 \<and> (\<forall>t < 16. load_schedule b w ! t = sha_W b t)"
proof -
  let ?P = "\<lambda>n w. length w = 64 \<and> (\<forall>t < n. w ! t = sha_W b t)"
  have "?P 16 (fold (\<lambda>i w. w[i := LoadBE32 (drop (i * 4) b)]) [0..<0 + 16] w)"
    by (rule fold_update_inv [where P = ?P])
       (use assms in \<open>auto simp: LoadBE32_word nth_list_update sha_W.simps less_Suc_eq mult.commute\<close>)
  then show ?thesis by (simp add: load_schedule_def)
qed

lemma expand_schedule_W:
  assumes "length w = 64" "\<forall>t < 16. w ! t = sha_W b t"
  shows "length (expand_schedule w) = 64 \<and> (\<forall>t < 64. expand_schedule w ! t = sha_W b t)"
proof -
  let ?f = "\<lambda>i w. w[i := sigma1 (w ! (i - 2)) + w ! (i - 7) + sigma0 (w ! (i - 15)) + w ! (i - 16)]"
  let ?P = "\<lambda>n w. length w = 64 \<and> (\<forall>t < 16 + n. w ! t = sha_W b t)"
  have p: "?P 48 (fold ?f [16..<16 + 48] w)"
  proof (rule fold_update_inv [where P = ?P])
    fix i and w :: "u32 list" assume i: "i < 48" and w: "?P i w"
    have "sha_W b (16 + i) = sigma1 (w ! (16 + i - 2)) + w ! (16 + i - 7) + sigma0 (w ! (16 + i - 15)) + w ! (16 + i - 16)"
      using w by (simp add: sha_W.simps [of b "16 + i"] sha_functions)
    then show "?P (Suc i) (?f (16 + i) w)" using i w by (auto simp: nth_list_update less_Suc_eq)
  qed (use assms in auto)
  have e: "16 + 48 = (64 :: nat)" by simp
  show ?thesis unfolding expand_schedule_def by (rule p [unfolded e])
qed

lemma rounds8_all: "fold (rounds8 w) [0, 8, 16, 24, 32, 40, 48, 56] v = fold (\<lambda>t. Round (kK ! t) (w ! t)) [0..<64] v"
proof -
  have "rounds8 w i v = fold (\<lambda>t. Round (kK ! t) (w ! t)) [i..<i + 8] v" for i v
  proof -
    have "[i..<i + 8] = map (\<lambda>j. j + i) [0..<8]" using map_add_upt [of i 8] by (simp only: add.commute)
    then have "[i..<i + 8] = [i, i + 1, i + 2, i + 3, i + 4, i + 5, i + 6, i + 7]" by (simp only: upt_eight list.map) simp
    then show ?thesis by (simp add: rounds8_def Let_def)
  qed
  note r = this
  have "fold (\<lambda>t. Round (kK ! t) (w ! t)) [0..<8 * n] v = fold (rounds8 w) (map ((*) 8) [0..<n]) v" for n
  proof (induction n)
    case (Suc n)
    have "[0..<8 * Suc n] = [0..<8 * n] @ [8 * n..<8 * n + 8]"
      using upt_add_eq_append [of 0 "8 * n" 8] by (simp only: mult_Suc_right add.commute)
    then show ?case by (simp only: fold_append comp_apply Suc r upt_Suc_append le0 map_append list.map fold_simps)
  qed simp
  from this [of 8] show ?thesis by (simp add: upt_eight)
qed

lemma process_block_compress:
  assumes "length w = 64" "64 \<le> length b" "length s = 8"
  shows "length (fst (process_block b (w, s))) = 64 \<and> snd (process_block b (w, s)) = sha_compress (take 64 b) s"
proof -
  let ?w = "expand_schedule (load_schedule b w)"
  have W: "length ?w = 64" "\<forall>t < 64. ?w ! t = sha_W b t"
    using load_schedule_W [OF assms(2,1)] expand_schedule_W [of "load_schedule b w" b] by auto
  have "fold (\<lambda>t. Round (kK ! t) (?w ! t)) [0..<64] v = fold (sha_round (take 64 b)) [0..<64] v" for v
    by (rule fold_cong) (use W(2) assms(2) in \<open>auto simp: fun_eq_iff sha_W_take simp flip: Round_sha\<close>)
  moreover obtain s0 s1 s2 s3 s4 s5 s6 s7 where "s = [s0, s1, s2, s3, s4, s5, s6, s7]"
    using assms(3) by (auto simp: numeral_eq_Suc length_Suc_conv)
  ultimately show ?thesis
    using W(1) unfolding process_block_def Let_def prod.case rounds8_all
    by (auto simp: sha_compress_def vars_of_def add_vars_def add.commute split: prod.splits)
qed

lemma length_sha_compress: "length s = 8 \<Longrightarrow> length (sha_compress b s) = 8"
  by (simp add: sha_compress_def split: prod.splits)

lemma sha_blocks_append: "64 dvd length a \<Longrightarrow> sha_blocks (a @ b) s = sha_blocks b (sha_blocks a s)"
proof (induction a s rule: sha_blocks.induct)
  case (1 a s)
  show ?case
  proof (cases "length a < 64")
    case True
    then have "a = []" using 1(2) by (auto dest: dvd_imp_le)
    then show ?thesis by (simp add: sha_blocks.simps [of "[]"])
  next
    case False
    have d: "64 dvd length (drop 64 a)" using 1(2) False by (simp add: dvd_diff_nat)
    show ?thesis
      using 1(1) [OF False d] False by (simp add: sha_blocks.simps [of "a @ b"] sha_blocks.simps [of a])
  qed
qed

lemma sha_blocks_one: "length a = 64 \<Longrightarrow> sha_blocks a s = sha_compress a s"
  by (simp add: sha_blocks.simps [of a] sha_blocks.simps [of "[]"])

lemma sha_blocks_Nil [simp]: "sha_blocks [] s = s"
  by (simp add: sha_blocks.simps)

lemma length_sha_blocks: "length s = 8 \<Longrightarrow> length (sha_blocks m s) = 8"
proof (induction m s rule: sha_blocks.induct)
  case (1 m s)
  then show ?case by (simp add: sha_blocks.simps [of m] length_sha_compress)
qed

lemma take_blocks: "64 * Suc n \<le> length d \<Longrightarrow> take (64 * Suc n) d = take (64 * n) d @ take 64 (drop (64 * n) d)"
  by (simp add: add.commute [of 64] take_add)

lemma sha_blocks_Suc:
  assumes "64 * Suc n \<le> length d"
  shows "sha_blocks (take (64 * Suc n) d) s = sha_compress (take 64 (drop (64 * n) d)) (sha_blocks (take (64 * n) d) s)"
  unfolding take_blocks [OF assms] using assms by (subst sha_blocks_append) (simp_all add: sha_blocks_one)

lemma software_blocks:
  assumes "length s = 8" "64 * n \<le> length d"
  shows "ProcessBlocksSoftware d n s = sha_blocks (take (64 * n) d) s"
proof -
  let ?F = "\<lambda>n. fold (\<lambda>blk. process_block (drop (blk * 64) d)) [0..<n] (replicate 64 0, s)"
  have "length (fst (?F n)) = 64 \<and> snd (?F n) = sha_blocks (take (64 * n) d) s" using assms(2)
  proof (induction n)
    case (Suc n)
    obtain w u where F: "?F n = (w, u)" by (cases "?F n")
    then have u: "length w = 64" "u = sha_blocks (take (64 * n) d) s" "length u = 8"
      using Suc length_sha_blocks [OF assms(1)] by auto
    have "?F (Suc n) = process_block (drop (64 * n) d) (w, u)" using F by (simp add: mult.commute)
    moreover have "sha_blocks (take (64 * Suc n) d) s = sha_compress (take 64 (drop (64 * n) d)) u"
      unfolding u(2) by (rule sha_blocks_Suc [OF Suc.prems])
    moreover have "64 \<le> length (drop (64 * n) d)" using Suc.prems by simp
    ultimately show ?case using process_block_compress [OF u(1) _ u(3)] by (simp only:)
  qed simp
  then show ?thesis by (simp add: ProcessBlocksSoftware_def)
qed

section \<open>The SHA-NI block function\<close>

text \<open>What the manual of the processor says of the three instructions.\<close>

definition two_rounds :: "u32 \<Rightarrow> u32 \<Rightarrow> vars \<Rightarrow> vars" where
  "two_rounds wk0 wk1 v = fold (\<lambda>wk (a, b, c, d, e, f, g, h).
     let T1 = ((e AND f) XOR (NOT e AND g)) + sha_Sigma1 e + wk + h;
         T2 = ((a AND b) XOR (a AND c) XOR (b AND c)) + sha_Sigma0 a in
     (T1 + T2, a, b, c, T1 + d, e, f, g)) [wk0, wk1] v"

definition doc_rnds2 :: "m128 \<Rightarrow> m128 \<Rightarrow> m128 \<Rightarrow> m128" where
  "doc_rnds2 x y k =
     (case two_rounds (lane0 k) (lane1 k) (lane3 y, lane2 y, lane3 x, lane2 x, lane1 y, lane0 y, lane1 x, lane0 x) of
        (a, b, c, d, e, f, g, h) \<Rightarrow> M128 a b e f)"

definition doc_msg1 :: "m128 \<Rightarrow> m128 \<Rightarrow> m128" where
  "doc_msg1 x y = M128 (lane3 x + sha_sigma0 (lane0 y)) (lane2 x + sha_sigma0 (lane3 x))
     (lane1 x + sha_sigma0 (lane2 x)) (lane0 x + sha_sigma0 (lane1 x))"

definition doc_msg2 :: "m128 \<Rightarrow> m128 \<Rightarrow> m128" where
  "doc_msg2 x y =
     (let W16 = lane0 x + sha_sigma1 (lane2 y); W17 = lane1 x + sha_sigma1 (lane3 y);
          W18 = lane2 x + sha_sigma1 W16; W19 = lane3 x + sha_sigma1 W17 in M128 W19 W18 W17 W16)"

definition sha_ni_ok :: "ShaNi option \<Rightarrow> bool" where
  "sha_ni_ok hw \<longleftrightarrow> (\<forall>ins. hw = Some ins \<longrightarrow>
     (\<forall>x y k. sha256rnds2 ins x y k = doc_rnds2 x y k) \<and> (\<forall>x y. sha256msg1 ins x y = doc_msg1 x y)
     \<and> (\<forall>x y. sha256msg2 ins x y = doc_msg2 x y))"

text \<open>Bytes and lanes.\<close>

lemma u32_bytes_back: "u32_of_bytes (bytes_of_u32 v @ r) = v"
proof (rule bit_word_eqI)
  fix n assume n: "n < LENGTH(32)"
  consider "n < 8" | "8 \<le> n" "n < 16" | "16 \<le> n" "n < 24" | "24 \<le> n" by linarith
  then show "bit (u32_of_bytes (bytes_of_u32 v @ r)) n = bit v n"
    using n by cases (auto simp: u32_of_bytes_def bytes_of_u32_def bit_simps)
qed

lemma length_bytes_of_u32 [simp]: "length (bytes_of_u32 v) = 4"
  by (simp add: bytes_of_u32_def)

lemma alignr_4: "mm_alignr_epi8 x y 4 = M128 (lane0 x) (lane3 y) (lane2 y) (lane1 y)"
proof -
  have "take 16 (drop 4 (bytes_of_m128 y @ bytes_of_m128 x))
      = bytes_of_u32 (lane1 y) @ bytes_of_u32 (lane2 y) @ bytes_of_u32 (lane3 y) @ bytes_of_u32 (lane0 x)"
    by (simp add: bytes_of_m128_def)
  then show ?thesis
    by (simp add: mm_alignr_epi8_def m128_of_bytes_def u32_bytes_back u32_bytes_back [where r = "[]", simplified])
qed

lemma shuffle_imm:
  "mm_shuffle_epi32 x 0x0E = M128 (lane0 x) (lane0 x) (lane3 x) (lane2 x)"
  "mm_shuffle_epi32 x 0xB1 = M128 (lane2 x) (lane3 x) (lane0 x) (lane1 x)"
  by (simp_all add: mm_shuffle_epi32_def lane_def)

lemma kShufMask_bytes: "bytes_of_m128 kShufMask = [3, 2, 1, 0, 7, 6, 5, 4, 11, 10, 9, 8, 15, 14, 13, 12]"
  by (simp add: kShufMask_def mm_set_epi64x_def bytes_of_m128_def bytes_of_u32_def)


lemma bytes_back_u32:
  assumes "length b = 4"
  shows "bytes_of_u32 (u32_of_bytes b) = b"
proof -
  obtain p q r t where b: "b = [p, q, r, t]" using assms by (auto simp: numeral_eq_Suc length_Suc_conv)
  show ?thesis unfolding b
    by (simp add: u32_of_bytes_def bytes_of_u32_def, intro conjI; rule bit_word_eqI; auto simp: bit_simps dest: bit_byte_less)
qed

lemma u32_of_bytes_take: "4 \<le> length b \<Longrightarrow> u32_of_bytes b = u32_of_bytes (take 4 b)"
  by (simp add: u32_of_bytes_def)

lemma bytes_of_load:
  assumes "16 \<le> length b"
  shows "bytes_of_m128 (mm_loadu_bytes b) = take 16 b"
proof -
  have e: "bytes_of_u32 (u32_of_bytes (drop k b)) = take 4 (drop k b)" if "k \<le> 12" for k
    using assms that bytes_back_u32 [of "take 4 (drop k b)"] u32_of_bytes_take [of "drop k b"] by simp
  have "take 16 b = take 4 b @ take 4 (drop 4 b) @ take 4 (drop 8 b) @ take 4 (drop 12 b)"
    using take_add [of 4 4 b] take_add [of 8 4 b] take_add [of 12 4 b] by simp
  then show ?thesis using e [of 0] e [of 4] e [of 8] e [of 12]
    by (simp add: bytes_of_m128_def mm_loadu_bytes_def m128_of_bytes_def)
qed

lemma shuffle_bytes:
  assumes "16 \<le> length b"
  shows "map (\<lambda>m. if bit m 7 then 0 else take 16 b ! unat (m AND 15)) [3, 2, 1, 0, 7, 6, 5, 4, 11, 10, 9, 8, 15, 14, 13, 12 :: byte]
    = [b ! 3, b ! 2, b ! 1, b ! 0, b ! 7, b ! 6, b ! 5, b ! 4, b ! 11, b ! 10, b ! 9, b ! 8, b ! 15, b ! 14, b ! 13, b ! 12]"
  by simp

lemma big_endian_lane: "u32_of_bytes (p # q # r # t # x) = LoadBE32 (t # r # q # p # y)"
  by (simp add: u32_of_bytes_def LoadBE32_def or.commute or.left_commute)

lemma LoadBE32_nth: "k + 4 \<le> length b \<Longrightarrow> LoadBE32 (drop k b) = LoadBE32 [b ! k, b ! (k + 1), b ! (k + 2), b ! (k + 3)]"
  by (simp add: LoadBE32_def)

lemma shuffle_load:
  assumes "16 \<le> length b"
  shows "mm_shuffle_epi8 (mm_loadu_bytes b) kShufMask = M128 (LoadBE32 (drop 12 b)) (LoadBE32 (drop 8 b)) (LoadBE32 (drop 4 b)) (LoadBE32 b)"
proof -
  have l: "LoadBE32 (drop 12 b) = LoadBE32 [b ! 12, b ! 13, b ! 14, b ! 15]" "LoadBE32 (drop 8 b) = LoadBE32 [b ! 8, b ! 9, b ! 10, b ! 11]"
    "LoadBE32 (drop 4 b) = LoadBE32 [b ! 4, b ! 5, b ! 6, b ! 7]" "LoadBE32 b = LoadBE32 [b ! 0, b ! 1, b ! 2, b ! 3]"
    using assms LoadBE32_nth [of 12 b] LoadBE32_nth [of 8 b] LoadBE32_nth [of 4 b] LoadBE32_nth [of 0 b]
    by (simp_all add: numeral_2_eq_2)
  have d: "drop 4 (a # b # c # d # r) = r" for a b c d :: byte and r by simp
  have d8: "drop 8 r = drop 4 (drop 4 r)" "drop 12 r = drop 4 (drop 4 (drop 4 r))" for r :: "byte list" by simp_all
  show ?thesis
    unfolding mm_shuffle_epi8_def bytes_of_load [OF assms] kShufMask_bytes shuffle_bytes [OF assms] m128_of_bytes_def l
    unfolding d8 d by (simp only: big_endian_lane [where y = "[]"])
qed


text \<open>The working variables after \<open>n\<close> rounds, packed in a register; the other register holds those of two rounds before.\<close>

definition after :: "byte list \<Rightarrow> vars \<Rightarrow> nat \<Rightarrow> vars" where
  "after b v n = fold (sha_round b) [0..<n] v"

definition abef :: "vars \<Rightarrow> m128" where
  "abef v = (case v of (a, b, c, d, e, f, g, h) \<Rightarrow> M128 a b e f)"

definition cdgh :: "vars \<Rightarrow> m128" where
  "cdgh v = (case v of (a, b, c, d, e, f, g, h) \<Rightarrow> M128 c d g h)"

lemma after_Suc: "after b v (Suc n) = sha_round b n (after b v n)"
  by (simp add: after_def)

lemma vars_cases: obtains a b c d e f g h where "(v :: vars) = (a, b, c, d, e, f, g, h)"
  by (cases v) auto

lemma cdgh_abef: "cdgh (after b v (Suc (Suc n))) = abef (after b v n)"
  by (cases "after b v n" rule: vars_cases) (simp add: after_Suc cdgh_def abef_def sha_round_def Let_def)

lemma doc_rnds2_after:
  assumes "lane0 k = sha_W b n + kK ! n" "lane1 k = sha_W b (Suc n) + kK ! Suc n"
  shows "doc_rnds2 (cdgh (after b v n)) (abef (after b v n)) k = abef (after b v (Suc (Suc n)))"
  using assms
  by (cases "after b v n" rule: vars_cases) (simp add: doc_rnds2_def two_rounds_def after_Suc cdgh_def abef_def sha_round_def Let_def add_ac)

definition Wq :: "byte list \<Rightarrow> nat \<Rightarrow> m128" where
  "Wq b q = M128 (sha_W b (4 * q + 3)) (sha_W b (4 * q + 2)) (sha_W b (4 * q + 1)) (sha_W b (4 * q))"

definition WK :: "byte list \<Rightarrow> nat \<Rightarrow> m128" where
  "WK b q = mm_add_epi32 (Wq b q) (mm_loadu_u32 kK (4 * q))"

lemma WK_lanes:
  "lane0 (WK b q) = sha_W b (4 * q) + kK ! (4 * q)" "lane1 (WK b q) = sha_W b (Suc (4 * q)) + kK ! Suc (4 * q)"
  "lane0 (mm_shuffle_epi32 (WK b q) 0x0E) = sha_W b (4 * q + 2) + kK ! (4 * q + 2)"
  "lane1 (mm_shuffle_epi32 (WK b q) 0x0E) = sha_W b (Suc (4 * q + 2)) + kK ! Suc (4 * q + 2)"
  by (simp_all add: WK_def Wq_def mm_add_epi32_def mm_loadu_u32_def shuffle_imm numeral_3_eq_3)

lemma rnds2_first: "doc_rnds2 (cdgh (after b v (4 * q))) (abef (after b v (4 * q))) (WK b q) = abef (after b v (4 * q + 2))"
  using doc_rnds2_after [OF WK_lanes(1,2) [of b q], of v] by simp

lemma rnds2_second:
  "doc_rnds2 (abef (after b v (4 * q))) (abef (after b v (4 * q + 2))) (mm_shuffle_epi32 (WK b q) 0x0E) = abef (after b v (4 * q + 4))"
  using doc_rnds2_after [OF WK_lanes(3,4) [of b q], of v] cdgh_abef [of b v "4 * q"] by (simp add: numeral_eq_Suc)

lemma sha_W_rec: "16 \<le> t \<Longrightarrow> sha_W b t = sha_sigma1 (sha_W b (t - 2)) + sha_W b (t - 7) + sha_sigma0 (sha_W b (t - 15)) + sha_W b (t - 16)"
  by (simp add: sha_W.simps [of b t])

lemma schedule_step:
  "doc_msg2 (mm_add_epi32 (doc_msg1 (Wq b q) (Wq b (q + 1))) (mm_alignr_epi8 (Wq b (q + 3)) (Wq b (q + 2)) 4)) (Wq b (q + 3))
    = Wq b (q + 4)"
proof -
  have "4 * (q + k) + j = 4 * q + (4 * k + j)" for k j by simp
  then show ?thesis
    using sha_W_rec [of "4 * q + 16" b] sha_W_rec [of "4 * q + 17" b] sha_W_rec [of "4 * q + 18" b] sha_W_rec [of "4 * q + 19" b]
    by (simp add: Wq_def doc_msg1_def doc_msg2_def alignr_4 mm_add_epi32_def Let_def add_ac)
qed

lemma rnds2_rules:
  "m = 4 * q \<Longrightarrow> m = n + 2 \<Longrightarrow> doc_rnds2 (abef (after b v n)) (abef (after b v m)) (WK b q) = abef (after b v (m + 2))"
  "m = 4 * q + 2 \<Longrightarrow> m = n + 2
    \<Longrightarrow> doc_rnds2 (abef (after b v n)) (abef (after b v m)) (mm_shuffle_epi32 (WK b q) 0x0E) = abef (after b v (m + 2))"
  using rnds2_first [of b v q] rnds2_second [of b v q] cdgh_abef [of b v n] by (auto simp: numeral_eq_Suc)

lemma WK_rule: "k = 4 * q \<Longrightarrow> mm_add_epi32 (Wq b q) (mm_loadu_u32 kK k) = WK b q"
  by (simp add: WK_def)

lemma schedule_rule:
  "p1 = p + 1 \<Longrightarrow> q1 = p + 2 \<Longrightarrow> q = p + 3
    \<Longrightarrow> doc_msg2 (mm_add_epi32 (doc_msg1 (Wq b p) (Wq b p1)) (mm_alignr_epi8 (Wq b q) (Wq b q1) 4)) (Wq b q) = Wq b (p + 4)"
  using schedule_step by simp

lemmas shani_rules = rnds2_rules WK_rule schedule_rule

definition regs_at :: "byte list \<Rightarrow> vars \<Rightarrow> nat \<Rightarrow> shani_regs" where
  "regs_at b v k = (Wq b (4 * k), doc_msg1 (Wq b (4 * k - 3)) (Wq b (4 * k - 2)), doc_msg1 (Wq b (4 * k - 2)) (Wq b (4 * k - 1)),
     Wq b (4 * k - 1), abef (after b v (16 * k)), abef (after b v (16 * k - 2)))"

lemma sha_ni_okD:
  assumes "sha_ni_ok (Some ins)"
  shows "sha256rnds2 ins x y k = doc_rnds2 x y k" "sha256msg1 ins x y = doc_msg1 x y" "sha256msg2 ins x y = doc_msg2 x y"
  using assms unfolding sha_ni_ok_def by auto

lemma rounds_0_15:
  assumes "sha_ni_ok (Some ins)"
  shows "shani_rounds_0_15 ins (Wq b 0, Wq b 1, Wq b 2, Wq b 3, abef (after b v 0), cdgh (after b v 0)) = regs_at b v 1"
proof -
  have first: "doc_rnds2 (cdgh (after b v 0)) (abef (after b v 0)) (WK b 0) = abef (after b v 2)"
    using rnds2_first [of b v 0] by (simp add: numeral_2_eq_2)
  show ?thesis
    unfolding shani_rounds_0_15_def regs_at_def sha_ni_okD [OF assms]
    by (simp add: Let_def first shani_rules cong: let_weak_cong)
qed

lemma rounds_16_31:
  assumes "sha_ni_ok (Some ins)"
  shows "shani_rounds_16_31 ins (regs_at b v 1) = regs_at b v 2"
  unfolding shani_rounds_16_31_def regs_at_def sha_ni_okD [OF assms] by (simp add: Let_def shani_rules cong: let_weak_cong)

lemma rounds_32_47:
  assumes "sha_ni_ok (Some ins)"
  shows "shani_rounds_32_47 ins (regs_at b v 2) = regs_at b v 3"
  unfolding shani_rounds_32_47_def regs_at_def sha_ni_okD [OF assms] by (simp add: Let_def shani_rules cong: let_weak_cong)

lemma rounds_48_63:
  assumes "sha_ni_ok (Some ins)"
  shows "\<exists>m0 m1 m2 m3. shani_rounds_48_63 ins (regs_at b v 3) = (m0, m1, m2, m3, abef (after b v 64), cdgh (after b v 64))"
  using cdgh_abef [of b v 62]
  unfolding shani_rounds_48_63_def regs_at_def sha_ni_okD [OF assms] by (simp add: Let_def shani_rules cong: let_weak_cong)


definition pack :: "u32 list \<Rightarrow> m128 \<times> m128" where
  "pack s = (abef (vars_of s), cdgh (vars_of s))"

lemma shani_enter_pack: "shani_enter s = pack s"
  by (simp add: shani_enter_def pack_def vars_of_def abef_def cdgh_def shuffle_imm mm_loadu_u32_def
        mm_unpacklo_epi64_def mm_unpackhi_epi64_def Let_def numeral_2_eq_2)

lemma shani_leave_pack:
  assumes "length s = 8"
  shows "shani_leave (pack s) = s"
proof -
  obtain a b c d e f g h where "s = [a, b, c, d, e, f, g, h]"
    using assms by (auto simp: numeral_eq_Suc length_Suc_conv)
  then show ?thesis
    by (simp add: shani_leave_def pack_def vars_of_def abef_def cdgh_def shuffle_imm mm_storeu_u32_def
          mm_unpacklo_epi64_def mm_unpackhi_epi64_def Let_def)
qed

lemma shani_load_W:
  assumes "64 \<le> length b"
  shows "shani_load b (x, y) = (Wq b 0, Wq b 1, Wq b 2, Wq b 3, x, y)"
proof -
  have w: "LoadBE32 (drop (4 * t) b) = sha_W b t" if "t < 16" for t
    using that assms LoadBE32_word [of "drop (4 * t) b"] by (simp add: sha_W.simps)
  have "mm_shuffle_epi8 (mm_loadu_bytes (drop (16 * q) b)) kShufMask = Wq b q" if "q < 4" for q
    using that assms w [of "4 * q"] w [of "4 * q + 1"] w [of "4 * q + 2"] w [of "4 * q + 3"]
    by (simp add: shuffle_load Wq_def add.commute)
  from this [of 0] this [of 1] this [of 2] this [of 3] show ?thesis
    by (simp add: shani_load_def)
qed

lemma after_take: "64 \<le> length b \<Longrightarrow> n \<le> 64 \<Longrightarrow> after (take 64 b) v n = after b v n"
proof (induction n)
  case (Suc n)
  have "sha_round (take 64 b) n = sha_round b n"
    using Suc.prems by (simp add: fun_eq_iff sha_round_def sha_W_take)
  then show ?case using Suc by (simp add: after_Suc)
qed (simp add: after_def)

lemma shani_block_compress:
  assumes ok: "sha_ni_ok (Some ins)" and b: "64 \<le> length b" and s: "length s = 8"
  shows "shani_block ins b (pack s) = pack (sha_compress (take 64 b) s)"
proof -
  let ?v = "vars_of s"
  obtain m0 m1 m2 m3 where r: "shani_rounds_48_63 ins (regs_at b ?v 3) = (m0, m1, m2, m3, abef (after b ?v 64), cdgh (after b ?v 64))"
    using rounds_48_63 [OF ok] by blast
  have v: "after b ?v 0 = ?v" by (simp add: after_def)
  have blk: "shani_block ins b (pack s)
      = (mm_add_epi32 (abef (after b ?v 64)) (abef ?v), mm_add_epi32 (cdgh (after b ?v 64)) (cdgh ?v))"
    using rounds_0_15 [OF ok, of b ?v] rounds_16_31 [OF ok, of b ?v] rounds_32_47 [OF ok, of b ?v] r
    by (simp add: shani_block_def pack_def shani_load_W [OF b] v)
  obtain s0 s1 s2 s3 s4 s5 s6 s7 where l: "s = [s0, s1, s2, s3, s4, s5, s6, s7]"
    using s by (auto simp: numeral_eq_Suc length_Suc_conv)
  obtain a b' c d e f g h where w: "after b ?v 64 = (a, b', c, d, e, f, g, h)" by (rule vars_cases)
  have "sha_compress (take 64 b) s = [a + s0, b' + s1, c + s2, d + s3, e + s4, f + s5, g + s6, h + s7]"
    using w after_take [OF b, of 64 ?v] by (simp add: sha_compress_def after_def vars_of_def l)
  then show ?thesis unfolding blk w by (simp add: pack_def vars_of_def abef_def cdgh_def mm_add_epi32_def l)
qed

lemma shani_blocks:
  assumes ok: "sha_ni_ok (Some ins)" and s: "length s = 8" and d: "64 * n \<le> length d"
  shows "ProcessBlocksShaNi ins d n s = sha_blocks (take (64 * n) d) s"
proof -
  have "fold (\<lambda>blk. shani_block ins (drop (blk * 64) d)) [0..<n] (pack s) = pack (sha_blocks (take (64 * n) d) s)" using d
  proof (induction n)
    case (Suc n)
    let ?u = "sha_blocks (take (64 * n) d) s"
    have u: "length ?u = 8" using length_sha_blocks [OF s] .
    have "64 \<le> length (drop (64 * n) d)" using Suc.prems by simp
    then have "shani_block ins (drop (64 * n) d) (pack ?u) = pack (sha_compress (take 64 (drop (64 * n) d)) ?u)"
      by (rule shani_block_compress [OF ok _ u])
    then show ?case using Suc sha_blocks_Suc [OF Suc.prems, of s] by (simp add: mult.commute)
  qed simp
  then show ?thesis
    unfolding ProcessBlocksShaNi_def shani_enter_pack using shani_leave_pack [OF length_sha_blocks [OF s]] by simp
qed

lemma ProcessBlocks_spec:
  "sha_ni_ok hw \<Longrightarrow> length s = 8 \<Longrightarrow> 64 * n \<le> length d \<Longrightarrow> ProcessBlocks hw d n s = sha_blocks (take (64 * n) d) s"
  by (cases hw) (simp_all add: ProcessBlocks_def software_blocks shani_blocks)

end
