(* ===== verification/Sha256Stream.thy ===== *)
theory Sha256Stream
  imports Sha256Blocks
begin

text \<open>
  The incremental hasher of \<open>src/Nova/Base/Sha256.cpp\<close>: buffering, padding and finalization against the hash of the whole
  message, the loop that hashes a file, and the constants against their definition in the standard.
\<close>

section \<open>The streaming interface\<close>

definition absorbed :: "byte list \<Rightarrow> byte list \<Rightarrow> Sha256 \<Rightarrow> bool" where
  "absorbed A R s \<longleftrightarrow> 64 dvd length A \<and> length R < 64 \<and> total_bytes s = word_of_nat (length A + length R)
     \<and> length (buffer s) = 64 \<and> buffer_size s = length R \<and> take (length R) (buffer s) = R
     \<and> state s = sha_blocks A kInitState"

definition sha_inv :: "byte list \<Rightarrow> Sha256 \<Rightarrow> bool" where
  "sha_inv m s \<longleftrightarrow> (\<exists>A R. m = A @ R \<and> absorbed A R s)"

lemma length_kInitState: "length kInitState = 8"
  by (simp add: kInitState_def)

lemma absorb_blocks:
  assumes "sha_ni_ok hw" "64 dvd length A" "64 * n \<le> length d"
  shows "ProcessBlocks hw d n (sha_blocks A kInitState) = sha_blocks (A @ take (64 * n) d) kInitState"
  using assms by (simp add: ProcessBlocks_spec length_sha_blocks length_kInitState sha_blocks_append)

lemma memcpy_at_take:
  "off + length src \<le> length dest \<Longrightarrow> take (off + length src) (memcpy_at off src dest) = take off dest @ src"
  "off + length src \<le> length dest \<Longrightarrow> length (memcpy_at off src dest) = length dest"
  by (simp_all add: memcpy_at_def)

definition update_tail :: "ShaNi option \<Rightarrow> byte list \<Rightarrow> Sha256 \<Rightarrow> Sha256" where
  "update_tail hw ptr s =
     (let (ptr, s) =
        (if length ptr \<ge> 64
         then (drop (length ptr div 64 * 64) ptr, s\<lparr>state := ProcessBlocks hw ptr (length ptr div 64) (state s)\<rparr>)
         else (ptr, s)) in
      if ptr \<noteq> [] then s\<lparr>buffer := memcpy_at 0 ptr (buffer s), buffer_size := length ptr\<rparr> else s)"

lemma update_tail_absorbed:
  assumes ok: "sha_ni_ok hw" and A: "64 dvd length A" and s: "length (buffer s) = 64" "buffer_size s = 0" "state s = sha_blocks A kInitState"
    and t: "total_bytes s = word_of_nat (length A + length ptr)"
  shows "\<exists>A' R'. A @ ptr = A' @ R' \<and> absorbed A' R' (update_tail hw ptr s)"
proof -
  let ?n = "length ptr div 64"
  let ?A = "A @ take (64 * ?n) ptr" and ?R = "drop (64 * ?n) ptr"
  have n: "64 * ?n \<le> length ptr" by simp
  have R: "length ?R < 64" "length ?R = length ptr mod 64" by (simp_all add: minus_mult_div_eq_mod)
  have st: "state (update_tail hw ptr s) = sha_blocks ?A kInitState"
    using absorb_blocks [OF ok A n] s(3) by (auto simp: update_tail_def Let_def)
  have "buffer_size (update_tail hw ptr s) = length ?R \<and> length (buffer (update_tail hw ptr s)) = 64
      \<and> take (length ?R) (buffer (update_tail hw ptr s)) = ?R"
  proof (cases "64 \<le> length ptr")
    case True
    then show ?thesis
      using s R(1) by (auto simp: update_tail_def Let_def memcpy_at_def mult.commute)
  next
    case False
    then show ?thesis using s by (auto simp: update_tail_def Let_def memcpy_at_def)
  qed
  moreover have "total_bytes (update_tail hw ptr s) = total_bytes s"
    by (simp add: update_tail_def Let_def)
  moreover have "64 dvd length ?A" using A n by (simp add: min_absorb2)
  ultimately have "absorbed ?A ?R (update_tail hw ptr s)"
    using st R(1) t n unfolding absorbed_def by (simp add: min_absorb2)
  then show ?thesis by (metis append_assoc append_take_drop_id)
qed

lemma Sha256_Update_empty: "data \<noteq> [] \<Longrightarrow> buffer_size s = 0
   \<Longrightarrow> Sha256_Update hw data s = update_tail hw data (s\<lparr>total_bytes := total_bytes s + word_of_nat (length data)\<rparr>)"
  by (simp add: Sha256_Update_def update_tail_def kBlockSize_def Let_def)

lemma Sha256_Update_fits:
  assumes "data \<noteq> []" "buffer_size s \<noteq> 0" "buffer_size s + length data < 64"
  shows "Sha256_Update hw data s = s\<lparr>total_bytes := total_bytes s + word_of_nat (length data),
      buffer := memcpy_at (buffer_size s) data (buffer s), buffer_size := buffer_size s + length data\<rparr>"
  using assms by (simp add: Sha256_Update_def kBlockSize_def Let_def min_def)

lemma Sha256_Update_fills:
  assumes "data \<noteq> []" "buffer_size s \<noteq> 0" "buffer_size s < 64" "64 \<le> buffer_size s + length data"
  defines "n \<equiv> 64 - buffer_size s"
  defines "b \<equiv> memcpy_at (buffer_size s) (take n data) (buffer s)"
  shows "Sha256_Update hw data s = update_tail hw (drop n data)
     (s\<lparr>total_bytes := total_bytes s + word_of_nat (length data), buffer := b, buffer_size := 0, state := ProcessBlocks hw b 1 (state s)\<rparr>)"
proof -
  have "min n (length data) = n" "buffer_size s + n = 64" using assms(3,4) by (simp_all add: n_def)
  then show ?thesis
    using assms(1,2) by (simp add: Sha256_Update_def update_tail_def kBlockSize_def Let_def b_def flip: n_def)
qed

lemma Update_sha_inv:
  assumes ok: "sha_ni_ok hw" and inv: "sha_inv m s"
  shows "sha_inv (m @ data) (Sha256_Update hw data s)"
proof (cases "data = []")
  case True
  then show ?thesis using inv by (simp add: Sha256_Update_def)
next
  case False
  obtain A R where m: "m = A @ R" and a: "absorbed A R s" using inv unfolding sha_inv_def by blast
  note a' = a [unfolded absorbed_def]
  consider (empty) "R = []" | (fits) "R \<noteq> []" "length R + length data < 64" | (fills) "R \<noteq> []" "64 \<le> length R + length data"
    by linarith
  then show ?thesis
  proof cases
    case empty
    then show ?thesis
      using update_tail_absorbed [OF ok, of A "s\<lparr>total_bytes := total_bytes s + word_of_nat (length data)\<rparr>" data] a' m
        Sha256_Update_empty [OF False, of s hw]
      unfolding sha_inv_def by simp
  next
    case fits
    have "absorbed A (R @ data) (Sha256_Update hw data s)"
      using a' fits Sha256_Update_fits [OF False, of s hw] memcpy_at_take [of "length R" data "buffer s"]
      unfolding absorbed_def by simp
    then show ?thesis unfolding sha_inv_def m by (metis append_assoc)
  next
    case fills
    let ?n = "64 - length R" and ?A = "A @ R @ take (64 - length R) data"
    let ?b = "memcpy_at (length R) (take ?n data) (buffer s)"
    let ?s = "s\<lparr>total_bytes := total_bytes s + word_of_nat (length data), buffer := ?b, buffer_size := 0,
       state := ProcessBlocks hw ?b 1 (state s)\<rparr>"
    have n: "length (take ?n data) = ?n" using fills(2) by simp
    have b: "?b = R @ take ?n data" "length ?b = 64"
      using a' n fills(2) memcpy_at_take [of "length R" "take ?n data" "buffer s"] by (simp_all add: memcpy_at_def)
    have A: "64 dvd length ?A" using a' n by simp
    have st: "ProcessBlocks hw ?b 1 (state s) = sha_blocks ?A kInitState"
      using a' absorb_blocks [OF ok, of A 1 ?b] b by simp
    have "\<exists>A' R'. ?A @ drop ?n data = A' @ R' \<and> absorbed A' R' (update_tail hw (drop ?n data) ?s)"
      by (rule update_tail_absorbed [OF ok A]) (use a' b st n fills(2) in \<open>simp_all add: algebra_simps flip: of_nat_add\<close>)
    moreover have "Sha256_Update hw data s = update_tail hw (drop ?n data) ?s"
      using Sha256_Update_fills [OF False, of s hw] a' fills by simp
    ultimately show ?thesis unfolding sha_inv_def m by simp
  qed
qed

lemma Update_chunks: "sha_ni_ok hw \<Longrightarrow> sha_inv m s \<Longrightarrow> sha_inv (m @ concat chunks) (fold (Sha256_Update hw) chunks s)"
proof (induction chunks arbitrary: m s)
  case (Cons c cs)
  then show ?case using Cons.IH [OF Cons.prems(1) Update_sha_inv [OF Cons.prems, of c]] by simp
qed simp

lemma sha_inv_new: "sha_inv [] Sha256_new"
  unfolding sha_inv_def absorbed_def by (auto simp: Sha256_new_def kBlockSize_def)

section \<open>Finalization\<close>

lemma digest_bytes: "length H = 8 \<Longrightarrow> concat (map (\<lambda>i. StoreBE32 (H ! i)) [0..<8]) = concat (map (\<lambda>w. be_bytes 4 (unat w)) H)"
proof -
  assume "length H = 8"
  then have "map (\<lambda>w. be_bytes 4 (unat w)) H = map (\<lambda>i. be_bytes 4 (unat (H ! i))) [0..<8]"
    by (metis (no_types, lifting) map_nth map_map comp_def map_cong)
  then show ?thesis by (simp add: StoreBE32_bytes)
qed

lemma length_be_bytes [simp]: "length (be_bytes k n) = k"
  by (simp add: be_bytes_def)

lemma total_bits_bytes: "StoreBE64 (word_of_nat n * 8) = be_bytes 8 (8 * n)"
  by (simp only: StoreBE64_bytes length_bits be_bytes_mod)

definition last_block :: "byte list \<Rightarrow> nat \<Rightarrow> byte list" where
  "last_block R n = R @ replicate (56 - length R) 0 @ be_bytes 8 (8 * n)"

lemma finalize_last:
  fixes n :: nat
  assumes ok: "sha_ni_ok hw" and A: "64 dvd length A" and b: "length (buffer s) = 64" "length R \<le> 56" "take (length R) (buffer s) = R"
    and s: "buffer_size s = length R" "state s = sha_blocks A kInitState"
  defines "b1 \<equiv> memcpy_at (buffer_size s) (replicate (56 - buffer_size s) 0) (buffer s)"
  defines "b2 \<equiv> memcpy_at 56 (StoreBE64 (word_of_nat n * 8)) b1"
  shows "ProcessBlocks hw b2 1 (state s) = sha_blocks (A @ last_block R n) kInitState"
proof -
  have "length b1 = 64" "take 56 b1 = R @ replicate (56 - length R) 0"
    using memcpy_at_take [of "length R" "replicate (56 - length R) 0" "buffer s"] b s by (simp_all add: b1_def)
  then have "b2 = last_block R n"
    by (simp add: b2_def memcpy_at_def last_block_def total_bits_bytes)
  moreover have "length (last_block R n) = 64" using b(2) by (simp add: last_block_def)
  ultimately show ?thesis using absorb_blocks [OF ok A, of 1 b2] s(2) by simp
qed

lemma Finalize_spec:
  assumes ok: "sha_ni_ok hw" and inv: "sha_inv m s"
  shows "fst (Sha256_Finalize hw s) = sha256_spec m \<and> sha_inv [] (snd (Sha256_Finalize hw s))"
proof -
  obtain A R where m: "m = A @ R" and a: "absorbed A R s" using inv unfolding sha_inv_def by blast
  note a' = a [unfolded absorbed_def]
  have r: "length m mod 64 = length R" using a' m by (metis dvd_imp_mod_0 length_append mod_add_left_eq mod_less add_0)
  define s1 where "s1 = s\<lparr>buffer := (buffer s)[length R := 0x80], buffer_size := length R + 1\<rparr>"
  have s1: "length (buffer s1) = 64" "take (length R + 1) (buffer s1) = R @ [0x80]" "buffer_size s1 = length R + 1"
    "state s1 = sha_blocks A kInitState"
    using a' by (auto simp: s1_def take_Suc_conv_app_nth take_update_cancel)
  define s2 where "s2 = (if buffer_size s1 > 56 then
       let b = memcpy_at (buffer_size s1) (replicate (64 - buffer_size s1) 0) (buffer s1) in
       s1\<lparr>buffer := b, state := ProcessBlocks hw b 1 (state s1), buffer_size := 0\<rparr> else s1)"
  define b1 where "b1 = memcpy_at (buffer_size s2) (replicate (56 - buffer_size s2) 0) (buffer s2)"
  define b2 where "b2 = memcpy_at 56 (StoreBE64 (word_of_nat (length m) * 8)) b1"
  have fin: "Sha256_Finalize hw s =
      (concat (map (\<lambda>i. StoreBE32 (ProcessBlocks hw b2 1 (state s2) ! i)) [0..<8]),
       s2\<lparr>buffer := b2, state := kInitState, total_bytes := 0, buffer_size := 0\<rparr>)"
    using a' m
    by (simp add: Sha256_Finalize_def Let_def b1_def b2_def s2_def s1_def kBlockSize_def del: upt_Suc)
  obtain A2 R2 where A2: "64 dvd length A2" "length R2 \<le> 56" "take (length R2) (buffer s2) = R2" "buffer_size s2 = length R2"
    "state s2 = sha_blocks A2 kInitState" "length (buffer s2) = 64" "A2 @ last_block R2 (length m) = sha_pad m"
  proof (cases "length R + 1 > 56")
    case False
    have "(119 - length R) mod 64 = 55 - length R" using False by (simp add: mod_if)
    then have p: "A @ last_block (R @ [0x80]) (length m) = sha_pad m"
      unfolding last_block_def sha_pad_def r by (simp add: m)
    show thesis by (rule that [of A "R @ [0x80]"]) (use a' s1 False p in \<open>simp_all add: s2_def\<close>)
  next
    case True
    let ?b = "memcpy_at (length R + 1) (replicate (63 - length R) 0) (buffer s1)"
    have R: "length R < 64" using a' by simp
    have b: "?b = R @ [0x80] @ replicate (63 - length R) 0"
      using s1 R by (simp add: memcpy_at_def)
    then have "ProcessBlocks hw ?b 1 (state s1) = sha_blocks (A @ ?b) kInitState"
      using absorb_blocks [OF ok, of A 1 ?b] a' s1(4) R by simp
    then have st: "state s2 = sha_blocks (A @ ?b) kInitState" "buffer_size s2 = 0" "buffer s2 = ?b"
      using True s1(3) by (simp_all add: s2_def Let_def)
    have "(119 - length R) mod 64 = (63 - length R) + 56" using True R by (simp add: mod_if)
    then have z: "replicate ((119 - length R) mod 64) 0 = replicate (63 - length R) 0 @ replicate 56 (0 :: byte)"
      by (simp only: replicate_add)
    have p: "(A @ ?b) @ last_block [] (length m) = sha_pad m"
      unfolding b last_block_def sha_pad_def r z by (simp add: m)
    moreover have "length ?b = 64" using R unfolding b by simp
    ultimately show thesis by (intro that [of "A @ ?b" "[]"]) (use a' st in simp_all)
  qed
  have H: "ProcessBlocks hw b2 1 (state s2) = sha_blocks (sha_pad m) kInitState"
    unfolding b2_def b1_def using finalize_last [OF ok A2(1) A2(6) A2(2,3) A2(4,5), of "length m"] A2(7) by simp
  have "length b2 = 64"
    using A2 memcpy_at_take(2) [of "length R2" "replicate (56 - length R2) 0" "buffer s2"]
    by (simp add: b2_def b1_def memcpy_at_def StoreBE64_def)
  then have "sha_inv [] (snd (Sha256_Finalize hw s))"
    unfolding sha_inv_def absorbed_def fin by (intro exI [of _ "[]"]) simp
  moreover have "fst (Sha256_Finalize hw s) = sha256_spec m"
    unfolding fin H sha256_spec_def fst_conv by (rule digest_bytes [OF length_sha_blocks [OF length_kInitState]])
  ultimately show ?thesis by blast
qed


section \<open>Files\<close>

lemma stream_read_result:
  assumes "stream_read n f = (got, st, f')"
  shows "st = Eof \<Longrightarrow> got = rest f"
    and "st = Good \<Longrightarrow> rest f = got @ rest f' \<and> (bad_after f = None \<longrightarrow> bad_after f' = None)"
    and "bad_after f = None \<Longrightarrow> st \<noteq> Bad"
    and "0 < n \<Longrightarrow> bad_after f = Some b \<Longrightarrow> b \<le> length (rest f) \<Longrightarrow> st = Bad
      \<or> st = Good \<and> bad_after f' = Some (b - n) \<and> b - n \<le> length (rest f')"
  using assms by (auto simp: stream_read_def Let_def split: option.splits if_splits)

lemma file_loop_spec:
  assumes "sha_ni_ok hw"
  shows "sha_inv m s \<Longrightarrow> file_loop hw path f s = Inr s' \<Longrightarrow> sha_inv (m @ rest f) s'"
    and "bad_after f = None \<Longrightarrow> \<exists>s'. file_loop hw path f s = Inr s'"
    and "bad_after f = Some b \<Longrightarrow> b \<le> length (rest f)
      \<Longrightarrow> file_loop hw path f s = Inl (RuntimeErrorExn (''Failed while reading file for SHA-256: '' @ path))"
proof -
  have "(sha_inv m s \<longrightarrow> file_loop hw path f s = Inr s' \<longrightarrow> sha_inv (m @ rest f) s')
      \<and> (bad_after f = None \<longrightarrow> (\<exists>s'. file_loop hw path f s = Inr s'))
      \<and> (\<forall>b. bad_after f = Some b \<longrightarrow> b \<le> length (rest f)
          \<longrightarrow> file_loop hw path f s = Inl (RuntimeErrorExn (''Failed while reading file for SHA-256: '' @ path)))"
    (is "?P m f s s'") for m f s s'
    using assms
  proof (induction hw path f s arbitrary: m s' rule: file_loop.induct)
    case (1 hw path f s)
    obtain got st f' where r: "stream_read kBufferSize f = (got, st, f')" by (cases "stream_read kBufferSize f")
    define s1 where "s1 = (if got \<noteq> [] then Sha256_Update hw got s else s)"
    have s1: "sha_inv m s \<Longrightarrow> sha_inv (m @ got) s1"
      using Update_sha_inv [OF 1(2), of m s got] by (simp add: s1_def)
    have eq: "file_loop hw path f s = (case st of Good \<Rightarrow> file_loop hw path f' s1 | Eof \<Rightarrow> Inr s1
        | Bad \<Rightarrow> Inl (RuntimeErrorExn (''Failed while reading file for SHA-256: '' @ path)))"
      by (subst file_loop.simps) (simp only: r s1_def Let_def prod.case)
    note R = stream_read_result [OF r]
    have k: "0 < kBufferSize" by (simp add: kBufferSize_def)
    show ?case
    proof (cases st)
      case Good
      have IH: "(sha_inv (m @ got) s1 \<longrightarrow> file_loop hw path f' s1 = Inr s' \<longrightarrow> sha_inv ((m @ got) @ rest f') s')
        \<and> (bad_after f' = None \<longrightarrow> (\<exists>s'. file_loop hw path f' s1 = Inr s'))
        \<and> (\<forall>b. bad_after f' = Some b \<longrightarrow> b \<le> length (rest f')
          \<longrightarrow> file_loop hw path f' s1 = Inl (RuntimeErrorExn (''Failed while reading file for SHA-256: '' @ path)))"
        by (rule 1(1) [OF r [symmetric] refl refl s1_def Good 1(2)])
      then show ?thesis
        using R(2) [OF Good] R(4) [OF k] s1 Good unfolding eq by auto
    next
      case Eof
      then show ?thesis using R(1) [OF Eof] R(4) [OF k] s1 unfolding eq by auto
    next
      case Bad
      then show ?thesis using R(3) unfolding eq by auto
    qed
  qed
  then show "sha_inv m s \<Longrightarrow> file_loop hw path f s = Inr s' \<Longrightarrow> sha_inv (m @ rest f) s'"
    and "bad_after f = None \<Longrightarrow> \<exists>s'. file_loop hw path f s = Inr s'"
    and "bad_after f = Some b \<Longrightarrow> b \<le> length (rest f)
      \<Longrightarrow> file_loop hw path f s = Inl (RuntimeErrorExn (''Failed while reading file for SHA-256: '' @ path))"
    by blast+
qed

section \<open>The constants\<close>

definition first_primes :: "int list" where
  "first_primes = [2, 3, 5, 7, 11, 13, 17, 19, 23, 29, 31, 37, 41, 43, 47, 53, 59, 61, 67, 71, 73, 79, 83, 89, 97, 101, 103, 107, 109, 113, 127, 131, 137, 139, 149, 151, 157, 163, 167, 173, 179, 181, 191, 193, 197, 199, 211, 223, 227, 229, 233, 239, 241, 251, 257, 263, 269, 271, 277, 281, 283, 293, 307, 311]"

text \<open>The first 32 bits of the fractional part of the \<open>d\<close>-th root of \<open>p\<close>: with the integral part \<open>q\<close> (at most 6 here), the word is
  the largest \<open>k\<close> with \<open>((2 ^ 32 * q + k) / 2 ^ 32) ^ d \<le> p\<close>.\<close>

definition root_fraction :: "nat \<Rightarrow> int \<Rightarrow> u32 \<Rightarrow> bool" where
  "root_fraction d p w = list_ex (\<lambda>q. q ^ d \<le> p \<and> p < (q + 1) ^ d
     \<and> (2 ^ 32 * q + uint w) ^ d \<le> p * 2 ^ (32 * d) \<and> p * 2 ^ (32 * d) < (2 ^ 32 * q + uint w + 1) ^ d)
     [1, 2, 3, 4, 5, 6]"

section \<open>Properties\<close>

definition doc_instructions :: ShaNi where
  "doc_instructions = \<lparr>sha256rnds2 = doc_rnds2, sha256msg1 = doc_msg1, sha256msg2 = doc_msg2\<rparr>"

lemma doc_instructions_ok: "sha_ni_ok (Some doc_instructions)"
  by (simp add: sha_ni_ok_def doc_instructions_def)

text \<open>C39: However a message is cut into pieces, feeding them to \<open>Update\<close> and calling \<open>Finalize\<close> gives the SHA-256 digest of the
  whole message, in software and with SHA-NI, and the hasher can be used again for another message.\<close>

theorem sha256_streaming:
  assumes "sha_ni_ok hw"
  shows "fst (Sha256_Finalize hw (fold (Sha256_Update hw) chunks Sha256_new)) = sha256_spec (concat chunks)
    \<and> fst (Sha256_Finalize hw (fold (Sha256_Update hw) chunks2 (snd (Sha256_Finalize hw (fold (Sha256_Update hw) chunks Sha256_new)))))
      = sha256_spec (concat chunks2)"
proof -
  have i: "sha_inv (concat chunks) (fold (Sha256_Update hw) chunks Sha256_new)"
    using Update_chunks [OF assms sha_inv_new, of chunks] by simp
  note F = Finalize_spec [OF assms i]
  have "sha_inv (concat chunks2) (fold (Sha256_Update hw) chunks2 (snd (Sha256_Finalize hw (fold (Sha256_Update hw) chunks Sha256_new))))"
    using Update_chunks [OF assms conjunct2 [OF F], of chunks2] by simp
  then show ?thesis using F Finalize_spec [OF assms] by blast
qed

theorem sha256_streaming_witness:
  "fst (Sha256_Finalize (Some doc_instructions) (fold (Sha256_Update (Some doc_instructions)) [[0x61], [], [0x62, 0x63]] Sha256_new))
    = sha256_spec [0x61, 0x62, 0x63]"
  using sha256_streaming [OF doc_instructions_ok, of "[[0x61], [], [0x62, 0x63]]" "[]"] by simp

text \<open>C40: With instructions that do what the manual says, the SHA-NI block function computes the state that the
  software block function computes.\<close>

theorem sha_ni_equivalent:
  assumes "sha_ni_ok (Some ins)" "length s = 8" "64 * block_count \<le> length data"
  shows "ProcessBlocksShaNi ins data block_count s = ProcessBlocksSoftware data block_count s"
  using assms by (simp add: shani_blocks software_blocks)

theorem sha_ni_equivalent_witness:
  "ProcessBlocksShaNi doc_instructions (replicate 128 7) 2 kInitState = ProcessBlocksSoftware (replicate 128 7) 2 kInitState"
  by (rule sha_ni_equivalent [OF doc_instructions_ok]) (simp_all add: length_kInitState)

text \<open>\<open>ComputeFileSha256\<close> terminates with the digest of the contents of the file when every read succeeds, and reports an
  error when the file cannot be opened or when a read fails; it never returns the digest of a part of the file.\<close>

theorem file_sha256:
  assumes "sha_ni_ok hw"
  shows "ComputeFileSha256 hw path None = Inl (RuntimeErrorExn (''Failed to open file for SHA-256: '' @ path))
    \<and> (\<forall>f. bad_after f = None \<longrightarrow> ComputeFileSha256 hw path (Some f) = Inr (sha256_spec (rest f)))
    \<and> (\<forall>f b. bad_after f = Some b \<and> b \<le> length (rest f) \<longrightarrow>
        ComputeFileSha256 hw path (Some f) = Inl (RuntimeErrorExn (''Failed while reading file for SHA-256: '' @ path)))"
proof (intro conjI allI impI)
  fix f :: ifstream assume "bad_after f = None"
  then obtain s' where s': "file_loop hw path f Sha256_new = Inr s'" using file_loop_spec(2) [OF assms] by blast
  have "sha_inv ([] @ rest f) s'" by (rule file_loop_spec(1) [OF assms sha_inv_new s'])
  then show "ComputeFileSha256 hw path (Some f) = Inr (sha256_spec (rest f))"
    using Finalize_spec [OF assms] s' by (simp add: ComputeFileSha256_def)
qed (auto simp: ComputeFileSha256_def file_loop_spec(3) [OF assms])

theorem file_sha256_witness:
  "ComputeFileSha256 (Some doc_instructions) ''p'' (Some \<lparr>rest = [1, 2], bad_after = None\<rparr>) = Inr (sha256_spec [1, 2])
    \<and> ComputeFileSha256 (Some doc_instructions) ''p'' (Some \<lparr>rest = [1, 2], bad_after = Some 1\<rparr>)
      = Inl (RuntimeErrorExn (''Failed while reading file for SHA-256: '' @ ''p''))"
  using file_sha256 [OF doc_instructions_ok, of "''p''"] by simp

text \<open>The round constants are the fractions of the cube roots of the first 64 primes, and the initial state those of the
  square roots of the first eight, as the standard prescribes.\<close>

theorem sha_constants:
  "list_all2 (root_fraction 3) first_primes kK \<and> list_all2 (root_fraction 2) (take 8 first_primes) kInitState"
  by code_simp

end
