(* ===== verification/EventDht.thy ===== *)
theory EventDht
  imports EventRecord Kademlia "HOL-Library.Multiset"
begin

text \<open>
  The event index of \<open>src/Blocxxi/P2P/event_dht.cpp\<close>: the local store of signed event records, their exchange
  as bencoded dictionaries, and the publisher and the query over DHT routers and peers. The network is
  a parameter (what a request is answered with), as are the clock and \<open>std::sort\<close>, which takes the
  comparison of the code and is only required to sort by it; the unordered map is kept in the order
  of insertion, which no property depends on.
\<close>

section \<open>Queries and published events\<close>

record EventQuery =
  q_deterministic_key :: "string option"
  q_event_type :: "string option"
  q_taxonomy :: "string option"
  q_window_start_utc :: "i64 option"
  q_window_end_utc :: "i64 option"
  q_identifiers :: "string list"
  q_limit :: nat

record PublishedEvent =
  dht_key :: string
  pe_info_hash :: hash
  pe_record :: SignedEventRecord
  pe_published_at_utc :: i64
  publish_count :: u32

record PublishResult =
  pr_dht_key :: string
  pr_info_hash :: hash
  pr_inserted :: bool
  pr_duplicate :: bool

definition PublishResult_default :: PublishResult where
  "PublishResult_default = \<lparr>pr_dht_key = '''', pr_info_hash = replicate 20 0, pr_inserted = False, pr_duplicate = False\<rparr>"

definition EventQuery_for :: "string \<Rightarrow> nat \<Rightarrow> EventQuery" where
  "EventQuery_for key lim = \<lparr>q_deterministic_key = Some key, q_event_type = None, q_taxonomy = None,
     q_window_start_utc = None, q_window_end_utc = None, q_identifiers = [], q_limit = lim\<rparr>"

definition DeriveInfoHash :: "string \<Rightarrow> hash" where
  "DeriveInfoHash key = take 20 (MakeId key)"

definition MatchesIdentifiers :: "SignedEventRecord \<Rightarrow> string list \<Rightarrow> bool" where
  "MatchesIdentifiers r ids =
     (if ids = [] then True else list_all (\<lambda>expected. expected \<in> set (identifiers (envelope r))) ids)"

definition MatchesQuery :: "PublishedEvent \<Rightarrow> EventQuery \<Rightarrow> bool" where
  "MatchesQuery p q =
     (let e = envelope (pe_record p) in
      if (case q_deterministic_key q of Some k \<Rightarrow> dht_key p \<noteq> k | None \<Rightarrow> False) then False
      else if (case q_event_type q of Some k \<Rightarrow> event_type e \<noteq> k | None \<Rightarrow> False) then False
      else if (case q_taxonomy q of Some k \<Rightarrow> taxonomy e \<noteq> k | None \<Rightarrow> False) then False
      else if (case q_window_start_utc q of Some s \<Rightarrow> sint (end_utc (window e)) < sint s | None \<Rightarrow> False) then False
      else if (case q_window_end_utc q of Some s \<Rightarrow> sint (start_utc (window e)) > sint s | None \<Rightarrow> False) then False
      else MatchesIdentifiers (pe_record p) (q_identifiers q))"

definition SamePublishedRecord :: "PublishedEvent \<Rightarrow> PublishedEvent \<Rightarrow> bool" where
  "SamePublishedRecord l r \<longleftrightarrow> dht_key l = dht_key r \<and> signature_hex (pe_record l) = signature_hex (pe_record r)
     \<and> signer_public_key_hex (pe_record l) = signer_public_key_hex (pe_record r)"

fun MergePublishedRecord :: "PublishedEvent list \<Rightarrow> PublishedEvent \<Rightarrow> bool \<times> PublishedEvent list" where
  "MergePublishedRecord [] p = (True, [p])"
| "MergePublishedRecord (x # xs) p =
     (if SamePublishedRecord x p then (False, p # xs)
      else let (fresh, ys) = MergePublishedRecord xs p in (fresh, x # ys))"

section \<open>Records as bencode values\<close>

definition strings_ToValue :: "string list \<Rightarrow> Value" where
  "strings_ToValue values = BList (map BString values)"

definition attributes_ToValue :: "EventAttribute list \<Rightarrow> Value" where
  "attributes_ToValue as = BList (map (\<lambda>a. BDictionary (map_init
     [(''key'', BString (attr_key a)), (''value'', BString (attr_value a))])) as)"

definition envelope_ToValue :: "EventEnvelope \<Rightarrow> Value" where
  "envelope_ToValue e = BDictionary (map_init
     [(''schema'', BString (schema e)),
      (''event_type'', BString (event_type e)),
      (''taxonomy'', BString (taxonomy e)),
      (''source'', BString (env_source e)),
      (''producer'', BString (producer e)),
      (''window_start'', BInteger (start_utc (window e))),
      (''window_end'', BInteger (end_utc (window e))),
      (''observed_at'', BInteger (observed_at_utc e)),
      (''published_at'', BInteger (published_at_utc e)),
      (''identifiers'', strings_ToValue (identifiers e)),
      (''attributes'', attributes_ToValue (attributes e)),
      (''summary'', BString (summary e)),
      (''payload'', BString (map char_of_byte (env_payload e)))])"

definition record_ToValue :: "SignedEventRecord \<Rightarrow> Value" where
  "record_ToValue r = BDictionary (map_init
     [(''envelope'', envelope_ToValue (envelope r)),
      (''signer_name'', BString (signer_name r)),
      (''signer_public_key_hex'', BString (signer_public_key_hex r)),
      (''signature_hex'', BString (signature_hex r))])"

definition OptString :: "(string, Value) std_map \<Rightarrow> string \<Rightarrow> string option res" where
  "OptString values key = (case map_find values key of None \<Rightarrow> Inr None | Some v \<Rightarrow> rbind (AsString v) (\<lambda>s. Inr (Some s)))"

definition OptInteger :: "(string, Value) std_map \<Rightarrow> string \<Rightarrow> i64 option res" where
  "OptInteger values key = (case map_find values key of None \<Rightarrow> Inr None | Some v \<Rightarrow> rbind (AsInteger v) (\<lambda>s. Inr (Some s)))"

fun parse_attribute_list :: "Value list \<Rightarrow> EventAttribute list \<Rightarrow> EventAttribute list option res" where
  "parse_attribute_list [] acc = Inr (Some acc)"
| "parse_attribute_list (item # rest) acc =
     rbind (AsDictionary item) (\<lambda>dict.
     rbind (OptString dict ''key'') (\<lambda>key.
     rbind (OptString dict ''value'') (\<lambda>entry_value.
       case (key, entry_value) of
         (Some k, Some v) \<Rightarrow> parse_attribute_list rest (acc @ [\<lparr>attr_key = k, attr_value = v\<rparr>])
       | _ \<Rightarrow> Inr None)))"

definition ParseAttributes :: "Value \<Rightarrow> EventAttribute list option res" where
  "ParseAttributes v = rbind (AsList v) (\<lambda>l. parse_attribute_list l [])"

fun string_items :: "Value list \<Rightarrow> string list res" where
  "string_items [] = Inr []"
| "string_items (v # vs) = rbind (AsString v) (\<lambda>s. rbind (string_items vs) (\<lambda>ss. Inr (s # ss)))"

definition ParseEnvelope :: "Value \<Rightarrow> EventEnvelope option res" where
  "ParseEnvelope v =
     rbind (AsDictionary v) (\<lambda>dict.
     rbind (OptString dict ''schema'') (\<lambda>sc.
     rbind (OptString dict ''event_type'') (\<lambda>ty.
     rbind (OptString dict ''taxonomy'') (\<lambda>tax.
     rbind (OptString dict ''source'') (\<lambda>src.
     rbind (OptString dict ''producer'') (\<lambda>prod.
     rbind (OptInteger dict ''window_start'') (\<lambda>window_start.
     rbind (OptInteger dict ''window_end'') (\<lambda>window_end.
     rbind (OptInteger dict ''observed_at'') (\<lambda>observed_at.
     rbind (OptInteger dict ''published_at'') (\<lambda>published_at.
     rbind (OptString dict ''summary'') (\<lambda>summ.
     rbind (OptString dict ''payload'') (\<lambda>pay.
       if sc = None \<or> ty = None \<or> tax = None \<or> src = None \<or> prod = None \<or> window_start = None \<or> window_end = None
         \<or> observed_at = None \<or> published_at = None \<or> summ = None \<or> pay = None then Inr None
       else
         rbind (case map_find dict ''identifiers'' of None \<Rightarrow> Inr []
           | Some f \<Rightarrow> rbind (AsList f) string_items) (\<lambda>ids.
         rbind (case map_find dict ''attributes'' of None \<Rightarrow> Inr (Some []) | Some f \<Rightarrow> ParseAttributes f) (\<lambda>attrs.
           case attrs of None \<Rightarrow> Inr None
           | Some as \<Rightarrow>
               Inr (Some \<lparr>schema = the sc, event_type = the ty, taxonomy = the tax, env_source = the src,
                 producer = the prod, window = \<lparr>start_utc = the window_start, end_utc = the window_end\<rparr>,
                 observed_at_utc = the observed_at, published_at_utc = the published_at, identifiers = ids,
                 attributes = as, summary = the summ, env_payload = ToBytes (the pay)\<rparr>)))))))))))))))"

definition ParseSignedEventRecord :: "Value \<Rightarrow> SignedEventRecord option res" where
  "ParseSignedEventRecord v =
     rbind (AsDictionary v) (\<lambda>dict.
     rbind (OptString dict ''signer_name'') (\<lambda>name.
     rbind (OptString dict ''signer_public_key_hex'') (\<lambda>public_key.
     rbind (OptString dict ''signature_hex'') (\<lambda>signature.
       case (map_find dict ''envelope'', name, public_key, signature) of
         (Some ev, Some n, Some pk, Some s) \<Rightarrow>
           rbind (ParseEnvelope ev) (\<lambda>env.
             case env of None \<Rightarrow> Inr None
             | Some e \<Rightarrow> Inr (Some \<lparr>envelope = e, signer_name = n, signer_public_key_hex = pk, signature_hex = s\<rparr>))
       | _ \<Rightarrow> Inr None))))"

section \<open>The local store\<close>

text \<open>\<open>entries_\<close> is an unordered map from keys to buckets, kept here in the order of insertion.\<close>

record MemoryEventDht =
  dht_entries :: "(string \<times> PublishedEvent list) list"
  last_publish :: "PublishResult option"

definition MemoryEventDht_new :: MemoryEventDht where
  "MemoryEventDht_new = \<lparr>dht_entries = [], last_publish = None\<rparr>"

definition bucket_of :: "(string \<times> PublishedEvent list) list \<Rightarrow> string \<Rightarrow> PublishedEvent list" where
  "bucket_of es k = (case map_of es k of None \<Rightarrow> [] | Some b \<Rightarrow> b)"

fun put_bucket :: "string \<Rightarrow> PublishedEvent list \<Rightarrow> (string \<times> PublishedEvent list) list \<Rightarrow> (string \<times> PublishedEvent list) list" where
  "put_bucket k b [] = [(k, b)]"
| "put_bucket k b ((k', b') # es) = (if k' = k then (k, b) # es else (k', b') # put_bucket k b es)"

definition is_duplicate :: "SignedEventRecord \<Rightarrow> PublishedEvent \<Rightarrow> bool" where
  "is_duplicate r p \<longleftrightarrow> signature_hex (pe_record p) = signature_hex r
     \<and> signer_public_key_hex (pe_record p) = signer_public_key_hex r"

fun bump_duplicate :: "i64 \<Rightarrow> SignedEventRecord \<Rightarrow> PublishedEvent list \<Rightarrow> PublishedEvent list" where
  "bump_duplicate now r [] = []"
| "bump_duplicate now r (p # ps) =
     (if is_duplicate r p then p\<lparr>publish_count := publish_count p + 1, pe_published_at_utc := now\<rparr> # ps
      else p # bump_duplicate now r ps)"

definition Memory_Publish ::
  "('k, 'p, 'r) ecdsa \<Rightarrow> i64 \<Rightarrow> SignedEventRecord \<Rightarrow> MemoryEventDht \<Rightarrow> (Status \<times> MemoryEventDht) res" where
  "Memory_Publish ec now r dht =
     rbind (VerifyEventRecord ec r) (\<lambda>verified.
       if \<not> verified then Inr (Failure Rejected ''signed event record failed verification'', dht)
       else
         let key = DeterministicKey r; info_hash = DeriveInfoHash key; bucket = bucket_of (dht_entries dht) key in
         if list_ex (is_duplicate r) bucket then
           Inr (Success ''duplicate publish collapsed'',
             dht\<lparr>dht_entries := put_bucket key (bump_duplicate now r bucket) (dht_entries dht),
                 last_publish := Some \<lparr>pr_dht_key = key, pr_info_hash = info_hash, pr_inserted = False, pr_duplicate = True\<rparr>\<rparr>)
         else
           Inr (Success '''',
             dht\<lparr>dht_entries := put_bucket key (bucket @ [\<lparr>dht_key = key, pe_info_hash = info_hash, pe_record = r,
                   pe_published_at_utc = now, publish_count = 1\<rparr>]) (dht_entries dht),
                 last_publish := Some \<lparr>pr_dht_key = key, pr_info_hash = info_hash, pr_inserted = True, pr_duplicate = False\<rparr>\<rparr>))"

text \<open>The comparison that \<open>Query\<close> sorts by, and \<open>std::sort\<close> as an argument.\<close>

definition published_later :: "PublishedEvent \<Rightarrow> PublishedEvent \<Rightarrow> bool" where
  "published_later lhs rhs \<longleftrightarrow> sint (pe_published_at_utc lhs) > sint (pe_published_at_utc rhs)"

type_synonym event_sort = "(PublishedEvent \<Rightarrow> PublishedEvent \<Rightarrow> bool) \<Rightarrow> PublishedEvent list \<Rightarrow> PublishedEvent list"

definition Memory_Query :: "event_sort \<Rightarrow> EventQuery \<Rightarrow> MemoryEventDht \<Rightarrow> PublishedEvent list" where
  "Memory_Query srt q dht =
     take (q_limit q) (srt published_later (concat (map (\<lambda>(key, bucket). filter (\<lambda>p. MatchesQuery p q) bucket) (dht_entries dht))))"

definition republish :: "i64 \<Rightarrow> i64 \<Rightarrow> PublishedEvent \<Rightarrow> nat \<times> PublishedEvent" where
  "republish freshness now p =
     (if sint (now - pe_published_at_utc p) > sint freshness then (0, p)
      else (1, p\<lparr>publish_count := publish_count p + 1, pe_published_at_utc := now\<rparr>))"

definition RepublishRecent :: "i64 \<Rightarrow> i64 \<Rightarrow> MemoryEventDht \<Rightarrow> nat \<times> MemoryEventDht" where
  "RepublishRecent freshness now dht =
     (sum_list (map (\<lambda>(key, bucket). sum_list (map (\<lambda>p. fst (republish freshness now p)) bucket)) (dht_entries dht)),
      dht\<lparr>dht_entries := map (\<lambda>(key, bucket). (key, map (\<lambda>p. snd (republish freshness now p)) bucket)) (dht_entries dht)\<rparr>)"

section \<open>Publishing and querying over the network\<close>

text \<open>What the session reports for a request before the timeout, and the requests. The state \<open>'n\<close> of the network is
  threaded through them. The callback of a request that timed out stays registered, and it refers to the local variables of a
  function that has returned: when it runs during a later request (\<open>LateCallback\<close>), the behaviour is undefined.\<close>

datatype reply = TimedOut | Failed string | Answer KrpcMessage | LateCallback

record 'n network =
  net_self :: KNode
  net_get_peers :: "hash \<Rightarrow> IpEndpoint \<Rightarrow> 'n \<Rightarrow> reply \<times> 'n"
  net_announce :: "hash \<Rightarrow> string \<Rightarrow> u16 \<Rightarrow> bool \<Rightarrow> IpEndpoint \<Rightarrow> 'n \<Rightarrow> reply \<times> 'n"
  net_query :: "KrpcPayload \<Rightarrow> IpEndpoint \<Rightarrow> 'n \<Rightarrow> reply \<times> 'n"

record MainlineEventDht =
  routers :: "IpEndpoint list"
  announce_port :: u16
  implied_port :: bool
  local_store :: MemoryEventDht

definition custom_query :: "event_sort \<Rightarrow> MemoryEventDht \<Rightarrow> string \<Rightarrow> (string, Value) std_map
    \<Rightarrow> (string, Value) std_map option res" where
  "custom_query srt store name args =
     (if name \<noteq> ''bx_get_event'' then Inr None
      else case map_find args ''key'' of None \<Rightarrow> Inr None
      | Some k \<Rightarrow> rbind (AsString k) (\<lambda>key.
          let matches = Memory_Query srt (EventQuery_for key 64) store in
          Inr (Some (map_init [(''records'', BList (map (\<lambda>p. record_ToValue (pe_record p)) matches))]))))"

fun peers_of :: "Value list \<Rightarrow> IpEndpoint list res" where
  "peers_of [] = Inr []"
| "peers_of (v # vs) = rbind (AsString v) (\<lambda>s. rbind (DecodeCompactPeer s) (\<lambda>p. rbind (peers_of vs) (\<lambda>ps. Inr (p # ps))))"

definition router_reply :: "reply \<Rightarrow> (Status \<times> IpEndpoint list \<times> string) res" where
  "router_reply r =
     (case r of
        TimedOut \<Rightarrow> Inr (Failure IOError ''DHT query timed out'', [], '''')
      | Failed msg \<Rightarrow> Inr (Failure IOError msg, [], '''')
      | LateCallback \<Rightarrow> Inl UndefinedBehaviour
      | Answer m \<Rightarrow>
          (case krpc_payload m of
             KrpcResponse values \<Rightarrow>
               rbind (case map_find values ''token'' of None \<Rightarrow> Inr '''' | Some v \<Rightarrow> AsString v) (\<lambda>token.
               rbind (case map_find values ''values'' of None \<Rightarrow> Inr [] | Some v \<Rightarrow> rbind (AsList v) peers_of) (\<lambda>peers.
                 Inr (Success '''', peers, token)))
           | _ \<Rightarrow> Inr (Failure Rejected ''DHT query did not return a response payload'', [], '''')))"

text \<open>The token is read only when the caller asks for it.\<close>

definition router_peers :: "reply \<Rightarrow> (Status \<times> IpEndpoint list) res" where
  "router_peers r =
     (case r of
        Answer m \<Rightarrow>
          (case krpc_payload m of
             KrpcResponse values \<Rightarrow>
               rbind (case map_find values ''values'' of None \<Rightarrow> Inr [] | Some v \<Rightarrow> rbind (AsList v) peers_of) (\<lambda>peers.
                 Inr (Success '''', peers))
           | _ \<Rightarrow> Inr (Failure Rejected ''DHT query did not return a response payload'', []))
      | TimedOut \<Rightarrow> Inr (Failure IOError ''DHT query timed out'', [])
      | Failed msg \<Rightarrow> Inr (Failure IOError msg, [])
      | LateCallback \<Rightarrow> Inl UndefinedBehaviour)"

fun parse_records :: "Value list \<Rightarrow> PublishedEvent list \<Rightarrow> (Status \<times> PublishedEvent list) res" where
  "parse_records [] records = Inr (Success '''', records)"
| "parse_records (item # items) records =
     rbind (ParseSignedEventRecord item) (\<lambda>parsed.
       case parsed of None \<Rightarrow> Inr (Failure Rejected ''peer query returned an invalid event record'', records)
       | Some r \<Rightarrow> parse_records items (records @ [\<lparr>dht_key = DeterministicKey r,
           pe_info_hash = DeriveInfoHash (DeterministicKey r), pe_record = r, pe_published_at_utc = 0, publish_count = 0\<rparr>]))"

definition peer_reply :: "reply \<Rightarrow> (Status \<times> PublishedEvent list) res" where
  "peer_reply r =
     (case r of
        TimedOut \<Rightarrow> Inr (Failure IOError ''peer record query timed out'', [])
      | Failed msg \<Rightarrow> Inr (Failure IOError msg, [])
      | LateCallback \<Rightarrow> Inl UndefinedBehaviour
      | Answer m \<Rightarrow>
          (case krpc_payload m of
             KrpcResponse values \<Rightarrow>
               (case map_find values ''records'' of None \<Rightarrow> Inr (Success '''', [])
                | Some v \<Rightarrow> rbind (AsList v) (\<lambda>items. parse_records items []))
           | _ \<Rightarrow> Inr (Failure Rejected ''peer query did not return a response payload'', [])))"

definition get_event_query :: "KNode \<Rightarrow> string \<Rightarrow> KrpcPayload" where
  "get_event_query self key = KrpcQuery ''bx_get_event'' (map_init
     [(''id'', BString (map char_of_byte (node_id self))), (''key'', BString key)])"

definition announce_reply :: "reply \<Rightarrow> Status res" where
  "announce_reply r =
     (case r of
        TimedOut \<Rightarrow> Inr (Failure IOError ''DHT announce timed out'')
      | Failed msg \<Rightarrow> Inr (Failure IOError msg)
      | LateCallback \<Rightarrow> Inl UndefinedBehaviour
      | Answer m \<Rightarrow> (case krpc_payload m of KrpcResponse values \<Rightarrow> Inr (Success '''')
          | _ \<Rightarrow> Inr (Failure Rejected ''DHT announce did not return a response payload'')))"

fun announce_loop :: "'n network \<Rightarrow> MainlineEventDht \<Rightarrow> string \<Rightarrow> IpEndpoint list \<Rightarrow> Status \<Rightarrow> 'n \<Rightarrow> (Status \<times> 'n) res" where
  "announce_loop net dht key [] last_error n = Inr (last_error, n)"
| "announce_loop net dht key (router # rs) last_error n =
     (let (r, n) = net_get_peers net (DeriveInfoHash key) router n in
      rbind (router_reply r) (\<lambda>(query_status, peers, token).
        if \<not> status_ok query_status then announce_loop net dht key rs query_status n
        else if token = '''' then announce_loop net dht key rs (Failure Rejected ''DHT router did not return announce token'') n
        else
          let port = (if announce_port dht = 0 then ep_port (endpoint (net_self net)) else announce_port dht);
              (r, n) = net_announce net (DeriveInfoHash key) token port (implied_port dht) router n in
          rbind (announce_reply r) (\<lambda>announce_status.
            if status_ok announce_status then Inr (Success '''', n)
            else announce_loop net dht key rs announce_status n)))"

definition Mainline_Publish :: "('k, 'p, 'r) ecdsa \<Rightarrow> 'n network \<Rightarrow> i64 \<Rightarrow> SignedEventRecord \<Rightarrow> MainlineEventDht \<Rightarrow> 'n
    \<Rightarrow> (Status \<times> MainlineEventDht \<times> 'n) res" where
  "Mainline_Publish ec net now r dht n =
     (if routers dht = [] then Inr (Failure InvalidArgument ''at least one DHT router is required'', dht, n)
      else
        rbind (Memory_Publish ec now r (local_store dht)) (\<lambda>(local_status, store).
          let dht = dht\<lparr>local_store := store\<rparr> in
          if \<not> status_ok local_status then Inr (local_status, dht, n)
          else
            rbind (announce_loop net dht (DeterministicKey r) (routers dht)
              (Failure IOError ''failed to announce deterministic DHT key'') n) (\<lambda>(status, n). Inr (status, dht, n))))"

definition merge_all :: "PublishedEvent list \<Rightarrow> PublishedEvent list \<Rightarrow> PublishedEvent list" where
  "merge_all records new = fold (\<lambda>p rs. snd (MergePublishedRecord rs p)) new records"

fun peer_loop :: "(Address \<Rightarrow> string) \<Rightarrow> 'n network \<Rightarrow> string \<Rightarrow> IpEndpoint list \<Rightarrow> string list \<times> IpEndpoint list \<times> PublishedEvent list \<Rightarrow> 'n
    \<Rightarrow> ((string list \<times> IpEndpoint list \<times> PublishedEvent list) \<times> 'n) res" where
  "peer_loop addr net key [] acc n = Inr (acc, n)"
| "peer_loop addr net key (peer # ps) (seen, peers, records) n =
     (let name = endpoint_ToString addr peer;
          (seen, peers) = (if name \<in> set seen then (seen, peers) else (name # seen, peers @ [peer]));
          (r, n) = net_query net (get_event_query (net_self net) key) peer n in
      rbind (peer_reply r) (\<lambda>(peer_status, found).
        if \<not> status_ok peer_status then peer_loop addr net key ps (seen, peers, records) n
        else peer_loop addr net key ps (seen, peers, merge_all records found) n))"

fun router_loop :: "(Address \<Rightarrow> string) \<Rightarrow> 'n network \<Rightarrow> string \<Rightarrow> IpEndpoint list
    \<Rightarrow> bool \<times> Status \<Rightarrow> string list \<times> IpEndpoint list \<times> PublishedEvent list \<Rightarrow> 'n
    \<Rightarrow> ((bool \<times> Status) \<times> (string list \<times> IpEndpoint list \<times> PublishedEvent list) \<times> 'n) res" where
  "router_loop addr net key [] outcome acc n = Inr (outcome, acc, n)"
| "router_loop addr net key (router # rs) (any_success, last_error) acc n =
     (let (r, n) = net_get_peers net (DeriveInfoHash key) router n in
      rbind (router_peers r) (\<lambda>(status, peers).
        if \<not> status_ok status then router_loop addr net key rs (any_success, status) acc n
        else rbind (peer_loop addr net key peers acc n) (\<lambda>(acc, n). router_loop addr net key rs (True, last_error) acc n)))"

definition Mainline_Query :: "(Address \<Rightarrow> string) \<Rightarrow> event_sort \<Rightarrow> 'n network \<Rightarrow> EventQuery \<Rightarrow> MainlineEventDht \<Rightarrow> 'n
    \<Rightarrow> (Status \<times> (PublishedEvent list \<times> IpEndpoint list) \<times> 'n) res" where
  "Mainline_Query addr srt net q dht n =
     (let records = Memory_Query srt q (local_store dht) in
      case q_deterministic_key q of
        None \<Rightarrow> Inr (Success '''', (records, []), n)
      | Some key \<Rightarrow>
          if routers dht = [] then Inr (Failure InvalidArgument ''at least one DHT router is required'', (records, []), n)
          else
            rbind (router_loop addr net key (routers dht)
                (False, Failure IOError ''failed to query deterministic DHT key'') ([], [], records) n)
              (\<lambda>((any_success, last_error), (seen, peers, records), n).
                 Inr (if any_success then Success '''' else last_error, (take (q_limit q) records, peers), n)))"

definition PublishEvent :: "('k, 'p, 'r) ecdsa \<Rightarrow> 'r \<Rightarrow> i64 \<Rightarrow> i64 \<Rightarrow> EventEnvelope \<Rightarrow> KeyPair \<Rightarrow> string \<Rightarrow> MemoryEventDht
    \<Rightarrow> (Status \<times> SignedEventRecord \<times> PublishResult option \<times> MemoryEventDht) res" where
  "PublishEvent ec rnd sign_time now e key_pair name dht =
     rbind (SignEventRecord ec rnd sign_time e key_pair name) (\<lambda>r.
     rbind (Memory_Publish ec now r dht) (\<lambda>(status, dht).
       Inr (status, r,
         if status_ok status then Some (case last_publish dht of Some pr \<Rightarrow> pr | None \<Rightarrow> PublishResult_default) else None, dht)))"

text \<open>The same over the network, and the queries as a client sees them: records and peers of a result.\<close>

definition PublishEvent_mainline :: "('k, 'p, 'r) ecdsa \<Rightarrow> 'r \<Rightarrow> 'n network \<Rightarrow> i64 \<Rightarrow> i64 \<Rightarrow> EventEnvelope \<Rightarrow> KeyPair \<Rightarrow> string
    \<Rightarrow> MainlineEventDht \<Rightarrow> 'n \<Rightarrow> (Status \<times> SignedEventRecord \<times> PublishResult option \<times> MainlineEventDht \<times> 'n) res" where
  "PublishEvent_mainline ec rnd net sign_time now e key_pair name dht n =
     rbind (SignEventRecord ec rnd sign_time e key_pair name) (\<lambda>r.
     rbind (Mainline_Publish ec net now r dht n) (\<lambda>(status, dht, n).
       Inr (status, r,
         if status_ok status then Some (case last_publish (local_store dht) of Some pr \<Rightarrow> pr | None \<Rightarrow> PublishResult_default) else None,
         dht, n)))"

definition QueryEvents :: "event_sort \<Rightarrow> EventQuery \<Rightarrow> MemoryEventDht
    \<Rightarrow> Status \<times> (PublishedEvent list \<times> IpEndpoint list)" where
  "QueryEvents srt q dht = (Success '''', (Memory_Query srt q dht, []))"

section \<open>Exchange of records\<close>

lemma string_items_ToValue: "string_items (map BString ss) = Inr ss"
  by (induction ss) auto

lemma parse_attributes_ToValue:
  "parse_attribute_list (map (\<lambda>a. BDictionary (map_init [(''key'', BString (attr_key a)), (''value'', BString (attr_value a))])) as) acc
    = Inr (Some (acc @ as))"
  by (induction as arbitrary: acc) (simp_all add: OptString_def)

lemma ParseEnvelope_ToValue: "ParseEnvelope (envelope_ToValue e) = Inr (Some e)"
  by (simp add: ParseEnvelope_def envelope_ToValue_def OptString_def OptInteger_def strings_ToValue_def string_items_ToValue
        ParseAttributes_def attributes_ToValue_def parse_attributes_ToValue ToBytes_def)

lemma ParseSignedEventRecord_ToValue: "ParseSignedEventRecord (record_ToValue r) = Inr (Some r)"
  by (simp add: ParseSignedEventRecord_def record_ToValue_def OptString_def ParseEnvelope_ToValue)

lemma map_init_values:
  assumes "list_all (\<lambda>p. P (snd p)) es"
  shows "list_all (\<lambda>p. P (snd p)) (map_init es)"
proof -
  have e: "list_all (\<lambda>p. P (snd p)) m \<Longrightarrow> P v \<Longrightarrow> list_all (\<lambda>p. P (snd p)) (map_emplace k v m)" for k :: 'a and v m
    by (induction k v m rule: map_emplace.induct) auto
  have "list_all (\<lambda>p. P (snd p)) m \<Longrightarrow> list_all (\<lambda>p. P (snd p)) (fold (\<lambda>(k, v) m. map_emplace k v m) es m)" for m
    using assms by (induction es arbitrary: m) (auto simp: e)
  then show ?thesis by (simp add: map_init_def)
qed

lemma value_wf_init: "list_all (\<lambda>p. value_wf (snd p)) es \<Longrightarrow> value_wf (BDictionary (map_init es))"
  by (simp add: map_init_values)

lemma attributes_ToValue_wf: "value_wf (attributes_ToValue as)"
proof -
  have "value_wf (BDictionary (map_init [(''key'', BString (attr_key a)), (''value'', BString (attr_value a))]))" for a
    by (rule value_wf_init) simp
  then have "\<forall>v \<in> set (map (\<lambda>a. BDictionary (map_init [(''key'', BString (attr_key a)), (''value'', BString (attr_value a))])) as). value_wf v"
    by fastforce
  then show ?thesis unfolding attributes_ToValue_def value_wf.simps list_all_iff .
qed

lemma envelope_ToValue_wf: "value_wf (envelope_ToValue e)"
  unfolding envelope_ToValue_def by (rule value_wf_init) (simp add: attributes_ToValue_wf strings_ToValue_def list_all_iff)

lemma record_ToValue_wf: "value_wf (record_ToValue r)"
  unfolding record_ToValue_def by (rule value_wf_init) (simp add: envelope_ToValue_wf)

text \<open>A record received from a peer, as it is entered into the results.\<close>

definition received :: "SignedEventRecord \<Rightarrow> PublishedEvent" where
  "received r = \<lparr>dht_key = DeterministicKey r, pe_info_hash = DeriveInfoHash (DeterministicKey r), pe_record = r,
     pe_published_at_utc = 0, publish_count = 0\<rparr>"

lemma parse_records_ToValue: "parse_records (map record_ToValue rs) acc = Inr (Success '''', acc @ map received rs)"
  by (induction rs arbitrary: acc) (simp_all add: ParseSignedEventRecord_ToValue received_def)

definition response :: "string \<Rightarrow> string option \<Rightarrow> (string, Value) std_map \<Rightarrow> KrpcMessage" where
  "response t v d = \<lparr>transaction_id = t, krpc_version = v, krpc_payload = KrpcResponse d\<rparr>"

lemma custom_query_answer:
  assumes "get_event_query self key = KrpcQuery name args"
  shows "custom_query srt store name args
    = Inr (Some (map_init [(''records'', BList (map (\<lambda>p. record_ToValue (pe_record p)) (Memory_Query srt (EventQuery_for key 64) store)))]))"
  using assms by (auto simp: get_event_query_def custom_query_def Let_def)


section \<open>The local store\<close>

abbreviation origin :: "PublishedEvent \<Rightarrow> string \<times> string" where
  "origin p \<equiv> (signature_hex (pe_record p), signer_public_key_hex (pe_record p))"

definition event_ok :: "('k, 'p, 'r) ecdsa \<Rightarrow> string \<Rightarrow> PublishedEvent \<Rightarrow> bool" where
  "event_ok ec k p \<longleftrightarrow> dht_key p = k \<and> DeterministicKey (pe_record p) = k \<and> pe_info_hash p = DeriveInfoHash k
     \<and> VerifyEventRecord ec (pe_record p) = Inr True"

definition dht_inv :: "('k, 'p, 'r) ecdsa \<Rightarrow> MemoryEventDht \<Rightarrow> bool" where
  "dht_inv ec dht \<longleftrightarrow> distinct (map fst (dht_entries dht))
     \<and> (\<forall>(k, b) \<in> set (dht_entries dht). distinct (map origin b) \<and> (\<forall>p \<in> set b. event_ok ec k p))"

lemma put_bucket_fst: "fst ` set (put_bucket k b es) = insert k (fst ` set es)"
  by (induction k b es rule: put_bucket.induct) auto

lemma put_bucket_distinct: "distinct (map fst es) \<Longrightarrow> distinct (map fst (put_bucket k b es))"
proof (induction k b es rule: put_bucket.induct)
  case (2 k b k' b' es)
  then show ?case using put_bucket_fst [of k b es] by auto
qed simp

lemma put_bucket_map_of: "map_of (put_bucket k b es) = (map_of es)(k \<mapsto> b)"
  by (induction k b es rule: put_bucket.induct) (auto simp: fun_eq_iff)

lemma dht_inv_map_of:
  "distinct (map fst es) \<Longrightarrow> (\<forall>(k, b) \<in> set es. P k b) \<longleftrightarrow> (\<forall>k b. map_of es k = Some b \<longrightarrow> P k b)"
  by (auto simp: map_of_eq_Some_iff)

lemma bump_origin: "map origin (bump_duplicate now r b) = map origin b"
  by (induction now r b rule: bump_duplicate.induct) auto

lemma bump_ok: "\<forall>p \<in> set b. event_ok ec k p \<Longrightarrow> \<forall>p \<in> set (bump_duplicate now r b). event_ok ec k p"
  by (induction now r b rule: bump_duplicate.induct) (auto simp: event_ok_def)

lemma bucket_inv: "dht_inv ec dht \<Longrightarrow> distinct (map origin (bucket_of (dht_entries dht) k)) \<and> (\<forall>p \<in> set (bucket_of (dht_entries dht) k). event_ok ec k p)"
  by (auto simp: dht_inv_def bucket_of_def dest!: map_of_SomeD split: option.splits)

lemma dht_inv_put:
  assumes "dht_inv ec dht" "distinct (map origin b)" "\<forall>p \<in> set b. event_ok ec k p"
  shows "dht_inv ec (dht\<lparr>dht_entries := put_bucket k b (dht_entries dht), last_publish := lp\<rparr>)"
proof -
  have d: "distinct (map fst (dht_entries dht))" using assms(1) by (simp add: dht_inv_def)
  have "\<forall>k b. map_of (dht_entries dht) k = Some b \<longrightarrow> distinct (map origin b) \<and> (\<forall>p \<in> set b. event_ok ec k p)"
    using assms(1) by (auto simp: dht_inv_def dest!: map_of_SomeD)
  then have "\<forall>k' b'. map_of (put_bucket k b (dht_entries dht)) k' = Some b' \<longrightarrow> distinct (map origin b') \<and> (\<forall>p \<in> set b'. event_ok ec k' p)"
    using assms(2,3) by (auto simp: put_bucket_map_of)
  then show ?thesis
    using dht_inv_map_of [OF put_bucket_distinct [OF d], where P = "\<lambda>k b. distinct (map origin b) \<and> (\<forall>p \<in> set b. event_ok ec k p)"]
    by (simp add: dht_inv_def put_bucket_distinct [OF d])
qed

lemma Publish_inv:
  assumes inv: "dht_inv ec dht" and p: "Memory_Publish ec now r dht = Inr (st, dht')"
  shows "dht_inv ec dht'"
proof -
  obtain v where v: "VerifyEventRecord ec r = Inr v"
    using p by (cases "VerifyEventRecord ec r") (auto simp: Memory_Publish_def)
  show ?thesis
  proof (cases v)
    case False
    then show ?thesis using p v inv by (simp add: Memory_Publish_def)
  next
    case True
    let ?k = "DeterministicKey r"
    let ?b = "bucket_of (dht_entries dht) ?k"
    note B = bucket_inv [OF inv, of ?k]
    show ?thesis
    proof (cases "list_ex (is_duplicate r) ?b")
      case dup: True
      have "dht_inv ec (dht\<lparr>dht_entries := put_bucket ?k (bump_duplicate now r ?b) (dht_entries dht), last_publish := lp\<rparr>)" for lp
        by (rule dht_inv_put [OF inv]) (use B bump_origin [of now r ?b] bump_ok [of ?b ec ?k now r] in auto)
      then show ?thesis using p v True dup by (auto simp: Memory_Publish_def Let_def)
    next
      case new: False
      let ?e = "\<lparr>dht_key = ?k, pe_info_hash = DeriveInfoHash ?k, pe_record = r, pe_published_at_utc = now, publish_count = 1\<rparr>"
      have "origin ?e \<notin> origin ` set ?b" using new by (auto simp: list_ex_iff is_duplicate_def)
      then have "dht_inv ec (dht\<lparr>dht_entries := put_bucket ?k (?b @ [?e]) (dht_entries dht), last_publish := lp\<rparr>)" for lp
        by (intro dht_inv_put [OF inv]) (use B v True in \<open>auto simp: event_ok_def\<close>)
      then show ?thesis using p v True new by (auto simp: Memory_Publish_def Let_def)
    qed
  qed
qed

lemma Republish_inv:
  assumes "dht_inv ec dht" "RepublishRecent freshness now dht = (n, dht')"
  shows "dht_inv ec dht'"
proof -
  have o: "origin (snd (republish freshness now p)) = origin p" "event_ok ec k (snd (republish freshness now p)) = event_ok ec k p" for p k
    by (simp_all add: republish_def event_ok_def)
  have "dht_entries dht' = map (\<lambda>(k, b). (k, map (\<lambda>p. snd (republish freshness now p)) b)) (dht_entries dht)"
    using assms(2) by (auto simp: RepublishRecent_def)
  then show ?thesis using assms(1) unfolding dht_inv_def by (auto simp: o comp_def split_beta)
qed

inductive dht_reachable :: "('k, 'p, 'r) ecdsa \<Rightarrow> MemoryEventDht \<Rightarrow> bool" for ec where
  new: "dht_reachable ec MemoryEventDht_new"
| publish: "dht_reachable ec dht \<Longrightarrow> Memory_Publish ec now r dht = Inr (st, dht') \<Longrightarrow> dht_reachable ec dht'"
| republish: "dht_reachable ec dht \<Longrightarrow> RepublishRecent freshness now dht = (n, dht') \<Longrightarrow> dht_reachable ec dht'"

lemma reachable_dht_inv: "dht_reachable ec dht \<Longrightarrow> dht_inv ec dht"
proof (induction rule: dht_reachable.induct)
  case new
  then show ?case by (simp add: dht_inv_def MemoryEventDht_new_def)
qed (blast intro: Publish_inv Republish_inv)+

text \<open>The contract of \<open>std::sort\<close>: for a strict weak order, a permutation in which no element comes before an earlier one.\<close>

definition event_sort_ok :: "event_sort \<Rightarrow> bool" where
  "event_sort_ok srt \<longleftrightarrow> (\<forall>before ps. weak_order before \<longrightarrow>
     mset (srt before ps) = mset ps \<and> sorted_wrt (\<lambda>p q. \<not> before q p) (srt before ps))"

lemma published_later_order: "weak_order published_later"
  by (auto simp: weak_order_def published_later_def)

lemma event_sort_small:
  assumes "event_sort_ok srt"
  shows "srt published_later [] = []" "srt published_later [p] = [p]"
  using assms published_later_order unfolding event_sort_ok_def
  by (metis mset_zero_iff, metis mset_single_iff_right)

lemma mset_insert_by: "mset (insert_by before x ys) = add_mset x (mset ys)"
  by (induction ys) auto

lemma sort_by_ok: "event_sort_ok sort_by"
proof -
  have "mset (sort_by before ps) = mset ps" for before :: "PublishedEvent \<Rightarrow> PublishedEvent \<Rightarrow> bool" and ps
    by (induction ps) (simp_all add: mset_insert_by)
  then show ?thesis by (simp add: event_sort_ok_def sorted_sort_by)
qed

definition stored :: "MemoryEventDht \<Rightarrow> PublishedEvent set" where
  "stored dht = (\<Union>(k, b) \<in> set (dht_entries dht). set b)"

text \<open>What a query asks for, written without the code that tests it: every part of the query that is set has to hold.\<close>

definition wanted :: "EventQuery \<Rightarrow> PublishedEvent \<Rightarrow> bool" where
  "wanted q p \<longleftrightarrow> q_deterministic_key q \<in> {None, Some (dht_key p)}
     \<and> q_event_type q \<in> {None, Some (event_type (envelope (pe_record p)))}
     \<and> q_taxonomy q \<in> {None, Some (taxonomy (envelope (pe_record p)))}
     \<and> (\<forall>s. q_window_start_utc q = Some s \<longrightarrow> sint s \<le> sint (end_utc (window (envelope (pe_record p)))))
     \<and> (\<forall>s. q_window_end_utc q = Some s \<longrightarrow> sint (start_utc (window (envelope (pe_record p)))) \<le> sint s)
     \<and> set (q_identifiers q) \<subseteq> set (identifiers (envelope (pe_record p)))"

lemma MatchesQuery_wanted: "MatchesQuery p q \<longleftrightarrow> wanted q p"
  by (cases "q_deterministic_key q"; cases "q_event_type q"; cases "q_taxonomy q"; cases "q_window_start_utc q"; cases "q_window_end_utc q")
     (auto simp: MatchesQuery_def MatchesIdentifiers_def wanted_def Let_def list_all_iff subset_iff not_less)

lemma event_ok_unique:
  assumes inv: "dht_inv ec dht" and p: "p \<in> stored dht" and q: "q \<in> stored dht"
    and o: "dht_key p = dht_key q" "origin p = origin q"
  shows "p = q"
proof -
  obtain k b where kb: "(k, b) \<in> set (dht_entries dht)" "p \<in> set b" using p by (auto simp: stored_def)
  obtain k' b' where kb': "(k', b') \<in> set (dht_entries dht)" "q \<in> set b'" using q by (auto simp: stored_def)
  have "dht_key p = k" "dht_key q = k'" using inv kb kb' by (auto simp: dht_inv_def event_ok_def)
  then have "k = k'" using o by simp
  then have "b = b'" using inv kb(1) kb'(1) by (auto simp: dht_inv_def dest: eq_key_imp_eq_value)
  moreover have "inj_on origin (set b)" using inv kb by (auto simp: dht_inv_def distinct_map)
  ultimately show ?thesis using kb(2) kb'(2) o(2) by (auto dest: inj_onD)
qed

section \<open>Properties\<close>

text \<open>C32: In every reachable state of the local event store, every record verifies under its signer's key and is
  filed under its own deterministic key and info hash, and a record is stored once however often it was published.\<close>

theorem dht_reachable_inv:
  assumes "dht_reachable ec dht"
  shows "dht_inv ec dht \<and> (\<forall>p \<in> stored dht. \<forall>q \<in> stored dht. dht_key p = dht_key q \<and> origin p = origin q \<longrightarrow> p = q)"
  using reachable_dht_inv [OF assms] event_ok_unique [OF reachable_dht_inv [OF assms]] by blast

theorem dht_reachable_inv_witness:
  "\<exists>dht. dht_entries dht \<noteq> [] \<and> dht_inv ecdsa_ref dht"
proof -
  obtain kp where kp: "KeyPair_from_secret ecdsa_ref (replicate 32 7) = Inr kp"
    by (simp add: KeyPair_from_secret_def ecdsa_ref_def)
  obtain r where r: "VerifyEventRecord ecdsa_ref r = Inr True"
    using SignEventRecord_verifies [OF ecdsa_ok_ref kp] by blast
  obtain st dht where P: "Memory_Publish ecdsa_ref 6 r MemoryEventDht_new = Inr (st, dht)" "dht_entries dht \<noteq> []"
    using r by (auto simp: Memory_Publish_def Let_def bucket_of_def MemoryEventDht_new_def)
  show ?thesis using P(2) dht_reachable_inv [OF publish [OF new P(1)]] by blast
qed

text \<open>C33: A query of the local store sorts the stored records that the query asks for, every one as often as it is stored, by the
  time of their publication, the newest first, and returns the first \<open>limit\<close> of them. A record is asked for when every part of
  the query that is set holds of it: the key, the type and the taxonomy are equal, its window reaches into the one of the query
  (bounds included), and it has all identifiers. \<open>std::sort\<close> is taken to sort by whatever strict weak order it is given.\<close>

theorem memory_query_correct:
  assumes "event_sort_ok srt"
  shows "\<exists>ps. mset ps = mset (filter (wanted q) (concat (map snd (dht_entries dht))))
    \<and> sorted_wrt (\<lambda>p p'. sint (pe_published_at_utc p') \<le> sint (pe_published_at_utc p)) ps
    \<and> Memory_Query srt q dht = take (q_limit q) ps"
proof -
  let ?ms = "concat (map (\<lambda>(key, bucket). filter (\<lambda>p. MatchesQuery p q) bucket) (dht_entries dht))"
  have "?ms = filter (wanted q) (concat (map snd (dht_entries dht)))"
    by (simp add: MatchesQuery_wanted filter_concat comp_def case_prod_unfold)
  moreover have "mset (srt published_later ?ms) = mset ?ms"
    "sorted_wrt (\<lambda>p p'. sint (pe_published_at_utc p') \<le> sint (pe_published_at_utc p)) (srt published_later ?ms)"
    using assms published_later_order unfolding event_sort_ok_def by (auto simp: published_later_def not_less)
  ultimately show ?thesis by (intro exI [of _ "srt published_later ?ms"]) (simp add: Memory_Query_def)
qed

text \<open>C31: Asked for the events of a key, a node answers from its store, and the asking node decodes from the bytes of the answer
  exactly the records that the answering node found, in the same order.\<close>

theorem event_exchange:
  assumes "get_event_query self key = KrpcQuery name args"
    and "custom_query srt store name args = Inr (Some answer)"
    and "length (krpc_Encode (response t v answer)) < 2 ^ 64" "length (krpc_Encode (response t v answer)) \<le> fuel"
  shows "DecodeKrpc fuel (krpc_Encode (response t v answer)) = Some (Inr (response t v answer))
    \<and> peer_reply (Answer (response t v answer))
      = Inr (Success '''', map (\<lambda>p. received (pe_record p)) (Memory_Query srt (EventQuery_for key 64) store))"
proof -
  let ?found = "Memory_Query srt (EventQuery_for key 64) store"
  have a: "answer = map_init [(''records'', BList (map (\<lambda>p. record_ToValue (pe_record p)) ?found))]"
    using assms(2) unfolding custom_query_answer [OF assms(1)] by simp
  have "value_wf (BDictionary answer)"
    unfolding a by (rule value_wf_init) (simp add: list_all_iff record_ToValue_wf)
  then have "message_wf (response t v answer)" by (simp add: message_wf_def response_def)
  then have "DecodeKrpc fuel (krpc_Encode (response t v answer)) = Some (Inr (response t v answer))"
    using bencode_Decode_Encode [OF krpc_root_wf] assms(3,4) by (simp add: DecodeKrpc_def krpc_Encode_def krpc_of_root)
  moreover have "peer_reply (Answer (response t v answer)) = Inr (Success '''', map (\<lambda>p. received (pe_record p)) ?found)"
    using parse_records_ToValue [of "map pe_record ?found" "[]"] by (simp add: peer_reply_def response_def a comp_def)
  ultimately show ?thesis by blast
qed


definition sample_event :: PublishedEvent where
  "sample_event = \<lparr>dht_key = ''k'', pe_info_hash = [], pe_record = \<lparr>envelope = sample_envelope, signer_name = ''n'',
     signer_public_key_hex = ''00'', signature_hex = ''01''\<rparr>, pe_published_at_utc = 3, publish_count = 1\<rparr>"

definition sample_store :: MemoryEventDht where
  "sample_store = \<lparr>dht_entries = [(''k'', [sample_event])], last_publish = None\<rparr>"

lemma sample_query: "Memory_Query sort_by (EventQuery_for ''k'' 64) sample_store = [sample_event]"
  by (simp add: Memory_Query_def EventQuery_for_def sample_store_def MatchesQuery_def sample_event_def
        MatchesIdentifiers_def)

text \<open>Two records under one key, the older one first; the query asks for one identifier and one record.\<close>

definition two_events :: MemoryEventDht where
  "two_events = \<lparr>dht_entries = [(''j'', [sample_event\<lparr>dht_key := ''j'', pe_published_at_utc := 9\<rparr>]),
     (''k'', [sample_event, sample_event\<lparr>pe_published_at_utc := 5\<rparr>])], last_publish = None\<rparr>"

theorem memory_query_correct_witness:
  "Memory_Query sort_by ((EventQuery_for ''k'' 1)\<lparr>q_identifiers := [''a'']\<rparr>) two_events = [sample_event\<lparr>pe_published_at_utc := 5\<rparr>]"
proof -
  let ?q = "(EventQuery_for ''k'' 1)\<lparr>q_identifiers := [''a'']\<rparr>" and ?old = "sample_event" and ?new = "sample_event\<lparr>pe_published_at_utc := 5\<rparr>"
  obtain ps where ps: "mset ps = mset (filter (wanted ?q) (concat (map snd (dht_entries two_events))))"
    "sorted_wrt (\<lambda>p p'. sint (pe_published_at_utc p') \<le> sint (pe_published_at_utc p)) ps"
    "Memory_Query sort_by ?q two_events = take (q_limit ?q) ps"
    using memory_query_correct [OF sort_by_ok, of ?q two_events] by blast
  have m: "mset ps = {#?old, ?new#}"
    using ps(1) by (simp add: two_events_def wanted_def EventQuery_for_def sample_event_def sample_envelope_def)
  then obtain x ys where x: "ps = x # ys" by (cases ps) auto
  have t: "sint (pe_published_at_utc ?old) < sint (pe_published_at_utc ?new)" by (simp add: sample_event_def)
  have "x = ?new"
  proof (rule ccontr)
    assume "x \<noteq> ?new"
    moreover have "x \<in># {#?old, ?new#}" using m x by (metis list.set_intros(1) set_mset_mset)
    ultimately have "x = ?old" by simp
    then have "mset ys = {#?new#}" using m x by simp
    then show False using ps(2) x t \<open>x = ?old\<close> by (simp add: mset_single_iff)
  qed
  then show ?thesis using ps(3) x by (simp add: EventQuery_for_def)
qed

lemma sample_answer_length:
  "length (krpc_Encode (response ''aa'' None (map_init [(''records'', BList [record_ToValue (pe_record sample_event)])]))) < 2 ^ 64"
  by (simp add: response_def krpc_Encode_def krpc_root_eval bencode_Encode_def AppendEncodedString_def map_init_def
        record_ToValue_def envelope_ToValue_def attributes_ToValue_def strings_ToValue_def sample_event_def sample_envelope_def
        show_nat.simps show_int_def digit_char_def less_char_def)

theorem event_exchange_witness:
  "\<exists>name args. get_event_query (sample_node 0) ''k'' = KrpcQuery name args
    \<and> (\<exists>answer. custom_query sort_by sample_store name args = Inr (Some answer)
      \<and> peer_reply (Answer (response ''aa'' None answer)) = Inr (Success '''', [received (pe_record sample_event)]))"
proof -
  obtain name args where g: "get_event_query (sample_node 0) ''k'' = KrpcQuery name args"
    by (simp add: get_event_query_def)
  let ?a = "map_init [(''records'', BList [record_ToValue (pe_record sample_event)])]"
  have c: "custom_query sort_by sample_store name args = Inr (Some ?a)"
    using custom_query_answer [OF g] sample_query by simp
  show ?thesis using event_exchange [OF g c sample_answer_length le_refl] g c by (auto simp: sample_query)
qed

lemma Publish_verified:
  assumes inv: "dht_inv ec dht" and v: "VerifyEventRecord ec r = Inr True"
  shows "\<exists>st dht' pr p. Memory_Publish ec now r dht = Inr (st, dht') \<and> status_ok st \<and> last_publish dht' = Some pr
    \<and> pr_dht_key pr = DeterministicKey r \<and> pr_inserted pr = (\<not> pr_duplicate pr)
    \<and> p \<in> stored dht' \<and> dht_key p = DeterministicKey r \<and> is_duplicate r p \<and> pe_published_at_utc p = now"
proof -
  let ?k = "DeterministicKey r" and ?b = "bucket_of (dht_entries dht) (DeterministicKey r)"
  have st: "p \<in> set b \<Longrightarrow> p \<in> stored (dht\<lparr>dht_entries := put_bucket ?k b (dht_entries dht), last_publish := lp\<rparr>)" for p b lp
    using map_of_SomeD [of "put_bucket ?k b (dht_entries dht)" ?k b] by (auto simp: stored_def put_bucket_map_of)
  show ?thesis
  proof (cases "list_ex (is_duplicate r) ?b")
    case True
    have "list_ex (is_duplicate r) b \<Longrightarrow> \<forall>p \<in> set b. dht_key p = ?k
        \<Longrightarrow> \<exists>p \<in> set (bump_duplicate now r b). dht_key p = ?k \<and> is_duplicate r p \<and> pe_published_at_utc p = now" for b
      by (induction now r b rule: bump_duplicate.induct) (auto simp: is_duplicate_def)
    then obtain p where "p \<in> set (bump_duplicate now r ?b)" "dht_key p = ?k" "is_duplicate r p" "pe_published_at_utc p = now"
      using True bucket_inv [OF inv, of ?k] by (auto simp: event_ok_def)
    then show ?thesis using v True st [of p "bump_duplicate now r ?b"] by (auto simp: Memory_Publish_def Let_def)
  next
    case False
    let ?e = "\<lparr>dht_key = ?k, pe_info_hash = DeriveInfoHash ?k, pe_record = r, pe_published_at_utc = now, publish_count = 1\<rparr>"
    show ?thesis
      using v False st [of ?e "?b @ [?e]"] by (auto simp: Memory_Publish_def Let_def is_duplicate_def intro!: exI [of _ ?e])
  qed
qed

text \<open>Publishing an event with the key pair of an identity always succeeds: the signed record verifies, and it is then
  found in the local store under its deterministic key with the time of the publication; publishing it again is reported as a
  duplicate.\<close>

theorem publish_event_stored:
  assumes "ecdsa_ok ec" "KeyPair_from_secret ec secret = Inr kp" "dht_reachable ec dht"
  shows "\<exists>st r pr dht' p. PublishEvent ec rnd sign_time now e kp name dht = Inr (st, r, Some pr, dht') \<and> status_ok st
    \<and> envelope r = stamp_envelope sign_time e \<and> VerifyEventRecord ec r = Inr True
    \<and> pr_dht_key pr = DeterministicKey r \<and> pr_inserted pr = (\<not> pr_duplicate pr)
    \<and> p \<in> stored dht' \<and> MatchesQuery p (EventQuery_for (DeterministicKey r) lim)
    \<and> is_duplicate r p \<and> pe_published_at_utc p = now"
proof -
  obtain r where r: "SignEventRecord ec rnd sign_time e kp name = Inr r" "VerifyEventRecord ec r = Inr True"
    "envelope r = stamp_envelope sign_time e"
    using SignEventRecord_verifies [OF assms(1,2)] by blast
  obtain st dht' pr p where P: "Memory_Publish ec now r dht = Inr (st, dht')" "status_ok st" "last_publish dht' = Some pr"
      "pr_dht_key pr = DeterministicKey r" "pr_inserted pr = (\<not> pr_duplicate pr)"
      "p \<in> stored dht'" "dht_key p = DeterministicKey r" "is_duplicate r p" "pe_published_at_utc p = now"
    using Publish_verified [OF reachable_dht_inv [OF assms(3)] r(2), of now] by blast
  have "MatchesQuery p (EventQuery_for (DeterministicKey r) lim)"
    using P(7) by (simp add: MatchesQuery_def EventQuery_for_def MatchesIdentifiers_def)
  moreover have "PublishEvent ec rnd sign_time now e kp name dht = Inr (st, r, Some pr, dht')"
    using r(1) P(1-3) by (simp add: PublishEvent_def)
  ultimately show ?thesis using P r by blast
qed

theorem publish_event_stored_witness:
  "\<exists>kp st r pr dht'. KeyPair_from_secret ecdsa_ref (replicate 32 7) = Inr kp
    \<and> PublishEvent ecdsa_ref () 5 6 sample_envelope kp ''me'' MemoryEventDht_new = Inr (st, r, Some pr, dht') \<and> status_ok st"
proof -
  obtain kp where kp: "KeyPair_from_secret ecdsa_ref (replicate 32 7) = Inr kp"
    by (simp add: KeyPair_from_secret_def ecdsa_ref_def)
  show ?thesis
    using publish_event_stored [OF ecdsa_ok_ref kp new, of "()" 5 6 sample_envelope "''me''" 1] kp by blast
qed

section \<open>The network\<close>

lemma announce_reply_ok:
  "announce_reply r = Inr st \<Longrightarrow> status_ok st \<longleftrightarrow> (\<exists>m values. r = Answer m \<and> krpc_payload m = KrpcResponse values)"
  by (auto simp: announce_reply_def status_ok_def Failure_def Success_def split: reply.splits KrpcPayload.splits)

lemma announce_loop_success:
  "announce_loop net dht key rs last_error n = Inr (st, n') \<Longrightarrow> status_ok st \<Longrightarrow> \<not> status_ok last_error
    \<Longrightarrow> \<exists>router \<in> set rs. \<exists>token n1 n2 m values. token \<noteq> ''''
      \<and> net_announce net (DeriveInfoHash key) token
          (if announce_port dht = 0 then ep_port (endpoint (net_self net)) else announce_port dht) (implied_port dht) router n1 = (Answer m, n2)
      \<and> krpc_payload m = KrpcResponse values"
proof (induction rs arbitrary: last_error n)
  case (Cons router rs)
  let ?port = "if announce_port dht = 0 then ep_port (endpoint (net_self net)) else announce_port dht"
  obtain r n1 where g: "net_get_peers net (DeriveInfoHash key) router n = (r, n1)" by fastforce
  show ?case
  proof (cases "router_reply r")
    case (Inl e)
    then show ?thesis using Cons.prems g by (simp add: rbind_def)
  next
    case (Inr x)
    obtain qs peers token where x: "x = (qs, peers, token)" by (cases x)
    obtain r2 n2 where a: "net_announce net (DeriveInfoHash key) token ?port (implied_port dht) router n1 = (r2, n2)" by fastforce
    have "(\<not> status_ok qs \<and> announce_loop net dht key rs qs n1 = Inr (st, n'))
        \<or> announce_loop net dht key rs (Failure Rejected ''DHT router did not return announce token'') n1 = Inr (st, n')
        \<or> (\<exists>st2. announce_reply r2 = Inr st2 \<and> \<not> status_ok st2 \<and> announce_loop net dht key rs st2 n2 = Inr (st, n'))
        \<or> (\<exists>st2. token \<noteq> '''' \<and> announce_reply r2 = Inr st2 \<and> status_ok st2)"
      using Cons.prems(1) g Inr x a by (auto simp: rbind_eq_Inr split: if_splits)
    moreover have "\<not> status_ok (Failure Rejected ''DHT router did not return announce token'')"
      by (simp add: Failure_def status_ok_def)
    ultimately show ?thesis using Cons.IH [OF _ Cons.prems(2)] a by (fastforce simp: announce_reply_ok)
  qed
qed simp

text \<open>A network in which every request is answered, for the examples: the routers name one peer and give a token, the peer
  returns one record.\<close>

definition one_peer_network :: "SignedEventRecord \<Rightarrow> unit network" where
  "one_peer_network r = \<lparr>
     net_self = KNode_new (replicate 20 0) \<lparr>ep_address = AddressV4 [127, 0, 0, 1], ep_port = 1\<rparr>,
     net_get_peers = (\<lambda>info_hash router n. (Answer (response ''t'' None (map_init
       [(''token'', BString ''x''), (''values'', BList [BString (map char_of_byte [127, 0, 0, 1, 0, 1])])])), n)),
     net_announce = (\<lambda>info_hash token port implied router n. (Answer (response ''t'' None []), n)),
     net_query = (\<lambda>payload peer n. (Answer (response ''t'' None (map_init
       [(''records'', BList [record_ToValue r])])), n))\<rparr>"

text \<open>C34: A record that \<open>MainlineEventDht::Publish\<close> reports as published was verified, is in the local store under its deterministic
  key, and was announced with a non-empty token to one of the configured routers, which answered with a response.\<close>

theorem mainline_publish_announced:
  assumes "Mainline_Publish ec net now r dht n = Inr (st, dht', n')" "status_ok st" "dht_reachable ec (local_store dht)"
  shows "VerifyEventRecord ec r = Inr True
    \<and> (\<exists>p \<in> stored (local_store dht'). is_duplicate r p \<and> dht_key p = DeterministicKey r \<and> pe_published_at_utc p = now)
    \<and> (\<exists>router \<in> set (routers dht). \<exists>token n1 n2 m values. token \<noteq> ''''
      \<and> net_announce net (DeriveInfoHash (DeterministicKey r)) token
          (if announce_port dht = 0 then ep_port (endpoint (net_self net)) else announce_port dht) (implied_port dht) router n1 = (Answer m, n2)
      \<and> krpc_payload m = KrpcResponse values)"
proof -
  have "routers dht \<noteq> []" using assms(1,2) by (auto simp: Mainline_Publish_def Failure_def status_ok_def)
  then obtain ls store where ls: "Memory_Publish ec now r (local_store dht) = Inr (ls, store)"
    using assms(1) by (cases "Memory_Publish ec now r (local_store dht)") (auto simp: Mainline_Publish_def)
  have ok: "status_ok ls" using \<open>routers dht \<noteq> []\<close> assms(1,2) ls by (auto simp: Mainline_Publish_def Let_def split: if_splits)
  let ?e = "Failure IOError ''failed to announce deterministic DHT key''"
  obtain x where x: "announce_loop net (dht\<lparr>local_store := store\<rparr>) (DeterministicKey r) (routers dht) ?e n = Inr x"
    using \<open>routers dht \<noteq> []\<close> assms(1) ls ok
    by (cases "announce_loop net (dht\<lparr>local_store := store\<rparr>) (DeterministicKey r) (routers dht) ?e n") (auto simp: Mainline_Publish_def)
  have rest: "status_ok ls \<and> announce_loop net (dht\<lparr>local_store := store\<rparr>) (DeterministicKey r) (routers dht) ?e n = Inr (st, n')
      \<and> dht' = dht\<lparr>local_store := store\<rparr>"
    using \<open>routers dht \<noteq> []\<close> assms(1) ls ok x by (cases x) (auto simp: Mainline_Publish_def)
  have v: "VerifyEventRecord ec r = Inr True"
    using ls rest by (auto simp: Memory_Publish_def rbind_eq_Inr Failure_def status_ok_def split: if_splits)
  have "\<not> status_ok (Failure IOError ''failed to announce deterministic DHT key'')" by (simp add: Failure_def status_ok_def)
  with announce_loop_success [OF _ assms(2)] rest
  have A: "\<exists>router \<in> set (routers dht). \<exists>token n1 n2 m values. token \<noteq> ''''
      \<and> net_announce net (DeriveInfoHash (DeterministicKey r)) token
          (if announce_port dht = 0 then ep_port (endpoint (net_self net)) else announce_port dht) (implied_port dht) router n1 = (Answer m, n2)
      \<and> krpc_payload m = KrpcResponse values" by fastforce
  obtain p where "p \<in> stored store" "is_duplicate r p" "dht_key p = DeterministicKey r" "pe_published_at_utc p = now"
    using Publish_verified [OF reachable_dht_inv [OF assms(3)] v, of now] ls by (elim exE conjE) simp
  with A v rest show ?thesis by auto
qed

lemma announce_one_peer: "announce_loop (one_peer_network r') dht key (router # rs) e () = Inr (Success '''', ())"
  by (simp add: one_peer_network_def router_reply_def response_def DecodeCompactPeer_def announce_reply_def
      Success_def status_ok_def)

theorem mainline_publish_announced_witness:
  "\<exists>kp r st dht'. SignEventRecord ecdsa_ref () 5 sample_envelope kp ''me'' = Inr r
    \<and> Mainline_Publish ecdsa_ref (one_peer_network r) 6 r
        \<lparr>routers = [\<lparr>ep_address = AddressV4 [127, 0, 0, 1], ep_port = 1\<rparr>], announce_port = 0, implied_port = True,
          local_store = MemoryEventDht_new\<rparr> () = Inr (st, dht', ()) \<and> status_ok st
    \<and> (\<exists>p \<in> stored (local_store dht'). is_duplicate r p \<and> pe_published_at_utc p = 6)"
proof -
  obtain kp where kp: "KeyPair_from_secret ecdsa_ref (replicate 32 7) = Inr kp"
    by (simp add: KeyPair_from_secret_def ecdsa_ref_def)
  obtain r where r: "SignEventRecord ecdsa_ref () 5 sample_envelope kp ''me'' = Inr r" "VerifyEventRecord ecdsa_ref r = Inr True"
    using SignEventRecord_verifies [OF ecdsa_ok_ref kp] by blast
  let ?dht = "\<lparr>routers = [\<lparr>ep_address = AddressV4 [127, 0, 0, 1], ep_port = 1\<rparr>], announce_port = 0, implied_port = True,
          local_store = MemoryEventDht_new\<rparr>"
  obtain st dht' where P: "Mainline_Publish ecdsa_ref (one_peer_network r) 6 r ?dht () = Inr (st, dht', ())" "status_ok st"
    using Publish_verified [OF reachable_dht_inv [OF new] r(2), of 6]
    by (auto simp: Mainline_Publish_def announce_one_peer Success_def status_ok_def simp del: announce_loop.simps)
  show ?thesis
    using mainline_publish_announced [OF P] new [of ecdsa_ref] r(1) P by (simp (no_asm_use)) blast
qed

lemma one_peer_routers:
  "\<exists>a. net_get_peers (one_peer_network r) h router () = (a, ())
    \<and> router_peers a = Inr (Success '''', [\<lparr>ep_address = AddressV4 [127, 0, 0, 1], ep_port = 1\<rparr>])"
  by (simp add: one_peer_network_def router_peers_def response_def DecodeCompactPeer_def)

lemma one_peer_records:
  "\<exists>a. net_query (one_peer_network r) q peer () = (a, ()) \<and> peer_reply a = Inr (Success '''', [received r])"
  using parse_records_ToValue [of "[r]" "[]"] by (simp add: one_peer_network_def peer_reply_def response_def)

lemma router_loop_one_peer:
  assumes "recs = [] \<or> recs = [received r]"
  shows "\<exists>seen' ps'. router_loop addr (one_peer_network r) key (router # rs) (b, e) (seen, ps, recs) ()
    = router_loop addr (one_peer_network r) key rs (True, e) (seen', ps', [received r]) ()"
proof -
  have m: "merge_all recs [received r] = [received r]" using assms by (auto simp: merge_all_def SamePublishedRecord_def)
  let ?p = "\<lparr>ep_address = AddressV4 [127, 0, 0, 1], ep_port = 1\<rparr>"
  obtain a where a: "net_get_peers (one_peer_network r) (DeriveInfoHash key) router () = (a, ())"
    "router_peers a = Inr (Success '''', [?p])" using one_peer_routers by blast
  obtain c where c: "net_query (one_peer_network r) (get_event_query (net_self (one_peer_network r)) key) ?p () = (c, ())"
    "peer_reply c = Inr (Success '''', [received r])" using one_peer_records by blast
  have "status_ok (Success '''')" by (simp add: status_ok_def Success_def)
  then show ?thesis using a c m by (cases "endpoint_ToString addr ?p \<in> set seen") auto
qed

lemma router_loop_one_peer_all:
  "recs = [] \<or> recs = [received r] \<Longrightarrow> rs \<noteq> [] \<Longrightarrow>
    \<exists>seen' ps'. router_loop addr (one_peer_network r) key rs (b, e) (seen, ps, recs) () = Inr ((True, e), (seen', ps', [received r]), ())"
proof (induction rs arbitrary: b seen ps recs)
  case (Cons router rs)
  obtain seen1 ps1 where "router_loop addr (one_peer_network r) key (router # rs) (b, e) (seen, ps, recs) ()
      = router_loop addr (one_peer_network r) key rs (True, e) (seen1, ps1, [received r]) ()"
    using router_loop_one_peer [OF Cons.prems(1)] by blast
  then show ?case using Cons.IH [of "[received r]" True seen1 ps1] by (cases rs) auto
qed simp

text \<open>Records that a peer returns are not verified and need not match the key that was asked for: a query reports whatever record,
  signed or not, a peer answers with.\<close>

theorem mainline_query_unverified:
  assumes "routers dht \<noteq> []" "local_store dht = MemoryEventDht_new" "event_sort_ok srt"
  shows "\<exists>peers. Mainline_Query addr srt (one_peer_network r) (EventQuery_for key 1) dht () = Inr (Success '''', ([received r], peers), ())"
proof -
  have "Memory_Query srt (EventQuery_for key 1) (local_store dht) = []"
    using assms(2) event_sort_small(1) [OF assms(3)] by (simp add: Memory_Query_def MemoryEventDht_new_def)
  then show ?thesis
    using assms(1) router_loop_one_peer_all [of "[]" r "routers dht" addr key False
        "Failure IOError ''failed to query deterministic DHT key''" "[]" "[]"]
    by (auto simp: Mainline_Query_def EventQuery_for_def simp del: router_loop.simps)
qed

end
