(* ===== verification/MainlineNode.thy ===== *)
theory MainlineNode
  imports Kademlia Primitives "HOL-Library.Multiset"
begin

text \<open>
  The DHT node of \<open>src/Blocxxi/P2P/kademlia/mainline_node.cpp\<close>. A handler takes the node to its next
  state and to the calls it makes on the channel, the timers and the client's callbacks, in order. Callbacks
  are of any type \<open>'cb\<close>: the client reacts to a \<open>CallBack\<close> with further requests. The
  responder for custom methods is a function of the state, the resolver and the text form of an address are
  parameters. The unordered maps are only searched, so they are kept like ordered ones.
\<close>

section \<open>State and outputs\<close>

datatype outcome = RequestTimedOut | RequestFailed string | Response KrpcMessage

datatype 'cb action =
    SendTo string IpEndpoint "string option"
  | ReceiveNext
  | StartTimer string
  | CancelTimer string
  | CallBack string 'cb outcome
  | QueryNotice string IpEndpoint
  | BootstrapNotice string

type_synonym responder = "string \<Rightarrow> (string, Value) std_map \<Rightarrow> IpEndpoint \<Rightarrow> (string, Value) std_map option res"

record 'cb MainlineDhtNode =
  ml_self :: KNode
  bootstrap_nodes :: "string list"
  pending_bootstraps :: "(string, string) std_map"
  pending_requests :: "(string, 'cb) std_map"
  pending_request_timers :: "(string, unit) std_map"
  issued_tokens :: "(string, string) std_map"
  announced_peers :: "(string, IpEndpoint list) std_map"
  on_query :: bool
  on_custom_query :: "responder option"
  on_bootstrap_success :: bool
  next_request_id :: u64
  started :: bool

definition MainlineDhtNode_new :: "KNode \<Rightarrow> 'cb MainlineDhtNode" where
  "MainlineDhtNode_new self = \<lparr>ml_self = self, bootstrap_nodes = [], pending_bootstraps = [], pending_requests = [],
     pending_request_timers = [], issued_tokens = [], announced_peers = [], on_query = False, on_custom_query = None,
     on_bootstrap_success = False, next_request_id = 0, started = False\<rparr>"

definition AddBootstrapNode :: "string \<Rightarrow> 'cb MainlineDhtNode \<Rightarrow> 'cb MainlineDhtNode" where
  "AddBootstrapNode e n = n\<lparr>bootstrap_nodes := bootstrap_nodes n @ [e]\<rparr>"

text \<open>Of the callbacks that only observe it matters whether they are set: a call is an output.\<close>

definition OnQuery :: "'cb MainlineDhtNode \<Rightarrow> 'cb MainlineDhtNode" where
  "OnQuery n = n\<lparr>on_query := True\<rparr>"

definition OnBootstrapSuccess :: "'cb MainlineDhtNode \<Rightarrow> 'cb MainlineDhtNode" where
  "OnBootstrapSuccess n = n\<lparr>on_bootstrap_success := True\<rparr>"

definition OnCustomQuery :: "responder \<Rightarrow> 'cb MainlineDhtNode \<Rightarrow> 'cb MainlineDhtNode" where
  "OnCustomQuery f n = n\<lparr>on_custom_query := Some f\<rparr>"

definition HashToBytes :: "hash \<Rightarrow> string" where
  "HashToBytes h = map char_of_byte h"

abbreviation self_bytes :: "'cb MainlineDhtNode \<Rightarrow> string" where
  "self_bytes n \<equiv> HashToBytes (node_id (ml_self n))"

section \<open>Arguments of a query\<close>

definition QueryString :: "(string, Value) std_map \<Rightarrow> string \<Rightarrow> string res" where
  "QueryString args key = (case map_find args key of
       None \<Rightarrow> Inl (InvalidArgumentExn ''missing query string argument'') | Some v \<Rightarrow> AsString v)"

definition FindInteger :: "(string, Value) std_map \<Rightarrow> string \<Rightarrow> i64 option res" where
  "FindInteger args key = (case map_find args key of None \<Rightarrow> Inr None | Some v \<Rightarrow> rbind (AsInteger v) (\<lambda>i. Inr (Some i)))"

section \<open>Requests\<close>

definition NextTransactionId :: "'cb MainlineDhtNode \<Rightarrow> string \<times> 'cb MainlineDhtNode" where
  "NextTransactionId n = (''q'' @ show_nat (unat (next_request_id n)), n\<lparr>next_request_id := next_request_id n + 1\<rparr>)"

definition krpc_message :: "string \<Rightarrow> KrpcPayload \<Rightarrow> KrpcMessage" where
  "krpc_message tid payload = \<lparr>transaction_id = tid, krpc_version = Some ''BX01'', krpc_payload = payload\<rparr>"

text \<open>A timer whose identifier is taken is destroyed at once.\<close>

definition SendQuery :: "KrpcPayload \<Rightarrow> IpEndpoint \<Rightarrow> 'cb \<Rightarrow> 'cb MainlineDhtNode \<Rightarrow> 'cb action list \<times> 'cb MainlineDhtNode" where
  "SendQuery query destination callback n =
     (let (tid, n) = NextTransactionId n;
          n = n\<lparr>pending_requests := map_emplace tid callback (pending_requests n)\<rparr>;
          timers = (if map_find (pending_request_timers n) tid = None then [StartTimer tid] else []);
          n = n\<lparr>pending_request_timers := map_emplace tid () (pending_request_timers n)\<rparr> in
      (timers @ [SendTo (krpc_Encode (krpc_message tid query)) destination (Some tid)], n))"

definition ping_query :: "KNode \<Rightarrow> KrpcPayload" where
  "ping_query self = KrpcQuery ''ping'' (map_init [(''id'', BString (HashToBytes (node_id self)))])"

definition find_node_query :: "KNode \<Rightarrow> hash \<Rightarrow> KrpcPayload" where
  "find_node_query self target = KrpcQuery ''find_node'' (map_init
     [(''id'', BString (HashToBytes (node_id self))), (''target'', BString (HashToBytes target))])"

definition get_peers_query :: "KNode \<Rightarrow> hash \<Rightarrow> KrpcPayload" where
  "get_peers_query self info_hash = KrpcQuery ''get_peers'' (map_init
     [(''id'', BString (HashToBytes (node_id self))), (''info_hash'', BString (HashToBytes info_hash))])"

definition announce_peer_query :: "KNode \<Rightarrow> hash \<Rightarrow> string \<Rightarrow> u16 \<Rightarrow> bool \<Rightarrow> KrpcPayload" where
  "announce_peer_query self info_hash token port implied =
     (let arguments = map_init [(''id'', BString (HashToBytes (node_id self))), (''info_hash'', BString (HashToBytes info_hash)),
            (''token'', BString token), (''port'', BInteger (ucast port))];
          arguments = (if implied then map_emplace ''implied_port'' (BInteger 1) arguments else arguments) in
      KrpcQuery ''announce_peer'' arguments)"

definition sample_infohashes_query :: "KNode \<Rightarrow> hash \<Rightarrow> KrpcPayload" where
  "sample_infohashes_query self target = KrpcQuery ''sample_infohashes'' (map_init
     [(''id'', BString (HashToBytes (node_id self))), (''target'', BString (HashToBytes target))])"

definition AsyncPing :: "IpEndpoint \<Rightarrow> 'cb \<Rightarrow> 'cb MainlineDhtNode \<Rightarrow> 'cb action list \<times> 'cb MainlineDhtNode" where
  "AsyncPing destination callback n = SendQuery (ping_query (ml_self n)) destination callback n"

definition AsyncFindNode :: "hash \<Rightarrow> IpEndpoint \<Rightarrow> 'cb \<Rightarrow> 'cb MainlineDhtNode \<Rightarrow> 'cb action list \<times> 'cb MainlineDhtNode" where
  "AsyncFindNode target destination callback n = SendQuery (find_node_query (ml_self n) target) destination callback n"

definition AsyncGetPeers :: "hash \<Rightarrow> IpEndpoint \<Rightarrow> 'cb \<Rightarrow> 'cb MainlineDhtNode \<Rightarrow> 'cb action list \<times> 'cb MainlineDhtNode" where
  "AsyncGetPeers info_hash destination callback n = SendQuery (get_peers_query (ml_self n) info_hash) destination callback n"

definition AsyncAnnouncePeer :: "hash \<Rightarrow> string \<Rightarrow> u16 \<Rightarrow> bool \<Rightarrow> IpEndpoint \<Rightarrow> 'cb \<Rightarrow> 'cb MainlineDhtNode
    \<Rightarrow> 'cb action list \<times> 'cb MainlineDhtNode" where
  "AsyncAnnouncePeer info_hash token port implied destination callback n =
     SendQuery (announce_peer_query (ml_self n) info_hash token port implied) destination callback n"

definition AsyncSampleInfohashes :: "hash \<Rightarrow> IpEndpoint \<Rightarrow> 'cb \<Rightarrow> 'cb MainlineDhtNode \<Rightarrow> 'cb action list \<times> 'cb MainlineDhtNode" where
  "AsyncSampleInfohashes target destination callback n = SendQuery (sample_infohashes_query (ml_self n) target) destination callback n"

definition TakePendingRequest :: "string \<Rightarrow> bool \<Rightarrow> 'cb MainlineDhtNode \<Rightarrow> 'cb option \<times> 'cb action list \<times> 'cb MainlineDhtNode" where
  "TakePendingRequest tid cancel_timer n =
     (case map_find (pending_requests n) tid of
        None \<Rightarrow> (None, [], n\<lparr>pending_request_timers := map_erase tid (pending_request_timers n)\<rparr>)
      | Some cb \<Rightarrow>
          (let cancelled = (if cancel_timer \<and> map_find (pending_request_timers n) tid \<noteq> None then [CancelTimer tid] else []) in
           (Some cb, cancelled, n\<lparr>pending_requests := map_erase tid (pending_requests n),
              pending_request_timers := map_erase tid (pending_request_timers n)\<rparr>)))"

definition OnTimer :: "string \<Rightarrow> 'cb MainlineDhtNode \<Rightarrow> 'cb action list \<times> 'cb MainlineDhtNode" where
  "OnTimer tid n =
     (let (callback, out, n) = TakePendingRequest tid False n in
      (out @ (case callback of Some cb \<Rightarrow> [CallBack tid cb RequestTimedOut] | None \<Rightarrow> []), n))"

definition OnSendFailed :: "string \<Rightarrow> string \<Rightarrow> 'cb MainlineDhtNode \<Rightarrow> 'cb action list \<times> 'cb MainlineDhtNode" where
  "OnSendFailed failure tid n =
     (let (callback, out, n) = TakePendingRequest tid True n in
      (out @ (case callback of Some cb \<Rightarrow> [CallBack tid cb (RequestFailed failure)] | None \<Rightarrow> []), n))"

section \<open>Answering queries\<close>

definition MakeToken :: "(Address \<Rightarrow> string) \<Rightarrow> IpEndpoint \<Rightarrow> string" where
  "MakeToken addr sender = endpoint_ToString addr sender"

definition MakeErrorResponse :: "i64 \<Rightarrow> string \<Rightarrow> string \<Rightarrow> KrpcMessage" where
  "MakeErrorResponse code message tid = krpc_message tid (KrpcError code message)"

definition MakeSampleInfohashesPayload :: "'cb MainlineDhtNode \<Rightarrow> (string, Value) std_map res" where
  "MakeSampleInfohashesPayload n =
     (let samples = concat (map (\<lambda>(info_hash, peers). if peers \<noteq> [] then info_hash else []) (announced_peers n)) in
      rbind (EncodeCompactNode (ml_self n)) (\<lambda>nodes.
        Inr (map_init [(''id'', BString (self_bytes n)), (''interval'', BInteger 21600), (''nodes'', BString nodes),
          (''num'', BInteger (word_of_nat (length (announced_peers n)))), (''samples'', BString samples)])))"

definition add_peer :: "IpEndpoint \<Rightarrow> IpEndpoint list \<Rightarrow> IpEndpoint list" where
  "add_peer e peers = (if list_ex (\<lambda>p. endpoint_eq p e) peers then peers else peers @ [e])"

definition RecordAnnouncedPeer :: "string \<Rightarrow> IpEndpoint \<Rightarrow> (string, Value) std_map \<Rightarrow> 'cb MainlineDhtNode \<Rightarrow> 'cb MainlineDhtNode res" where
  "RecordAnnouncedPeer info_hash sender args n =
     rbind (FindInteger args ''implied_port'') (\<lambda>implied.
     rbind (if (case implied of Some i \<Rightarrow> i | None \<Rightarrow> 0) = 0 then
              rbind (FindInteger args ''port'') (\<lambda>port.
                case port of None \<Rightarrow> Inl (InvalidArgumentExn ''announce_peer requires a port'')
                | Some p \<Rightarrow> Inr (sender\<lparr>ep_port := ucast p\<rparr>))
            else Inr sender) (\<lambda>e.
       let peers = (case map_find (announced_peers n) info_hash of Some ps \<Rightarrow> ps | None \<Rightarrow> []) in
       Inr (n\<lparr>announced_peers := map_insert_or_assign info_hash (add_peer e peers) (announced_peers n)\<rparr>)))"

definition krpc_response :: "string \<Rightarrow> (string, Value) std_map \<Rightarrow> KrpcMessage" where
  "krpc_response tid values = krpc_message tid (KrpcResponse values)"

definition respond_get_peers ::
  "(Address \<Rightarrow> string) \<Rightarrow> (string, Value) std_map \<Rightarrow> IpEndpoint \<Rightarrow> 'cb MainlineDhtNode
    \<Rightarrow> (string, Value) std_map res \<times> 'cb MainlineDhtNode" where
  "respond_get_peers addr args sender n =
     (let values = map_init [(''id'', BString (self_bytes n))] in
      case QueryString args ''info_hash'' of Inl e \<Rightarrow> (Inl e, n)
      | Inr info_hash \<Rightarrow>
          let token = MakeToken addr sender;
              n = n\<lparr>issued_tokens := map_insert_or_assign (endpoint_ToString addr sender) token (issued_tokens n)\<rparr>;
              values = map_emplace ''token'' (BString token) values in
          (case map_find (announced_peers n) info_hash of
             Some (peer # peers) \<Rightarrow>
               rbind (rmap EncodeCompactPeer (peer # peers)) (\<lambda>compact_peers.
                 Inr (map_emplace ''values'' (BList (map BString compact_peers)) values))
           | _ \<Rightarrow> rbind (EncodeCompactNode (ml_self n)) (\<lambda>nodes. Inr (map_emplace ''nodes'' (BString nodes) values)), n))"

definition MakeResponse ::
  "(Address \<Rightarrow> string) \<Rightarrow> string \<Rightarrow> (string, Value) std_map \<Rightarrow> IpEndpoint \<Rightarrow> string \<Rightarrow> 'cb MainlineDhtNode
    \<Rightarrow> KrpcMessage option res \<times> 'cb MainlineDhtNode" where
  "MakeResponse addr name args sender tid n =
     (let values = map_init [(''id'', BString (self_bytes n))];
          answer = (\<lambda>r. rbind r (\<lambda>vals. Inr (Some (krpc_response tid vals)))) in
      if name = ''find_node'' then
        (answer (rbind (EncodeCompactNode (ml_self n)) (\<lambda>nodes. Inr (map_emplace ''nodes'' (BString nodes) values))), n)
      else if name = ''get_peers'' then
        let (r, n) = respond_get_peers addr args sender n in (answer r, n)
      else if name = ''sample_infohashes'' then (answer (MakeSampleInfohashesPayload n), n)
      else if name = ''announce_peer'' then
        (case QueryString args ''token'' of Inl e \<Rightarrow> (Inl e, n)
         | Inr token \<Rightarrow>
             if map_find (issued_tokens n) (endpoint_ToString addr sender) \<noteq> Some token
             then (Inr (Some (MakeErrorResponse 203 ''invalid announce_peer token'' tid)), n)
             else
               (case rbind (QueryString args ''info_hash'') (\<lambda>info_hash. RecordAnnouncedPeer info_hash sender args n) of
                  Inl e \<Rightarrow> (Inl e, n)
                | Inr n \<Rightarrow> (answer (Inr values), n)))
      else if name = ''ping'' then (answer (Inr values), n)
      else
        (case on_custom_query n of None \<Rightarrow> (Inr None, n)
         | Some respond \<Rightarrow>
             (rbind (respond name args sender) (\<lambda>custom_values.
                case custom_values of None \<Rightarrow> Inr None
                | Some cv \<Rightarrow> answer (Inr (fold (\<lambda>(k, v). map_insert_or_assign k v) cv values))), n)))"

section \<open>Receiving\<close>

definition OnMessage :: "(Address \<Rightarrow> string) \<Rightarrow> KrpcMessage \<Rightarrow> IpEndpoint \<Rightarrow> 'cb MainlineDhtNode \<Rightarrow> 'cb action list \<times> 'cb MainlineDhtNode" where
  "OnMessage addr message sender n =
     (case krpc_payload message of
        KrpcQuery name args \<Rightarrow>
          (let notice = (if on_query n then [QueryNotice name sender] else []);
               (response, n) = MakeResponse addr name args sender (transaction_id message) n in
           (notice @ (case response of Inr (Some m) \<Rightarrow> [SendTo (krpc_Encode m) sender None] | _ \<Rightarrow> []), n))
      | _ \<Rightarrow>
          (case map_find (pending_bootstraps n) (transaction_id message) of
             Some bootstrap \<Rightarrow>
               (if on_bootstrap_success n then [BootstrapNotice bootstrap] else [],
                n\<lparr>pending_bootstraps := map_erase (transaction_id message) (pending_bootstraps n)\<rparr>)
           | None \<Rightarrow>
               (let (callback, out, n) = TakePendingRequest (transaction_id message) True n in
                (out @ (case callback of Some cb \<Rightarrow> [CallBack (transaction_id message) cb (Response message)] | None \<Rightarrow> []), n))))"

definition ScheduleReceive :: "'cb MainlineDhtNode \<Rightarrow> 'cb action list" where
  "ScheduleReceive n = (if started n then [ReceiveNext] else [])"

text \<open>A datagram that cannot be decoded, or a query that cannot be answered, is ignored. \<open>None\<close>: decoding does
  not end within the fuel.\<close>

definition OnDatagram :: "(Address \<Rightarrow> string) \<Rightarrow> nat \<Rightarrow> string \<Rightarrow> IpEndpoint \<Rightarrow> 'cb MainlineDhtNode
    \<Rightarrow> ('cb action list \<times> 'cb MainlineDhtNode) option" where
  "OnDatagram addr fuel datagram sender n =
     (case DecodeKrpc fuel datagram of None \<Rightarrow> None
      | Some (Inl e) \<Rightarrow> Some (ScheduleReceive n, n)
      | Some (Inr message) \<Rightarrow> let (out, n) = OnMessage addr message sender n in Some (out @ ScheduleReceive n, n))"

section \<open>Starting and stopping\<close>

definition bootstrap_id :: "u32 \<Rightarrow> string" where
  "bootstrap_id tx_index = ''b'' @ [char_of (48 + unat (tx_index mod 10))]"

fun SendBootstrapQueries_loop :: "(string \<Rightarrow> string \<Rightarrow> IpEndpoint list res) \<Rightarrow> string list \<Rightarrow> u32 \<Rightarrow> 'cb MainlineDhtNode
    \<Rightarrow> cpp_exn option \<times> 'cb action list \<times> 'cb MainlineDhtNode" where
  "SendBootstrapQueries_loop resolve [] tx_index n = (None, [], n)"
| "SendBootstrapQueries_loop resolve (bootstrap # bs) tx_index n =
     (case rfind_char (CHR '':'') bootstrap of
        None \<Rightarrow> (Some (InvalidArgumentExn (''bad bootstrap endpoint: '' @ bootstrap)), [], n)
      | Some separator \<Rightarrow>
          (case resolve (take separator bootstrap) (drop (separator + 1) bootstrap) of
             Inl e \<Rightarrow> (Some e, [], n)
           | Inr [] \<Rightarrow> (Some (InvalidArgumentExn (''no endpoint resolved for '' @ bootstrap)), [], n)
           | Inr (e # es) \<Rightarrow>
               (let tid = bootstrap_id tx_index;
                    n = n\<lparr>pending_bootstraps := map_emplace tid bootstrap (pending_bootstraps n)\<rparr>;
                    query = find_node_query (ml_self n) (node_id (ml_self n));
                    (exn, out, n) = SendBootstrapQueries_loop resolve bs (tx_index + 1) n in
                (exn, SendTo (krpc_Encode (krpc_message tid query)) e None # out, n))))"

definition Start :: "(string \<Rightarrow> string \<Rightarrow> IpEndpoint list res) \<Rightarrow> 'cb MainlineDhtNode
    \<Rightarrow> cpp_exn option \<times> 'cb action list \<times> 'cb MainlineDhtNode" where
  "Start resolve n =
     (if started n then (None, [], n)
      else
        let n = n\<lparr>started := True\<rparr>;
            (exn, out, n') = SendBootstrapQueries_loop resolve (bootstrap_nodes n) 0 n in
        (exn, ScheduleReceive n @ out, n'))"

definition Stop :: "'cb MainlineDhtNode \<Rightarrow> 'cb action list \<times> 'cb MainlineDhtNode" where
  "Stop n = (map (\<lambda>(tid, u). CancelTimer tid) (pending_request_timers n),
     n\<lparr>started := False, pending_request_timers := [], pending_requests := []\<rparr>)"

section \<open>Events\<close>

datatype 'cb event =
    EvRequest KrpcPayload IpEndpoint 'cb
  | EvDatagram string IpEndpoint
  | EvReceiveFailed
  | EvTimer string
  | EvSendFailed string string
  | EvStart
  | EvStop
  | EvBootstrap string
  | EvCustom responder
  | EvOnQuery
  | EvOnBootstrapSuccess

text \<open>The parameters of a run: the text form of an address, the resolver, the fuel of the decoder.\<close>

record environment =
  env_addr :: "Address \<Rightarrow> string"
  env_resolve :: "string \<Rightarrow> string \<Rightarrow> IpEndpoint list res"
  env_fuel :: nat

definition step :: "environment \<Rightarrow> 'cb event \<Rightarrow> 'cb MainlineDhtNode \<Rightarrow> ('cb action list \<times> 'cb MainlineDhtNode) option" where
  "step env ev n =
     (case ev of
        EvRequest query destination cb \<Rightarrow> Some (SendQuery query destination cb n)
      | EvDatagram datagram sender \<Rightarrow> OnDatagram (env_addr env) (env_fuel env) datagram sender n
      | EvReceiveFailed \<Rightarrow> Some (ScheduleReceive n, n)
      | EvTimer tid \<Rightarrow> Some (OnTimer tid n)
      | EvSendFailed failure tid \<Rightarrow> Some (OnSendFailed failure tid n)
      | EvStart \<Rightarrow> Some (snd (Start (env_resolve env) n))
      | EvStop \<Rightarrow> Some (Stop n)
      | EvBootstrap e \<Rightarrow> Some ([], AddBootstrapNode e n)
      | EvCustom f \<Rightarrow> Some ([], OnCustomQuery f n)
      | EvOnQuery \<Rightarrow> Some ([], OnQuery n)
      | EvOnBootstrapSuccess \<Rightarrow> Some ([], OnBootstrapSuccess n))"

fun run :: "environment \<Rightarrow> 'cb event list \<Rightarrow> 'cb MainlineDhtNode \<Rightarrow> ('cb action list \<times> 'cb MainlineDhtNode) option" where
  "run env [] n = Some ([], n)"
| "run env (ev # evs) n =
     (case step env ev n of None \<Rightarrow> None
      | Some (out, n) \<Rightarrow> (case run env evs n of None \<Rightarrow> None | Some (outs, n) \<Rightarrow> Some (out @ outs, n)))"

section \<open>Requests and their callbacks\<close>

definition calls :: "'cb action list \<Rightarrow> (string \<times> 'cb) list" where
  "calls out = concat (map (\<lambda>a. case a of CallBack tid cb o' \<Rightarrow> [(tid, cb)] | _ \<Rightarrow> []) out)"

lemma calls_simps [simp]:
  "calls [] = []"
  "calls (CallBack tid cb o' # out) = (tid, cb) # calls out"
  "calls (SendTo b e t # out) = calls out"
  "calls (ReceiveNext # out) = calls out"
  "calls (StartTimer tid # out) = calls out"
  "calls (CancelTimer tid # out) = calls out"
  "calls (QueryNotice m e # out) = calls out"
  "calls (BootstrapNotice s # out) = calls out"
  "calls (out @ out') = calls out @ calls out'"
  by (simp_all add: calls_def)

abbreviation query_id :: "nat \<Rightarrow> string" where
  "query_id i \<equiv> ''q'' @ show_nat i"

fun callbacks :: "'cb event list \<Rightarrow> 'cb list" where
  "callbacks [] = []"
| "callbacks (EvRequest q e cb # evs) = cb # callbacks evs"
| "callbacks (ev # evs) = callbacks evs"

lemma mset_map_emplace: "map_of m k = None \<Longrightarrow> mset (map_emplace k v m) = add_mset (k, v) (mset m)"
  by (induction k v m rule: map_emplace.induct) (auto split: if_splits)

lemma mset_map_erase: "map_wf m \<Longrightarrow> map_of m k = Some v \<Longrightarrow> mset m = add_mset (k, v) (mset (map_erase k m))"
proof (induction m)
  case (Cons e m)
  show ?case
  proof (cases "fst e = k")
    case True
    then have "map_erase k m = m" using Cons.prems(1) by (force simp: map_erase_def map_wf_Cons intro: filter_True)
    then show ?thesis using True Cons.prems(2) by (cases e) (simp add: map_erase_def)
  next
    case False
    then show ?thesis using Cons by (cases e) (simp add: map_wf_Cons map_erase_def)
  qed
qed simp

definition keys :: "('k, 'v) std_map \<Rightarrow> 'k set" where
  "keys m = fst ` set m"

lemma keys_simps [simp]:
  "keys (map_emplace k v m) = insert k (keys m)"
  "keys (map_insert_or_assign k v m) = insert k (keys m)"
  "keys (map_erase k m) = keys m - {k}"
  "keys [] = {}"
  by (auto simp: keys_def fst_set_emplace fst_set_insert_or_assign map_erase_def image_iff)

lemma not_in_keys: "map_find m k = None \<longleftrightarrow> k \<notin> keys m"
  by (simp add: map_find_def keys_def map_of_eq_None_iff)

definition requests_wf :: "'cb MainlineDhtNode \<Rightarrow> bool" where
  "requests_wf n \<longleftrightarrow> map_wf (pending_requests n) \<and> map_wf (pending_request_timers n)
     \<and> keys (pending_requests n) = keys (pending_request_timers n)"

lemma SendQuery_requests:
  assumes "requests_wf n" "SendQuery q e cb n = (out, n')"
  shows "requests_wf n' \<and> calls out = [] \<and> next_request_id n' = next_request_id n + 1
    \<and> (map_of (pending_requests n) (query_id (unat (next_request_id n))) = None \<longrightarrow>
        mset (pending_requests n') = add_mset (query_id (unat (next_request_id n)), cb) (mset (pending_requests n)))"
  using assms
  by (auto simp: SendQuery_def NextTransactionId_def requests_wf_def Let_def smap_simps mset_map_emplace)

lemma Take_requests:
  assumes "requests_wf n" "TakePendingRequest tid c n = (r, out, n')"
  shows "requests_wf n' \<and> calls out = [] \<and> next_request_id n' = next_request_id n
    \<and> mset (pending_requests n) = mset (pending_requests n') + (case r of None \<Rightarrow> {#} | Some cb \<Rightarrow> {#(tid, cb)#})"
proof -
  show ?thesis
  proof (cases "map_find (pending_requests n) tid")
    case None
    then have "n' = n\<lparr>pending_request_timers := map_erase tid (pending_request_timers n)\<rparr> \<and> r = None \<and> out = []"
      using assms(2) by (simp add: TakePendingRequest_def)
    then show ?thesis using assms(1) None
      by (simp add: requests_wf_def smap_simps not_in_keys)
  next
    case (Some cb)
    then have "mset (pending_requests n) = add_mset (tid, cb) (mset (map_erase tid (pending_requests n)))"
      using assms(1) by (intro mset_map_erase) (auto simp: requests_wf_def map_find_def)
    then show ?thesis using assms Some
      by (auto simp: TakePendingRequest_def requests_wf_def smap_simps Let_def split: option.splits)
  qed
qed

lemma MakeResponse_requests:
  "MakeResponse addr m args sender tid n = (r, n') \<Longrightarrow>
     pending_requests n' = pending_requests n \<and> pending_request_timers n' = pending_request_timers n
     \<and> next_request_id n' = next_request_id n"
  by (auto simp: MakeResponse_def respond_get_peers_def RecordAnnouncedPeer_def Let_def rbind_eq_Inr
      split: if_splits sum.splits option.splits list.splits)

lemma OnMessage_requests:
  assumes "requests_wf n" "OnMessage addr m sender n = (out, n')"
  shows "requests_wf n' \<and> next_request_id n' = next_request_id n
    \<and> mset (pending_requests n) = mset (pending_requests n') + mset (calls out)"
proof (cases "\<exists>q args. krpc_payload m = KrpcQuery q args")
  case True
  then obtain q args where q: "krpc_payload m = KrpcQuery q args" by blast
  obtain r n1 where r: "MakeResponse addr q args sender (transaction_id m) n = (r, n1)" by fastforce
  have "n' = n1 \<and> calls out = []"
    using assms(2) q r by (auto simp: OnMessage_def Let_def split: sum.splits option.splits if_splits)
  then show ?thesis using assms(1) MakeResponse_requests [OF r] by (simp add: requests_wf_def)
next
  case False
  show ?thesis
  proof (cases "map_find (pending_bootstraps n) (transaction_id m)")
    case None
    obtain r out1 n1 where t: "TakePendingRequest (transaction_id m) True n = (r, out1, n1)" by (cases "TakePendingRequest (transaction_id m) True n")
    then have "out = out1 @ (case r of Some cb \<Rightarrow> [CallBack (transaction_id m) cb (Response m)] | None \<Rightarrow> []) \<and> n' = n1"
      using assms(2) None False by (auto simp: OnMessage_def split: KrpcPayload.splits)
    then show ?thesis using Take_requests [OF assms(1) t] by (auto split: option.splits)
  next
    case (Some b)
    then show ?thesis using assms False
      by (auto simp: OnMessage_def requests_wf_def split: KrpcPayload.splits if_splits)
  qed
qed


lemma SendBootstrap_requests:
  "SendBootstrapQueries_loop resolve bs i n = (e, out, n') \<Longrightarrow>
     pending_requests n' = pending_requests n \<and> pending_request_timers n' = pending_request_timers n
     \<and> next_request_id n' = next_request_id n \<and> calls out = []"
proof (induction resolve bs i n arbitrary: e out n' rule: SendBootstrapQueries_loop.induct)
  case (2 resolve b bs i n)
  show ?case
  proof (cases "rfind_char (CHR '':'') b")
    case (Some sep)
    then show ?thesis using "2.prems" "2.IH" [OF Some]
      by (fastforce simp: Let_def split: sum.splits list.splits prod.splits)
  qed (use "2.prems" in auto)
qed simp

lemma step_requests:
  assumes "requests_wf n" "step env ev n = Some (out, n')"
  shows "requests_wf n' \<and> next_request_id n' = next_request_id n + of_nat (length (callbacks [ev]))
    \<and> (callbacks [ev] = [] \<or> map_of (pending_requests n) (query_id (unat (next_request_id n))) = None \<longrightarrow>
        mset (calls out) + mset (pending_requests n') \<subseteq># mset (pending_requests n) + mset (map (Pair (query_id (unat (next_request_id n)))) (callbacks [ev]))
        \<and> (ev \<noteq> EvStop \<longrightarrow> mset (calls out) + mset (pending_requests n')
              = mset (pending_requests n) + mset (map (Pair (query_id (unat (next_request_id n)))) (callbacks [ev]))))"
proof (cases ev)
  case (EvRequest q e cb)
  then show ?thesis using assms SendQuery_requests [of n q e cb out n'] by (auto simp: step_def)
next
  case (EvDatagram d s)
  then show ?thesis using assms OnMessage_requests [OF assms(1)]
    by (fastforce simp: step_def OnDatagram_def ScheduleReceive_def split: option.splits sum.splits prod.splits)
next
  case (EvTimer tid)
  obtain r o1 n1 where t: "TakePendingRequest tid False n = (r, o1, n1)" by (cases "TakePendingRequest tid False n")
  show ?thesis using assms(2) EvTimer t Take_requests [OF assms(1) t] by (auto simp: step_def OnTimer_def split: option.splits)
next
  case (EvSendFailed f tid)
  obtain r o1 n1 where t: "TakePendingRequest tid True n = (r, o1, n1)" by (cases "TakePendingRequest tid True n")
  show ?thesis using assms(2) EvSendFailed t Take_requests [OF assms(1) t] by (auto simp: step_def OnSendFailed_def split: option.splits)
next
  case EvStart
  then show ?thesis using assms SendBootstrap_requests
    by (fastforce simp: step_def Start_def requests_wf_def ScheduleReceive_def Let_def split: prod.splits if_splits)
next
  case EvStop
  have "calls (map (\<lambda>(tid, u). CancelTimer tid) ts) = []" for ts :: "(string \<times> unit) list"
    by (induction ts) auto
  then have "calls out = [] \<and> pending_requests n' = [] \<and> requests_wf n' \<and> next_request_id n' = next_request_id n"
    using assms EvStop by (auto simp: step_def Stop_def requests_wf_def)
  then show ?thesis using EvStop by simp
qed (use assms in \<open>auto simp: step_def requests_wf_def AddBootstrapNode_def OnCustomQuery_def OnQuery_def OnBootstrapSuccess_def ScheduleReceive_def\<close>)

text \<open>The requests of a run with their identifiers, the counter starting at \<open>k\<close>.\<close>

definition issued :: "nat \<Rightarrow> 'cb event list \<Rightarrow> (string \<times> 'cb) list" where
  "issued k evs = zip (map query_id [k ..< k + length (callbacks evs)]) (callbacks evs)"

lemma query_id_inj: "query_id i = query_id j \<longleftrightarrow> i = j"
  by (simp add: show_nat_inj)

lemma callbacks_Cons: "callbacks (ev # evs) = callbacks [ev] @ callbacks evs"
  by (cases ev) auto

lemma mset_chain_sub:
  fixes A B C D P N M :: "'x multiset"
  assumes "A + B \<subseteq># P + N" "C + D \<subseteq># B + M"
  shows "(A + C) + D \<subseteq># P + (N + M)"
proof -
  have "A + (C + D) \<subseteq># A + (B + M)" using assms(2) by simp
  also have "A + (B + M) = (A + B) + M" by (simp add: add.assoc)
  also have "\<dots> \<subseteq># (P + N) + M" using assms(1) by simp
  finally show ?thesis by (simp add: add.assoc)
qed

lemma mset_chain_eq:
  fixes A B C D P N M :: "'x multiset"
  assumes "A + B = P + N" "C + D = B + M"
  shows "(A + C) + D = P + (N + M)"
  using assms by (metis add.assoc)

lemma run_requests:
  assumes "run env evs n = Some (outs, n')" "requests_wf n" "next_request_id n = word_of_nat k"
    "k + length (callbacks evs) \<le> 2 ^ 64" "\<forall>e \<in> set (pending_requests n). \<exists>i < k. fst e = query_id i"
  shows "requests_wf n' \<and> mset (calls outs) + mset (pending_requests n') \<subseteq># mset (pending_requests n) + mset (issued k evs)
    \<and> (EvStop \<notin> set evs \<longrightarrow> mset (calls outs) + mset (pending_requests n') = mset (pending_requests n) + mset (issued k evs))"
  using assms
proof (induction evs arbitrary: n k outs)
  case (Cons ev evs)
  let ?id = "query_id (unat (next_request_id n))"
  let ?new = "mset (map (Pair ?id) (callbacks [ev]))"
  obtain out n1 outs1 where s: "step env ev n = Some (out, n1)" and r: "run env evs n1 = Some (outs1, n')"
    and outs: "outs = out @ outs1"
    using Cons.prems(1) by (auto split: option.splits)
  have len: "k + length (callbacks [ev]) + length (callbacks evs) \<le> 2 ^ 64"
    using Cons.prems(4) callbacks_Cons [of ev evs] by simp
  have id: "callbacks [ev] \<noteq> [] \<Longrightarrow> unat (next_request_id n) = k"
    using len Cons.prems(3) by (cases "callbacks [ev]") (auto simp: unat_of_nat)
  have fresh: "callbacks [ev] = [] \<or> map_of (pending_requests n) ?id = None"
  proof (rule disjCI)
    assume "map_of (pending_requests n) ?id \<noteq> None"
    then obtain e where "e \<in> set (pending_requests n)" "fst e = ?id" by (auto dest: map_of_SomeD)
    with Cons.prems(5) obtain i where "i < k" "?id = query_id i" by metis
    then have "unat (next_request_id n) < k" unfolding query_id_inj by simp
    then show "callbacks [ev] = []" using id by auto
  qed
  note T = step_requests [OF Cons.prems(2) s]
  have S: "requests_wf n1" "next_request_id n1 = word_of_nat (k + length (callbacks [ev]))"
    using T Cons.prems(3) by auto
  have S': "mset (calls out) + mset (pending_requests n1) \<subseteq># mset (pending_requests n) + ?new"
      "ev \<noteq> EvStop \<Longrightarrow> mset (calls out) + mset (pending_requests n1) = mset (pending_requests n) + ?new"
    using mp [OF conjunct2 [OF conjunct2 [OF T]] fresh] by blast+
  have new: "issued k (ev # evs) = map (Pair ?id) (callbacks [ev]) @ issued (k + length (callbacks [ev])) evs"
    using id by (cases ev) (auto simp: issued_def upt_conv_Cons simp del: upt_Suc)
  have ids: "\<forall>e \<in> set (pending_requests n1). \<exists>i < k + length (callbacks [ev]). fst e = query_id i"
  proof
    fix e assume "e \<in> set (pending_requests n1)"
    then have "e \<in> set (pending_requests n) \<or> callbacks [ev] \<noteq> [] \<and> fst e = ?id"
      using mset_subset_eqD [OF S'(1), of e] by auto
    then show "\<exists>i < k + length (callbacks [ev]). fst e = query_id i"
      using Cons.prems(5) id by (fastforce simp: Suc_le_eq intro: trans_less_add1)
  qed
  note IH = Cons.IH [OF r S(1,2) len ids]
  show ?case
    unfolding outs new calls_simps mset_append
    using conjunct1 [OF IH] mset_chain_sub [OF S'(1)] mset_chain_eq [OF S'(2)] conjunct2 [OF IH] by (intro conjI impI) (auto simp del: mset_map)
qed (simp add: issued_def)

lemma distinct_fst_sub:
  assumes "mset xs \<subseteq># mset ys" "distinct (map fst ys)"
  shows "distinct (map fst xs)"
proof -
  have "mset (map fst xs) \<subseteq># mset (map fst ys)"
    using image_mset_subseteq_mono [OF assms(1), of fst] by simp
  then show ?thesis using assms(2)
    by (metis (no_types, lifting) distinct_count_atmost_1 mset_subset_eq_count count_mset_0_iff le_zero_eq less_one
        linorder_neqE_nat nat_less_le count_greater_zero_iff set_mset_mset mset_subset_eqD)
qed

lemma distinct_issued: "distinct (map fst (issued k evs))"
  by (simp add: issued_def distinct_map inj_on_def query_id_inj)

text \<open>C29: Every request is answered at most once, and with its own callback: the callbacks called in a run, and those of the
  requests still pending, are callbacks of different requests of the run, each under the identifier of its request. Unless
  the node is stopped, no request is lost: every one is either answered or pending, and pending requests are exactly those
  with a timer. (Up to the wrap-around of the 64-bit request counter.)\<close>

theorem requests_answered_once:
  assumes "run env evs (MainlineDhtNode_new self) = Some (outs, n)" "length (callbacks evs) \<le> 2 ^ 64"
  shows "distinct (map fst (calls outs @ pending_requests n))
    \<and> mset (calls outs) + mset (pending_requests n) \<subseteq># mset (issued 0 evs)
    \<and> (EvStop \<notin> set evs \<longrightarrow> mset (calls outs) + mset (pending_requests n) = mset (issued 0 evs))
    \<and> keys (pending_requests n) = keys (pending_request_timers n)"
proof -
  have "requests_wf (MainlineDhtNode_new self :: 'a MainlineDhtNode)" by (simp add: requests_wf_def MainlineDhtNode_new_def)
  note R = run_requests [OF assms(1) this, of 0]
  have S: "requests_wf n" "mset (calls outs) + mset (pending_requests n) \<subseteq># mset (issued 0 evs)"
    "EvStop \<notin> set evs \<Longrightarrow> mset (calls outs) + mset (pending_requests n) = mset (issued 0 evs)"
    using R assms(2) by (auto simp: MainlineDhtNode_new_def)
  then show ?thesis using distinct_fst_sub [of "calls outs @ pending_requests n", OF _ distinct_issued] by (simp add: requests_wf_def)
qed

theorem requests_answered_once_witness:
  "\<exists>outs n. run \<lparr>env_addr = \<lambda>a. '''', env_resolve = \<lambda>h s. Inr [], env_fuel = 0\<rparr>
      [EvRequest (ping_query (sample_node 0)) (endpoint (sample_node 1)) (7 :: nat), EvTimer ''q0'', EvTimer ''q0'']
      (MainlineDhtNode_new (sample_node 0)) = Some (outs, n)
    \<and> mset (calls outs) + mset (pending_requests n) = {#(''q0'', 7)#} \<and> calls outs = [(''q0'', 7)]"
proof -
  let ?env = "\<lparr>env_addr = \<lambda>a. '''', env_resolve = \<lambda>h s. Inr [], env_fuel = 0\<rparr>"
  let ?evs = "[EvRequest (ping_query (sample_node 0)) (endpoint (sample_node 1)) (7 :: nat), EvTimer ''q0'', EvTimer ''q0'']"
  have s: "show_nat 0 = ''0''" by code_simp
  obtain outs n where r: "run ?env ?evs (MainlineDhtNode_new (sample_node 0)) = Some (outs, n)" "calls outs = [(''q0'', 7)]"
    by (simp add: step_def SendQuery_def NextTransactionId_def OnTimer_def TakePendingRequest_def MainlineDhtNode_new_def s
        map_find_def map_erase_def Let_def)
  show ?thesis using requests_answered_once [OF r(1)] r by (auto simp: issued_def s)
qed

section \<open>Tokens and announced peers\<close>

definition peer_ok :: "(Address \<Rightarrow> string) \<Rightarrow> string set \<Rightarrow> IpEndpoint \<Rightarrow> bool" where
  "peer_ok addr holders p \<longleftrightarrow> (\<exists>port. endpoint_ToString addr (p\<lparr>ep_port := port\<rparr>) \<in> holders)"

lemma peer_ok_mono: "peer_ok addr A p \<Longrightarrow> A \<subseteq> B \<Longrightarrow> peer_ok addr B p"
  by (auto simp: peer_ok_def)

definition node_inv :: "(Address \<Rightarrow> string) \<Rightarrow> 'cb MainlineDhtNode \<Rightarrow> bool" where
  "node_inv addr n \<longleftrightarrow> map_wf (issued_tokens n) \<and> map_wf (announced_peers n)
     \<and> (\<forall>k t. map_of (issued_tokens n) k = Some t \<longrightarrow> t = k)
     \<and> (\<forall>h ps. map_of (announced_peers n) h = Some ps \<longrightarrow> ps \<noteq> [] \<and> distinct ps
          \<and> (\<forall>p \<in> set ps. peer_ok addr (keys (issued_tokens n)) p))"

lemma node_inv_cong:
  "issued_tokens n' = issued_tokens n \<and> announced_peers n' = announced_peers n \<Longrightarrow> node_inv addr n' \<longleftrightarrow> node_inv addr n"
  by (simp add: node_inv_def)

lemma endpoint_eq_iff: "endpoint_eq p q \<longleftrightarrow> (p :: IpEndpoint) = q"
  by (cases p, cases q) (simp add: endpoint_eq_def)

lemma add_peer_props:
  "set (add_peer e ps) = insert e (set ps)" "add_peer e ps \<noteq> []" "distinct ps \<Longrightarrow> distinct (add_peer e ps)"
  by (auto simp: add_peer_def endpoint_eq_iff list_ex_iff)

lemma RecordAnnouncedPeer_inv:
  assumes "node_inv addr n" "RecordAnnouncedPeer h sender args n = Inr n'" "endpoint_ToString addr sender \<in> keys (issued_tokens n)"
  shows "node_inv addr n'"
proof -
  obtain port where n': "n' = n\<lparr>announced_peers := map_insert_or_assign h (add_peer (sender\<lparr>ep_port := port\<rparr>)
      (case map_find (announced_peers n) h of Some ps \<Rightarrow> ps | None \<Rightarrow> [])) (announced_peers n)\<rparr>"
    using assms(2) that [of "ep_port sender"] that
    by (auto simp: RecordAnnouncedPeer_def rbind_eq_Inr Let_def split: if_splits option.splits)
  have "peer_ok addr (keys (issued_tokens n)) (sender\<lparr>ep_port := port\<rparr>)"
    using assms(3) by (auto simp: peer_ok_def intro!: exI [of _ "ep_port sender"])
  moreover have "distinct ps \<and> (\<forall>p \<in> set ps. peer_ok addr (keys (issued_tokens n)) p)"
    if "ps = (case map_find (announced_peers n) h of Some ps \<Rightarrow> ps | None \<Rightarrow> [])" for ps
    using that assms(1) by (cases "map_find (announced_peers n) h") (auto simp: node_inv_def map_find_def)
  ultimately show ?thesis using assms(1) unfolding n'
    by (simp add: node_inv_def map_of_insert_or_assign map_wf_insert_or_assign add_peer_props)
qed

lemma get_peers_inv:
  assumes "node_inv addr n" "respond_get_peers addr args sender n = (r, n')"
  shows "node_inv addr n'"
proof -
  have "n' = n \<or> n' = n\<lparr>issued_tokens := map_insert_or_assign (endpoint_ToString addr sender) (MakeToken addr sender) (issued_tokens n)\<rparr>"
    using assms(2) by (auto simp: respond_get_peers_def Let_def split: sum.splits)
  then show ?thesis
  proof
    assume "n' = n\<lparr>issued_tokens := map_insert_or_assign (endpoint_ToString addr sender) (MakeToken addr sender) (issued_tokens n)\<rparr>"
    then show ?thesis using assms(1) peer_ok_mono [OF _ subset_insertI]
      by (simp add: node_inv_def map_of_insert_or_assign map_wf_insert_or_assign MakeToken_def)
  qed (simp add: assms(1))
qed

lemma MakeResponse_inv:
  assumes "node_inv addr n" "MakeResponse addr m args sender tid n = (r, n')"
  shows "node_inv addr n'"
proof -
  have "n' = n \<or> (\<exists>r. respond_get_peers addr args sender n = (r, n'))
      \<or> (\<exists>h token. map_find (issued_tokens n) (endpoint_ToString addr sender) = Some token \<and> RecordAnnouncedPeer h sender args n = Inr n')"
    using assms(2) by (auto simp: MakeResponse_def Let_def rbind_eq_Inr split: if_splits prod.splits sum.splits option.splits)
  moreover have "map_find (issued_tokens n) k = Some token \<Longrightarrow> k \<in> keys (issued_tokens n)" for k token
    by (rule ccontr) (simp add: not_in_keys [symmetric])
  ultimately show ?thesis using assms(1) get_peers_inv RecordAnnouncedPeer_inv by blast
qed

lemma OnMessage_inv:
  assumes "node_inv addr n" "OnMessage addr m sender n = (out, n')"
  shows "node_inv addr n'"
proof -
  have "(\<exists>q args r. MakeResponse addr q args sender (transaction_id m) n = (r, n'))
     \<or> (issued_tokens n' = issued_tokens n \<and> announced_peers n' = announced_peers n)"
    using assms(2)
    by (auto simp: OnMessage_def Let_def TakePendingRequest_def split: KrpcPayload.splits prod.splits option.splits if_splits)
  then show ?thesis using assms(1) MakeResponse_inv node_inv_cong [of n' n addr] by blast
qed

lemma event_node_inv:
  assumes "node_inv (env_addr env) n" "step env ev n = Some (out, n')"
  shows "node_inv (env_addr env) n'"
proof (cases "\<exists>d s. ev = EvDatagram d s")
  case True
  then show ?thesis using assms OnMessage_inv
    by (fastforce simp: step_def OnDatagram_def split: option.splits sum.splits prod.splits)
next
  case False
  have B: "SendBootstrapQueries_loop resolve bs i k = (e, o', k') \<Longrightarrow> issued_tokens k' = issued_tokens k \<and> announced_peers k' = announced_peers k"
    for resolve bs i e o' and k k' :: "'a MainlineDhtNode"
    by (induction resolve bs i k arbitrary: e o' k' rule: SendBootstrapQueries_loop.induct)
       (fastforce simp: Let_def split: option.splits sum.splits list.splits prod.splits)+
  have "issued_tokens n' = issued_tokens n \<and> announced_peers n' = announced_peers n"
    using assms(2) False B
    by (cases ev) (fastforce simp: step_def SendQuery_def NextTransactionId_def OnTimer_def OnSendFailed_def TakePendingRequest_def
        Start_def Stop_def AddBootstrapNode_def OnCustomQuery_def OnQuery_def OnBootstrapSuccess_def Let_def split: prod.splits option.splits if_splits)+
  then show ?thesis using assms(1) node_inv_cong [of n' n] by blast
qed

lemma run_node_inv: "run env evs n = Some (outs, n') \<Longrightarrow> node_inv (env_addr env) n \<Longrightarrow> node_inv (env_addr env) n'"
proof (induction evs arbitrary: n outs)
  case (Cons ev evs)
  obtain out n1 outs1 where "step env ev n = Some (out, n1)" "run env evs n1 = Some (outs1, n')"
    using Cons.prems(1) by (auto split: option.splits)
  then show ?case using Cons.IH event_node_inv Cons.prems(2) by blast
qed simp

lemma fresh_node_inv: "node_inv addr (MainlineDhtNode_new self)"
  by (simp add: node_inv_def MainlineDhtNode_new_def)

text \<open>C30: In every reachable state each token the node issued is the address and port of its holder, and every announced peer has the
  address of a sender that was given a token; the peers of an info hash are distinct and there is at least one.\<close>

theorem announced_peers_hold_tokens:
  assumes "run env evs (MainlineDhtNode_new self) = Some (outs, n)"
  shows "node_inv (env_addr env) n"
  using run_node_inv [OF assms fresh_node_inv] .

section \<open>Sizes of messages\<close>

lemma length_show_nat: "n < 10 ^ Suc k \<Longrightarrow> length (show_nat n) \<le> Suc k"
proof (induction k arbitrary: n)
  case (Suc k)
  show ?case
  proof (cases "n < 10")
    case True
    then show ?thesis by (subst show_nat.simps) simp
  next
    case False
    have "n div 10 < 10 ^ Suc k" using Suc.prems by (simp add: less_mult_imp_div_less)
    then show ?thesis using Suc.IH False by (subst show_nat.simps) simp
  qed
qed (subst show_nat.simps, simp)

lemma length_show_u64: "n < 2 ^ 64 \<Longrightarrow> length (show_nat n) \<le> 20"
  using length_show_nat [of n 19] by simp

lemma length_show_i64: "length (show_int (sint (i :: 64 word))) \<le> 21"
proof -
  have "- (2 ^ 63) \<le> sint i" "sint i < 2 ^ 63"
    using sint_range_size [of i] by (simp_all add: word_size)
  then have "length (show_nat (nat (sint i))) \<le> 20" "length (show_nat (nat (- sint i))) \<le> 20"
    by (intro length_show_u64; simp)+
  then show ?thesis by (simp add: show_int_def)
qed

fun value_bound :: "Value \<Rightarrow> nat" where
  "value_bound (BInteger i) = 23"
| "value_bound (BString s) = length s + 21"
| "value_bound (BList vs) = 2 + sum_list (map value_bound vs)"
| "value_bound (BDictionary d) = 2 + sum_list (map (\<lambda>(k, v). length k + 21 + value_bound v) d)"

lemma length_enc_string: "length s < 2 ^ 64 \<Longrightarrow> length (enc_string s) \<le> length s + 21"
  using length_show_u64 [of "length s"] by (simp add: enc_string_def)

lemma length_concat_bound: "(\<And>x. x \<in> set l \<Longrightarrow> length (f x) \<le> g x) \<Longrightarrow> length (concat (map f l)) \<le> sum_list (map g l)"
  by (induction l) (auto intro: add_mono)

lemma sum_list_member: "x \<in> set l \<Longrightarrow> g x \<le> sum_list (map g l)" for g :: "'a \<Rightarrow> nat"
  by (rule member_le_sum_list) auto

lemma bencode_bound: "value_bound v < 2 ^ 64 \<Longrightarrow> length (bencode_Encode v) \<le> value_bound v"
proof (induction v rule: value_bound.induct)
  case (1 i)
  then show ?case using length_show_i64 [of i] by simp
next
  case (2 s)
  then show ?case using length_enc_string [of s] by simp
next
  case (3 vs)
  have "length (bencode_Encode v) \<le> value_bound v" if "v \<in> set vs" for v
    using 3 that sum_list_member [OF that, of value_bound] by auto
  then show ?case using length_concat_bound [of vs bencode_Encode value_bound] by simp
next
  case (4 d)
  let ?g = "\<lambda>(k, v). length k + 21 + value_bound v"
  have "length (enc_string (fst e) @ bencode_Encode (snd e)) \<le> ?g e" if "e \<in> set d" for e
    using 4 that sum_list_member [OF that, of ?g] length_enc_string [of "fst e"]
    by (cases e) (fastforce intro: add_mono)
  then show ?case using length_concat_bound [of d "\<lambda>p. enc_string (fst p) @ bencode_Encode (snd p)" ?g] by simp
qed

definition message_bound :: "KrpcMessage \<Rightarrow> nat" where
  "message_bound m = value_bound (BDictionary (krpc_root m))"

lemma krpc_bound: "message_bound m < 2 ^ 64 \<Longrightarrow> length (krpc_Encode m) \<le> message_bound m"
  unfolding message_bound_def krpc_Encode_def by (rule bencode_bound)

theorem announced_peers_hold_tokens_witness:
  "\<exists>outs n. run \<lparr>env_addr = \<lambda>a. ''h'', env_resolve = \<lambda>h s. Inr [], env_fuel = 1000\<rparr>
      [EvDatagram (krpc_Encode (krpc_message ''a'' (get_peers_query (sample_node 1) (replicate 20 5)))) (endpoint (sample_node 1))]
      (MainlineDhtNode_new (sample_node 0)) = Some (outs, n)
    \<and> issued_tokens n \<noteq> [] \<and> node_inv (\<lambda>a. ''h'') (n :: unit MainlineDhtNode)"
proof -
  let ?env = "\<lparr>env_addr = \<lambda>a. ''h'', env_resolve = \<lambda>h s. Inr [], env_fuel = 1000\<rparr>"
  let ?m = "krpc_message ''a'' (get_peers_query (sample_node 1) (replicate 20 5))"
  have "message_bound ?m \<le> 1000" "message_wf ?m"
    by (simp_all add: message_bound_def krpc_root_eval krpc_message_def get_peers_query_def message_wf_def map_init_def less_char_def
        map_wf_def HashToBytes_def sample_node_def KNode_new_def)
  then have d: "DecodeKrpc 1000 (krpc_Encode ?m) = Some (Inr ?m)"
    using krpc_bound [of ?m] by (simp add: DecodeKrpc_Encode)
  let ?n = "MainlineDhtNode_new (sample_node 0) :: unit MainlineDhtNode"
  obtain out n where o: "OnMessage (\<lambda>a. ''h'') ?m (endpoint (sample_node 1)) ?n = (out, n)" by fastforce
  then have t: "issued_tokens n \<noteq> []"
    by (auto simp: OnMessage_def MakeResponse_def respond_get_peers_def QueryString_def krpc_message_def get_peers_query_def
        MainlineDhtNode_new_def Let_def)
  have r: "run ?env [EvDatagram (krpc_Encode ?m) (endpoint (sample_node 1))] ?n = Some (out @ ScheduleReceive n, n)"
    using o by (simp add: step_def OnDatagram_def d)
  show ?thesis using announced_peers_hold_tokens [OF r] r t by auto
qed

section \<open>Limits\<close>

text \<open>A single datagram can stop a node for good: the receive handler does not return from the decoder.\<close>

lemma datagram_hangs_node: "OnDatagram addr fuel looping_input sender n = None"
  using DecodeKrpc_hangs by (simp add: OnDatagram_def)

text \<open>Every tenth bootstrap node gets the same transaction identifier, and the answers of the later ones are not reported.\<close>

lemma bootstrap_id_repeats: "unat i + 10 < 2 ^ 32 \<Longrightarrow> bootstrap_id (i + 10) = bootstrap_id i"
  by (simp add: bootstrap_id_def unat_mod unat_word_ariths(1))

text \<open>Stopping a node forgets its pending requests without calling their callbacks.\<close>

lemma Stop_drops_requests: "Stop n = (out, n') \<Longrightarrow> calls out = [] \<and> pending_requests n' = []"
proof -
  have "calls (map (\<lambda>(tid, u). CancelTimer tid) ts) = []" for ts :: "(string \<times> unit) list"
    by (induction ts) auto
  then show "Stop n = (out, n') \<Longrightarrow> calls out = [] \<and> pending_requests n' = []" by (auto simp: Stop_def)
qed

end
