(* ===== verification/MainlineNet.thy ===== *)
theory MainlineNet
  imports MainlineNode EventDht
begin

text \<open>
  The event index over nodes of the DHT: the network that \<open>EventDht\<close> takes as a parameter, made of the nodes of
  \<open>MainlineNode\<close>, and what publisher, router and reader do together. Datagrams between two started nodes arrive, in
  order and before the time-out; a node that is not started receives nothing, and a node whose decoder does not return
  answers nothing more.
\<close>

section \<open>Nodes that exchange datagrams\<close>

type_synonym world = "IpEndpoint \<Rightarrow> unit MainlineDhtNode option"

definition deliver :: "environment \<Rightarrow> IpEndpoint \<Rightarrow> string \<Rightarrow> IpEndpoint \<Rightarrow> world \<Rightarrow> unit action list \<times> world" where
  "deliver env src datagram dst w =
     (case w dst of None \<Rightarrow> ([], w)
      | Some node \<Rightarrow>
          (if \<not> started node then ([], w)
           else case OnDatagram (env_addr env) (env_fuel env) datagram src node of
             None \<Rightarrow> ([], w(dst := None))
           | Some (out, node) \<Rightarrow> (out, w(dst \<mapsto> node))))"

fun deliver_all :: "environment \<Rightarrow> IpEndpoint \<Rightarrow> unit action list \<Rightarrow> world \<Rightarrow> unit action list \<times> world" where
  "deliver_all env src [] w = ([], w)"
| "deliver_all env src (SendTo datagram dst tid # out) w =
     (let (out1, w) = deliver env src datagram dst w; (out2, w) = deliver_all env src out w in (out1 @ out2, w))"
| "deliver_all env src (a # out) w = deliver_all env src out w"

fun outcome_of :: "string \<Rightarrow> unit action list \<Rightarrow> outcome option" where
  "outcome_of tid [] = None"
| "outcome_of tid (CallBack tid' cb r # out) = (if tid' = tid then Some r else outcome_of tid out)"
| "outcome_of tid (a # out) = outcome_of tid out"

text \<open>
  A request, its delivery, and the answer's way back. Without an answer the session reports the time-out after the request
  timeout of the options (one second by default), before the timer of the request expires (two seconds): the request stays
  pending in the node. Its callback may then run while a later request waits, and refers to variables that are gone.
\<close>

definition exchange :: "environment \<Rightarrow> IpEndpoint \<Rightarrow> KrpcPayload \<Rightarrow> IpEndpoint \<Rightarrow> world \<Rightarrow> reply \<times> world" where
  "exchange env self query dst w =
     (case w self of None \<Rightarrow> (TimedOut, w)
      | Some node \<Rightarrow>
         if pending_requests node \<noteq> [] then (LateCallback, w)
         else
          (let tid = fst (NextTransactionId node);
               (out, node) = SendQuery query dst () node;
               (out, w) = deliver_all env self out (w(self \<mapsto> node));
               (out, w) = deliver_all env dst out w in
           case outcome_of tid out of
             Some (Response m) \<Rightarrow> (Answer m, w)
           | Some (RequestFailed e) \<Rightarrow> (Failed e, w)
           | _ \<Rightarrow> (TimedOut, w)))"

definition dht_network :: "environment \<Rightarrow> KNode \<Rightarrow> world network" where
  "dht_network env self = \<lparr>
     net_self = self,
     net_get_peers = (\<lambda>info_hash router. exchange env (endpoint self) (get_peers_query self info_hash) router),
     net_announce = (\<lambda>info_hash token port implied router.
       exchange env (endpoint self) (announce_peer_query self info_hash token port implied) router),
     net_query = (\<lambda>query peer. exchange env (endpoint self) query peer)\<rparr>"

text \<open>The handler of custom queries that \<open>MainlineEventDht\<close> installs reads its local store.\<close>

definition event_responder :: "event_sort \<Rightarrow> MemoryEventDht \<Rightarrow> responder" where
  "event_responder srt store = (\<lambda>name args sender. custom_query srt store name args)"

definition serve_events :: "event_sort \<Rightarrow> MemoryEventDht \<Rightarrow> IpEndpoint \<Rightarrow> world \<Rightarrow> world" where
  "serve_events srt store e w = w(e := map_option (OnCustomQuery (event_responder srt store)) (w e))"

section \<open>One exchange\<close>

definition idle :: "unit MainlineDhtNode \<Rightarrow> bool" where
  "idle n \<longleftrightarrow> pending_requests n = [] \<and> pending_request_timers n = [] \<and> pending_bootstraps n = []"

definition fits :: "environment \<Rightarrow> KrpcMessage \<Rightarrow> bool" where
  "fits env m \<longleftrightarrow> message_wf m \<and> length (krpc_Encode m) \<le> env_fuel env \<and> length (krpc_Encode m) < 2 ^ 64"

lemma OnDatagram_fits:
  "fits env m \<Longrightarrow> OnDatagram addr (env_fuel env) (krpc_Encode m) sender n
     = (let (out, n) = OnMessage addr m sender n in Some (out @ ScheduleReceive n, n))"
  by (simp add: fits_def OnDatagram_def DecodeKrpc_Encode)

lemma deliver_all_append:
  "deliver_all env src (out @ out') w =
     (let (o1, w) = deliver_all env src out w; (o2, w) = deliver_all env src out' w in (o1 @ o2, w))"
proof (induction env src out w rule: deliver_all.induct)
  case (2 env src datagram dst tid out w)
  then show ?case by (auto simp: Let_def split: prod.splits)
qed (auto split: prod.splits)

lemma deliver_all_receive [simp]: "deliver_all env src (ScheduleReceive n) w = ([], w)"
  by (simp add: ScheduleReceive_def)

lemma outcome_of_append_receive [simp]: "outcome_of tid (out @ ScheduleReceive n) = outcome_of tid out"
proof -
  have "outcome_of tid (ScheduleReceive n) = None" by (simp add: ScheduleReceive_def)
  then show ?thesis by (induction tid out rule: outcome_of.induct) auto
qed

definition asked :: "unit MainlineDhtNode \<Rightarrow> unit MainlineDhtNode" where
  "asked n = n\<lparr>next_request_id := next_request_id n + 1\<rparr>"

definition waiting :: "unit MainlineDhtNode \<Rightarrow> unit MainlineDhtNode" where
  "waiting n = (asked n)\<lparr>pending_requests := [(query_id (unat (next_request_id n)), ())],
     pending_request_timers := [(query_id (unat (next_request_id n)), ())]\<rparr>"

lemma started_asked [simp]: "started (asked n) = started n" "started (waiting n) = started n"
  by (simp_all add: asked_def waiting_def)

lemma SendQuery_idle:
  assumes "idle c"
  shows "SendQuery query dst () c = ([StartTimer (query_id (unat (next_request_id c))),
     SendTo (krpc_Encode (krpc_message (query_id (unat (next_request_id c))) query)) dst (Some (query_id (unat (next_request_id c))))], waiting c)"
  using assms by (simp add: idle_def SendQuery_def NextTransactionId_def waiting_def asked_def Let_def map_find_def)

lemma OnMessage_waiting:
  assumes "idle c" "transaction_id m = query_id (unat (next_request_id c))" "\<And>q a. krpc_payload m \<noteq> KrpcQuery q a"
  shows "OnMessage addr m dst (waiting c)
    = ([CancelTimer (transaction_id m), CallBack (transaction_id m) () (Response m)], asked c)"
  using assms
  by (cases "krpc_payload m")
     (auto simp: OnMessage_def waiting_def idle_def TakePendingRequest_def asked_def map_find_def map_erase_def Let_def)

lemma exchange_answer:
  assumes nodes: "w self = Some c" "idle c" "w dst = Some s" "self \<noteq> dst" and live: "started c" "started s"
    and query: "fits env (krpc_message (query_id (unat (next_request_id c))) (KrpcQuery name args))"
    and served: "MakeResponse (env_addr env) name args self (query_id (unat (next_request_id c))) s = (Inr (Some m), s')"
    and answer: "fits env m" "transaction_id m = query_id (unat (next_request_id c))" "\<And>q a. krpc_payload m \<noteq> KrpcQuery q a"
  shows "exchange env self (KrpcQuery name args) dst w = (Answer m, w(self \<mapsto> asked c, dst \<mapsto> s'))"
proof -
  define tid where "tid = query_id (unat (next_request_id c))"
  let ?q = "krpc_message tid (KrpcQuery name args)"
  let ?notice = "if on_query s then [QueryNotice name self] else []"
  have start: "fst (NextTransactionId c) = tid" by (simp add: NextTransactionId_def tid_def)
  have q: "OnDatagram (env_addr env) (env_fuel env) (krpc_Encode ?q) self s
      = Some ((?notice @ [SendTo (krpc_Encode m) self None]) @ ScheduleReceive s', s')"
    using served OnDatagram_fits [OF query, of "env_addr env" self s] unfolding tid_def [symmetric] by (simp add: OnMessage_def krpc_message_def Let_def)
  have sent: "SendQuery (KrpcQuery name args) dst () c = ([StartTimer tid, SendTo (krpc_Encode ?q) dst (Some tid)], waiting c)"
    using SendQuery_idle [OF nodes(2)] unfolding tid_def [symmetric] .
  have there: "deliver_all env self [StartTimer tid, SendTo (krpc_Encode ?q) dst (Some tid)] (w(self \<mapsto> waiting c))
      = ((?notice @ [SendTo (krpc_Encode m) self None]) @ ScheduleReceive s', w(self \<mapsto> waiting c, dst \<mapsto> s'))"
    using nodes live q by (simp add: deliver_def)
  let ?w = "w(self \<mapsto> waiting c, dst \<mapsto> s')"
  have m: "transaction_id m = tid" using answer(2) by (simp add: tid_def)
  have "deliver env dst (krpc_Encode m) self ?w
      = ([CancelTimer tid, CallBack tid () (Response m)] @ ScheduleReceive (asked c), ?w(self \<mapsto> asked c))"
    using nodes live OnMessage_waiting [OF nodes(2) answer(2,3)] by (simp add: deliver_def OnDatagram_fits [OF answer(1)] m)
  then have home: "deliver_all env dst ((?notice @ [SendTo (krpc_Encode m) self None]) @ ScheduleReceive s') ?w
      = ([CancelTimer tid, CallBack tid () (Response m)] @ ScheduleReceive (asked c), ?w(self \<mapsto> asked c))"
    by (simp add: deliver_all_append)
  have twist: "?w(self \<mapsto> asked c) = w(self \<mapsto> asked c, dst \<mapsto> s')" using nodes(4) by (auto simp: fun_eq_iff)
  have "pending_requests c = []" using nodes(2) by (simp add: idle_def)
  then show ?thesis using nodes(1) sent there home start
    by (simp add: exchange_def twist)
qed

section \<open>What a node answers\<close>

lemma status_ok_Success [simp]: "status_ok (Success s)"
  by (simp add: status_ok_def Success_def)

definition holder :: "environment \<Rightarrow> IpEndpoint \<Rightarrow> 'cb MainlineDhtNode \<Rightarrow> 'cb MainlineDhtNode" where
  "holder env e n = n\<lparr>issued_tokens := map_insert_or_assign (endpoint_ToString (env_addr env) e)
     (endpoint_ToString (env_addr env) e) (issued_tokens n)\<rparr>"

lemma holder_simps [simp]:
  "announced_peers (holder env e n) = announced_peers n" "ml_self (holder env e n) = ml_self n"
  "on_custom_query (holder env e n) = on_custom_query n" "started (holder env e n) = started n"
  by (simp_all add: holder_def)

lemma holder_token: "map_wf (issued_tokens n) \<Longrightarrow>
    map_find (issued_tokens (holder env e n)) (endpoint_ToString (env_addr env) e) = Some (endpoint_ToString (env_addr env) e)"
  by (simp add: holder_def smap_simps)

definition get_peers_args :: "KNode \<Rightarrow> hash \<Rightarrow> (string, Value) std_map" where
  "get_peers_args self h = map_init [(''id'', BString (HashToBytes (node_id self))), (''info_hash'', BString (HashToBytes h))]"

lemma get_peers_query_eq: "get_peers_query self h = KrpcQuery ''get_peers'' (get_peers_args self h)"
  by (simp add: get_peers_query_def get_peers_args_def)

definition token_values :: "environment \<Rightarrow> IpEndpoint \<Rightarrow> 'cb MainlineDhtNode \<Rightarrow> (string, Value) std_map" where
  "token_values env e n = map_emplace ''token'' (BString (endpoint_ToString (env_addr env) e))
     (map_init [(''id'', BString (self_bytes n))])"

lemma serve_unannounced:
  assumes "map_find (announced_peers n) (HashToBytes h) = None" "EncodeCompactNode (ml_self n) = Inr nodes"
  shows "MakeResponse (env_addr env) ''get_peers'' (get_peers_args self h) e tid n
    = (Inr (Some (krpc_response tid (map_emplace ''nodes'' (BString nodes) (token_values env e n)))), holder env e n)"
  using assms
  by (simp add: MakeResponse_def respond_get_peers_def get_peers_args_def QueryString_def token_values_def holder_def MakeToken_def Let_def)

lemma serve_announced:
  assumes "map_find (announced_peers n) (HashToBytes h) = Some [p]" "EncodeCompactPeer p = Inr compact"
  shows "MakeResponse (env_addr env) ''get_peers'' (get_peers_args self h) e tid n
    = (Inr (Some (krpc_response tid (map_emplace ''values'' (BList [BString compact]) (token_values env e n)))), holder env e n)"
  using assms
  by (simp add: MakeResponse_def respond_get_peers_def get_peers_args_def QueryString_def token_values_def holder_def MakeToken_def Let_def)

definition announce_args :: "KNode \<Rightarrow> hash \<Rightarrow> string \<Rightarrow> u16 \<Rightarrow> (string, Value) std_map" where
  "announce_args self h token port = map_emplace ''implied_port'' (BInteger 1)
     (map_init [(''id'', BString (HashToBytes (node_id self))), (''info_hash'', BString (HashToBytes h)),
            (''token'', BString token), (''port'', BInteger (ucast port))])"

lemma announce_peer_query_eq: "announce_peer_query self h token port True = KrpcQuery ''announce_peer'' (announce_args self h token port)"
  by (simp add: announce_peer_query_def announce_args_def Let_def)

definition announcer :: "hash \<Rightarrow> IpEndpoint \<Rightarrow> 'cb MainlineDhtNode \<Rightarrow> 'cb MainlineDhtNode" where
  "announcer h e n = n\<lparr>announced_peers := map_insert_or_assign (HashToBytes h) [e] (announced_peers n)\<rparr>"

lemma started_announcer [simp]: "started (announcer h e n) = started n"
  by (simp add: announcer_def)

lemma serve_announce:
  assumes "map_find (announced_peers n) (HashToBytes h) = None"
    "map_find (issued_tokens n) (endpoint_ToString (env_addr env) e) = Some token"
  shows "MakeResponse (env_addr env) ''announce_peer'' (announce_args self h token port) e tid n
    = (Inr (Some (krpc_response tid (map_init [(''id'', BString (self_bytes n))]))), announcer h e n)"
  using assms
  by (simp add: MakeResponse_def announce_args_def QueryString_def RecordAnnouncedPeer_def FindInteger_def announcer_def add_peer_def
      smap_simps Let_def)

definition event_args :: "KNode \<Rightarrow> string \<Rightarrow> (string, Value) std_map" where
  "event_args self key = map_init [(''id'', BString (HashToBytes (node_id self))), (''key'', BString key)]"

lemma get_event_query_eq: "get_event_query self key = KrpcQuery ''bx_get_event'' (event_args self key)"
  by (simp add: get_event_query_def event_args_def HashToBytes_def)

definition event_values :: "PublishedEvent list \<Rightarrow> 'cb MainlineDhtNode \<Rightarrow> (string, Value) std_map" where
  "event_values ps n = map_insert_or_assign ''records'' (BList (map (\<lambda>p. record_ToValue (pe_record p)) ps))
     (map_init [(''id'', BString (self_bytes n))])"

lemma map_init_single: "map_init [e] = [e]"
  by (cases e) (simp add: map_init_def)

lemma serve_event:
  assumes "on_custom_query n = Some (event_responder srt store)"
  shows "MakeResponse addr ''bx_get_event'' (event_args self key) e tid n
    = (Inr (Some (krpc_response tid (event_values (Memory_Query srt (EventQuery_for key 64) store) n))), n)"
  using assms
  by (simp add: MakeResponse_def event_responder_def custom_query_def event_args_def event_values_def map_init_single Let_def)

section \<open>What the client reads\<close>

lemma read_token:
  "router_reply (Answer (krpc_response tid (map_emplace ''nodes'' nodes (token_values env e n))))
     = Inr (Success '''', [], endpoint_ToString (env_addr env) e)"
  by (simp add: router_reply_def krpc_response_def krpc_message_def token_values_def smap_simps)

lemma read_peer:
  assumes "EncodeCompactPeer p = Inr compact" "ep_address p = AddressV4 bs" "length bs = 4"
  shows "router_peers (Answer (krpc_response tid (map_emplace ''values'' (BList [BString compact]) (token_values env e n))))
     = Inr (Success '''', [p])"
  using compact_peer_decode [OF assms(2,3,1)]
  by (simp add: router_peers_def krpc_response_def krpc_message_def token_values_def smap_simps)

lemma read_announced: "announce_reply (Answer (krpc_response tid values)) = Inr (Success '''')"
  by (simp add: announce_reply_def krpc_response_def krpc_message_def)

lemma read_events:
  "peer_reply (Answer (krpc_response tid (event_values ps n))) = Inr (Success '''', map (received \<circ> pe_record) ps)"
  using parse_records_ToValue [of "map pe_record ps" "[]"]
  by (simp add: peer_reply_def krpc_response_def krpc_message_def event_values_def smap_simps comp_def)

section \<open>Messages that fit\<close>

definition ipv4 :: "IpEndpoint \<Rightarrow> bool" where
  "ipv4 e \<longleftrightarrow> (\<exists>bs. ep_address e = AddressV4 bs \<and> length bs = 4)"

lemma ipv4_compact: "ipv4 e \<Longrightarrow> \<exists>s. EncodeCompactPeer e = Inr s \<and> length s = 6"
  by (auto simp: ipv4_def EncodeCompactPeer_def)

lemma ipv4_node: "ipv4 (endpoint n) \<Longrightarrow> length (node_id n) = 20 \<Longrightarrow> \<exists>s. EncodeCompactNode n = Inr s \<and> length s = 26"
  using ipv4_compact [of "endpoint n"] by (auto simp: ipv4_def EncodeCompactNode_def)

definition roomy :: "environment \<Rightarrow> nat \<Rightarrow> bool" where
  "roomy env k \<longleftrightarrow> k + 1000 \<le> env_fuel env \<and> env_fuel env < 2 ^ 64"

lemma fitsI: "message_wf m \<Longrightarrow> message_bound m \<le> k + 1000 \<Longrightarrow> roomy env k \<Longrightarrow> fits env m"
  using krpc_bound [of m] by (simp add: fits_def roomy_def)

lemma query_id_length: "length (query_id (unat (x :: u64))) \<le> 21"
  using length_show_u64 [of "unat x"] unsigned_less [of x] by simp

lemma info_hash_length: "length (HashToBytes (DeriveInfoHash key)) \<le> 20"
  by (simp add: HashToBytes_def DeriveInfoHash_def)

lemma query_bound:
  "message_bound (krpc_message tid (KrpcQuery name args)) = 201 + length tid + length name + value_bound (BDictionary args)"
  by (simp add: message_bound_def krpc_root_eval krpc_message_def)

lemma response_bound:
  "message_bound (krpc_message tid (KrpcResponse vals)) = 158 + length tid + value_bound (BDictionary vals)"
  by (simp add: message_bound_def krpc_root_eval krpc_message_def)


lemma length_self: "length (node_id n) = 20 \<Longrightarrow> length (HashToBytes (node_id n)) = 20"
  by (simp add: HashToBytes_def)

lemma fits_get_peers:
  "length (node_id self) = 20 \<Longrightarrow> roomy env k \<Longrightarrow>
     fits env (krpc_message (query_id (unat (x :: u64))) (KrpcQuery ''get_peers'' (get_peers_args self (DeriveInfoHash key))))"
  using query_id_length [of x] info_hash_length [of key]
  by (intro fitsI [of _ k], simp_all only: query_bound)
     (simp_all add: message_wf_def krpc_message_def get_peers_args_def map_init_def less_char_def map_wf_def length_self)

lemma fits_nodes:
  "length (node_id (ml_self n)) = 20 \<Longrightarrow> length nodes = 26 \<Longrightarrow> length (endpoint_ToString (env_addr env) e) \<le> k \<Longrightarrow> roomy env k \<Longrightarrow>
     fits env (krpc_response (query_id (unat (x :: u64))) (map_emplace ''nodes'' (BString nodes) (token_values env e n)))"
  using query_id_length [of x]
  by (intro fitsI [of _ k], simp_all only: krpc_response_def response_bound)
     (simp_all add: message_wf_def krpc_message_def token_values_def map_init_def less_char_def map_wf_def length_self)

lemma fits_values:
  "length (node_id (ml_self n)) = 20 \<Longrightarrow> length compact = 6 \<Longrightarrow> length (endpoint_ToString (env_addr env) e) \<le> k \<Longrightarrow> roomy env k \<Longrightarrow>
     fits env (krpc_response (query_id (unat (x :: u64))) (map_emplace ''values'' (BList [BString compact]) (token_values env e n)))"
  using query_id_length [of x]
  by (intro fitsI [of _ k], simp_all only: krpc_response_def response_bound)
     (simp_all add: message_wf_def krpc_message_def token_values_def map_init_def less_char_def map_wf_def length_self)

lemma fits_announce:
  "length (node_id self) = 20 \<Longrightarrow> length token \<le> k \<Longrightarrow> roomy env k \<Longrightarrow>
     fits env (krpc_message (query_id (unat (x :: u64))) (KrpcQuery ''announce_peer'' (announce_args self (DeriveInfoHash key) token port)))"
  using query_id_length [of x] info_hash_length [of key]
  by (intro fitsI [of _ k], simp_all only: query_bound)
     (simp_all add: message_wf_def krpc_message_def announce_args_def map_init_def less_char_def map_wf_def length_self)

lemma fits_id:
  "length (node_id (ml_self n)) = 20 \<Longrightarrow> roomy env k \<Longrightarrow>
     fits env (krpc_response (query_id (unat (x :: u64))) (map_init [(''id'', BString (self_bytes n))]))"
  using query_id_length [of x]
  by (intro fitsI [of _ k], simp_all only: krpc_response_def response_bound)
     (simp_all add: message_wf_def krpc_message_def map_init_def less_char_def map_wf_def length_self)

lemma fits_event_query:
  "length (node_id self) = 20 \<Longrightarrow> length key \<le> k \<Longrightarrow> roomy env k \<Longrightarrow>
     fits env (krpc_message (query_id (unat (x :: u64))) (KrpcQuery ''bx_get_event'' (event_args self key)))"
  using query_id_length [of x]
  by (intro fitsI [of _ k], simp_all only: query_bound)
     (simp_all add: message_wf_def krpc_message_def event_args_def map_init_def less_char_def map_wf_def length_self)

lemma fits_event:
  "length (node_id (ml_self n)) = 20 \<Longrightarrow> value_bound (record_ToValue (pe_record p)) \<le> k \<Longrightarrow> roomy env k \<Longrightarrow>
     fits env (krpc_response (query_id (unat (x :: u64))) (event_values [p] n))"
  using query_id_length [of x]
  by (intro fitsI [of _ k], simp_all only: krpc_response_def response_bound)
     (simp_all add: message_wf_def krpc_message_def event_values_def map_init_def less_char_def map_wf_def length_self record_ToValue_wf)

section \<open>Publishing and finding an event\<close>

lemma krpc_response_simps [simp]:
  "transaction_id (krpc_response tid vals) = tid" "krpc_payload (krpc_response tid vals) = KrpcResponse vals"
  by (simp_all add: krpc_response_def krpc_message_def)

lemma asked_idle [simp]: "idle (asked n) \<longleftrightarrow> idle n"
  by (simp add: asked_def idle_def)

lemma node_inv_maps: "node_inv addr n \<Longrightarrow> map_wf (issued_tokens n) \<and> map_wf (announced_peers n)"
  by (simp add: node_inv_def)

text \<open>Publishing: the router hands out a token, then takes the announcement.\<close>

lemma publish_exchanges:
  assumes nodes: "w (endpoint pub) = Some a" "w router = Some r" "endpoint pub \<noteq> router" "idle a" "node_inv (env_addr env) r"
    and live: "started a" "started r"
    and fresh: "map_find (announced_peers r) (HashToBytes (DeriveInfoHash key)) = None"
    and ids: "length (node_id pub) = 20" "length (node_id (ml_self r)) = 20" "ipv4 (endpoint (ml_self r))"
    and room: "length (endpoint_ToString (env_addr env) (endpoint pub)) \<le> k" "roomy env k"
  shows "\<exists>answer ok. net_get_peers (dht_network env pub) (DeriveInfoHash key) router w = (answer, w(endpoint pub \<mapsto> asked a, router \<mapsto> holder env (endpoint pub) r))
    \<and> router_reply answer = Inr (Success '''', [], endpoint_ToString (env_addr env) (endpoint pub))
    \<and> (\<forall>port. net_announce (dht_network env pub) (DeriveInfoHash key) (endpoint_ToString (env_addr env) (endpoint pub)) port True router
        (w(endpoint pub \<mapsto> asked a, router \<mapsto> holder env (endpoint pub) r))
      = (ok, w(endpoint pub \<mapsto> asked (asked a), router \<mapsto> announcer (DeriveInfoHash key) (endpoint pub) (holder env (endpoint pub) r))))
    \<and> announce_reply ok = Inr (Success '''')"
proof -
  obtain s where s: "EncodeCompactNode (ml_self r) = Inr s" "length s = 26" using ipv4_node ids by blast
  let ?r = "holder env (endpoint pub) r"
  let ?token = "endpoint_ToString (env_addr env) (endpoint pub)"
  let ?t = "query_id (unat (next_request_id a))" and ?t' = "query_id (unat (next_request_id (asked a)))"
  have g: "exchange env (endpoint pub) (get_peers_query pub (DeriveInfoHash key)) router w
      = (Answer (krpc_response ?t (map_emplace ''nodes'' (BString s) (token_values env (endpoint pub) r))),
         w(endpoint pub \<mapsto> asked a, router \<mapsto> ?r))"
    unfolding get_peers_query_eq
    by (rule exchange_answer [OF nodes(1,4,2,3) live])
       (use fits_get_peers [OF ids(1) room(2)] fits_nodes [OF ids(2) s(2) room] serve_unannounced [OF fresh s(1)] in
         \<open>simp_all only: krpc_response_simps, simp_all\<close>)
  have "exchange env (endpoint pub) (announce_peer_query pub (DeriveInfoHash key) ?token port True) router (w(endpoint pub \<mapsto> asked a, router \<mapsto> ?r))
      = (Answer (krpc_response ?t' (map_init [(''id'', BString (self_bytes ?r))])),
         (w(endpoint pub \<mapsto> asked a, router \<mapsto> ?r))(endpoint pub \<mapsto> asked (asked a), router \<mapsto> announcer (DeriveInfoHash key) (endpoint pub) ?r))" for port
    unfolding announce_peer_query_eq
    by (rule exchange_answer [of _ _ "asked a" _ ?r])
       (use nodes live fits_announce [OF ids(1) room] fits_id [of ?r, OF _ room(2)] ids(2) node_inv_maps [OF nodes(5)]
          serve_announce [of ?r "DeriveInfoHash key" env "endpoint pub" ?token pub port ?t'] fresh holder_token [of r env "endpoint pub"] in
         \<open>simp_all only: krpc_response_simps holder_simps, simp_all\<close>)
  moreover have "(w(endpoint pub \<mapsto> asked a, router \<mapsto> ?r))(endpoint pub \<mapsto> asked (asked a), router \<mapsto> announcer (DeriveInfoHash key) (endpoint pub) ?r)
      = w(endpoint pub \<mapsto> asked (asked a), router \<mapsto> announcer (DeriveInfoHash key) (endpoint pub) ?r)"
    using nodes(3) by (auto simp: fun_eq_iff)
  ultimately show ?thesis using g by (simp add: dht_network_def read_token read_announced)
qed

text \<open>Querying: the router names the publisher, which answers from its store.\<close>

lemma query_exchanges:
  assumes nodes: "w (endpoint rd) = Some b" "w router = Some r" "w peer = Some a" "endpoint rd \<noteq> router" "endpoint rd \<noteq> peer"
      "router \<noteq> peer" "idle b"
    and live: "started b" "started r" "started a"
    and announced: "map_find (announced_peers r) (HashToBytes (DeriveInfoHash key)) = Some [peer]" "ipv4 peer"
    and served: "on_custom_query a = Some (event_responder srt store)" "Memory_Query srt (EventQuery_for key 64) store = [p]"
    and ids: "length (node_id rd) = 20" "length (node_id (ml_self r)) = 20" "length (node_id (ml_self a)) = 20"
    and room: "length (endpoint_ToString (env_addr env) (endpoint rd)) \<le> k" "length key \<le> k"
      "value_bound (record_ToValue (pe_record p)) \<le> k" "roomy env k"
  shows "\<exists>answer records w1 w2. net_get_peers (dht_network env rd) (DeriveInfoHash key) router w = (answer, w1)
    \<and> router_peers answer = Inr (Success '''', [peer])
    \<and> net_query (dht_network env rd) (get_event_query rd key) peer w1 = (records, w2)
    \<and> peer_reply records = Inr (Success '''', [received (pe_record p)])"
proof -
  obtain c where c: "EncodeCompactPeer peer = Inr c" "length c = 6" using ipv4_compact announced(2) by blast
  let ?t = "query_id (unat (next_request_id b))" and ?t' = "query_id (unat (next_request_id (asked b)))"
  let ?w = "w(endpoint rd \<mapsto> asked b, router \<mapsto> holder env (endpoint rd) r)"
  have "exchange env (endpoint rd) (get_peers_query rd (DeriveInfoHash key)) router w
      = (Answer (krpc_response ?t (map_emplace ''values'' (BList [BString c]) (token_values env (endpoint rd) r))), ?w)"
    unfolding get_peers_query_eq
    by (rule exchange_answer [OF nodes(1,7,2,4) live(1,2)])
       (use fits_get_peers [OF ids(1) room(4)] fits_values [OF ids(2) c(2) room(1,4)] serve_announced [OF announced(1) c(1)] in
         \<open>simp_all only: krpc_response_simps, simp_all\<close>)
  moreover have "exchange env (endpoint rd) (get_event_query rd key) peer ?w
      = (Answer (krpc_response ?t' (event_values [p] a)), ?w(endpoint rd \<mapsto> asked (asked b), peer \<mapsto> a))"
    unfolding get_event_query_eq
    by (rule exchange_answer [of _ _ "asked b" _ a])
       (use nodes live fits_event_query [OF ids(1) room(2,4)] fits_event [OF ids(3) room(3,4)] serve_event [OF served(1)] served(2) in
         \<open>simp_all only: krpc_response_simps, simp_all\<close>)
  moreover have "router_peers (Answer (krpc_response ?t (map_emplace ''values'' (BList [BString c]) (token_values env (endpoint rd) r))))
      = Inr (Success '''', [peer])"
    using announced(2) c(1) read_peer by (auto simp: ipv4_def)
  ultimately show ?thesis by (simp add: dht_network_def read_events)
qed

lemma fresh_store:
  assumes "VerifyEventRecord ec rec = Inr True" "event_sort_ok srt"
  shows "\<exists>st store p. Memory_Publish ec now rec MemoryEventDht_new = Inr (st, store) \<and> status_ok st
    \<and> Memory_Query srt (EventQuery_for (DeterministicKey rec) 64) store = [p] \<and> pe_record p = rec"
proof -
  show ?thesis using assms(1) event_sort_small(2) [OF assms(2)]
    by (simp add: Memory_Publish_def MemoryEventDht_new_def bucket_of_def Memory_Query_def MatchesQuery_def EventQuery_for_def
        MatchesIdentifiers_def Let_def)
qed

lemma publish_one_router:
  assumes "Memory_Publish ec now rec (local_store dht) = Inr (st, store)" "status_ok st" "routers dht = [router]" "implied_port dht"
    and "net_get_peers net (DeriveInfoHash (DeterministicKey rec)) router n = (answer, n1)"
      "router_reply answer = Inr (Success '''', peers, token)" "token \<noteq> ''''"
      "\<And>port. net_announce net (DeriveInfoHash (DeterministicKey rec)) token port True router n1 = (ok, n2)"
      "announce_reply ok = Inr (Success '''')"
  shows "Mainline_Publish ec net now rec dht n = Inr (Success '''', dht\<lparr>local_store := store\<rparr>, n2)"
  using assms by (simp add: Mainline_Publish_def Let_def)

lemma query_one_peer:
  assumes "routers dht = [router]" "local_store dht = MemoryEventDht_new" "event_sort_ok srt" "0 < lim"
    and "net_get_peers net (DeriveInfoHash key) router n = (answer, n1)" "router_peers answer = Inr (Success '''', [peer])"
      "net_query net (get_event_query (net_self net) key) peer n1 = (records, n2)" "peer_reply records = Inr (Success '''', [p])"
  shows "Mainline_Query addr srt net (EventQuery_for key lim) dht n = Inr (Success '''', ([p], [peer]), n2)"
proof -
  have "Memory_Query srt (EventQuery_for key lim) (local_store dht) = []"
    using event_sort_small(1) [OF assms(3)] by (simp add: assms(2) Memory_Query_def MemoryEventDht_new_def)
  then show ?thesis using assms
    by (simp add: Mainline_Query_def EventQuery_for_def merge_all_def Let_def)
qed


text \<open>An example: three nodes on one host, and a library whose signatures are the key itself.\<close>

definition ecdsa_short :: "(byte list, byte list, unit) ecdsa" where
  "ecdsa_short = ecdsa_ref\<lparr>ec_sign := \<lambda>r k m. take 32 (k @ replicate 32 0), ec_verify := \<lambda>p m s. s = p\<rparr>"

lemma ecdsa_ok_short: "ecdsa_ok ecdsa_short"
  by (auto simp: ecdsa_ok_def ecdsa_short_def ecdsa_ref_def min_def)

lemma short_record:
  "\<exists>rec. VerifyEventRecord ecdsa_short rec = Inr True \<and> value_bound (record_ToValue rec) \<le> 2000 \<and> length (DeterministicKey rec) \<le> 2000"
proof -
  let ?secret = "replicate 32 7 :: byte list"
  obtain kp where kp: "KeyPair_from_secret ecdsa_short ?secret = Inr kp" and fields: "kp_secret kp = ?secret" "length (kp_public kp) = 64"
    by (simp add: KeyPair_from_secret_def ecdsa_short_def ecdsa_ref_def UpdatePublic_def)
  obtain rec where rec: "SignEventRecord ecdsa_short () 5 sample_envelope kp ''me'' = Inr rec" "VerifyEventRecord ecdsa_short rec = Inr True"
    using SignEventRecord_verifies [OF ecdsa_ok_short kp] by blast
  have "length (signer_public_key_hex rec) = 128" "length (signature_hex rec) = 64" "signer_name rec = ''me''"
      "envelope rec = stamp_envelope 5 sample_envelope"
    using rec(1) fields
    by (auto simp: SignEventRecord_def SignMessageHex_def SignMessage_def ecdsa_short_def ecdsa_ref_def Let_def rbind_eq_Inr
        PublicKeyToHex_def length_Hash_ToHex length_hex_Encode)
  then have "value_bound (record_ToValue rec) \<le> 2000"
    by (simp add: record_ToValue_def envelope_ToValue_def attributes_ToValue_def strings_ToValue_def sample_envelope_def
        stamp_envelope_def map_init_def less_char_def)
  moreover have "length (DeterministicKey rec) \<le> 2000"
    by (simp add: DeterministicKey_def DeriveDeterministicEventKey_def length_Hash_ToHex length_MakeId Let_def)
  ultimately show ?thesis using rec(2) by blast
qed

definition local_node :: "byte \<Rightarrow> KNode" where
  "local_node i = KNode_new (replicate 20 i) \<lparr>ep_address = AddressV4 [127, 0, 0, 1], ep_port = ucast i\<rparr>"

definition running :: "KNode \<Rightarrow> unit MainlineDhtNode" where
  "running k = (case Start (\<lambda>h s. Inr []) (MainlineDhtNode_new k) of (exn, out, n) \<Rightarrow> n)"

definition local_world :: world where
  "local_world = (\<lambda>e. if e = endpoint (local_node 1) then Some (running (local_node 1))
     else if e = endpoint (local_node 2) then Some (running (local_node 2))
     else if e = endpoint (local_node 3) then Some (running (local_node 3)) else None)"

definition local_environment :: environment where
  "local_environment = \<lparr>env_addr = \<lambda>a. ''127.0.0.1'', env_resolve = \<lambda>h s. Inr [], env_fuel = 10000\<rparr>"


end
