(* ===== verification/PortMapping.thy ===== *)
theory PortMapping
  imports StdMap
begin

text \<open>
  \<open>src/Blocxxi/Nat\<close>: the choice of the address to use among those of the host (\<open>nat.cpp\<close>), the port mapper for a specification,
  and the UPnP port mapper (\<open>upnp_port_mapper.cpp\<close>). The interfaces that the operating system lists and the calls of the UPnP
  library with the gateway behind them are parameters.
\<close>

section \<open>Addresses\<close>

definition IsLoopback :: "string \<Rightarrow> bool \<Rightarrow> bool" where
  "IsLoopback address ipv6 \<longleftrightarrow> address = (if ipv6 then ''::1'' else ''127.0.0.1'')"

definition to_lower :: "char \<Rightarrow> char" where
  "to_lower c = (let n = of_char c :: nat in if 65 \<le> n \<and> n \<le> 90 then char_of (n + 32) else c)"

definition IsLocal :: "string \<Rightarrow> bool \<Rightarrow> bool" where
  "IsLocal address ipv6 \<longleftrightarrow>
     (if IsLoopback address ipv6 then True
      else if ipv6 then take 4 (map to_lower address) = ''fe80''
      else if take 3 address = ''10.'' then True
      else if take 8 address = ''192.168.'' then True
      else if take 8 address = ''169.254.'' then True
      else (let sub = take 7 address in sub = ''172.16'' \<or> sub = ''172.17'' \<or> sub = ''172.18''))"

record AddressInfo =
  ai_value :: string
  ai_is_loopback :: bool
  ai_is_external :: bool
  ai_is_v4 :: bool

section \<open>The best address\<close>

text \<open>
  An entry of the list of the operating system: the name of the interface, and the family (whether IPv6) and the text of its
  address, nothing for entries without an address or of another family. The buffer given to \<open>inet_ntop\<close> has 45 bytes, but the
  size it is told is 32: a text that does not fit leaves the buffer unwritten, and it is read all the same.
\<close>

type_synonym if_entry = "string \<times> (bool \<times> string) option"

definition address_info :: "bool \<Rightarrow> string \<Rightarrow> AddressInfo res" where
  "address_info ipv6 t =
     (if length t \<ge> 32 then Inl UndefinedBehaviour
      else Inr \<lparr>ai_value = t, ai_is_loopback = IsLoopback t ipv6, ai_is_external = \<not> IsLocal t ipv6, ai_is_v4 = \<not> ipv6\<rparr>)"

definition add_address :: "string \<Rightarrow> AddressInfo \<Rightarrow> (string, AddressInfo list) std_map \<Rightarrow> (string, AddressInfo list) std_map" where
  "add_address name info interfaces =
     map_insert_or_assign name ((case map_find interfaces name of None \<Rightarrow> [] | Some infos \<Rightarrow> infos) @ [info]) interfaces"

fun collect_addresses :: "if_entry list \<Rightarrow> (string, AddressInfo list) std_map \<Rightarrow> (string, AddressInfo list) std_map res" where
  "collect_addresses [] interfaces = Inr interfaces"
| "collect_addresses ((name, None) # es) interfaces = collect_addresses es interfaces"
| "collect_addresses ((name, Some (ipv6, t)) # es) interfaces =
     rbind (address_info ipv6 t) (\<lambda>info. collect_addresses es (add_address name info interfaces))"

text \<open>One interface: the selected address and whether the search is over.\<close>

fun scan_addresses :: "AddressInfo list \<Rightarrow> string \<Rightarrow> bool \<Rightarrow> bool \<Rightarrow> string \<times> bool" where
  "scan_addresses [] selected has_v4 has_v6 = (selected, False)"
| "scan_addresses (a # as) selected has_v4 has_v6 =
     (if ai_is_external a \<and> ai_is_v4 a then (ai_value a, True)
      else if ai_is_loopback a then scan_addresses as (if selected = [] then ai_value a else selected) has_v4 has_v6
      else
        let has_v6 = (has_v6 \<or> \<not> ai_is_v4 a);
            selected = (if ai_is_v4 a then ai_value a else selected);
            has_v4 = (has_v4 \<or> ai_is_v4 a) in
        if has_v4 \<and> has_v6 then (selected, True) else scan_addresses as selected has_v4 has_v6)"

fun scan_interfaces :: "(string, AddressInfo list) std_map \<Rightarrow> string \<Rightarrow> string" where
  "scan_interfaces [] selected = selected"
| "scan_interfaces ((name, as) # m) selected =
     (case scan_addresses as selected False False of (selected, definitely_found) \<Rightarrow>
        if definitely_found then selected else scan_interfaces m selected)"

text \<open>\<open>getifaddrs\<close> fails with \<open>None\<close>.\<close>

definition FindBestAddress :: "if_entry list option \<Rightarrow> string res" where
  "FindBestAddress ifaddrs =
     (case ifaddrs of None \<Rightarrow> Inr []
      | Some es \<Rightarrow> rbind (collect_addresses es []) (\<lambda>interfaces. Inr (scan_interfaces interfaces [])))"

section \<open>The UPnP port mapper\<close>

datatype nat_error = UNKNOWN_ERROR | DISCOVERY_NOT_DONE | UPNP_COMMAND_ERROR

datatype Protocol = TCP | UDP

definition ProtocolString :: "Protocol \<Rightarrow> string" where
  "ProtocolString p = (case p of TCP \<Rightarrow> ''TCP'' | UDP \<Rightarrow> ''UDP'')"

record Mapping =
  mp_protocol :: Protocol
  mp_external_port :: "32 word"
  mp_internal_port :: "32 word"
  mp_name :: string

record UpnpUrls =
  controlURL :: string

record IgdData =
  first_servicetype :: string
  CIF_servicetype :: string

record UpnpPortMapper =
  up_external_ip :: string
  up_internal_ip :: string
  up_urls :: "UpnpUrls option"
  up_data :: "IgdData option"

text \<open>
  The calls of miniupnpc. \<open>upnpDiscover\<close> finds devices within a time; \<open>UPNP_GetValidIGD\<close> returns a status that is not zero when
  it found a gateway, its URLs and data, and the address of the host in its network; the other calls return zero on success and
  act on the gateway, the state \<open>'g\<close>.
\<close>

record ('d, 'g) igd_library =
  upnpDiscover :: "32 word \<Rightarrow> 'g \<Rightarrow> 'd option"
  UPNP_GetValidIGD :: "'d \<Rightarrow> 'g \<Rightarrow> nat \<times> UpnpUrls \<times> IgdData \<times> string"
  UPNP_GetExternalIPAddress :: "string \<Rightarrow> string \<Rightarrow> 'g \<Rightarrow> nat \<times> string"
  UPNP_AddPortMapping :: "string \<Rightarrow> string \<Rightarrow> string \<Rightarrow> string \<Rightarrow> string \<Rightarrow> string \<Rightarrow> string \<Rightarrow> string \<Rightarrow> 'g \<Rightarrow> nat \<times> 'g"
  UPNP_DeletePortMapping :: "string \<Rightarrow> string \<Rightarrow> string \<Rightarrow> string \<Rightarrow> 'g \<Rightarrow> nat \<times> 'g"

definition UpnpPortMapper_new :: UpnpPortMapper where
  "UpnpPortMapper_new = \<lparr>up_external_ip = [], up_internal_ip = [], up_urls = None, up_data = None\<rparr>"

text \<open>The moves return the new object and the one moved from.\<close>

definition Upnp_move :: "UpnpPortMapper \<Rightarrow> UpnpPortMapper \<times> UpnpPortMapper" where
  "Upnp_move other = (UpnpPortMapper_new\<lparr>up_urls := up_urls other, up_data := up_data other\<rparr>, other\<lparr>up_urls := None, up_data := None\<rparr>)"

definition Upnp_Swap :: "UpnpPortMapper \<Rightarrow> UpnpPortMapper \<Rightarrow> UpnpPortMapper \<times> UpnpPortMapper" where
  "Upnp_Swap this other =
     (this\<lparr>up_urls := up_urls other, up_data := up_data other, up_internal_ip := up_internal_ip other, up_external_ip := up_external_ip other\<rparr>,
      other\<lparr>up_urls := up_urls this, up_data := up_data this, up_internal_ip := up_internal_ip this, up_external_ip := up_external_ip this\<rparr>)"

definition Upnp_move_assign :: "UpnpPortMapper \<Rightarrow> UpnpPortMapper \<Rightarrow> UpnpPortMapper \<times> UpnpPortMapper" where
  "Upnp_move_assign this moved = (let (tmp, moved) = Upnp_move moved in (fst (Upnp_Swap this tmp), moved))"

definition c_default_lease_time :: "64 word" where
  "c_default_lease_time = 3600"

definition Upnp_AddMapping ::
  "('d, 'g) igd_library \<Rightarrow> Mapping \<Rightarrow> 64 word \<Rightarrow> UpnpPortMapper \<Rightarrow> 'g \<Rightarrow> (nat_error option \<times> 'g) res" where
  "Upnp_AddMapping lib m lease_time p g =
     (case (up_urls p, up_data p) of
        (Some urls, Some igd) \<Rightarrow>
          if controlURL urls = [] then Inr (Some DISCOVERY_NOT_DONE, g)
          else (case UPNP_AddPortMapping lib (controlURL urls) (first_servicetype igd) (show_nat (unat (mp_external_port m)))
                  (show_nat (unat (mp_internal_port m))) (up_internal_ip p) (mp_name m) (ProtocolString (mp_protocol m))
                  (show_int (sint (ucast lease_time :: 32 word))) g of
                (failure, g) \<Rightarrow> Inr (if failure \<noteq> 0 then Some UPNP_COMMAND_ERROR else None, g))
      | _ \<Rightarrow> Inl UndefinedBehaviour)"

definition Upnp_DeleteMapping ::
  "('d, 'g) igd_library \<Rightarrow> Protocol \<Rightarrow> 32 word \<Rightarrow> UpnpPortMapper \<Rightarrow> 'g \<Rightarrow> (nat_error option \<times> 'g) res" where
  "Upnp_DeleteMapping lib protocol external_port p g =
     (case (up_urls p, up_data p) of
        (Some urls, Some igd) \<Rightarrow>
          if controlURL urls = [] then Inr (Some DISCOVERY_NOT_DONE, g)
          else (case UPNP_DeletePortMapping lib (controlURL urls) (first_servicetype igd) (show_nat (unat external_port))
                  (ProtocolString protocol) g of
                (failure, g) \<Rightarrow> Inr (if failure \<noteq> 0 then Some UPNP_COMMAND_ERROR else None, g))
      | _ \<Rightarrow> Inl UndefinedBehaviour)"

definition Upnp_Discover :: "('d, 'g) igd_library \<Rightarrow> 64 word \<Rightarrow> 'g \<Rightarrow> UpnpPortMapper option" where
  "Upnp_Discover lib timeout g =
     (case upnpDiscover lib (ucast timeout) g of None \<Rightarrow> None
      | Some devlist \<Rightarrow>
          (case UPNP_GetValidIGD lib devlist g of (igd_was_found, urls, igd, lanaddr) \<Rightarrow>
            if igd_was_found \<noteq> 0 then
              (case UPNP_GetExternalIPAddress lib (controlURL urls) (CIF_servicetype igd) g of (failure, ip) \<Rightarrow>
                if failure = 0 then
                  Some (UpnpPortMapper_new\<lparr>up_urls := Some urls, up_data := Some igd, up_internal_ip := lanaddr, up_external_ip := ip\<rparr>)
                else None)
            else None))"

section \<open>The factory\<close>

datatype PortMapper = NoPortMapper string string | Upnp UpnpPortMapper

text \<open>The words between the colons.\<close>

fun split_colons :: "string \<Rightarrow> string list" where
  "split_colons [] = [[]]"
| "split_colons (c # cs) = (if c = CHR '':'' then [] # split_colons cs
     else case split_colons cs of [] \<Rightarrow> [[c]] | part # parts \<Rightarrow> (c # part) # parts)"

definition GetPortMapper ::
  "('d, 'g) igd_library \<Rightarrow> if_entry list option \<Rightarrow> 'g \<Rightarrow> string \<Rightarrow> PortMapper option res" where
  "GetPortMapper lib ifaddrs g spec =
     (let parts = split_colons spec; mechanism = parts ! 0 in
      if mechanism = ''extip'' then
        Inr (if length parts = 3 then Some (NoPortMapper (parts ! 1) (parts ! 2))
             else if length parts = 2 then Some (NoPortMapper (parts ! 1) (parts ! 1)) else None)
      else if mechanism = ''upnp'' then Inr (map_option Upnp (Upnp_Discover lib 2000 g))
      else if mechanism = ''pmp'' then Inr None
      else rbind (FindBestAddress ifaddrs) (\<lambda>address.
        if address = [] then Inr None
        else if IsLocal address False then
          (case Upnp_Discover lib 2000 g of Some upnp \<Rightarrow> Inr (Some (Upnp upnp))
           | None \<Rightarrow> Inr (Some (NoPortMapper address address)))
        else Inr (Some (NoPortMapper address address))))"

definition ExternalIP :: "PortMapper \<Rightarrow> string" where
  "ExternalIP m = (case m of NoPortMapper external internal \<Rightarrow> external | Upnp p \<Rightarrow> up_external_ip p)"

definition InternalIP :: "PortMapper \<Rightarrow> string" where
  "InternalIP m = (case m of NoPortMapper external internal \<Rightarrow> internal | Upnp p \<Rightarrow> up_internal_ip p)"

definition MapperType :: "PortMapper \<Rightarrow> string" where
  "MapperType m = (case m of NoPortMapper _ _ \<Rightarrow> ''nomap'' | Upnp _ \<Rightarrow> ''upnp'')"

definition AddMapping :: "('d, 'g) igd_library \<Rightarrow> Mapping \<Rightarrow> 64 word \<Rightarrow> PortMapper \<Rightarrow> 'g \<Rightarrow> (nat_error option \<times> 'g) res" where
  "AddMapping lib m lease_time p g = (case p of NoPortMapper _ _ \<Rightarrow> Inr (None, g) | Upnp u \<Rightarrow> Upnp_AddMapping lib m lease_time u g)"

definition DeleteMapping :: "('d, 'g) igd_library \<Rightarrow> Protocol \<Rightarrow> 32 word \<Rightarrow> PortMapper \<Rightarrow> 'g \<Rightarrow> (nat_error option \<times> 'g) res" where
  "DeleteMapping lib protocol external_port p g =
     (case p of NoPortMapper _ _ \<Rightarrow> Inr (None, g) | Upnp u \<Rightarrow> Upnp_DeleteMapping lib protocol external_port u g)"

section \<open>The collected addresses\<close>

definition infos :: "(string, AddressInfo list) std_map \<Rightarrow> AddressInfo set" where
  "infos m = (\<Union>e \<in> set m. set (snd e))"

lemma infos_map_of: "map_wf m \<Longrightarrow> i \<in> infos m \<longleftrightarrow> (\<exists>k as. map_of m k = Some as \<and> i \<in> set as)"
proof -
  assume "map_wf m"
  then have "map_of m k = Some as \<longleftrightarrow> (k, as) \<in> set m" for k as by (simp add: map_wf_distinct)
  then show ?thesis by (force simp: infos_def)
qed

lemma infos_add: "map_wf m \<Longrightarrow> infos (add_address name info m) = insert info (infos m)"
proof -
  assume m: "map_wf m"
  then have w: "map_wf (add_address name info m)" unfolding add_address_def by (rule map_wf_insert_or_assign)
  have f: "map_of (add_address name info m) k = (if k = name then Some ((case map_of m name of None \<Rightarrow> [] | Some as \<Rightarrow> as) @ [info]) else map_of m k)" for k
    by (simp add: add_address_def map_of_insert_or_assign [OF m] map_find_def)
  have "i \<in> infos (add_address name info m) \<longleftrightarrow> i = info \<or> i \<in> infos m" for i
  proof
    assume "i \<in> infos (add_address name info m)"
    then show "i = info \<or> i \<in> infos m" unfolding infos_map_of [OF w] infos_map_of [OF m] f by (auto split: if_splits option.splits)
  next
    assume "i = info \<or> i \<in> infos m"
    then show "i \<in> infos (add_address name info m)"
    proof
      assume "i = info"
      then show ?thesis unfolding infos_map_of [OF w] f by (intro exI [of _ name]) simp
    next
      assume "i \<in> infos m"
      then obtain k as where k: "map_of m k = Some as" "i \<in> set as" unfolding infos_map_of [OF m] by blast
      then show ?thesis unfolding infos_map_of [OF w] f by (intro exI [of _ k]) (cases "k = name", auto)
    qed
  qed
  then show ?thesis by blast
qed

definition entry_infos :: "if_entry list \<Rightarrow> AddressInfo set" where
  "entry_infos es = {i. \<exists>name ipv6 t. (name, Some (ipv6, t)) \<in> set es \<and> address_info ipv6 t = Inr i}"

lemma entry_infos_simps:
  "entry_infos [] = {}" "entry_infos ((name, None) # es) = entry_infos es"
  "entry_infos ((name, Some (ipv6, t)) # es) = {i. address_info ipv6 t = Inr i} \<union> entry_infos es"
  by (auto simp: entry_infos_def)

lemma collected: "collect_addresses es m = Inr m' \<Longrightarrow> map_wf m \<Longrightarrow> map_wf m' \<and> infos m' = infos m \<union> entry_infos es"
proof (induction es m rule: collect_addresses.induct)
  case (3 name ipv6 t es m)
  then obtain info where info: "address_info ipv6 t = Inr info" "collect_addresses es (add_address name info m) = Inr m'"
    by (auto simp: rbind_eq_Inr)
  have "map_wf (add_address name info m)" using 3(3) unfolding add_address_def by (rule map_wf_insert_or_assign)
  then show ?case using 3(1) [of info] info infos_add [OF 3(3), of name info] by (auto simp: entry_infos_simps)
qed (auto simp: entry_infos_simps)

lemma collected_ok: "collect_addresses es m = Inr m' \<Longrightarrow> (name, Some (ipv6, t)) \<in> set es \<Longrightarrow> \<exists>i. address_info ipv6 t = Inr i"
  by (induction es m rule: collect_addresses.induct) (auto simp: rbind_eq_Inr)

lemma address_info_fields:
  "address_info ipv6 t = Inr i \<Longrightarrow> ai_value i = t \<and> ai_is_v4 i = (\<not> ipv6) \<and> ai_is_loopback i = IsLoopback t ipv6 \<and> ai_is_external i = (\<not> IsLocal t ipv6)"
  by (auto simp: address_info_def split: if_splits)

section \<open>The search\<close>

abbreviation candidate :: "AddressInfo \<Rightarrow> bool" where
  "candidate a \<equiv> ai_is_v4 a \<or> ai_is_loopback a"

abbreviation external4 :: "AddressInfo \<Rightarrow> bool" where
  "external4 a \<equiv> ai_is_external a \<and> ai_is_v4 a"

lemma scan_selected:
  "scan_addresses as sel v4 v6 = (s, f) \<Longrightarrow> s = sel \<or> (\<exists>a \<in> set as. candidate a \<and> ai_value a = s)"
  by (induction as sel v4 v6 rule: scan_addresses.induct) (auto simp: Let_def split: if_splits)

lemma scan_not_empty:
  "scan_addresses as sel v4 v6 = (s, f) \<Longrightarrow> \<forall>a \<in> set as. ai_value a \<noteq> [] \<Longrightarrow> v4 \<longrightarrow> sel \<noteq> [] \<Longrightarrow>
   (sel \<noteq> [] \<or> f \<or> (\<exists>a \<in> set as. candidate a)) \<longrightarrow> s \<noteq> []"
  by (induction as sel v4 v6 rule: scan_addresses.induct) (auto simp: Let_def split: if_splits)

lemma scan_external:
  "scan_addresses as sel v4 False = (s, f) \<Longrightarrow> \<forall>a \<in> set as. candidate a \<Longrightarrow>
   f = (\<exists>a \<in> set as. external4 a) \<and> (f \<longrightarrow> (\<exists>a \<in> set as. external4 a \<and> ai_value a = s))"
proof (induction as arbitrary: sel v4)
  case (Cons a as)
  show ?case
  proof (cases "external4 a")
    case False
    obtain sel' v4' where "scan_addresses (a # as) sel v4 False = scan_addresses as sel' v4' False"
      using False Cons.prems(2) by (cases "ai_is_loopback a") (auto simp: Let_def)
    then show ?thesis using Cons.IH [of sel' v4'] Cons.prems False by auto
  qed (use Cons.prems in auto)
qed simp

lemma infos_simps: "infos [] = {}" "infos ((name, as) # m) = set as \<union> infos m"
  by (auto simp: infos_def)

lemma scan_interfaces_selected:
  "scan_interfaces m sel = sel \<or> (\<exists>a \<in> infos m. candidate a \<and> ai_value a = scan_interfaces m sel)"
proof (induction m sel rule: scan_interfaces.induct)
  case (2 name as m sel)
  obtain s f where s: "scan_addresses as sel False False = (s, f)" by fastforce
  show ?case
  proof (cases f)
    case True
    then show ?thesis using scan_selected [OF s] by (auto simp: infos_simps s)
  next
    case False
    have "scan_interfaces m s = s \<or> (\<exists>a \<in> infos m. candidate a \<and> ai_value a = scan_interfaces m s)" using 2 s False by simp
    moreover have "scan_interfaces ((name, as) # m) sel = scan_interfaces m s" using False by (simp add: s)
    ultimately show ?thesis using scan_selected [OF s] unfolding infos_simps by (metis Un_iff)
  qed
qed simp

lemma scan_interfaces_empty:
  "\<forall>a \<in> infos m. ai_value a \<noteq> [] \<Longrightarrow> sel \<noteq> [] \<or> (\<exists>a \<in> infos m. candidate a) \<Longrightarrow> scan_interfaces m sel \<noteq> []"
proof (induction m sel rule: scan_interfaces.induct)
  case (2 name as m sel)
  obtain s f where s: "scan_addresses as sel False False = (s, f)" by fastforce
  have n: "\<forall>a \<in> set as. ai_value a \<noteq> []" using 2(2) by (simp add: infos_simps)
  show ?case
  proof (cases f)
    case True
    then show ?thesis using scan_not_empty [OF s n] by (simp add: s)
  next
    case False
    have "s \<noteq> [] \<or> (\<exists>a \<in> infos m. candidate a)" using 2(3) scan_not_empty [OF s n] unfolding infos_simps by blast
    then show ?thesis using 2(1) [of s f] 2(2) False by (simp add: s infos_simps)
  qed
qed (simp add: infos_simps)

lemma scan_interfaces_external:
  "\<forall>a \<in> infos m. candidate a \<Longrightarrow> \<exists>a \<in> infos m. external4 a \<Longrightarrow> \<exists>a \<in> infos m. external4 a \<and> ai_value a = scan_interfaces m sel"
proof (induction m sel rule: scan_interfaces.induct)
  case (2 name as m sel)
  obtain s f where s: "scan_addresses as sel False False = (s, f)" by fastforce
  have c: "\<forall>a \<in> set as. candidate a" using 2(2) by (simp add: infos_simps)
  show ?case
  proof (cases f)
    case True
    then show ?thesis using scan_external [OF s c] by (auto simp: s infos_simps)
  next
    case False
    then have "\<exists>a \<in> infos m. external4 a" using 2(3) scan_external [OF s c] unfolding infos_simps by blast
    then have "\<exists>a \<in> infos m. external4 a \<and> ai_value a = scan_interfaces m s" using 2(1) [of s f] 2(2) False by (simp add: s infos_simps)
    then show ?thesis using False by (auto simp: s infos_simps)
  qed
qed (simp add: infos_simps)

section \<open>Specifications\<close>

lemma split_colons_not_Nil: "split_colons s \<noteq> []"
  by (induction s) (auto split: list.splits)

lemma split_colons_word: "CHR '':'' \<notin> set a \<Longrightarrow> split_colons a = [a]"
  by (induction a) auto

lemma split_colons_append: "CHR '':'' \<notin> set a \<Longrightarrow> split_colons (a @ CHR '':'' # s) = a # split_colons s"
  by (induction a) auto

section \<open>Properties\<close>

text \<open>
  The address chosen for the host. When the operating system lists the interfaces, the result is empty exactly when there is neither
  an IPv4 address nor a loopback address; otherwise it is the text of a listed address, of IPv4 or the loopback address; and on a
  host without other IPv6 addresses an external IPv4 address is chosen whenever there is one.
\<close>

theorem best_address:
  assumes a: "FindBestAddress (Some es) = Inr a" and t: "\<forall>name ipv6 t. (name, Some (ipv6, t)) \<in> set es \<longrightarrow> t \<noteq> []"
  shows "(a = [] \<longleftrightarrow> (\<forall>name ipv6 t. (name, Some (ipv6, t)) \<in> set es \<longrightarrow> ipv6 \<and> \<not> IsLoopback t True))
    \<and> (a \<noteq> [] \<longrightarrow> (\<exists>name ipv6. (name, Some (ipv6, a)) \<in> set es \<and> (ipv6 \<longrightarrow> IsLoopback a True)))
    \<and> ((\<forall>name t. (name, Some (True, t)) \<in> set es \<longrightarrow> IsLoopback t True) \<longrightarrow> (\<exists>name t. (name, Some (False, t)) \<in> set es \<and> \<not> IsLocal t False)
      \<longrightarrow> \<not> IsLocal a False \<and> (\<exists>name. (name, Some (False, a)) \<in> set es))"
proof -
  obtain m where m: "collect_addresses es [] = Inr m" and am: "a = scan_interfaces m []"
    using a by (auto simp: FindBestAddress_def rbind_eq_Inr)
  have i: "b \<in> infos m \<longleftrightarrow> (\<exists>name ipv6 t. (name, Some (ipv6, t)) \<in> set es \<and> address_info ipv6 t = Inr b)" for b
    using collected [OF m map_wf_Nil] by (simp add: infos_simps entry_infos_def)
  have listed: "\<exists>b \<in> infos m. address_info ipv6 t = Inr b" if "(name, Some (ipv6, t)) \<in> set es" for name ipv6 t
    using collected_ok [OF m that] that i by blast
  have entry: "\<exists>name. (name, Some (\<not> ai_is_v4 b, ai_value b)) \<in> set es \<and> ai_is_loopback b = IsLoopback (ai_value b) (\<not> ai_is_v4 b)
      \<and> ai_is_external b = (\<not> IsLocal (ai_value b) (\<not> ai_is_v4 b))" if b: "b \<in> infos m" for b
  proof -
    obtain name ipv6 t where "(name, Some (ipv6, t)) \<in> set es" "address_info ipv6 t = Inr b" using b unfolding i by blast
    then show ?thesis using address_info_fields [of ipv6 t b] by auto
  qed
  have n: "\<forall>b \<in> infos m. ai_value b \<noteq> []" using entry t by blast
  have c: "(\<exists>b \<in> infos m. candidate b) \<longleftrightarrow> \<not> (\<forall>name ipv6 t. (name, Some (ipv6, t)) \<in> set es \<longrightarrow> ipv6 \<and> \<not> IsLoopback t True)"
  proof
    assume "\<exists>b \<in> infos m. candidate b"
    then show "\<not> (\<forall>name ipv6 t. (name, Some (ipv6, t)) \<in> set es \<longrightarrow> ipv6 \<and> \<not> IsLoopback t True)" using entry by fastforce
  next
    assume "\<not> (\<forall>name ipv6 t. (name, Some (ipv6, t)) \<in> set es \<longrightarrow> ipv6 \<and> \<not> IsLoopback t True)"
    then obtain name ipv6 t where e: "(name, Some (ipv6, t)) \<in> set es" "ipv6 \<longrightarrow> IsLoopback t True" by blast
    then obtain b where "b \<in> infos m" "address_info ipv6 t = Inr b" using listed by blast
    then show "\<exists>b \<in> infos m. candidate b" using e(2) address_info_fields [of ipv6 t b] by (cases ipv6) auto
  qed
  have selected: "a \<noteq> [] \<Longrightarrow> \<exists>b \<in> infos m. candidate b \<and> ai_value b = a"
    using scan_interfaces_selected [of m "[]"] am by auto
  have "a = [] \<longleftrightarrow> \<not> (\<exists>b \<in> infos m. candidate b)"
    using scan_interfaces_empty [OF n, of "[]"] selected unfolding am by metis
  moreover have "\<exists>name ipv6. (name, Some (ipv6, a)) \<in> set es \<and> (ipv6 \<longrightarrow> IsLoopback a True)" if an: "a \<noteq> []"
  proof -
    obtain b where b: "b \<in> infos m" "candidate b" "ai_value b = a" using selected [OF an] by blast
    obtain name where "(name, Some (\<not> ai_is_v4 b, a)) \<in> set es" "ai_is_loopback b = IsLoopback a (\<not> ai_is_v4 b)" using entry [OF b(1)] b(3) by auto
    then show ?thesis using b(2) by (cases "ai_is_v4 b") auto
  qed
  moreover have "\<not> IsLocal a False \<and> (\<exists>name. (name, Some (False, a)) \<in> set es)"
    if v6: "\<forall>name t. (name, Some (True, t)) \<in> set es \<longrightarrow> IsLoopback t True" and e: "(name, Some (False, t)) \<in> set es" "\<not> IsLocal t False" for name t
  proof -
    have "\<forall>b \<in> infos m. candidate b"
    proof
      fix b assume "b \<in> infos m"
      then show "candidate b" using entry [of b] v6 by (cases "ai_is_v4 b") auto
    qed
    moreover have "\<exists>b \<in> infos m. external4 b" using listed [OF e(1)] e(2) address_info_fields [of False t] by auto
    ultimately obtain b where b: "b \<in> infos m" "external4 b" "ai_value b = a" using scan_interfaces_external [of m "[]"] am by blast
    then show ?thesis using entry [OF b(1)] by auto
  qed
  ultimately show ?thesis unfolding c by blast
qed

theorem best_address_witness:
  "FindBestAddress (Some [(''lo'', Some (False, ''127.0.0.1'')), (''lo'', Some (True, ''::1'')), (''eth0'', Some (False, ''10.0.0.2'')),
      (''eth1'', None), (''eth1'', Some (False, ''8.8.8.8''))]) = Inr ''8.8.8.8'' \<and> \<not> IsLocal ''8.8.8.8'' False"
proof -
  let ?es = "[(''lo'', Some (False, ''127.0.0.1'')), (''lo'', Some (True, ''::1'')), (''eth0'', Some (False, ''10.0.0.2'')),
      (''eth1'', None), (''eth1'', Some (False, ''8.8.8.8''))]"
  have f: "FindBestAddress (Some ?es) = Inr ''8.8.8.8''" by code_simp
  have t: "\<forall>name ipv6 t. (name, Some (ipv6, t)) \<in> set ?es \<longrightarrow> t \<noteq> []" by auto
  have "\<forall>name t. (name, Some (True, t)) \<in> set ?es \<longrightarrow> IsLoopback t True" by (auto simp: IsLoopback_def)
  moreover have "\<exists>name t. (name, Some (False, t)) \<in> set ?es \<and> \<not> IsLocal t False"
    by (intro exI [of _ "''eth1''"] exI [of _ "''8.8.8.8''"]) (simp add: IsLocal_def IsLoopback_def)
  ultimately show ?thesis using best_address [OF f t] f by blast
qed

text \<open>The addresses from 172.16.0.0 to 172.31.255.255 are private, but none of them is taken for local: seven characters are compared
  with texts of six.\<close>

lemma private_172_external: "a \<noteq> [] \<Longrightarrow> \<not> IsLocal (''172.'' @ [c, d] @ ''.'' @ a) False"
  by (simp add: IsLocal_def IsLoopback_def)

text \<open>An interface with addresses of both families ends the search before the external address of a later interface.\<close>

lemma external_address_missed:
  "FindBestAddress (Some [(''eth0'', Some (False, ''10.0.0.2'')), (''eth0'', Some (True, ''fe80::1'')), (''eth1'', Some (False, ''8.8.8.8''))])
    = Inr ''10.0.0.2''"
  by code_simp

text \<open>The loopback address of IPv6 can be selected, and is then not taken for local.\<close>

lemma loopback_v6_selected:
  "FindBestAddress (Some [(''lo'', Some (True, ''::1'')), (''lo'', Some (False, ''127.0.0.1''))]) = Inr ''::1'' \<and> \<not> IsLocal ''::1'' False"
  by code_simp

text \<open>A long IPv6 address is not written to the buffer.\<close>

lemma long_address_undefined: "length t \<ge> 32 \<Longrightarrow> FindBestAddress (Some ((name, Some (True, t)) # es)) = Inl UndefinedBehaviour"
  by (simp add: FindBestAddress_def address_info_def rbind_def)

text \<open>The specifications with explicit addresses, for addresses without colons; more or fewer words give no mapper.\<close>

theorem explicit_addresses:
  assumes "CHR '':'' \<notin> set a" "CHR '':'' \<notin> set b"
  shows "GetPortMapper lib ifaddrs g (''extip:'' @ a) = Inr (Some (NoPortMapper a a))
    \<and> GetPortMapper lib ifaddrs g (''extip:'' @ a @ '':'' @ b) = Inr (Some (NoPortMapper a b))
    \<and> GetPortMapper lib ifaddrs g ''extip'' = Inr None
    \<and> GetPortMapper lib ifaddrs g (''extip:'' @ a @ '':'' @ b @ '':'' @ c) = Inr None"
proof -
  have e: "split_colons (''extip:'' @ s) = ''extip'' # split_colons s" for s
    using split_colons_append [of "''extip''" s] by simp
  have "length (split_colons c) > 0" using split_colons_not_Nil by simp
  then show ?thesis
    using assms by (simp add: GetPortMapper_def Let_def e [simplified] split_colons_word split_colons_append)
qed

text \<open>A mapper that was moved maps to no client: the moves leave the addresses behind.\<close>

lemma moved_mapper_has_no_client:
  "up_urls p = Some urls \<Longrightarrow> up_data p = Some igd \<Longrightarrow> controlURL urls \<noteq> [] \<Longrightarrow>
   Upnp_AddMapping lib m lease_time (fst (Upnp_move p)) g =
     (case UPNP_AddPortMapping lib (controlURL urls) (first_servicetype igd) (show_nat (unat (mp_external_port m)))
        (show_nat (unat (mp_internal_port m))) [] (mp_name m) (ProtocolString (mp_protocol m)) (show_int (sint (ucast lease_time :: 32 word))) g of
      (failure, g) \<Rightarrow> Inr (if failure \<noteq> 0 then Some UPNP_COMMAND_ERROR else None, g))"
  "Upnp_AddMapping lib m lease_time (snd (Upnp_move p)) g = Inl UndefinedBehaviour"
  "up_internal_ip (fst (Upnp_move_assign q p)) = []"
  by (simp_all add: Upnp_AddMapping_def Upnp_move_def UpnpPortMapper_new_def Upnp_move_assign_def Upnp_Swap_def)

end
