(* ===== verification/BitcoinWire.thy ===== *)
theory BitcoinWire
  imports Sha256Stream Base16 CryptoHash "HOL-Library.List_Lexorder"
begin

text \<open>
  The wire format of \<open>src/Blocxxi/Bitcoin/adapter.cpp\<close>: hexadecimal hashes, double SHA-256, the Merkle root, compact
  sizes, difficulty targets, message frames and the payloads the client sends. Offsets are \<open>size_t\<close>, so their sums
  wrap at 64 bits. The text form of addresses and the clock are parameters; \<open>hw\<close> is the processor's SHA extension.
\<close>

section \<open>Constants\<close>

definition kProtocolVersion :: u32 where
  "kProtocolVersion = 70016"

definition kSignetMagic :: "byte list" where
  "kSignetMagic = [0x0a, 0x03, 0xcf, 0x40]"

definition kSignetPowLimitHex :: string where
  "kSignetPowLimitHex = ''00000377ae000000000000000000000000000000000000000000000000000000''"

section \<open>Hexadecimal text\<close>

definition btc_digits :: string where
  "btc_digits = ''0123456789abcdef''"

definition btc_ToHex :: "byte list \<Rightarrow> string" where
  "btc_ToHex bytes = concat (map (\<lambda>b. [btc_digits ! unat (drop_bit 4 b AND 0x0F), btc_digits ! unat (b AND 0x0F)]) bytes)"

definition WireHashToHex :: "byte list \<Rightarrow> string" where
  "WireHashToHex bytes = btc_ToHex (rev bytes)"

text \<open>\<open>stream << std::hex << chunk; stream >> parsed\<close>: leading space, a sign and a prefix \<open>0x\<close> are accepted, what follows the
  digits is ignored.\<close>

definition hex_value :: "char \<Rightarrow> nat option" where
  "hex_value c = (let n = of_char c :: nat in
     if 48 \<le> n \<and> n \<le> 57 then Some (n - 48)
     else if 97 \<le> n \<and> n \<le> 102 then Some (n - 87)
     else if 65 \<le> n \<and> n \<le> 70 then Some (n - 55) else None)"

definition hex_digits_value :: "string \<Rightarrow> nat" where
  "hex_digits_value s = fold (\<lambda>c n. n * 16 + the (hex_value c)) s 0"

definition stream_hex :: "string \<Rightarrow> u32 option" where
  "stream_hex chunk =
     (let s = dropWhile is_space chunk;
          (neg, s) = (case s of c # cs \<Rightarrow> if c = CHR ''-'' then (True, cs) else if c = CHR ''+'' then (False, cs) else (False, s)
                      | [] \<Rightarrow> (False, []));
          s = (case s of z # x # cs \<Rightarrow> if z = CHR ''0'' \<and> (x = CHR ''x'' \<or> x = CHR ''X'') then cs else s | _ \<Rightarrow> s);
          digits = takeWhile (\<lambda>c. hex_value c \<noteq> None) s in
      if digits = [] \<or> 2 ^ 32 \<le> hex_digits_value digits then None
      else Some (if neg then - word_of_nat (hex_digits_value digits) else word_of_nat (hex_digits_value digits)))"

fun hex_loop :: "string \<Rightarrow> byte list option" where
  "hex_loop (a # b # cs) =
     (case stream_hex [a, b] of None \<Rightarrow> None
      | Some parsed \<Rightarrow> (case hex_loop cs of None \<Rightarrow> None | Some bytes \<Rightarrow> Some (ucast parsed # bytes)))"
| "hex_loop _ = Some []"

definition HexToBytes :: "string \<Rightarrow> byte list option" where
  "HexToBytes hex = (if length hex mod 2 \<noteq> 0 then None else hex_loop hex)"

definition WireHashFromHex :: "string \<Rightarrow> byte list option" where
  "WireHashFromHex hash_hex = (if length hash_hex \<noteq> 64 then None else map_option rev (hex_loop hash_hex))"

definition HashBytesFromHex :: "string \<Rightarrow> byte list option" where
  "HashBytesFromHex hash_hex = (if length hash_hex \<noteq> 64 then None else hex_loop hash_hex)"

section \<open>Hashes and the Merkle root\<close>

definition DoubleSha256 :: "ShaNi option \<Rightarrow> byte list \<Rightarrow> byte list" where
  "DoubleSha256 hw payload = ComputeSha256 hw (ComputeSha256 hw payload)"

fun decode_layer :: "string list \<Rightarrow> byte list list option" where
  "decode_layer [] = Some []"
| "decode_layer (txid # txids) =
     (case HexToBytes txid of None \<Rightarrow> None
      | Some bytes \<Rightarrow> if length bytes \<noteq> 32 then None
          else (case decode_layer txids of None \<Rightarrow> None | Some layer \<Rightarrow> Some (rev bytes # layer)))"

fun hash_pairs :: "ShaNi option \<Rightarrow> byte list list \<Rightarrow> byte list list" where
  "hash_pairs hw (a # b # layer) = DoubleSha256 hw (a @ b) # hash_pairs hw layer"
| "hash_pairs hw _ = []"

lemma length_hash_pairs: "length (hash_pairs hw layer) = length layer div 2"
  by (induction hw layer rule: hash_pairs.induct) auto

definition even_layer :: "byte list list \<Rightarrow> byte list list" where
  "even_layer layer = (if length layer mod 2 \<noteq> 0 then layer @ [last layer] else layer)"

function merkle_loop :: "ShaNi option \<Rightarrow> byte list list \<Rightarrow> byte list list" where
  "merkle_loop hw layer = (if length layer > 1 then merkle_loop hw (hash_pairs hw (even_layer layer)) else layer)"
  by auto
termination
  by (relation "measure (\<lambda>(hw, layer). length layer)") (auto simp: length_hash_pairs even_layer_def)

declare merkle_loop.simps [simp del]

definition ComputeMerkleRootHex :: "ShaNi option \<Rightarrow> string list \<Rightarrow> string option" where
  "ComputeMerkleRootHex hw txids =
     (if txids = [] then None
      else case decode_layer txids of None \<Rightarrow> None
      | Some layer \<Rightarrow> Some (btc_ToHex (rev (hd (merkle_loop hw layer)))))"

section \<open>Little-endian numbers and compact sizes\<close>

definition AppendLittleEndian :: "byte list \<Rightarrow> u64 \<Rightarrow> nat \<Rightarrow> byte list" where
  "AppendLittleEndian out v width = out @ map (\<lambda>i. ucast (drop_bit (i * 8) v AND 0xFF)) [0..<width]"

definition AppendCompactSize :: "byte list \<Rightarrow> u64 \<Rightarrow> byte list" where
  "AppendCompactSize out v =
     (if v < 253 then out @ [ucast v]
      else if v \<le> 0xFFFF then AppendLittleEndian (out @ [0xFD]) v 2
      else if v \<le> 0xFFFFFFFF then AppendLittleEndian (out @ [0xFE]) v 4
      else AppendLittleEndian (out @ [0xFF]) v 8)"

definition size_add :: "nat \<Rightarrow> nat \<Rightarrow> nat" where
  "size_add a b = (a + b) mod 2 ^ 64"

definition ReadCompactSize :: "byte list \<Rightarrow> nat \<Rightarrow> (u64 \<times> nat) option" where
  "ReadCompactSize payload offset =
     (if offset \<ge> length payload then None
      else
        let first = payload ! offset; offset = size_add offset 1 in
        if first < 253 then Some (ucast first, offset)
        else
          let width = (if first = 0xFD then 2 else if first = 0xFE then 4 else 8) in
          if size_add offset width > length payload then None
          else Some (fold (\<lambda>i v. v OR push_bit (i * 8) (ucast (payload ! (offset + i)))) [0..<width] 0, size_add offset width))"

section \<open>Difficulty targets\<close>

definition TargetFromCompact :: "u32 \<Rightarrow> string \<Rightarrow> byte list option" where
  "TargetFromCompact bits pow_limit_hex =
     (let exponent = unat (drop_bit 24 bits AND 0xFF); mantissa = bits AND 0x007FFFFF in
      if bits AND 0x00800000 \<noteq> 0 \<or> mantissa = 0 then None
      else
        let target0 = replicate 32 (0 :: byte);
            target = (if exponent \<le> 3 then
                let mantissa = drop_bit (8 * (3 - exponent)) mantissa in
                Some (target0[29 := ucast (drop_bit 16 mantissa AND 0xFF), 30 := ucast (drop_bit 8 mantissa AND 0xFF),
                              31 := ucast (mantissa AND 0xFF)])
              else
                let offset = exponent - 3 in
                if offset > 29 then None
                else Some (target0[32 - offset - 3 := ucast (drop_bit 16 mantissa AND 0xFF),
                     32 - offset - 2 := ucast (drop_bit 8 mantissa AND 0xFF), 32 - offset - 1 := ucast (mantissa AND 0xFF)])) in
        case target of None \<Rightarrow> None
        | Some target \<Rightarrow>
            (case HashBytesFromHex pow_limit_hex of None \<Rightarrow> None
             | Some pow_limit \<Rightarrow> if target > pow_limit then None else Some target))"

section \<open>Messages\<close>

text \<open>A command has at most 12 characters.\<close>

definition EncodeMessage :: "ShaNi option \<Rightarrow> string \<Rightarrow> byte list \<Rightarrow> byte list" where
  "EncodeMessage hw command payload =
     (let command_bytes = map byte_of_char command;
          padded_command = command_bytes @ replicate (12 - length command_bytes) 0;
          message = AppendLittleEndian (kSignetMagic @ padded_command) (word_of_nat (length payload)) 4;
          checksum = DoubleSha256 hw payload in
      message @ take 4 checksum @ payload)"

datatype TcpAddress = TcpV4 "byte list" | TcpV6 "byte list"

definition append_network_address :: "(string \<Rightarrow> TcpAddress res) \<Rightarrow> byte list \<Rightarrow> string \<Rightarrow> u16 \<Rightarrow> byte list res" where
  "append_network_address make_address payload host port =
     rbind (make_address host) (\<lambda>address.
       Inr (AppendLittleEndian payload 0 8
         @ (case address of TcpV4 bytes \<Rightarrow> replicate 10 0 @ [0xFF, 0xFF] @ bytes | TcpV6 bytes \<Rightarrow> bytes)
         @ [ucast (drop_bit 8 port AND 0xFF), ucast (port AND 0xFF)]))"

definition EncodeVersionPayload :: "(string \<Rightarrow> TcpAddress res) \<Rightarrow> u64 \<Rightarrow> string \<Rightarrow> u16 \<Rightarrow> byte list res" where
  "EncodeVersionPayload make_address now remote_address remote_port =
     (let user_agent = ''/blocxxi:0.1.0/'';
          payload = AppendLittleEndian (AppendLittleEndian (AppendLittleEndian [] (ucast kProtocolVersion) 4) 0 8) now 8 in
      rbind (append_network_address make_address payload remote_address remote_port) (\<lambda>payload.
      rbind (append_network_address make_address payload ''0.0.0.0'' 0) (\<lambda>payload.
        Inr (AppendLittleEndian
          (AppendCompactSize (AppendLittleEndian payload 0x12345678ABCDEF00 8) (word_of_nat (length user_agent)) @ map byte_of_char user_agent)
          0 4 @ [0]))))"

definition EncodeGetHeadersPayload :: "string \<Rightarrow> byte list option" where
  "EncodeGetHeadersPayload locator_hash_hex =
     (case WireHashFromHex locator_hash_hex of None \<Rightarrow> None
      | Some locator \<Rightarrow>
          Some (AppendCompactSize (AppendLittleEndian [] (ucast kProtocolVersion) 4) 1 @ locator @ replicate 32 0))"

fun append_inventory :: "string list \<Rightarrow> byte list \<Rightarrow> byte list option" where
  "append_inventory [] payload = Some payload"
| "append_inventory (hash_hex # hashes) payload =
     (case WireHashFromHex hash_hex of None \<Rightarrow> None
      | Some h \<Rightarrow> append_inventory hashes (AppendLittleEndian payload 2 4 @ h))"

definition EncodeGetDataPayload :: "string list \<Rightarrow> byte list option" where
  "EncodeGetDataPayload block_hashes = append_inventory block_hashes (AppendCompactSize [] (word_of_nat (length block_hashes)))"

section \<open>Sockets\<close>

text \<open>
  A connection: the segments that still arrive before it ends, how many writes still succeed, and what was written.
  \<open>read_some\<close> returns at most one segment.
\<close>

record TcpSocket =
  sk_segments :: "byte list list"
  sk_writes :: nat
  sk_written :: "byte list"

fun read_loop :: "nat \<Rightarrow> byte list \<Rightarrow> byte list list \<Rightarrow> byte list option \<times> byte list list" where
  "read_loop n buf [] = (if length buf < n then None else Some buf, [])"
| "read_loop n buf (s # segments) =
     (if length buf < n then
        if length s \<le> n - length buf then read_loop n (buf @ s) segments
        else (Some (buf @ take (n - length buf) s), drop (n - length buf) s # segments)
      else (Some buf, s # segments))"

definition ReadExact :: "TcpSocket \<Rightarrow> nat \<Rightarrow> byte list option \<times> TcpSocket" where
  "ReadExact socket n =
     (let (r, segments) = read_loop n [] (sk_segments socket) in (r, socket\<lparr>sk_segments := segments\<rparr>))"

record DecodedMessage =
  dm_command :: string
  dm_payload :: "byte list"

text \<open>\<open>memcpy\<close> into an integer on a little-endian machine.\<close>

definition load_le :: "byte list \<Rightarrow> nat \<Rightarrow> nat \<Rightarrow> nat" where
  "load_le bytes offset width = (\<Sum>i<width. unat (bytes ! (offset + i)) * 256 ^ i)"

definition ReadMessage :: "ShaNi option \<Rightarrow> TcpSocket \<Rightarrow> DecodedMessage option \<times> TcpSocket" where
  "ReadMessage hw socket =
     (let (hdr, socket) = ReadExact socket 24 in
      case hdr of None \<Rightarrow> (None, socket)
      | Some hdr \<Rightarrow>
          if take 4 hdr \<noteq> kSignetMagic then (None, socket)
          else
            let cmd = map char_of_byte (takeWhile (\<lambda>b. b \<noteq> 0) (take 12 (drop 4 hdr)));
                payload_size = load_le hdr 16 4;
                (body, socket) = ReadExact socket payload_size in
            case body of None \<Rightarrow> (None, socket)
            | Some body \<Rightarrow>
                let checksum = DoubleSha256 hw body in
                if take 4 checksum \<noteq> drop 20 hdr then (None, socket)
                else (Some \<lparr>dm_command = cmd, dm_payload = body\<rparr>, socket))"

definition SendMessage :: "ShaNi option \<Rightarrow> TcpSocket \<Rightarrow> string \<Rightarrow> byte list \<Rightarrow> bool \<times> TcpSocket" where
  "SendMessage hw socket cmd body =
     (if sk_writes socket = 0 then (False, socket)
      else (True, socket\<lparr>sk_writes := sk_writes socket - 1, sk_written := sk_written socket @ EncodeMessage hw cmd body\<rparr>))"

section \<open>Hashes have 32 bytes\<close>

lemma length_Finalize: "length (fst (Sha256_Finalize hw s)) = 32"
proof -
  have "length (concat (map (\<lambda>i. StoreBE32 (H ! i)) [0..<8])) = 32" for H :: "u32 list"
    by (simp add: upt_eight StoreBE32_bytes)
  then show ?thesis unfolding Sha256_Finalize_def Let_def by (simp del: upt_Suc)
qed

lemma length_ComputeSha256 [simp]: "length (ComputeSha256 hw d) = 32"
  by (simp add: ComputeSha256_def length_Finalize)

lemma length_DoubleSha256 [simp]: "length (DoubleSha256 hw d) = 32"
  by (simp add: DoubleSha256_def)

lemma ComputeSha256_spec: "sha_ni_ok hw \<Longrightarrow> ComputeSha256 hw d = sha256_spec d"
proof -
  assume ok: "sha_ni_ok hw"
  have "sha_inv ([] @ d) (Sha256_Update hw d Sha256_new)" by (rule Update_sha_inv [OF ok sha_inv_new])
  then show ?thesis using Finalize_spec [OF ok] by (simp add: ComputeSha256_def)
qed

section \<open>Little-endian numbers\<close>

lemma AppendLittleEndian_simp:
  "AppendLittleEndian out v w = out @ AppendLittleEndian [] v w" "length (AppendLittleEndian out v w) = length out + w"
  by (simp_all add: AppendLittleEndian_def)

lemma ucast_low_byte: "(ucast (x AND 0xFF :: 'a::len word) :: byte) = ucast x" if "8 \<le> LENGTH('a)"
proof -
  have m: "(0xFF :: 'a word) = mask 8" by (simp add: mask_eq_exp_minus_1)
  have "x AND 0xFF = take_bit 8 x" unfolding m take_bit_eq_mask ..
  then show ?thesis by (auto intro!: bit_word_eqI simp: bit_simps dest: bit_imp_le_length)
qed

lemma le_byte: "(ucast (drop_bit (i * 8) (v :: u64) AND 0xFF) :: byte) = word_of_nat (unat v div 256 ^ i)"
proof -
  have "(ucast (drop_bit (i * 8) v AND 0xFF) :: byte) = ucast (drop_bit (i * 8) v)"
    by (rule ucast_low_byte) simp
  also have "\<dots> = word_of_nat (unat v div 2 ^ (i * 8))" by (rule ucast_div)
  also have "(2 :: nat) ^ (i * 8) = (2 ^ 8) ^ i" by (simp only: power_mult [symmetric] mult.commute)
  finally show ?thesis by simp
qed

lemma AppendLittleEndian_bytes: "AppendLittleEndian [] v w = map (\<lambda>i. word_of_nat (unat v div 256 ^ i)) [0..<w]"
  by (simp add: AppendLittleEndian_def le_byte)

lemma unat_word_of_nat_byte: "unat (word_of_nat n :: byte) = n mod 256"
  by (simp add: unat_of_nat)

lemma sum_digits: "(\<Sum>i<w. n div 256 ^ i mod 256 * 256 ^ i) = n mod (256 :: nat) ^ w"
proof (induction w)
  case (Suc w)
  have "n mod 256 ^ Suc w = n mod 256 ^ w + n div 256 ^ w mod 256 * 256 ^ w"
    using mod_mult2_eq [of n "256 ^ w" 256] by (simp add: mult.commute)
  then show ?case using Suc by simp
qed simp

lemma load_le_bytes: "load_le (pre @ AppendLittleEndian [] v w @ post) (length pre) w = unat v mod 256 ^ w"
proof -
  have "load_le (pre @ AppendLittleEndian [] v w @ post) (length pre) w = (\<Sum>i<w. unat v div 256 ^ i mod 256 * 256 ^ i)"
    unfolding load_le_def
    by (rule sum.cong) (auto simp: nth_append AppendLittleEndian_bytes unat_word_of_nat_byte)
  then show ?thesis by (simp add: sum_digits)
qed

section \<open>Reading what was framed\<close>

lemma read_loop_exact:
  "length buf \<le> n \<Longrightarrow> buf @ concat segments = b @ t \<Longrightarrow> length b = n \<Longrightarrow>
   \<exists>segments'. read_loop n buf segments = (Some b, segments') \<and> concat segments' = t"
proof (induction n buf segments rule: read_loop.induct)
  case (1 n buf)
  then have "length buf = n" by (metis append_Nil2 concat.simps(1) length_append le_add1 le_antisym)
  then show ?case using 1 by simp
next
  case (2 n buf s segments)
  show ?case
  proof (cases "length buf < n")
    case True
    show ?thesis
    proof (cases "length s \<le> n - length buf")
      case le: True
      then show ?thesis using 2 True by simp
    next
      case False
      have "b = take n (buf @ s @ concat segments)" "t = drop n (buf @ s @ concat segments)"
        using 2(3,4) by simp_all
      then show ?thesis using True False by simp
    qed
  next
    case False
    then have "length buf = n" using 2 by simp
    then show ?thesis using 2 by simp
  qed
qed

lemma ReadExact_append:
  assumes "concat (sk_segments sk) = b @ t"
  obtains sk' where "ReadExact sk (length b) = (Some b, sk')" "concat (sk_segments sk') = t"
    "sk_writes sk' = sk_writes sk" "sk_written sk' = sk_written sk"
proof -
  obtain segs where "read_loop (length b) [] (sk_segments sk) = (Some b, segs)" "concat segs = t"
    using read_loop_exact [of "[]" "length b" "sk_segments sk" b t] assms by auto
  then show thesis by (intro that [of "sk\<lparr>sk_segments := segs\<rparr>"]) (simp_all add: ReadExact_def)
qed

lemma byte_of_char_0: "byte_of_char c = 0 \<Longrightarrow> c = CHR 0x00"
proof -
  assume "byte_of_char c = 0"
  then have "c = char_of_byte 0" by (metis char_of_byte_of_char)
  then show ?thesis by (simp add: char_of_byte_def char_of_def)
qed

lemma takeWhile_padded: "0 \<notin> set c \<Longrightarrow> takeWhile (\<lambda>b. b \<noteq> 0) (c @ replicate n (0 :: byte)) = c"
  by (induction c) (auto simp: takeWhile_eq_Nil_iff)

lemma EncodeMessage_parts:
  assumes "length cmd \<le> 12"
  obtains hdr where "EncodeMessage hw cmd body = hdr @ body" "length hdr = 24" "take 4 hdr = kSignetMagic"
    "take 12 (drop 4 hdr) = map byte_of_char cmd @ replicate (12 - length cmd) 0"
    "load_le hdr 16 4 = length body mod 2 ^ 32" "drop 20 hdr = take 4 (DoubleSha256 hw body)"
proof -
  define pre where "pre = kSignetMagic @ map byte_of_char cmd @ replicate (12 - length cmd) (0 :: byte)"
  define len where "len = AppendLittleEndian [] (word_of_nat (length body)) 4"
  let ?hdr = "pre @ len @ take 4 (DoubleSha256 hw body)"
  have l: "length pre = 16" "length len = 4"
    using assms by (simp_all add: pre_def len_def kSignetMagic_def AppendLittleEndian_simp(2))
  have "EncodeMessage hw cmd body = ?hdr @ body"
    by (simp add: EncodeMessage_def Let_def pre_def len_def AppendLittleEndian_def)
  moreover have "load_le ?hdr 16 4 = length body mod 2 ^ 32"
    using load_le_bytes [of pre "word_of_nat (length body)" 4 "take 4 (DoubleSha256 hw body)"] l
    by (simp add: len_def unat_of_nat mod_mod_cancel)
  moreover have "take 4 ?hdr = kSignetMagic" "take 12 (drop 4 ?hdr) = map byte_of_char cmd @ replicate (12 - length cmd) 0"
    using assms by (simp_all add: pre_def kSignetMagic_def)
  ultimately show thesis using l assms by (intro that [of ?hdr]) simp_all
qed

lemma ReadMessage_frame:
  assumes "length cmd \<le> 12" "CHR 0x00 \<notin> set cmd" "length body < 2 ^ 32"
    and "concat (sk_segments sk) = EncodeMessage hw cmd body @ t"
  obtains sk' where "ReadMessage hw sk = (Some \<lparr>dm_command = cmd, dm_payload = body\<rparr>, sk')" "concat (sk_segments sk') = t"
    "sk_writes sk' = sk_writes sk" "sk_written sk' = sk_written sk"
proof -
  obtain hdr where h: "EncodeMessage hw cmd body = hdr @ body" "length hdr = 24" "take 4 hdr = kSignetMagic"
    "take 12 (drop 4 hdr) = map byte_of_char cmd @ replicate (12 - length cmd) 0"
    "load_le hdr 16 4 = length body mod 2 ^ 32" "drop 20 hdr = take 4 (DoubleSha256 hw body)"
    by (rule EncodeMessage_parts [OF assms(1)])
  obtain sk1 where 1: "ReadExact sk (length hdr) = (Some hdr, sk1)" "concat (sk_segments sk1) = body @ t"
    "sk_writes sk1 = sk_writes sk" "sk_written sk1 = sk_written sk"
    by (rule ReadExact_append [of sk hdr "body @ t"]) (simp_all add: assms(4) h(1))
  obtain sk2 where 2: "ReadExact sk1 (length body) = (Some body, sk2)" "concat (sk_segments sk2) = t"
    "sk_writes sk2 = sk_writes sk1" "sk_written sk2 = sk_written sk1"
    by (rule ReadExact_append [OF 1(2)])
  have "0 \<notin> set (map byte_of_char cmd)"
    using assms(2) byte_of_char_0 by (metis (no_types, lifting) imageE set_map)
  then have c: "map char_of_byte (takeWhile (\<lambda>b. b \<noteq> 0) (map byte_of_char cmd @ replicate (12 - length cmd) 0)) = cmd"
    by (subst takeWhile_padded) simp_all
  have "ReadMessage hw sk = (Some \<lparr>dm_command = cmd, dm_payload = body\<rparr>, sk2)"
    using 1(1) 2(1) assms(3) h(2-6) c by (simp add: ReadMessage_def)
  then show thesis by (rule that) (simp_all add: 1 2)
qed

section \<open>Compact sizes\<close>

lemma ReadCompact_fold:
  "fold (\<lambda>i v. v OR push_bit (i * 8) (ucast ((pre @ AppendLittleEndian [] v0 w @ post) ! (length pre + i)))) [0..<w] 0
   = (take_bit (8 * w) v0 :: u64)"
proof -
  have "fold (\<lambda>i v. v OR push_bit (i * 8) (ucast ((pre @ AppendLittleEndian [] v0 w @ post) ! (length pre + i)))) [0..<k] 0
      = (take_bit (8 * k) v0 :: u64)" if "k \<le> w" for k
    using that
  proof (induction k)
    case (Suc k)
    have n: "(pre @ AppendLittleEndian [] v0 w @ post) ! (length pre + k) = ucast (drop_bit (k * 8) v0)"
      using Suc.prems by (simp add: nth_append AppendLittleEndian_def ucast_low_byte)
    have "take_bit (8 * k) v0 OR push_bit (k * 8) (ucast (ucast (drop_bit (k * 8) v0) :: byte)) = take_bit (8 * Suc k) v0"
      by (rule bit_word_eqI) (auto simp: bit_simps)
    then show ?case using Suc n by simp
  qed simp
  then show ?thesis by simp
qed

lemma size_add_small: "a + b < 2 ^ 64 \<Longrightarrow> size_add a b = a + b"
  by (simp add: size_add_def)

lemma CompactSize_length: "length (AppendCompactSize out v)
   = length out + (if v < 253 then 1 else if v \<le> 0xFFFF then 3 else if v \<le> 0xFFFFFFFF then 5 else 9)"
  by (simp add: AppendCompactSize_def AppendLittleEndian_simp(2))

lemma ReadCompact_wide:
  assumes "payload = (out @ [first]) @ AppendLittleEndian [] v w @ post" "length payload < 2 ^ 64"
    and "(first, w) \<in> {(0xFD, 2), (0xFE, 4), (0xFF, 8)}" "unat v < 2 ^ (8 * w)"
  shows "ReadCompactSize payload (length out) = Some (v, length out + 1 + w)"
proof -
  have "take_bit (8 * w) v = v" using assms(4) by (simp add: word_unat_eq_iff unsigned_take_bit_eq take_bit_nat_eq_self)
  then have f: "fold (\<lambda>i v. v OR push_bit (i * 8) (ucast (payload ! (length out + 1 + i)))) [0..<w] 0 = v"
    using ReadCompact_fold [of "out @ [first]" v w post] assms(1) by simp
  have l: "length payload = length out + 1 + w + length post" "payload ! length out = first"
    using assms(1) by (simp_all add: AppendLittleEndian_simp(2))
  have "size_add (length out) 1 = length out + 1" "size_add (length out + 1) w = length out + 1 + w"
    using l(1) assms(2) by (simp_all add: size_add_small)
  then show ?thesis using l f assms(3) by (auto simp: ReadCompactSize_def Let_def)
qed

lemma CompactSize_roundtrip:
  assumes "length (AppendCompactSize out v @ post) < 2 ^ 64"
  shows "ReadCompactSize (AppendCompactSize out v @ post) (length out) = Some (v, length (AppendCompactSize out v))"
proof (cases "v < 253")
  case True
  have "length out + 1 < 2 ^ 64" using assms True by (simp add: CompactSize_length)
  moreover have "(ucast v :: byte) < 253" "ucast (ucast v :: byte) = v"
    using True by (simp_all add: word_less_nat_alt unsigned_ucast_eq unsigned_take_bit_eq take_bit_nat_eq_self word_unat_eq_iff)
  ultimately show ?thesis using True
    by (simp add: AppendCompactSize_def ReadCompactSize_def size_add_small nth_append)
next
  case False
  have *: "unat v < 2 ^ 64" using unsigned_less [of v] by simp
  consider "v \<le> 0xFFFF" | "\<not> v \<le> 0xFFFF" "v \<le> 0xFFFFFFFF" | "\<not> v \<le> 0xFFFF" "\<not> v \<le> 0xFFFFFFFF" by blast
  then show ?thesis
  proof cases
    case 1
    then show ?thesis using False assms ReadCompact_wide [OF refl, of out "0xFD" v 2 post]
      by (simp add: AppendCompactSize_def AppendLittleEndian_simp(2) word_le_nat_alt)
         (simp add: AppendLittleEndian_def)
  next
    case 2
    then show ?thesis using False assms ReadCompact_wide [OF refl, of out "0xFE" v 4 post]
      by (simp add: AppendCompactSize_def AppendLittleEndian_simp(2) word_le_nat_alt)
         (simp add: AppendLittleEndian_def)
  next
    case 3
    then show ?thesis using False assms * ReadCompact_wide [OF refl, of out "0xFF" v 8 post]
      by (simp add: AppendCompactSize_def AppendLittleEndian_simp(2) word_le_nat_alt)
         (simp add: AppendLittleEndian_def)
  qed
qed

section \<open>Hexadecimal text\<close>

lemma btc_digit:
  assumes "h < 16"
  shows "hex_value (btc_digits ! h) = Some h" "\<not> is_space (btc_digits ! h)"
    "btc_digits ! h \<notin> {CHR ''-'', CHR ''+'', CHR ''x'', CHR ''X''}"
proof -
  have "list_all (\<lambda>h. hex_value (btc_digits ! h) = Some h \<and> \<not> is_space (btc_digits ! h)
     \<and> btc_digits ! h \<notin> {CHR ''-'', CHR ''+'', CHR ''x'', CHR ''X''}) [0..<16]"
    by code_simp
  then show "hex_value (btc_digits ! h) = Some h" "\<not> is_space (btc_digits ! h)"
    "btc_digits ! h \<notin> {CHR ''-'', CHR ''+'', CHR ''x'', CHR ''X''}"
    using assms by (auto simp: list_all_iff)
qed

lemma stream_hex_digits:
  "a < 16 \<Longrightarrow> b < 16 \<Longrightarrow> stream_hex [btc_digits ! a, btc_digits ! b] = Some (word_of_nat (a * 16 + b))"
  using btc_digit [of a] btc_digit [of b] by (simp add: stream_hex_def Let_def hex_digits_value_def)

lemma hex_byte:
  "stream_hex [btc_digits ! unat (drop_bit 4 b AND 0x0F), btc_digits ! unat (b AND 0x0F)] = Some (ucast (b :: byte))"
proof -
  have m: "(0x0F :: byte) = mask 4" by (simp add: mask_eq_exp_minus_1)
  have t: "x AND 0x0F = take_bit 4 x" for x :: byte unfolding m take_bit_eq_mask ..
  have lo: "unat (b AND 0x0F) = unat b mod 16"
    unfolding t unsigned_take_bit_eq by (simp add: take_bit_eq_mod)
  have hi: "unat (drop_bit 4 b AND 0x0F) = unat b div 16"
    unfolding t unsigned_take_bit_eq unsigned_drop_bit_eq using unsigned_less [of b] by (simp add: take_bit_eq_mod drop_bit_eq_div)
  have "stream_hex [btc_digits ! (unat b div 16), btc_digits ! (unat b mod 16)] = Some (word_of_nat (unat b div 16 * 16 + unat b mod 16))"
    by (rule stream_hex_digits) simp_all
  then show ?thesis unfolding lo hi by simp
qed

lemma ucast_byte_u32: "ucast (ucast (a :: byte) :: u32) = a"
  by (rule bit_word_eqI) (auto simp: bit_simps)

lemma hex_loop_ToHex: "hex_loop (btc_ToHex b) = Some b"
  by (induction b) (simp_all add: btc_ToHex_def hex_byte ucast_byte_u32)

lemma length_ToHex [simp]: "length (btc_ToHex b) = 2 * length b"
  by (induction b) (simp_all add: btc_ToHex_def)

lemma HexToBytes_ToHex: "HexToBytes (btc_ToHex b) = Some b"
  by (simp add: HexToBytes_def hex_loop_ToHex)

lemma HashBytesFromHex_ToHex: "length b = 32 \<Longrightarrow> HashBytesFromHex (btc_ToHex b) = Some b"
  by (simp add: HashBytesFromHex_def hex_loop_ToHex)

lemma WireHash_roundtrip: "length b = 32 \<Longrightarrow> WireHashFromHex (WireHashToHex b) = Some b"
  by (simp add: WireHashFromHex_def WireHashToHex_def hex_loop_ToHex)

lemma length_hex_loop: "hex_loop s = Some b \<Longrightarrow> length b = length s div 2"
  by (induction s arbitrary: b rule: hex_loop.induct) (auto split: option.splits)

section \<open>The Merkle tree\<close>

text \<open>The hash of node \<open>i\<close> at height \<open>h\<close> over the leaves, as the protocol defines the tree: a node without a right sibling is paired
  with itself.\<close>

definition tree_width :: "nat \<Rightarrow> nat \<Rightarrow> nat" where
  "tree_width n h = (n + 2 ^ h - 1) div 2 ^ h"

fun tree_hash :: "ShaNi option \<Rightarrow> byte list list \<Rightarrow> nat \<Rightarrow> nat \<Rightarrow> byte list" where
  "tree_hash hw leaves 0 i = leaves ! i"
| "tree_hash hw leaves (Suc h) i =
     DoubleSha256 hw (tree_hash hw leaves h (2 * i)
       @ tree_hash hw leaves h (if 2 * i + 1 < tree_width (length leaves) h then 2 * i + 1 else 2 * i))"

lemma tree_width_Suc: "tree_width n (Suc h) = (tree_width n h + 1) div 2"
proof -
  have "(n + 2 ^ Suc h - 1) div 2 ^ Suc h = (n + 2 * 2 ^ h - 1) div 2 ^ h div 2"
    by (simp add: div_mult2_eq [symmetric] mult.commute)
  also have "n + 2 * 2 ^ h - 1 = (n + 2 ^ h - 1) + 2 ^ h" by simp
  also have "((n + 2 ^ h - 1) + 2 ^ h) div 2 ^ h = (n + 2 ^ h - 1) div 2 ^ h + 1" by (rule div_add_self2) simp
  finally show ?thesis by (simp add: tree_width_def)
qed

lemma tree_width_pos: "0 < n \<Longrightarrow> 0 < tree_width n h"
  by (induction h) (simp_all add: tree_width_Suc, simp add: tree_width_def)

lemma nth_hash_pairs: "i < length layer div 2 \<Longrightarrow> hash_pairs hw layer ! i = DoubleSha256 hw (layer ! (2 * i) @ layer ! (2 * i + 1))"
  by (induction hw layer arbitrary: i rule: hash_pairs.induct) (auto simp: nth_Cons split: nat.splits)

abbreviation tree_layer :: "ShaNi option \<Rightarrow> byte list list \<Rightarrow> nat \<Rightarrow> byte list list" where
  "tree_layer hw leaves h \<equiv> map (tree_hash hw leaves h) [0..<tree_width (length leaves) h]"

lemma length_even_layer: "length (even_layer layer) = 2 * ((length layer + 1) div 2)"
  by (simp add: even_layer_def) presburger

lemma nth_even_layer: "i < 2 * ((length layer + 1) div 2) \<Longrightarrow> even_layer layer ! i = layer ! (if i < length layer then i else length layer - 1)"
  by (cases "layer = []") (simp_all add: even_layer_def nth_append last_conv_nth split: if_splits, presburger+)

lemma merkle_layer: "hash_pairs hw (even_layer (tree_layer hw leaves h)) = tree_layer hw leaves (Suc h)"
proof (rule nth_equalityI)
  fix i assume "i < length (hash_pairs hw (even_layer (tree_layer hw leaves h)))"
  then have i: "i < (tree_width (length leaves) h + 1) div 2" by (simp add: length_hash_pairs length_even_layer)
  let ?w = "tree_width (length leaves) h"
  have "even_layer (tree_layer hw leaves h) ! (2 * i) = tree_hash hw leaves h (2 * i)"
    using i by (subst nth_even_layer) auto
  moreover have "even_layer (tree_layer hw leaves h) ! (2 * i + 1) = tree_hash hw leaves h (if 2 * i + 1 < ?w then 2 * i + 1 else 2 * i)"
  proof (cases "2 * i + 1 < ?w")
    case False
    then have "?w = 2 * i + 1" using i by presburger
    then show ?thesis by (subst nth_even_layer) (auto simp: nth_append)
  qed (subst nth_even_layer; auto)
  ultimately show "hash_pairs hw (even_layer (tree_layer hw leaves h)) ! i = tree_layer hw leaves (Suc h) ! i"
    using i by (simp add: nth_hash_pairs length_even_layer tree_width_Suc)
qed (simp add: length_hash_pairs length_even_layer tree_width_Suc)

lemma merkle_loop_tree:
  assumes "leaves \<noteq> []"
  shows "\<exists>k\<ge>h. tree_width (length leaves) k = 1 \<and> (\<forall>j. h \<le> j \<and> j < k \<longrightarrow> 1 < tree_width (length leaves) j)
    \<and> merkle_loop hw (tree_layer hw leaves h) = tree_layer hw leaves k"
proof (induction "tree_width (length leaves) h" arbitrary: h rule: less_induct)
  case less
  show ?case
  proof (cases "1 < tree_width (length leaves) h")
    case True
    then have "tree_width (length leaves) (Suc h) < tree_width (length leaves) h" by (simp add: tree_width_Suc)
    from less [OF this] obtain k where k: "Suc h \<le> k" "tree_width (length leaves) k = 1"
      "\<forall>j. Suc h \<le> j \<and> j < k \<longrightarrow> 1 < tree_width (length leaves) j"
      "merkle_loop hw (tree_layer hw leaves (Suc h)) = tree_layer hw leaves k" by blast
    have "merkle_loop hw (tree_layer hw leaves h) = merkle_loop hw (hash_pairs hw (even_layer (tree_layer hw leaves h)))"
      using True by (subst merkle_loop.simps) simp
    then have "merkle_loop hw (tree_layer hw leaves h) = tree_layer hw leaves k" using k(4) by (simp only: merkle_layer)
    moreover have "\<forall>j. h \<le> j \<and> j < k \<longrightarrow> 1 < tree_width (length leaves) j"
      using k(3) True by (metis Suc_leI le_neq_implies_less)
    ultimately show ?thesis using k(1,2) by (intro exI [of _ k]) simp
  next
    case False
    then have "tree_width (length leaves) h = 1" using tree_width_pos [of "length leaves" h] assms by simp
    then show ?thesis by (intro exI [of _ h]) (simp add: merkle_loop.simps)
  qed
qed

lemma tree_layer_0: "tree_layer hw leaves 0 = leaves"
proof -
  have "tree_hash hw leaves 0 = (!) leaves" by (rule ext) simp
  then show ?thesis by (simp add: tree_width_def map_nth)
qed

lemma merkle_root_tree:
  assumes "decode_layer txids = Some leaves" "txids \<noteq> []"
  shows "\<exists>h. tree_width (length leaves) h = 1 \<and> (\<forall>j<h. 1 < tree_width (length leaves) j)
    \<and> ComputeMerkleRootHex hw txids = Some (WireHashToHex (tree_hash hw leaves h 0))"
proof -
  have "leaves \<noteq> []" using assms by (cases txids) (auto split: option.splits if_splits)
  then obtain h where h: "tree_width (length leaves) h = 1" "\<forall>j. 0 \<le> j \<and> j < h \<longrightarrow> 1 < tree_width (length leaves) j"
    "merkle_loop hw (tree_layer hw leaves 0) = tree_layer hw leaves h" using merkle_loop_tree by blast
  from h(3) have "merkle_loop hw leaves = [tree_hash hw leaves h 0]" unfolding tree_layer_0 using h(1) by simp
  then show ?thesis using assms h(1,2) by (intro exI [of _ h]) (simp add: ComputeMerkleRootHex_def WireHashToHex_def)
qed

lemma decode_layer_append:
  "decode_layer (xs @ ys) = (case decode_layer xs of None \<Rightarrow> None
     | Some a \<Rightarrow> (case decode_layer ys of None \<Rightarrow> None | Some b \<Rightarrow> Some (a @ b)))"
  by (induction xs) (auto split: option.splits)

lemma decode_layer_length: "decode_layer xs = Some ls \<Longrightarrow> length ls = length xs"
  by (induction xs arbitrary: ls) (auto split: option.splits if_splits)

lemma decode_layer_last:
  assumes "decode_layer xs = Some ls" "xs \<noteq> []"
  shows "decode_layer [last xs] = Some [last ls]"
proof -
  have "decode_layer (butlast xs @ [last xs]) = Some ls" using assms by simp
  then obtain a b where ab: "decode_layer [last xs] = Some b" "ls = a @ b"
    unfolding decode_layer_append by (auto split: option.splits simp del: decode_layer.simps)
  then show ?thesis using decode_layer_length [OF ab(1)] by (cases b) simp_all
qed

lemma merkle_duplicate:
  assumes "length txids mod 2 = 1" "1 < length txids"
  shows "ComputeMerkleRootHex hw (txids @ [last txids]) = ComputeMerkleRootHex hw txids"
proof (cases "decode_layer txids")
  case (Some ls)
  have l: "decode_layer [last txids] = Some [last ls]" "length ls = length txids"
    using decode_layer_last [OF Some] decode_layer_length [OF Some] assms(2) by fastforce+
  have txids: "txids \<noteq> []" using assms(2) by auto
  have "Suc (length ls) mod 2 = 0" using assms(1) l(2) by presburger
  then have e: "even_layer (ls @ [last ls]) = ls @ [last ls]" "even_layer ls = ls @ [last ls]"
    using assms(1) l(2) by (simp_all add: even_layer_def)
  have "merkle_loop hw (ls @ [last ls]) = merkle_loop hw (hash_pairs hw (ls @ [last ls]))"
    "merkle_loop hw ls = merkle_loop hw (hash_pairs hw (ls @ [last ls]))"
    using assms(2) l(2) txids merkle_loop.simps [of hw "ls @ [last ls]"] merkle_loop.simps [of hw ls] by (simp_all add: e)
  then show ?thesis using l(1) Some assms txids by (simp add: ComputeMerkleRootHex_def decode_layer_append del: decode_layer.simps)
next
  case None
  then show ?thesis using assms by (simp add: ComputeMerkleRootHex_def decode_layer_append del: decode_layer.simps)
qed

section \<open>Targets as numbers\<close>

lemma be_value_zeros [simp]: "be_value (replicate n 0) = 0"
  by (induction n) (simp_all add: be_value_Cons)

lemma digits_less:
  assumes "x < m" "y < (m :: nat)"
  shows "a * m + x < b * m + y \<longleftrightarrow> a < b \<or> a = b \<and> x < y"
proof (cases a b rule: linorder_cases)
  case less
  then have "(a + 1) * m \<le> b * m" by (intro mult_right_mono) simp_all
  then show ?thesis using assms less by simp
next
  case greater
  then have "(b + 1) * m \<le> a * m" by (intro mult_right_mono) simp_all
  then show ?thesis using assms greater by simp
qed simp

lemma byte_list_less: "length a = length b \<Longrightarrow> a < b \<longleftrightarrow> be_value a < be_value b"
proof (induction a b rule: list_induct2)
  case (Cons x a y b)
  have "unat x * 256 ^ length b + be_value a < unat y * 256 ^ length b + be_value b \<longleftrightarrow> unat x < unat y \<or> unat x = unat y \<and> be_value a < be_value b"
    using digits_less [of "be_value a" "256 ^ length b" "be_value b" "unat x" "unat y"] be_value_less [of a] be_value_less [of b] Cons(1) by simp
  then show ?case using Cons by (simp add: be_value_Cons word_less_nat_alt word_unat_eq_iff)
qed simp

text \<open>The number a compact form stands for.\<close>

definition compact_value :: "u32 \<Rightarrow> nat" where
  "compact_value bits = (let e = unat (drop_bit 24 bits); m = unat (take_bit 23 bits) in
     if e \<le> 3 then m div 256 ^ (3 - e) else m * 256 ^ (e - 3))"

lemma three_bytes: "be_value [ucast (drop_bit 16 m AND 0xFF), ucast (drop_bit 8 m AND 0xFF), ucast (m AND 0xFF)]
    = unat (m :: u32) mod 2 ^ 24"
proof -
  have "be_value [ucast (drop_bit 16 m AND 0xFF), ucast (drop_bit 8 m AND 0xFF), ucast (m AND 0xFF)]
     = (unat m div 2 ^ 16) mod 256 * 65536 + (unat m div 2 ^ 8) mod 256 * 256 + unat m mod 256"
    by (simp add: be_value_def ucast_low_byte unsigned_ucast_eq take_bit_eq_mod unat_div_distrib drop_bit_eq_div)
  moreover have "n mod 2 ^ 24 = (n div 2 ^ 16) mod 256 * 65536 + (n div 2 ^ 8) mod 256 * 256 + n mod 256" for n :: nat
    using mod_mult2_eq [of n 256 65536] mod_mult2_eq [of "n div 256" 256 256] by (simp add: div_mult2_eq [symmetric] algebra_simps)
  ultimately show ?thesis by simp
qed

lemma bit_u32: "bit (bits :: u32) (24 + n) \<Longrightarrow> n < 8"
  using bit_imp_le_length [of bits "24 + n"] by simp

lemma compact_mantissa: "bits AND 0x007FFFFF = take_bit 23 (bits :: u32)" "drop_bit 24 bits AND 0xFF = drop_bit 24 (bits :: u32)"
proof -
  have "(0x007FFFFF :: u32) = mask 23" "(0xFF :: u32) = mask 8" by (simp_all add: mask_eq_exp_minus_1)
  then show "bits AND 0x007FFFFF = take_bit 23 bits" "drop_bit 24 bits AND 0xFF = drop_bit 24 bits"
    by (simp_all only: take_bit_eq_mask [symmetric]) (auto intro!: bit_word_eqI simp: bit_simps dest: bit_u32)
qed

lemma TargetFromCompact_value:
  assumes "TargetFromCompact bits limit = Some target"
  shows "length target = 32 \<and> be_value target = compact_value bits
    \<and> (\<exists>l. HashBytesFromHex limit = Some l \<and> be_value target \<le> be_value l)"
proof -
  let ?e = "unat (drop_bit 24 bits)" let ?m = "take_bit 23 bits"
  define put where "put m k = replicate k (0 :: byte) @ [ucast (drop_bit 16 m AND 0xFF), ucast (drop_bit 8 m AND 0xFF), ucast (m AND 0xFF)]
    @ replicate (29 - k) 0" for m :: u32 and k
  have upd: "(replicate 32 (0 :: byte))[k := a, Suc k := b, Suc (Suc k) := c] = replicate k 0 @ [a, b, c] @ replicate (29 - k) 0"
    if "k \<le> 29" for k a b c
  proof -
    have "replicate 32 (0 :: byte) = replicate k 0 @ 0 # 0 # 0 # replicate (29 - k) 0"
      using that by (simp add: replicate_add [symmetric] flip: replicate_Suc)
    then show ?thesis by (simp add: list_update_append)
  qed
  have be: "be_value (put m k) = unat m mod 2 ^ 24 * 256 ^ (29 - k)" for m k
    
  proof -
    have "be_value (put m k) = be_value [ucast (drop_bit 16 m AND 0xFF), ucast (drop_bit 8 m AND 0xFF), ucast (m AND 0xFF)] * 256 ^ (29 - k)"
      unfolding put_def be_value_append by simp
    then show ?thesis by (simp only: three_bytes)
  qed
  have m: "unat ?m < 2 ^ 23" unfolding unsigned_take_bit_eq by (rule take_bit_nat_less_exp)
  have up: "(replicate 32 (0 :: byte))[29 - k := a, Suc (29 - k) := b, Suc (Suc (29 - k)) := c] = replicate (29 - k) 0 @ [a, b, c] @ replicate k 0"
    if "k \<le> 29" for k a b c
    using upd [of "29 - k" a b c] that by simp
  have ge: "k \<le> 29 \<Longrightarrow> 32 - k - 2 = Suc (29 - k) \<and> 32 - k - 1 = Suc (Suc (29 - k)) \<and> 32 - k - 3 = 29 - k" for k :: nat by arith
  have "\<exists>l. HashBytesFromHex limit = Some l \<and> \<not> target > l \<and>
    target = (if ?e \<le> 3 then put (drop_bit (8 * (3 - ?e)) ?m) 29 else put ?m (29 - (?e - 3))) \<and> (3 < ?e \<longrightarrow> ?e - 3 \<le> 29)"
  proof (cases "?e \<le> 3")
    case True
    have n: "(29 :: nat) = 29 - 0" "(30 :: nat) = Suc (29 - 0)" "(31 :: nat) = Suc (Suc (29 - 0))" by simp_all
    show ?thesis using assms True up [of 0]
      unfolding TargetFromCompact_def compact_mantissa Let_def n(2,3)
      by (simp add: put_def split: if_splits option.splits)
  next
    case False
    then have o: "?e - 3 \<le> 29" using assms by (auto simp: TargetFromCompact_def compact_mantissa Let_def split: if_splits)
    then have "\<not> 29 < ?e - 3" by simp
    then show ?thesis using assms False o
      unfolding TargetFromCompact_def compact_mantissa Let_def conjunct1 [OF ge [OF o]] conjunct1 [OF conjunct2 [OF ge [OF o]]]
        conjunct2 [OF conjunct2 [OF ge [OF o]]] up [OF o]
      by (simp add: put_def split: if_splits option.splits)
  qed
  then obtain l where l: "HashBytesFromHex limit = Some l" "\<not> target > l"
    and t: "target = (if ?e \<le> 3 then put (drop_bit (8 * (3 - ?e)) ?m) 29 else put ?m (29 - (?e - 3)))" "3 < ?e \<Longrightarrow> ?e - 3 \<le> 29" by blast
  have len: "length target = 32" using t by (simp add: put_def)
  have v: "be_value target = compact_value bits"
  proof (cases "?e \<le> 3")
    case True
    have "(256 :: nat) ^ (3 - ?e) = 2 ^ (8 * (3 - ?e))" by (simp add: power_mult)
    moreover have "unat ?m div 2 ^ (8 * (3 - ?e)) mod 2 ^ 24 = unat ?m div 2 ^ (8 * (3 - ?e))"
    proof (rule mod_less)
      have "unat ?m div 2 ^ (8 * (3 - ?e)) \<le> unat ?m" by (rule div_le_dividend)
      also note m
      finally show "unat ?m div 2 ^ (8 * (3 - ?e)) < 2 ^ 24" by simp
    qed
    moreover have "be_value target = unat (drop_bit (8 * (3 - ?e)) ?m) mod 2 ^ 24 * 256 ^ (29 - 29)"
      by (simp only: t(1) True if_True be)
    ultimately show ?thesis
      unfolding compact_value_def Let_def unat_drop_bit_eq drop_bit_eq_div [where 'a = nat] if_P [OF True [unfolded unat_drop_bit_eq drop_bit_eq_div [where 'a = nat]]] by simp
  next
    case False
    then show ?thesis using m t by (simp add: be compact_value_def Let_def)
  qed
  have "length l = 32" using l(1) by (auto simp: HashBytesFromHex_def length_hex_loop split: if_splits)
  then have "be_value target \<le> be_value l" using l(2) len byte_list_less [of l target] by simp
  then show ?thesis using len v l(1) by blast
qed

definition pow_limit_bytes :: "byte list" where
  "pow_limit_bytes = [0, 0, 0x03, 0x77, 0xAE, 0, 0, 0, 0, 0, 0, 0, 0, 0, 0, 0, 0, 0, 0, 0, 0, 0, 0, 0, 0, 0, 0, 0, 0, 0, 0, 0]"

lemma pow_limit_parsed: "HashBytesFromHex kSignetPowLimitHex = Some pow_limit_bytes"
proof -
  have "kSignetPowLimitHex = btc_ToHex pow_limit_bytes"
    by (simp add: kSignetPowLimitHex_def btc_ToHex_def btc_digits_def pow_limit_bytes_def)
  moreover have "length pow_limit_bytes = 32" by (simp add: pow_limit_bytes_def)
  ultimately show ?thesis by (metis HashBytesFromHex_ToHex)
qed

section \<open>Properties\<close>

text \<open>A message that was framed by \<open>EncodeMessage\<close> is read back by \<open>ReadMessage\<close> with its command and payload, however TCP cuts
  the stream into segments, and what follows the frame stays in the socket for the next message.\<close>

theorem message_roundtrip:
  assumes "length cmd \<le> 12" "CHR 0x00 \<notin> set cmd" "length body < 2 ^ 32"
    and "concat (sk_segments sk) = EncodeMessage hw cmd body @ t"
  shows "\<exists>sk'. ReadMessage hw sk = (Some \<lparr>dm_command = cmd, dm_payload = body\<rparr>, sk') \<and> concat (sk_segments sk') = t"
  by (rule ReadMessage_frame [OF assms]) blast

theorem message_roundtrip_witness:
  "\<exists>sk'. ReadMessage None \<lparr>sk_segments = [take 7 (EncodeMessage None ''ping'' [1]), drop 7 (EncodeMessage None ''ping'' [1]) @ [9], [8]],
      sk_writes = 0, sk_written = []\<rparr> = (Some \<lparr>dm_command = ''ping'', dm_payload = [1]\<rparr>, sk') \<and> concat (sk_segments sk') = [9, 8]"
  by (rule message_roundtrip) simp_all

text \<open>\<open>ReadCompactSize\<close> reads back what \<open>AppendCompactSize\<close> wrote, with the offset just behind it, for every 64-bit value.\<close>

theorem compact_size_roundtrip:
  assumes "length (AppendCompactSize out v @ post) < 2 ^ 64"
  shows "ReadCompactSize (AppendCompactSize out v @ post) (length out) = Some (v, length (AppendCompactSize out v))"
  by (rule CompactSize_roundtrip [OF assms])

theorem compact_size_roundtrip_witness:
  "ReadCompactSize (AppendCompactSize [7] 0x12345 @ [9]) (length [7 :: byte]) = Some (0x12345, length (AppendCompactSize [7] 0x12345))"
  by (rule compact_size_roundtrip) (simp add: AppendCompactSize_def AppendLittleEndian_def)

text \<open>A target derived from compact bits is the 32-byte number \<open>mantissa * 256 ^ (exponent - 3)\<close>, and is at most the limit.\<close>

theorem compact_target_value:
  assumes "TargetFromCompact bits limit = Some target"
  shows "length target = 32 \<and> be_value target = compact_value bits
    \<and> (\<exists>l. HashBytesFromHex limit = Some l \<and> be_value target \<le> be_value l)"
  by (rule TargetFromCompact_value [OF assms])

theorem compact_target_value_witness:
  "\<exists>target. TargetFromCompact 0x1E0377AE kSignetPowLimitHex = Some target \<and> be_value target = compact_value 0x1E0377AE"
proof -
  have "TargetFromCompact 0x1E0377AE kSignetPowLimitHex = Some pow_limit_bytes"
    by (simp add: TargetFromCompact_def Let_def pow_limit_parsed) (simp add: pow_limit_bytes_def numeral_eq_Suc)
  from this compact_target_value [OF this] show ?thesis by blast
qed

text \<open>C20: The Merkle root is the hash of the root of the tree that the protocol defines over the transaction ids: the node at the
  lowest height that has a single node.\<close>

theorem merkle_root_is_tree_hash:
  assumes "decode_layer txids = Some leaves" "txids \<noteq> []"
  shows "\<exists>h. tree_width (length leaves) h = 1 \<and> (\<forall>j<h. 1 < tree_width (length leaves) j)
    \<and> ComputeMerkleRootHex hw txids = Some (WireHashToHex (tree_hash hw leaves h 0))"
  by (rule merkle_root_tree [OF assms])

theorem merkle_root_is_tree_hash_witness:
  "\<exists>h. tree_width 3 h = 1 \<and> ComputeMerkleRootHex None [WireHashToHex (replicate 32 1), WireHashToHex (replicate 32 2), WireHashToHex (replicate 32 3)]
      = Some (WireHashToHex (tree_hash None [replicate 32 1, replicate 32 2, replicate 32 3] h 0))"
proof -
  have "decode_layer [WireHashToHex (replicate 32 1), WireHashToHex (replicate 32 2), WireHashToHex (replicate 32 3)]
      = Some [replicate 32 1, replicate 32 2, replicate 32 3]"
    by (simp add: WireHashToHex_def HexToBytes_ToHex)
  from merkle_root_is_tree_hash [OF this] show ?thesis by (auto simp: numeral_3_eq_3)
qed

text \<open>The root does not determine the transactions: a list of odd length and the same list with its last entry repeated have the
  same root.\<close>

theorem merkle_root_duplicate:
  "length txids mod 2 = 1 \<Longrightarrow> 1 < length txids \<Longrightarrow> ComputeMerkleRootHex hw (txids @ [last txids]) = ComputeMerkleRootHex hw txids"
  by (rule merkle_duplicate)

end
