(* ===== verification/BitcoinBlocks.thy ===== *)
theory BitcoinBlocks
  imports BitcoinWire Primitives
begin

text \<open>
  The parsers of \<open>src/Blocxxi/Bitcoin/adapter.cpp\<close> for \<open>headers\<close> and \<open>block\<close> payloads. Offsets are \<open>size_t\<close>: a script length
  near \<open>2 ^ 64\<close> makes the sum in \<open>read_bytes\<close> wrap and moves the offset backwards; copying a range whose end lies before its
  beginning is undefined in C++, which is the result \<open>Undefined\<close>.
\<close>

section \<open>Headers\<close>

record Header =
  hd_height :: u32
  hd_hash_hex :: string
  hd_previous_hash_hex :: string
  hd_merkle_root_hex :: string
  hd_version :: u32
  hd_timestamp :: u32
  hd_bits :: u32
  hd_nonce :: u32

definition parse_header :: "ShaNi option \<Rightarrow> byte list \<Rightarrow> u32 \<Rightarrow> Header" where
  "parse_header hw hdr height =
     \<lparr>hd_height = height, hd_hash_hex = btc_ToHex (rev (DoubleSha256 hw hdr)),
      hd_previous_hash_hex = WireHashToHex (take 32 (drop 4 hdr)), hd_merkle_root_hex = WireHashToHex (take 32 (drop 36 hdr)),
      hd_version = word_of_nat (load_le hdr 0 4), hd_timestamp = word_of_nat (load_le hdr 68 4),
      hd_bits = word_of_nat (load_le hdr 72 4), hd_nonce = word_of_nat (load_le hdr 76 4)\<rparr>"

text \<open>The loop with \<open>n\<close> more turns to go; the vectors are filled also when a later header is refused.\<close>

fun headers_loop :: "ShaNi option \<Rightarrow> byte list \<Rightarrow> u32 \<Rightarrow> nat \<Rightarrow> nat \<Rightarrow> nat \<Rightarrow> string list \<Rightarrow> Header list
    \<Rightarrow> Status \<times> string list \<times> Header list" where
  "headers_loop hw data locator_height 0 index offset hashes headers = (Success [], hashes, headers)"
| "headers_loop hw data locator_height (Suc n) index offset hashes headers =
     (if size_add offset 80 > length data then (Failure Rejected ''headers payload is truncated'', hashes, headers)
      else
        let hdr = take 80 (drop offset data); offset = size_add offset 80 in
        case ReadCompactSize data offset of
          None \<Rightarrow> (Failure Rejected ''headers payload contains invalid txn count'', hashes, headers)
        | Some (txn_count, offset) \<Rightarrow>
            if txn_count \<noteq> 0 then (Failure Rejected ''headers payload contains invalid txn count'', hashes, headers)
            else
              let header = parse_header hw hdr (locator_height + word_of_nat index + 1) in
              headers_loop hw data locator_height n (index + 1) offset (hashes @ [hd_hash_hex header]) (headers @ [header]))"

definition ParseHeadersPayload :: "ShaNi option \<Rightarrow> byte list \<Rightarrow> u32 \<Rightarrow> string list \<Rightarrow> Header list
    \<Rightarrow> Status \<times> string list \<times> Header list" where
  "ParseHeadersPayload hw data locator_height hashes headers =
     (case ReadCompactSize data 0 of
        None \<Rightarrow> (Failure Rejected ''headers response is empty'', hashes, headers)
      | Some (count, offset) \<Rightarrow>
          if count = 0 then (Failure Rejected ''headers response is empty'', hashes, headers)
          else headers_loop hw data locator_height (unat count) 0 offset hashes headers)"

section \<open>Blocks\<close>

record BlockBody =
  bb_block_hash_hex :: string
  bb_payload :: "byte list"

definition ParseBlockPayload :: "ShaNi option \<Rightarrow> byte list \<Rightarrow> BlockBody option" where
  "ParseBlockPayload hw data =
     (if length data < 80 then None
      else Some \<lparr>bb_block_hash_hex = btc_ToHex (rev (DoubleSha256 hw (take 80 data))), bb_payload = data\<rparr>)"

record BlockMetadata =
  md_block_hash_hex :: string
  md_previous_hash_hex :: string
  md_merkle_root_hex :: string
  md_version :: u32
  md_timestamp :: u32
  md_nonce :: u32
  md_transaction_count :: u64
  md_total_output_value :: u64
  md_merkle_root_matches :: bool
  md_transaction_sizes :: "nat list"
  md_transaction_versions :: "u32 list"
  md_transaction_input_counts :: "u64 list"
  md_transaction_output_counts :: "u64 list"
  md_transaction_output_values :: "u64 list"
  md_transaction_has_witness :: "bool list"
  md_transaction_ids :: "string list"
  md_transaction_witness_ids :: "string list"

datatype 'a parsed = Refused | Undefined | Parsed 'a

definition read_bytes :: "byte list \<Rightarrow> nat \<Rightarrow> nat \<Rightarrow> nat option" where
  "read_bytes data offset n = (if size_add offset n > length data then None else Some (size_add offset n))"

text \<open>A compact size and the bytes it announces.\<close>

definition read_sized :: "byte list \<Rightarrow> nat \<Rightarrow> nat option" where
  "read_sized data offset = (case ReadCompactSize data offset of None \<Rightarrow> None
     | Some (n, offset) \<Rightarrow> read_bytes data offset (unat n))"

fun inputs_loop :: "byte list \<Rightarrow> nat \<Rightarrow> nat \<Rightarrow> nat option" where
  "inputs_loop data 0 offset = Some offset"
| "inputs_loop data (Suc n) offset =
     (case read_bytes data offset 36 of None \<Rightarrow> None
      | Some offset \<Rightarrow> (case read_sized data offset of None \<Rightarrow> None
      | Some offset \<Rightarrow> (case read_bytes data offset 4 of None \<Rightarrow> None
      | Some offset \<Rightarrow> inputs_loop data n offset)))"

fun outputs_loop :: "byte list \<Rightarrow> nat \<Rightarrow> nat \<Rightarrow> u64 \<Rightarrow> (nat \<times> u64) option" where
  "outputs_loop data 0 offset acc = Some (offset, acc)"
| "outputs_loop data (Suc n) offset acc =
     (if size_add offset 8 > length data then None
      else
        let acc = acc + word_of_nat (load_le data offset 8); offset = size_add offset 8 in
        case read_sized data offset of None \<Rightarrow> None
        | Some offset \<Rightarrow> outputs_loop data n offset acc)"

fun stack_loop :: "byte list \<Rightarrow> nat \<Rightarrow> nat \<Rightarrow> nat option" where
  "stack_loop data 0 offset = Some offset"
| "stack_loop data (Suc n) offset =
     (case read_sized data offset of None \<Rightarrow> None | Some offset \<Rightarrow> stack_loop data n offset)"

fun witness_loop :: "byte list \<Rightarrow> nat \<Rightarrow> nat \<Rightarrow> nat option" where
  "witness_loop data 0 offset = Some offset"
| "witness_loop data (Suc n) offset =
     (case ReadCompactSize data offset of None \<Rightarrow> None
      | Some (stack_items, offset) \<Rightarrow>
          (case stack_loop data (unat stack_items) offset of None \<Rightarrow> None
           | Some offset \<Rightarrow> witness_loop data n offset))"

text \<open>What the turn for one transaction has read: its fields and the offsets between which they lie.\<close>

record TxParse =
  tp_version :: u32
  tp_version_end :: nat
  tp_has_witness :: bool
  tp_input_count :: u64
  tp_vin_start :: nat
  tp_vin_end :: nat
  tp_output_count :: u64
  tp_vout_start :: nat
  tp_vout_end :: nat
  tp_output_total :: u64
  tp_end :: nat

definition parse_transaction :: "byte list \<Rightarrow> nat \<Rightarrow> TxParse option" where
  "parse_transaction data offset =
     (if size_add offset 4 > length data then None
      else
        let version = word_of_nat (load_le data offset 4); offset = size_add offset 4; version_end = offset;
            has_witness = (size_add offset 2 \<le> length data \<and> data ! offset = 0 \<and> data ! (offset + 1) \<noteq> 0);
            offset = (if has_witness then size_add offset 2 else offset);
            vin_start = offset in
        case ReadCompactSize data offset of None \<Rightarrow> None
        | Some (input_count, offset) \<Rightarrow>
        (case inputs_loop data (unat input_count) offset of None \<Rightarrow> None
        | Some vin_end \<Rightarrow>
        let vout_start = vin_end in
        (case ReadCompactSize data vin_end of None \<Rightarrow> None
        | Some (output_count, offset) \<Rightarrow>
        (case outputs_loop data (unat output_count) offset 0 of None \<Rightarrow> None
        | Some (vout_end, output_total) \<Rightarrow>
        (case (if has_witness then witness_loop data (unat input_count) vout_end else Some vout_end) of None \<Rightarrow> None
        | Some offset \<Rightarrow>
        (case read_bytes data offset 4 of None \<Rightarrow> None
        | Some transaction_end \<Rightarrow>
            Some \<lparr>tp_version = version, tp_version_end = version_end, tp_has_witness = has_witness, tp_input_count = input_count,
              tp_vin_start = vin_start, tp_vin_end = vin_end, tp_output_count = output_count, tp_vout_start = vout_start,
              tp_vout_end = vout_end, tp_output_total = output_total, tp_end = transaction_end\<rparr>))))))"

text \<open>\<open>append_range\<close>: \<open>None\<close> stands for a range that is not one.\<close>

definition append_range :: "byte list \<Rightarrow> byte list \<Rightarrow> nat \<Rightarrow> nat \<Rightarrow> byte list option" where
  "append_range data out i j = (if i \<le> j then Some (out @ take (j - i) (drop i data)) else None)"

definition txid_payload :: "byte list \<Rightarrow> nat \<Rightarrow> TxParse \<Rightarrow> byte list option" where
  "txid_payload data start t =
     (case append_range data [] start (tp_version_end t) of None \<Rightarrow> None
      | Some out \<Rightarrow> (case append_range data out (tp_vin_start t) (tp_vin_end t) of None \<Rightarrow> None
      | Some out \<Rightarrow> (case append_range data out (tp_vout_start t) (tp_vout_end t) of None \<Rightarrow> None
      | Some out \<Rightarrow> append_range data out (tp_end t - 4) (tp_end t))))"

definition add_transaction :: "ShaNi option \<Rightarrow> nat \<Rightarrow> TxParse \<Rightarrow> byte list \<Rightarrow> byte list \<Rightarrow> BlockMetadata \<Rightarrow> BlockMetadata" where
  "add_transaction hw start t full_tx txid_bytes m = m\<lparr>
     md_transaction_sizes := md_transaction_sizes m @ [size_add (tp_end t) (2 ^ 64 - start)],
     md_transaction_versions := md_transaction_versions m @ [tp_version t],
     md_transaction_input_counts := md_transaction_input_counts m @ [tp_input_count t],
     md_transaction_output_counts := md_transaction_output_counts m @ [tp_output_count t],
     md_transaction_output_values := md_transaction_output_values m @ [tp_output_total t],
     md_total_output_value := md_total_output_value m + tp_output_total t,
     md_transaction_has_witness := md_transaction_has_witness m @ [tp_has_witness t],
     md_transaction_witness_ids := md_transaction_witness_ids m @ [btc_ToHex (rev (DoubleSha256 hw full_tx))],
     md_transaction_ids := md_transaction_ids m @ [btc_ToHex (rev (DoubleSha256 hw txid_bytes))]\<rparr>"

fun transactions_loop :: "ShaNi option \<Rightarrow> byte list \<Rightarrow> nat \<Rightarrow> nat \<Rightarrow> BlockMetadata \<Rightarrow> BlockMetadata parsed" where
  "transactions_loop hw data 0 offset m = Parsed m"
| "transactions_loop hw data (Suc n) offset m =
     (case parse_transaction data offset of None \<Rightarrow> Refused
      | Some t \<Rightarrow>
          (case append_range data [] offset (tp_end t) of None \<Rightarrow> Undefined
           | Some full_tx \<Rightarrow>
               (case txid_payload data offset t of None \<Rightarrow> Undefined
                | Some txid_bytes \<Rightarrow> transactions_loop hw data n (tp_end t) (add_transaction hw offset t full_tx txid_bytes m))))"

definition block_metadata :: "ShaNi option \<Rightarrow> byte list \<Rightarrow> u64 \<Rightarrow> BlockMetadata" where
  "block_metadata hw data tx_count =
     \<lparr>md_block_hash_hex = btc_ToHex (rev (DoubleSha256 hw (take 80 data))),
      md_previous_hash_hex = WireHashToHex (take 32 (drop 4 data)), md_merkle_root_hex = WireHashToHex (take 32 (drop 36 data)),
      md_version = word_of_nat (load_le data 0 4), md_timestamp = word_of_nat (load_le data 68 4), md_nonce = word_of_nat (load_le data 76 4),
      md_transaction_count = tx_count, md_total_output_value = 0, md_merkle_root_matches = False,
      md_transaction_sizes = [], md_transaction_versions = [], md_transaction_input_counts = [], md_transaction_output_counts = [],
      md_transaction_output_values = [], md_transaction_has_witness = [], md_transaction_ids = [], md_transaction_witness_ids = []\<rparr>"

definition ParseBlockMetadata :: "ShaNi option \<Rightarrow> byte list \<Rightarrow> BlockMetadata parsed" where
  "ParseBlockMetadata hw data =
     (if length data < 81 then Refused
      else case ReadCompactSize data 80 of None \<Rightarrow> Refused
      | Some (tx_count, offset) \<Rightarrow>
          (case transactions_loop hw data (unat tx_count) offset (block_metadata hw data tx_count) of
             Parsed m \<Rightarrow>
               (case ComputeMerkleRootHex hw (md_transaction_ids m) of None \<Rightarrow> Refused
                | Some merkle \<Rightarrow> Parsed (m\<lparr>md_merkle_root_matches := (merkle = md_merkle_root_hex m)\<rparr>))
           | r \<Rightarrow> r))"

section \<open>The serialised form\<close>

text \<open>The protocol's form of transactions and blocks, as the reference for the parser.\<close>

record TxIn =
  in_outpoint :: "byte list"
  in_script :: "byte list"
  in_sequence :: "byte list"

record TxOut =
  out_value :: u64
  out_script :: "byte list"

record Tx =
  tx_version :: u32
  tx_ins :: "TxIn list"
  tx_outs :: "TxOut list"
  tx_witness :: "byte list list list option"
  tx_lock :: "byte list"

definition compact :: "nat \<Rightarrow> byte list" where
  "compact n = AppendCompactSize [] (word_of_nat n)"

definition sized :: "byte list \<Rightarrow> byte list" where
  "sized b = compact (length b) @ b"

definition ser_in :: "TxIn \<Rightarrow> byte list" where
  "ser_in i = in_outpoint i @ sized (in_script i) @ in_sequence i"

definition ser_out :: "TxOut \<Rightarrow> byte list" where
  "ser_out out = AppendLittleEndian [] (out_value out) 8 @ sized (out_script out)"

definition ser_stack :: "byte list list \<Rightarrow> byte list" where
  "ser_stack items = compact (length items) @ concat (map sized items)"

definition ser_ins :: "Tx \<Rightarrow> byte list" where
  "ser_ins tx = compact (length (tx_ins tx)) @ concat (map ser_in (tx_ins tx))"

definition ser_outs :: "Tx \<Rightarrow> byte list" where
  "ser_outs tx = compact (length (tx_outs tx)) @ concat (map ser_out (tx_outs tx))"

definition ser_version :: "Tx \<Rightarrow> byte list" where
  "ser_version tx = AppendLittleEndian [] (ucast (tx_version tx)) 4"

definition ser_base :: "Tx \<Rightarrow> byte list" where
  "ser_base tx = ser_version tx @ ser_ins tx @ ser_outs tx @ tx_lock tx"

definition ser_full :: "Tx \<Rightarrow> byte list" where
  "ser_full tx = (case tx_witness tx of None \<Rightarrow> ser_base tx
     | Some w \<Rightarrow> ser_version tx @ [0, 1] @ ser_ins tx @ ser_outs tx @ concat (map ser_stack w) @ tx_lock tx)"

definition tx_ok :: "Tx \<Rightarrow> bool" where
  "tx_ok tx \<longleftrightarrow> tx_ins tx \<noteq> [] \<and> (\<forall>i \<in> set (tx_ins tx). length (in_outpoint i) = 36 \<and> length (in_sequence i) = 4)
     \<and> length (tx_lock tx) = 4 \<and> (\<forall>w. tx_witness tx = Some w \<longrightarrow> length w = length (tx_ins tx))"

section \<open>Reading it\<close>

lemma compact_append: "AppendCompactSize out v = out @ AppendCompactSize [] v"
  by (simp add: AppendCompactSize_def AppendLittleEndian_def)

lemma compact_nonempty [simp]: "compact n \<noteq> []"
  by (simp add: compact_def AppendCompactSize_def AppendLittleEndian_def)

lemma read_compact_at:
  assumes "data = pre @ compact n @ post" "length data < 2 ^ 64" "n \<le> length data"
  shows "ReadCompactSize data (length pre) = Some (word_of_nat n, length (pre @ compact n)) \<and> unat (word_of_nat n :: u64) = n"
proof -
  have "n < 2 ^ 64" using assms(2,3) by simp
  then show ?thesis
    using CompactSize_roundtrip [of pre "word_of_nat n" post] assms(1,2) compact_append [of pre "word_of_nat n"]
    by (simp add: compact_def unat_of_nat)
qed

lemma read_bytes_at: "data = pre @ b @ post \<Longrightarrow> length data < 2 ^ 64 \<Longrightarrow> read_bytes data (length pre) (length b) = Some (length (pre @ b))"
  by (simp add: read_bytes_def size_add_small)

lemma read_sized_at:
  assumes "data = pre @ sized b @ post" "length data < 2 ^ 64"
  shows "read_sized data (length pre) = Some (length (pre @ sized b))"
proof -
  have "ReadCompactSize data (length pre) = Some (word_of_nat (length b), length (pre @ compact (length b))) \<and> unat (word_of_nat (length b) :: u64) = length b"
    using assms by (intro read_compact_at [where post = "b @ post"]) (simp_all add: sized_def)
  moreover have "read_bytes data (length (pre @ compact (length b))) (length b) = Some (length ((pre @ compact (length b)) @ b))"
    using assms by (intro read_bytes_at [where post = post]) (simp_all add: sized_def)
  ultimately show ?thesis by (simp add: read_sized_def sized_def)
qed

lemma inputs_at:
  "data = pre @ concat (map ser_in ins) @ post \<Longrightarrow> length data < 2 ^ 64 \<Longrightarrow>
   \<forall>i \<in> set ins. length (in_outpoint i) = 36 \<and> length (in_sequence i) = 4 \<Longrightarrow>
   inputs_loop data (length ins) (length pre) = Some (length (pre @ concat (map ser_in ins)))"
proof (induction ins arbitrary: pre)
  case (Cons i ins)
  let ?r = "concat (map ser_in ins) @ post"
  have 1: "read_bytes data (length pre) 36 = Some (length (pre @ in_outpoint i))"
    using Cons.prems read_bytes_at [of data pre "in_outpoint i" "sized (in_script i) @ in_sequence i @ ?r"] by (simp add: ser_in_def [of i])
  have 2: "read_sized data (length (pre @ in_outpoint i)) = Some (length ((pre @ in_outpoint i) @ sized (in_script i)))"
    using Cons.prems by (intro read_sized_at [where post = "in_sequence i @ ?r"]) (simp_all add: ser_in_def [of i])
  have 3: "read_bytes data (length ((pre @ in_outpoint i) @ sized (in_script i))) 4 = Some (length (pre @ ser_in i))"
    using Cons.prems read_bytes_at [of data "(pre @ in_outpoint i) @ sized (in_script i)" "in_sequence i" ?r] by (simp add: ser_in_def [of i])
  have "inputs_loop data (length ins) (length (pre @ ser_in i)) = Some (length ((pre @ ser_in i) @ concat (map ser_in ins)))"
    using Cons.prems by (intro Cons.IH) simp_all
  then show ?case using 1 2 3 by (simp del: length_append)
qed simp

lemma value_at:
  assumes "data = pre @ AppendLittleEndian [] v 8 @ post"
  shows "word_of_nat (load_le data (length pre) 8) = v"
proof -
  have "unat v < 2 ^ 64" using unsigned_less [of v] by simp
  then show ?thesis using load_le_bytes [of pre v 8 post] by (simp add: assms)
qed

lemma outputs_at:
  "data = pre @ concat (map ser_out outs) @ post \<Longrightarrow> length data < 2 ^ 64 \<Longrightarrow>
   outputs_loop data (length outs) (length pre) acc = Some (length (pre @ concat (map ser_out outs)), acc + sum_list (map out_value outs))"
proof (induction outs arbitrary: pre acc)
  case (Cons out outs)
  let ?v = "AppendLittleEndian [] (out_value out) 8"
  have 1: "word_of_nat (load_le data (length pre) 8) = out_value out"
    using Cons.prems by (intro value_at) (simp add: ser_out_def [of out])
  have 2: "read_sized data (length (pre @ ?v)) = Some (length ((pre @ ?v) @ sized (out_script out)))"
    using Cons.prems by (intro read_sized_at [where post = "concat (map ser_out outs) @ post"]) (simp_all add: ser_out_def [of out])
  have 3: "size_add (length pre) 8 = length (pre @ ?v) \<and> length (pre @ ?v) \<le> length data"
    using Cons.prems by (simp add: ser_out_def [of out] AppendLittleEndian_simp(2) size_add_small)
  have "outputs_loop data (length outs) (length (pre @ ser_out out)) (acc + out_value out)
    = Some (length ((pre @ ser_out out) @ concat (map ser_out outs)), (acc + out_value out) + sum_list (map out_value outs))"
    using Cons.prems by (intro Cons.IH) simp_all
  then show ?case using 1 2 3 by (simp add: ser_out_def [of out] Let_def add.assoc del: length_append)
qed simp

lemma stack_at:
  "data = pre @ concat (map sized items) @ post \<Longrightarrow> length data < 2 ^ 64 \<Longrightarrow>
   stack_loop data (length items) (length pre) = Some (length (pre @ concat (map sized items)))"
proof (induction items arbitrary: pre)
  case (Cons b items)
  have "read_sized data (length pre) = Some (length (pre @ sized b))"
    using Cons.prems by (intro read_sized_at) simp_all
  moreover have "stack_loop data (length items) (length (pre @ sized b)) = Some (length ((pre @ sized b) @ concat (map sized items)))"
    using Cons.prems by (intro Cons.IH) simp_all
  ultimately show ?case by (simp del: length_append)
qed simp

lemma length_concat_ge: "(\<And>x. x \<in> set xs \<Longrightarrow> f x \<noteq> []) \<Longrightarrow> length xs \<le> length (concat (map f xs))"
proof (induction xs)
  case (Cons x xs)
  obtain y ys where "f x = y # ys" using Cons.prems [of x] by (cases "f x") auto
  then show ?case using Cons by (simp add: trans_le_add2)
qed simp

lemma sized_nonempty [simp]: "sized b \<noteq> []"
  by (simp add: sized_def)

lemma witness_at:
  "data = pre @ concat (map ser_stack w) @ post \<Longrightarrow> length data < 2 ^ 64 \<Longrightarrow>
   witness_loop data (length w) (length pre) = Some (length (pre @ concat (map ser_stack w)))"
proof (induction w arbitrary: pre)
  case (Cons items w)
  let ?n = "length items"
  have "?n \<le> length (concat (map sized items))" by (rule length_concat_ge) simp
  then have 1: "ReadCompactSize data (length pre) = Some (word_of_nat ?n, length (pre @ compact ?n)) \<and> unat (word_of_nat ?n :: u64) = ?n"
    using Cons.prems
    by (intro read_compact_at [where post = "concat (map sized items) @ concat (map ser_stack w) @ post"]) (simp_all add: ser_stack_def [of items])
  have 2: "stack_loop data ?n (length (pre @ compact ?n)) = Some (length ((pre @ compact ?n) @ concat (map sized items)))"
    using Cons.prems by (intro stack_at [where post = "concat (map ser_stack w) @ post"]) (simp_all add: ser_stack_def [of items])
  have "witness_loop data (length w) (length (pre @ ser_stack items)) = Some (length ((pre @ ser_stack items) @ concat (map ser_stack w)))"
    using Cons.prems by (intro Cons.IH) simp_all
  then show ?case using 1 2 by (simp add: ser_stack_def [of items] del: length_append)
qed simp

section \<open>Transactions and blocks\<close>

lemma compact_first: "0 < n \<Longrightarrow> n < 2 ^ 64 \<Longrightarrow> hd (compact n) \<noteq> 0"
proof -
  assume n: "0 < n" "n < 2 ^ 64"
  then have u: "unat (word_of_nat n :: u64) = n" by (simp add: unat_of_nat)
  show ?thesis
  proof (cases "n < 253")
    case True
    then have "word_of_nat n < (253 :: u64)" using u by (simp add: word_less_nat_alt)
    moreover have "unat (ucast (word_of_nat n :: u64) :: byte) = n"
      using True u by (simp add: unsigned_ucast_eq take_bit_nat_eq_self)
    ultimately show ?thesis using n(1) by (auto simp: compact_def AppendCompactSize_def)
  next
    case False
    then have "\<not> word_of_nat n < (253 :: u64)" using u by (simp add: word_less_nat_alt)
    then show ?thesis by (simp add: compact_def AppendCompactSize_def AppendLittleEndian_def)
  qed
qed

definition tx_marker :: "Tx \<Rightarrow> byte list" where
  "tx_marker tx = (if tx_witness tx = None then [] else [0, 1])"

definition tx_stacks :: "Tx \<Rightarrow> byte list" where
  "tx_stacks tx = (case tx_witness tx of None \<Rightarrow> [] | Some w \<Rightarrow> concat (map ser_stack w))"

lemma ser_full_parts: "ser_full tx = ser_version tx @ tx_marker tx @ ser_ins tx @ ser_outs tx @ tx_stacks tx @ tx_lock tx"
  by (simp add: ser_full_def ser_base_def tx_marker_def tx_stacks_def split: option.split)

definition tx_parse_of :: "byte list \<Rightarrow> Tx \<Rightarrow> TxParse" where
  "tx_parse_of pre tx =
     (let v = pre @ ser_version tx; i = v @ tx_marker tx; out = i @ ser_ins tx in
      \<lparr>tp_version = tx_version tx, tp_version_end = length v, tp_has_witness = (tx_witness tx \<noteq> None),
       tp_input_count = word_of_nat (length (tx_ins tx)), tp_vin_start = length i, tp_vin_end = length out,
       tp_output_count = word_of_nat (length (tx_outs tx)), tp_vout_start = length out, tp_vout_end = length (out @ ser_outs tx),
       tp_output_total = sum_list (map out_value (tx_outs tx)), tp_end = length (pre @ ser_full tx)\<rparr>)"

lemma length_ser_version [simp]: "length (ser_version tx) = 4"
  by (simp add: ser_version_def AppendLittleEndian_simp(2))

lemma version_at: "data = pre @ ser_version tx @ post \<Longrightarrow> word_of_nat (load_le data (length pre) 4) = tx_version tx"
proof -
  assume d: "data = pre @ ser_version tx @ post"
  have "unat (tx_version tx) < 2 ^ 32" using unsigned_less [of "tx_version tx"] by simp
  moreover from this have "unat (ucast (tx_version tx) :: u64) = unat (tx_version tx)"
    by (simp add: unsigned_ucast_eq take_bit_nat_eq_self)
  ultimately show ?thesis using load_le_bytes [of pre "ucast (tx_version tx)" 4 post] by (simp add: d ser_version_def)
qed

lemma marker_at:
  assumes "data = pre @ tx_marker tx @ ser_ins tx @ post" "length data < 2 ^ 64" "tx_ok tx" "post \<noteq> []"
  shows "(size_add (length pre) 2 \<le> length data \<and> data ! length pre = 0 \<and> data ! (length pre + 1) \<noteq> 0) \<longleftrightarrow> tx_witness tx \<noteq> None"
proof (cases "tx_witness tx")
  case None
  let ?n = "length (tx_ins tx)"
  have "ser_in i \<noteq> []" for i by (simp add: ser_in_def)
  then have "?n \<le> length (concat (map ser_in (tx_ins tx)))" by (intro length_concat_ge)
  also have "\<dots> \<le> length data" using assms(1) by (simp add: ser_ins_def)
  finally have "?n < 2 ^ 64" "0 < ?n" using assms(2,3) by (auto simp: tx_ok_def)
  then have "hd (compact ?n) \<noteq> 0" by (intro compact_first)
  moreover have "data ! length pre = hd (compact ?n)"
    using None assms(1) by (simp add: tx_marker_def ser_ins_def nth_append hd_conv_nth)
  ultimately show ?thesis using None by simp
next
  case (Some w)
  then show ?thesis using assms(1,2) by (simp add: tx_marker_def size_add_small nth_append)
qed

lemma transaction_at:
  assumes d: "data = pre @ ser_full tx @ post" and l: "length data < 2 ^ 64" and ok: "tx_ok tx"
  shows "parse_transaction data (length pre) = Some (tx_parse_of pre tx)"
proof -
  define v where "v = pre @ ser_version tx"
  define i where "i = v @ tx_marker tx"
  define q where "q = i @ ser_ins tx"
  define u where "u = q @ ser_outs tx"
  let ?in = "length (tx_ins tx)" and ?on = "length (tx_outs tx)"
  have ok': "\<forall>i \<in> set (tx_ins tx). length (in_outpoint i) = 36 \<and> length (in_sequence i) = 4" "length (tx_lock tx) = 4"
    "\<And>w. tx_witness tx = Some w \<Longrightarrow> length w = ?in" using ok by (auto simp: tx_ok_def)
  have dv: "data = v @ tx_marker tx @ ser_ins tx @ (ser_outs tx @ tx_stacks tx @ tx_lock tx @ post)"
    and di: "data = i @ ser_ins tx @ ser_outs tx @ tx_stacks tx @ tx_lock tx @ post"
    and dq: "data = q @ ser_outs tx @ tx_stacks tx @ tx_lock tx @ post"
    and du: "data = u @ tx_stacks tx @ tx_lock tx @ post"
    using d by (simp_all add: ser_full_parts v_def i_def q_def u_def)
  have m: "(size_add (length v) 2 \<le> length data \<and> data ! length v = 0 \<and> data ! (length v + 1) \<noteq> 0) \<longleftrightarrow> tx_witness tx \<noteq> None"
    by (rule marker_at [OF dv l ok]) (simp add: ser_outs_def)
  have ver: "word_of_nat (load_le data (length pre) 4) = tx_version tx"
    using dv by (intro version_at) (simp add: v_def)
  have ve: "size_add (length pre) 4 = length v" "length v \<le> length data" "size_add (length v) 2 = length v + 2"
    using dv di l ok'(2) by (auto simp: v_def size_add_small)
  have io: "(if tx_witness tx \<noteq> None then length v + 2 else length v) = length i" by (simp add: i_def tx_marker_def)
  have "ser_in i \<noteq> []" "ser_out out \<noteq> []" for i out by (simp_all add: ser_in_def ser_out_def)
  then have n: "?in \<le> length (concat (map ser_in (tx_ins tx)))" "?on \<le> length (concat (map ser_out (tx_outs tx)))"
    by (intro length_concat_ge; simp)+
  have rc: "ReadCompactSize data (length i) = Some (word_of_nat ?in, length (i @ compact ?in)) \<and> unat (word_of_nat ?in :: u64) = ?in"
    using di l n by (intro read_compact_at [where post = "concat (map ser_in (tx_ins tx)) @ ser_outs tx @ tx_stacks tx @ tx_lock tx @ post"])
      (simp_all add: ser_ins_def)
  have ri: "inputs_loop data ?in (length (i @ compact ?in)) = Some (length q)"
    using inputs_at [of data "i @ compact ?in" "tx_ins tx"] di l ok'(1) by (simp add: ser_ins_def q_def)
  have ro: "ReadCompactSize data (length q) = Some (word_of_nat ?on, length (q @ compact ?on)) \<and> unat (word_of_nat ?on :: u64) = ?on"
    using dq l n by (intro read_compact_at [where post = "concat (map ser_out (tx_outs tx)) @ tx_stacks tx @ tx_lock tx @ post"])
      (simp_all add: ser_outs_def)
  have rv: "outputs_loop data ?on (length (q @ compact ?on)) 0 = Some (length u, sum_list (map out_value (tx_outs tx)))"
    using outputs_at [of data "q @ compact ?on" "tx_outs tx" _ 0] dq l by (simp add: ser_outs_def u_def)
  have rw: "(if tx_witness tx \<noteq> None then witness_loop data ?in (length u) else Some (length u)) = Some (length (u @ tx_stacks tx))"
  proof (cases "tx_witness tx")
    case (Some w)
    then show ?thesis using witness_at [of data u w "tx_lock tx @ post"] du l ok'(3) [OF Some] by (simp add: tx_stacks_def)
  qed (simp add: tx_stacks_def)
  have rl: "read_bytes data (length (u @ tx_stacks tx)) 4 = Some (length (pre @ ser_full tx))"
    using read_bytes_at [of data "u @ tx_stacks tx" "tx_lock tx" post] du l ok'(2)
    by (simp add: u_def q_def i_def v_def ser_full_parts)
  have tp: "tx_parse_of pre tx =
     \<lparr>tp_version = tx_version tx, tp_version_end = length v, tp_has_witness = (tx_witness tx \<noteq> None),
       tp_input_count = word_of_nat ?in, tp_vin_start = length i, tp_vin_end = length q,
       tp_output_count = word_of_nat ?on, tp_vout_start = length q, tp_vout_end = length u,
       tp_output_total = sum_list (map out_value (tx_outs tx)), tp_end = length (pre @ ser_full tx)\<rparr>"
    by (simp add: tx_parse_of_def Let_def u_def q_def i_def v_def)
  have "\<not> length v > length data" using ve(2) by simp
  then show ?thesis
    unfolding parse_transaction_def Let_def ve(1) ver ve(3) m [unfolded ve(3)] io tp
    using rc ri ro rv rw rl by (simp only: if_False option.case prod.case rc ri ro rv rw rl)
qed

lemma append_range_at: "data = pre @ b @ post \<Longrightarrow> append_range data out (length pre) (length (pre @ b)) = Some (out @ b)"
  by (simp add: append_range_def)

lemma txid_payload_at:
  assumes "data = pre @ ser_full tx @ post" "tx_ok tx"
  shows "txid_payload data (length pre) (tx_parse_of pre tx) = Some (ser_base tx)"
proof -
  define v where "v = pre @ ser_version tx"
  define i where "i = v @ tx_marker tx"
  define q where "q = i @ ser_ins tx"
  define u where "u = q @ ser_outs tx"
  define e where "e = u @ tx_stacks tx"
  have d: "data = pre @ ser_version tx @ tx_marker tx @ ser_ins tx @ ser_outs tx @ tx_stacks tx @ tx_lock tx @ post"
    "data = i @ ser_ins tx @ ser_outs tx @ tx_stacks tx @ tx_lock tx @ post" "data = q @ ser_outs tx @ tx_stacks tx @ tx_lock tx @ post"
    "data = e @ tx_lock tx @ post"
    using assms(1) by (simp_all add: ser_full_parts v_def i_def q_def u_def e_def)
  have f: "tp_version_end (tx_parse_of pre tx) = length v" "tp_vin_start (tx_parse_of pre tx) = length i"
    "tp_vin_end (tx_parse_of pre tx) = length q" "tp_vout_start (tx_parse_of pre tx) = length q"
    "tp_vout_end (tx_parse_of pre tx) = length u" "tp_end (tx_parse_of pre tx) = length (e @ tx_lock tx)"
    "length (e @ tx_lock tx) - 4 = length e"
    using assms(2) by (simp_all add: tx_parse_of_def Let_def tx_ok_def ser_full_parts v_def i_def q_def u_def e_def)
  show ?thesis
    unfolding txid_payload_def f
    using append_range_at [OF d(1), of "[]"] append_range_at [OF d(2), of "ser_version tx"]
      append_range_at [OF d(3), of "ser_version tx @ ser_ins tx"] append_range_at [OF d(4), of "ser_version tx @ ser_ins tx @ ser_outs tx"]
    by (simp add: v_def [symmetric] q_def [symmetric] u_def [symmetric] ser_base_def del: length_append)
qed

definition tx_total :: "Tx \<Rightarrow> u64" where
  "tx_total tx = sum_list (map out_value (tx_outs tx))"

definition record_transaction :: "ShaNi option \<Rightarrow> Tx \<Rightarrow> BlockMetadata \<Rightarrow> BlockMetadata" where
  "record_transaction hw tx m = m\<lparr>
     md_transaction_sizes := md_transaction_sizes m @ [length (ser_full tx)],
     md_transaction_versions := md_transaction_versions m @ [tx_version tx],
     md_transaction_input_counts := md_transaction_input_counts m @ [word_of_nat (length (tx_ins tx))],
     md_transaction_output_counts := md_transaction_output_counts m @ [word_of_nat (length (tx_outs tx))],
     md_transaction_output_values := md_transaction_output_values m @ [tx_total tx],
     md_total_output_value := md_total_output_value m + tx_total tx,
     md_transaction_has_witness := md_transaction_has_witness m @ [tx_witness tx \<noteq> None],
     md_transaction_witness_ids := md_transaction_witness_ids m @ [WireHashToHex (DoubleSha256 hw (ser_full tx))],
     md_transaction_ids := md_transaction_ids m @ [WireHashToHex (DoubleSha256 hw (ser_base tx))]\<rparr>"

lemma size_sub: "b \<le> a \<Longrightarrow> a < 2 ^ 64 \<Longrightarrow> size_add a (2 ^ 64 - b) = a - b"
proof -
  assume h: "b \<le> a" "a < 2 ^ 64"
  then have "a + (2 ^ 64 - b) = 2 ^ 64 + (a - b)" by simp
  then have "size_add a (2 ^ 64 - b) = (2 ^ 64 + (a - b)) mod 2 ^ 64" unfolding size_add_def by (rule arg_cong)
  also have "\<dots> = (a - b) mod 2 ^ 64" by (rule mod_add_self1)
  also have "\<dots> = a - b" using h by (intro mod_less) simp
  finally show ?thesis .
qed

lemma add_at:
  assumes "length (pre @ ser_full tx) < 2 ^ 64"
  shows "add_transaction hw (length pre) (tx_parse_of pre tx) (ser_full tx) (ser_base tx) m = record_transaction hw tx m"
proof -
  have "size_add (length (pre @ ser_full tx)) (2 ^ 64 - length pre) = length (ser_full tx)"
    using assms by (subst size_sub) simp_all
  then show ?thesis
    by (simp add: add_transaction_def record_transaction_def tx_parse_of_def Let_def tx_total_def WireHashToHex_def del: length_append)
qed

lemma transactions_at:
  "data = pre @ concat (map ser_full txs) @ post \<Longrightarrow> length data < 2 ^ 64 \<Longrightarrow> list_all tx_ok txs \<Longrightarrow>
   transactions_loop hw data (length txs) (length pre) m = Parsed (fold (record_transaction hw) txs m)"
proof (induction txs arbitrary: pre m)
  case (Cons tx txs)
  then have d: "data = pre @ ser_full tx @ (concat (map ser_full txs) @ post)" and ok: "tx_ok tx" by simp_all
  have e: "tp_end (tx_parse_of pre tx) = length (pre @ ser_full tx)" by (simp add: tx_parse_of_def Let_def)
  have "transactions_loop hw data (length txs) (length (pre @ ser_full tx)) (record_transaction hw tx m)
    = Parsed (fold (record_transaction hw) txs (record_transaction hw tx m))"
    using Cons.prems by (intro Cons.IH) simp_all
  moreover have "length (pre @ ser_full tx) < 2 ^ 64" using Cons.prems by simp
  ultimately show ?case
    using transaction_at [OF d Cons.prems(2) ok] txid_payload_at [OF d ok] append_range_at [OF d, of "[]"] add_at [of pre tx hw m]
    by (simp add: e del: length_append)
qed simp

definition block_of :: "ShaNi option \<Rightarrow> byte list \<Rightarrow> Tx list \<Rightarrow> BlockMetadata" where
  "block_of hw hdr txs =
     (let ids = map (\<lambda>tx. WireHashToHex (DoubleSha256 hw (ser_base tx))) txs; root = WireHashToHex (take 32 (drop 36 hdr)) in
      \<lparr>md_block_hash_hex = WireHashToHex (DoubleSha256 hw hdr), md_previous_hash_hex = WireHashToHex (take 32 (drop 4 hdr)),
       md_merkle_root_hex = root, md_version = word_of_nat (load_le hdr 0 4), md_timestamp = word_of_nat (load_le hdr 68 4),
       md_nonce = word_of_nat (load_le hdr 76 4), md_transaction_count = word_of_nat (length txs),
       md_total_output_value = sum_list (map tx_total txs), md_merkle_root_matches = (ComputeMerkleRootHex hw ids = Some root),
       md_transaction_sizes = map (\<lambda>tx. length (ser_full tx)) txs, md_transaction_versions = map tx_version txs,
       md_transaction_input_counts = map (\<lambda>tx. word_of_nat (length (tx_ins tx))) txs,
       md_transaction_output_counts = map (\<lambda>tx. word_of_nat (length (tx_outs tx))) txs,
       md_transaction_output_values = map tx_total txs, md_transaction_has_witness = map (\<lambda>tx. tx_witness tx \<noteq> None) txs,
       md_transaction_ids = ids, md_transaction_witness_ids = map (\<lambda>tx. WireHashToHex (DoubleSha256 hw (ser_full tx))) txs\<rparr>)"

lemma fold_record: "fold (record_transaction hw) txs m = m\<lparr>
     md_transaction_sizes := md_transaction_sizes m @ map (\<lambda>tx. length (ser_full tx)) txs,
     md_transaction_versions := md_transaction_versions m @ map tx_version txs,
     md_transaction_input_counts := md_transaction_input_counts m @ map (\<lambda>tx. word_of_nat (length (tx_ins tx))) txs,
     md_transaction_output_counts := md_transaction_output_counts m @ map (\<lambda>tx. word_of_nat (length (tx_outs tx))) txs,
     md_transaction_output_values := md_transaction_output_values m @ map tx_total txs,
     md_total_output_value := md_total_output_value m + sum_list (map tx_total txs),
     md_transaction_has_witness := md_transaction_has_witness m @ map (\<lambda>tx. tx_witness tx \<noteq> None) txs,
     md_transaction_witness_ids := md_transaction_witness_ids m @ map (\<lambda>tx. WireHashToHex (DoubleSha256 hw (ser_full tx))) txs,
     md_transaction_ids := md_transaction_ids m @ map (\<lambda>tx. WireHashToHex (DoubleSha256 hw (ser_base tx))) txs\<rparr>"
  by (induction txs arbitrary: m) (simp_all add: record_transaction_def add.assoc)

lemma merkle_of_hashes:
  assumes "txs \<noteq> []"
  shows "ComputeMerkleRootHex hw (map (\<lambda>tx. WireHashToHex (DoubleSha256 hw (f tx))) txs) \<noteq> None"
proof -
  have "decode_layer (map (\<lambda>tx. WireHashToHex (DoubleSha256 hw (f tx))) txs) = Some (map (\<lambda>tx. DoubleSha256 hw (f tx)) txs)"
    by (induction txs) (simp_all add: WireHashToHex_def HexToBytes_ToHex)
  then show ?thesis using assms by (simp add: ComputeMerkleRootHex_def)
qed

lemma load_le_append: "offset + w \<le> length a \<Longrightarrow> load_le (a @ b) offset w = load_le a offset w"
  by (simp add: load_le_def nth_append)

lemma ParseBlockMetadata_serialized:
  assumes h: "length hdr = 80" and txs: "txs \<noteq> []" "list_all tx_ok txs"
    and l: "length (hdr @ compact (length txs) @ concat (map ser_full txs) @ post) < 2 ^ 64"
  shows "ParseBlockMetadata hw (hdr @ compact (length txs) @ concat (map ser_full txs) @ post) = Parsed (block_of hw hdr txs)"
proof -
  define data where "data = hdr @ compact (length txs) @ concat (map ser_full txs) @ post"
  have l': "length data < 2 ^ 64" using l by (simp add: data_def)
  have "ser_version tx \<noteq> []" for tx by (metis length_ser_version list.size(3) zero_neq_numeral)
  then have "ser_full tx \<noteq> []" for tx by (simp add: ser_full_parts)
  then have n: "length txs \<le> length (concat (map ser_full txs))" by (intro length_concat_ge)
  have rc: "ReadCompactSize data 80 = Some (word_of_nat (length txs), length (hdr @ compact (length txs))) \<and> unat (word_of_nat (length txs) :: u64) = length txs"
    using read_compact_at [of data hdr "length txs" "concat (map ser_full txs) @ post"] l' n by (simp add: data_def h)
  have tl: "transactions_loop hw data (length txs) (length (hdr @ compact (length txs))) m = Parsed (fold (record_transaction hw) txs m)" for m
    using transactions_at [of data "hdr @ compact (length txs)" txs post hw m] l' txs by (simp add: data_def)
  have "0 < length (compact (length txs))" by simp
  then have "81 \<le> length data" using h by (simp add: data_def del: length_greater_0_conv)
  moreover have "take 80 data = hdr" "take 32 (drop 4 data) = take 32 (drop 4 hdr)" "take 32 (drop 36 data) = take 32 (drop 36 hdr)"
    "load_le data 0 4 = load_le hdr 0 4" "load_le data 68 4 = load_le hdr 68 4" "load_le data 76 4 = load_le hdr 76 4"
    using h by (simp_all add: data_def load_le_append)
  moreover obtain r where "ComputeMerkleRootHex hw (map (\<lambda>tx. WireHashToHex (DoubleSha256 hw (ser_base tx))) txs) = Some r"
    using merkle_of_hashes [OF txs(1), of hw ser_base] by auto
  ultimately show ?thesis using rc
    unfolding data_def [symmetric]
    by (simp add: ParseBlockMetadata_def tl fold_record block_metadata_def block_of_def Let_def WireHashToHex_def del: length_append)
qed

section \<open>Headers\<close>

text \<open>
  The header that 80 bytes stand for, written without the parser: the bytes are cut into the fields of the format, whose numbers
  are little-endian and whose hashes are shown as hexadecimal text from the last byte to the first.
\<close>

fun cut :: "nat list \<Rightarrow> 'a list \<Rightarrow> 'a list list" where
  "cut [] h = []"
| "cut (n # ns) h = take n h # cut ns (drop n h)"

definition reversed_hex :: "byte list \<Rightarrow> string" where
  "reversed_hex bytes = concat (map (\<lambda>b. [''0123456789abcdef'' ! (unat b div 16), ''0123456789abcdef'' ! (unat b mod 16)]) (rev bytes))"

definition header_read :: "ShaNi option \<Rightarrow> byte list \<Rightarrow> u32 \<Rightarrow> Header" where
  "header_read hw h height =
     (let fields = cut [4, 32, 32, 4, 4, 4] h; number = (\<lambda>i. word_of_nat (horner_sum unat 256 (fields ! i))) in
      \<lparr>hd_height = height, hd_hash_hex = reversed_hex (DoubleSha256 hw h),
       hd_previous_hash_hex = reversed_hex (fields ! 1), hd_merkle_root_hex = reversed_hex (fields ! 2),
       hd_version = number 0, hd_timestamp = number 3, hd_bits = number 4, hd_nonce = number 5\<rparr>)"

lemma WireHashToHex_reversed: "WireHashToHex bytes = reversed_hex bytes"
proof -
  have m: "(0x0F :: byte) = mask 4" by (simp add: mask_eq_exp_minus_1)
  have "unat (b AND 0x0F) = unat b mod 16" for b :: byte
    unfolding m take_bit_eq_mask [symmetric] by (simp only: unsigned_take_bit_eq) (simp add: take_bit_eq_mod)
  moreover have "unat (drop_bit 4 b AND 0x0F) = unat b div 16" for b :: byte
  proof -
    have "unat b div 16 < 16" using unsigned_less [of b] by (simp add: less_mult_imp_div_less)
    then show ?thesis
      unfolding m take_bit_eq_mask [symmetric]
      by (simp only: unsigned_take_bit_eq unsigned_drop_bit_eq) (simp add: take_bit_eq_mod drop_bit_eq_div)
  qed
  ultimately show ?thesis
    by (simp add: WireHashToHex_def btc_ToHex_def reversed_hex_def btc_digits_def)
qed

lemma load_le_horner: "offset + n \<le> length bytes \<Longrightarrow> load_le bytes offset n = horner_sum unat 256 (take n (drop offset bytes))"
  by (simp add: load_le_def horner_sum_eq_sum atLeast0LessThan min_absorb2)

lemma parse_header_read:
  assumes "length h = 80"
  shows "parse_header hw h k = header_read hw h k"
proof -
  have "load_le h 0 4 = horner_sum unat 256 (take 4 h)" "load_le h 68 4 = horner_sum unat 256 (take 4 (drop 68 h))"
    "load_le h 72 4 = horner_sum unat 256 (take 4 (drop 72 h))" "load_le h 76 4 = horner_sum unat 256 (take 4 (drop 76 h))"
    using assms load_le_horner [of 0 4 h] by (simp_all add: load_le_horner)
  moreover have "btc_ToHex (rev (DoubleSha256 hw h)) = reversed_hex (DoubleSha256 hw h)"
    using WireHashToHex_reversed by (simp add: WireHashToHex_def)
  ultimately show ?thesis
    by (simp add: parse_header_def header_read_def WireHashToHex_reversed Let_def)
qed

definition headers_of :: "ShaNi option \<Rightarrow> u32 \<Rightarrow> nat \<Rightarrow> byte list list \<Rightarrow> Header list" where
  "headers_of hw locator_height k hdrs = map (\<lambda>i. header_read hw (hdrs ! i) (locator_height + word_of_nat (k + i) + 1)) [0..<length hdrs]"

lemma headers_of_Cons:
  "headers_of hw lh k (h # hdrs) = header_read hw h (lh + word_of_nat k + 1) # headers_of hw lh (Suc k) hdrs"
proof -
  have "[0..<Suc (length hdrs)] = 0 # map Suc [0..<length hdrs]" by (simp add: map_Suc_upt upt_conv_Cons del: upt_Suc)
  then show ?thesis unfolding headers_of_def by (simp add: add.commute add.left_commute del: upt_Suc)
qed

lemma headers_loop_at:
  "data = pre @ concat (map (\<lambda>h. h @ [0]) hdrs) @ post \<Longrightarrow> length data < 2 ^ 64 \<Longrightarrow> list_all (\<lambda>h. length h = 80) hdrs \<Longrightarrow>
   headers_loop hw data lh (length hdrs) k (length pre) hashes headers
    = (Success [], hashes @ map hd_hash_hex (headers_of hw lh k hdrs), headers @ headers_of hw lh k hdrs)"
proof (induction hdrs arbitrary: pre k hashes headers)
  case (Cons h hdrs)
  let ?p = "(pre @ h) @ [0]" and ?h = "header_read hw h (lh + word_of_nat k + 1)"
  have d: "data = (pre @ h) @ compact 0 @ (concat (map (\<lambda>h. h @ [0]) hdrs) @ post)"
    using Cons.prems(1) by (simp add: compact_def AppendCompactSize_def)
  have rc: "ReadCompactSize data (length (pre @ h)) = Some (0, length ?p)"
    using read_compact_at [OF d Cons.prems(2)] by (simp add: compact_def AppendCompactSize_def)
  have s: "size_add (length pre) 80 = length (pre @ h)" "\<not> length (pre @ h) > length data" "take 80 (drop (length pre) data) = h"
    using Cons.prems by (simp_all add: size_add_small)
  have "headers_loop hw data lh (length hdrs) (k + 1) (length ?p) (hashes @ [hd_hash_hex ?h]) (headers @ [?h])
    = (Success [], (hashes @ [hd_hash_hex ?h]) @ map hd_hash_hex (headers_of hw lh (k + 1) hdrs), (headers @ [?h]) @ headers_of hw lh (k + 1) hdrs)"
    using Cons.prems by (intro Cons.IH) simp_all
  moreover have "parse_header hw h k' = header_read hw h k'" for k'
    using Cons.prems(3) by (simp add: parse_header_read)
  ultimately show ?case using s rc by (simp add: headers_of_Cons Let_def del: length_append)
qed (simp add: headers_of_def)

lemma ParseHeadersPayload_serialized:
  assumes "hdrs \<noteq> []" "list_all (\<lambda>h. length h = 80) hdrs"
    and "length (compact (length hdrs) @ concat (map (\<lambda>h. h @ [0]) hdrs) @ post) < 2 ^ 64"
  shows "ParseHeadersPayload hw (compact (length hdrs) @ concat (map (\<lambda>h. h @ [0]) hdrs) @ post) lh [] []
    = (Success [], map hd_hash_hex (headers_of hw lh 0 hdrs), headers_of hw lh 0 hdrs)"
proof -
  define data where "data = compact (length hdrs) @ concat (map (\<lambda>h. h @ [0]) hdrs) @ post"
  have "length hdrs \<le> length (concat (map (\<lambda>h. h @ [0 :: byte]) hdrs))" by (rule length_concat_ge) simp
  then have rc: "ReadCompactSize data 0 = Some (word_of_nat (length hdrs), length (compact (length hdrs))) \<and> unat (word_of_nat (length hdrs) :: u64) = length hdrs"
    using read_compact_at [of data "[]" "length hdrs" "concat (map (\<lambda>h. h @ [0]) hdrs) @ post"] assms(3) by (simp add: data_def)
  then have "word_of_nat (length hdrs) \<noteq> (0 :: u64)" using assms(1) by (metis length_0_conv unsigned_0)
  then show ?thesis
    using rc headers_loop_at [of data "compact (length hdrs)" hdrs post hw lh 0 "[]" "[]"] assms
    unfolding data_def [symmetric] by (simp add: ParseHeadersPayload_def data_def [symmetric])
qed

section \<open>Wrapping offsets\<close>

definition overlong_block :: "byte list" where
  "overlong_block = replicate 80 0 @ [1] @ [0, 0, 0, 0] @ [1] @ replicate 36 0 @ [0xFF, 0x7D, 0xFF, 0xFF, 0xFF, 0xFF, 0xFF, 0xFF, 0xFF]"

lemma overlong_length: "length overlong_block = 131"
  by (simp add: overlong_block_def)

lemma overlong_split:
  "overlong_block = (replicate 80 0 @ [1, 0, 0, 0, 0]) @ compact 1 @ replicate 36 0 @ AppendCompactSize [] 0xFFFFFFFFFFFFFF7D"
  by (simp add: overlong_block_def compact_def AppendCompactSize_def AppendLittleEndian_def upt_eight)

lemma overlong_zero: "i < 80 \<Longrightarrow> overlong_block ! i = 0" "overlong_block ! 81 = 0" "overlong_block ! 82 = 0"
  "overlong_block ! 83 = 0" "overlong_block ! 84 = 0" "overlong_block ! 85 = 1"
  by (simp_all add: overlong_block_def nth_append)

lemma overlong_script: "ReadCompactSize overlong_block 122 = Some (0xFFFFFFFFFFFFFF7D, 131)"
proof -
  let ?out = "(replicate 80 0 @ [1, 0, 0, 0, 0]) @ compact 1 @ replicate 36 (0 :: byte)"
  have e: "overlong_block = AppendCompactSize ?out 0xFFFFFFFFFFFFFF7D @ []"
    unfolding overlong_split by (subst (2) compact_append) simp
  have "length ?out = 122" by (simp add: compact_def AppendCompactSize_def)
  then have "length (AppendCompactSize ?out 0xFFFFFFFFFFFFFF7D) = 131" unfolding CompactSize_length by simp
  then show ?thesis
    using CompactSize_roundtrip [of ?out "0xFFFFFFFFFFFFFF7D" "[]"] \<open>length ?out = 122\<close> overlong_length
    unfolding e [symmetric] by simp
qed

lemma overlong_inputs: "inputs_loop overlong_block 1 86 = Some 4"
  by (simp add: read_bytes_def read_sized_def overlong_script overlong_length size_add_def)

lemma overlong_transaction:
  "parse_transaction overlong_block 81 = Some \<lparr>tp_version = 0, tp_version_end = 85, tp_has_witness = False, tp_input_count = 1,
     tp_vin_start = 85, tp_vin_end = 4, tp_output_count = 0, tp_vout_start = 4, tp_vout_end = 5, tp_output_total = 0, tp_end = 9\<rparr>"
proof -
  have "ReadCompactSize overlong_block 85 = Some (1, 86)"
    using read_compact_at [OF overlong_split] overlong_length by (simp add: compact_def AppendCompactSize_def)
  moreover have "ReadCompactSize overlong_block 4 = Some (0, 5)"
    by (simp add: ReadCompactSize_def overlong_length overlong_zero size_add_def)
  moreover have "load_le overlong_block 81 4 = 0"
  proof -
    have e: "overlong_block = (replicate 80 0 @ [1]) @ AppendLittleEndian [] 0 4
        @ [1] @ replicate 36 0 @ [0xFF, 0x7D, 0xFF, 0xFF, 0xFF, 0xFF, 0xFF, 0xFF, 0xFF]"
      by (simp add: overlong_block_def AppendLittleEndian_def upt_eight)
    show ?thesis
      using load_le_bytes [of "replicate 80 0 @ [1]" 0 4 "[1] @ replicate 36 0 @ [0xFF, 0x7D, 0xFF, 0xFF, 0xFF, 0xFF, 0xFF, 0xFF, 0xFF]"]
      unfolding e [symmetric] by simp
  qed
  ultimately show ?thesis
    using overlong_inputs
    by (simp add: parse_transaction_def Let_def overlong_length overlong_zero size_add_def read_bytes_def)
qed

lemma overlong_undefined: "ParseBlockMetadata hw overlong_block = Undefined"
proof -
  have "ReadCompactSize overlong_block 80 = Some (1, 81)"
    by (simp add: ReadCompactSize_def overlong_length size_add_def) (simp add: overlong_block_def nth_append)
  then show ?thesis
    by (simp add: ParseBlockMetadata_def overlong_length overlong_transaction append_range_def)
qed

section \<open>Properties\<close>

lemma length_compact: "length (compact n) \<le> 9"
  by (simp add: compact_def CompactSize_length)

text \<open>C15: The serialised form of a block with at least one transaction is parsed to exactly its fields: the hashes and numbers of the
  header, the size, the counts, the output value and the witness flag of every transaction, an id per transaction that does
  not depend on its witness, and the comparison of the Merkle root over these ids with the one in the header.\<close>

theorem block_metadata_of_serialized:
  assumes "length hdr = 80" "txs \<noteq> []" "list_all tx_ok txs"
    and "length (hdr @ compact (length txs) @ concat (map ser_full txs) @ post) < 2 ^ 64"
  shows "ParseBlockMetadata hw (hdr @ compact (length txs) @ concat (map ser_full txs) @ post) = Parsed (block_of hw hdr txs)"
  by (rule ParseBlockMetadata_serialized [OF assms])

definition sample_tx :: "byte list list list option \<Rightarrow> Tx" where
  "sample_tx w = \<lparr>tx_version = 2, tx_ins = [\<lparr>in_outpoint = replicate 36 5, in_script = [0x51], in_sequence = [255, 255, 255, 255]\<rparr>],
     tx_outs = [\<lparr>out_value = 50, out_script = [0x6A, 0x01]\<rparr>], tx_witness = w, tx_lock = [0, 0, 0, 0]\<rparr>"

theorem block_metadata_of_serialized_witness:
  "ParseBlockMetadata None (replicate 80 7 @ compact (length [sample_tx None, sample_tx (Some [[[1, 2], []]])])
      @ concat (map ser_full [sample_tx None, sample_tx (Some [[[1, 2], []]])]) @ [9])
    = Parsed (block_of None (replicate 80 7) [sample_tx None, sample_tx (Some [[[1, 2], []]])])"
proof (rule block_metadata_of_serialized)
  have "length (ser_full (sample_tx None)) \<le> 100" "length (ser_full (sample_tx (Some [[[1, 2], []]]))) \<le> 150"
    using length_compact [of "Suc 0"] length_compact [of 2] length_compact [of 0] length_compact [of "Suc (Suc 0)"]
    by (simp_all add: sample_tx_def ser_full_def ser_base_def ser_ins_def ser_outs_def ser_in_def ser_out_def ser_stack_def sized_def
        AppendLittleEndian_simp(2))
  then show "length (replicate 80 7 @ compact (length [sample_tx None, sample_tx (Some [[[1, 2], []]])])
      @ concat (map ser_full [sample_tx None, sample_tx (Some [[[1, 2], []]])]) @ [9]) < 2 ^ 64"
    using length_compact [of "Suc (Suc 0)"] by simp
qed (simp_all add: sample_tx_def tx_ok_def)

text \<open>The serialised form of a \<open>headers\<close> message is parsed to one header per entry, in order, with consecutive heights from the
  locator height on.\<close>

theorem headers_of_serialized:
  assumes "hdrs \<noteq> []" "list_all (\<lambda>h. length h = 80) hdrs"
    and "length (compact (length hdrs) @ concat (map (\<lambda>h. h @ [0]) hdrs) @ post) < 2 ^ 64"
  shows "ParseHeadersPayload hw (compact (length hdrs) @ concat (map (\<lambda>h. h @ [0]) hdrs) @ post) lh [] []
    = (Success [], map hd_hash_hex (headers_of hw lh 0 hdrs), headers_of hw lh 0 hdrs)"
  by (rule ParseHeadersPayload_serialized [OF assms])

theorem headers_of_serialized_witness:
  "ParseHeadersPayload hw (compact (length [replicate 80 1, replicate 80 (2 :: byte)]) @ concat (map (\<lambda>h. h @ [0]) [replicate 80 1, replicate 80 2]) @ []) 7 [] []
    = (Success [], map hd_hash_hex (headers_of hw 7 0 [replicate 80 1, replicate 80 2]), headers_of hw 7 0 [replicate 80 1, replicate 80 2])"
  using length_compact [of "Suc (Suc 0)"] by (intro headers_of_serialized) simp_all

text \<open>A block of 131 bytes whose script length is \<open>2 ^ 64 - 131\<close> makes the sum in \<open>read_bytes\<close> wrap to offset 0; the transaction
  then ends before it begins and the copy of its bytes is undefined.\<close>

theorem block_offset_wraps:
  "length overlong_block = 131 \<and> ParseBlockMetadata hw overlong_block = Undefined"
  by (simp add: overlong_length overlong_undefined)

end
