(* ===== verification/BitcoinSync.thy ===== *)
theory BitcoinSync
  imports BitcoinBlocks Node
begin

text \<open>
  The live client and the header adapter of \<open>src/Blocxxi/Bitcoin/adapter.cpp\<close>. The resolver, the peers and the text form of
  addresses are parameters: a peer is its address and, when the connection succeeds, the socket. The files below the state
  root are a record. \<open>utc\<close> gives the clock of the node at the commits of one call, \<open>now\<close> the one of the version message.
\<close>

section \<open>Reading messages\<close>

lemma ok_simps [simp]: "status_ok (Success m)" "\<not> status_ok (Failure Rejected m)" "\<not> status_ok (Failure InvalidArgument m)"
  "\<not> status_ok (Failure IOError m)"
  by (simp_all add: status_ok_def Success_def Failure_def)

definition ReadTrackedMessage :: "ShaNi option \<Rightarrow> TcpSocket \<Rightarrow> string list \<Rightarrow> DecodedMessage option \<times> TcpSocket \<times> string list" where
  "ReadTrackedMessage hw sk trace =
     (case ReadMessage hw sk of (None, sk) \<Rightarrow> (None, sk, trace)
      | (Some m, sk) \<Rightarrow> (Some m, sk, trace @ [dm_command m]))"

definition unread :: "TcpSocket \<Rightarrow> nat" where
  "unread sk = length (concat (sk_segments sk))"

lemma read_loop_length: "read_loop n buf segments = (r, segments') \<Longrightarrow>
   length (concat segments') \<le> length (concat segments) \<and>
   (length buf \<le> n \<longrightarrow> r \<noteq> None \<longrightarrow> length (the r) = n \<and> length (concat segments') + n = length (concat segments) + length buf)"
proof (induction n buf segments rule: read_loop.induct)
  case (2 n buf s segments)
  then show ?case by (auto split: if_splits)
qed (auto split: if_splits)

lemma ReadExact_unread: "ReadExact sk n = (Some b, sk') \<Longrightarrow> unread sk' + n = unread sk \<and> length b = n"
  using read_loop_length [of n "[]" "sk_segments sk"] by (auto simp: ReadExact_def unread_def split: prod.splits)

lemma ReadMessage_unread: "ReadMessage hw sk = (Some m, sk') \<Longrightarrow> unread sk' + 24 \<le> unread sk"
  by (auto simp: ReadMessage_def Let_def split: prod.splits option.splits if_splits dest!: ReadExact_unread)

lemma SendMessage_unread [simp]: "SendMessage hw sk cmd body = (r, sk') \<Longrightarrow> unread sk' = unread sk"
  by (auto simp: SendMessage_def unread_def split: if_splits)

function ReadNextNonPingMessage :: "ShaNi option \<Rightarrow> TcpSocket \<Rightarrow> string list \<Rightarrow> DecodedMessage option \<times> TcpSocket \<times> string list" where
  "ReadNextNonPingMessage hw sk trace =
     (case ReadTrackedMessage hw sk trace of
        (None, sk, trace) \<Rightarrow> (None, sk, trace)
      | (Some m, sk, trace) \<Rightarrow>
          if dm_command m \<noteq> ''ping'' then (Some m, sk, trace)
          else (case SendMessage hw sk ''pong'' (dm_payload m) of
              (False, sk) \<Rightarrow> (None, sk, trace)
            | (True, sk) \<Rightarrow> ReadNextNonPingMessage hw sk trace))"
  by auto
termination
  by (relation "measure (\<lambda>(hw, sk, trace). unread sk)")
     (auto simp: ReadTrackedMessage_def split: prod.splits option.splits dest!: ReadMessage_unread SendMessage_unread [OF sym])

declare ReadNextNonPingMessage.simps [simp del]

section \<open>The handshake\<close>

text \<open>The first four bytes of the peer's version payload, when there are as many, are its protocol version.\<close>

function handshake_loop :: "ShaNi option \<Rightarrow> bool \<Rightarrow> bool \<Rightarrow> TcpSocket \<Rightarrow> 32 word \<Rightarrow> string list \<Rightarrow> bool \<times> TcpSocket \<times> 32 word \<times> string list" where
  "handshake_loop hw saw_version saw_verack sk protocol trace =
     (if saw_version \<and> saw_verack then (True, sk, protocol, trace)
      else case ReadTrackedMessage hw sk trace of
        (None, sk, trace) \<Rightarrow> (False, sk, protocol, trace)
      | (Some m, sk, trace) \<Rightarrow>
          if dm_command m = ''version'' then
            let protocol = (if length (dm_payload m) \<ge> 4 then word_of_nat (load_le (dm_payload m) 0 4) else protocol) in
            (case SendMessage hw sk ''verack'' [] of
               (False, sk) \<Rightarrow> (False, sk, protocol, trace)
             | (True, sk) \<Rightarrow> handshake_loop hw True saw_verack sk protocol trace)
          else if dm_command m = ''ping'' then
            (case SendMessage hw sk ''pong'' (dm_payload m) of
               (False, sk) \<Rightarrow> (False, sk, protocol, trace)
             | (True, sk) \<Rightarrow> handshake_loop hw saw_version saw_verack sk protocol trace)
          else handshake_loop hw saw_version (if dm_command m = ''verack'' then True else saw_verack) sk protocol trace)"
  by auto
termination
  by (relation "measure (\<lambda>(hw, a, b, sk, p, trace). unread sk)")
     (auto simp: ReadTrackedMessage_def split: prod.splits option.splits dest!: ReadMessage_unread SendMessage_unread [OF sym])

declare handshake_loop.simps [simp del]

definition CompleteVersionHandshake :: "ShaNi option \<Rightarrow> (string \<Rightarrow> TcpAddress res) \<Rightarrow> u64 \<Rightarrow> TcpSocket \<Rightarrow> string \<Rightarrow> u16 \<Rightarrow> 32 word
    \<Rightarrow> string list \<Rightarrow> (bool \<times> TcpSocket \<times> 32 word \<times> string list) res" where
  "CompleteVersionHandshake hw make_address now sk remote_address port protocol trace =
     rbind (EncodeVersionPayload make_address now remote_address port) (\<lambda>version.
       Inr (case SendMessage hw sk ''version'' version of
          (False, sk) \<Rightarrow> (False, sk, protocol, trace)
        | (True, sk) \<Rightarrow> handshake_loop hw False False sk protocol trace))"

section \<open>Fetching headers\<close>

record SignetLiveOptions =
  lo_host :: string
  lo_port :: u16
  lo_locator_hash_hex :: string
  lo_locator_height :: u32
  lo_state_root :: string

record SignetHeadersResult =
  hr_peer_address :: string
  hr_protocol_version :: "32 word"
  hr_command_trace :: "string list"
  hr_header_hashes :: "string list"
  hr_headers :: "Header list"

definition SignetHeadersResult_new :: SignetHeadersResult where
  "SignetHeadersResult_new = \<lparr>hr_peer_address = [], hr_protocol_version = 0, hr_command_trace = [], hr_header_hashes = [], hr_headers = []\<rparr>"

record Net =
  net_make_address :: "string \<Rightarrow> TcpAddress res"
  net_resolve :: "string \<Rightarrow> u16 \<Rightarrow> (string \<times> TcpSocket option) list option"
  net_now :: u64

lemma ReadNextNonPing_unread:
  "ReadNextNonPingMessage hw sk trace = (Some m, sk', trace') \<Longrightarrow> unread sk' < unread sk"
proof (induction hw sk trace rule: ReadNextNonPingMessage.induct)
  case (1 hw sk trace)
  obtain mo sk1 tr1 where r: "ReadTrackedMessage hw sk trace = (mo, sk1, tr1)" by (metis prod_cases3)
  then obtain m1 where mo: "mo = Some m1" using 1(2) by (cases mo) (auto simp: ReadNextNonPingMessage.simps [of hw sk])
  have u1: "unread sk1 < unread sk"
    using r mo by (auto simp: ReadTrackedMessage_def split: prod.splits option.splits dest!: ReadMessage_unread)
  show ?case
  proof (cases "dm_command m1 = ''ping''")
    case True
    obtain b sk2 where s: "SendMessage hw sk1 ''pong'' (dm_payload m1) = (b, sk2)" by fastforce
    then have "b" "ReadNextNonPingMessage hw sk2 tr1 = (Some m, sk', trace')"
      using 1(2) r mo True by (auto simp: ReadNextNonPingMessage.simps [of hw sk] split: bool.splits)
    then show ?thesis using 1(1) [OF r [symmetric] mo refl _ s [symmetric]] True SendMessage_unread [OF s] u1 by simp
  next
    case False
    then show ?thesis using 1(2) r mo u1 by (simp add: ReadNextNonPingMessage.simps [of hw sk])
  qed
qed

text \<open>The inner loop of \<open>FetchHeaders\<close>: \<open>None\<close> when the connection ends, otherwise the status of the first \<open>headers\<close> message.\<close>

function fetch_headers_loop :: "ShaNi option \<Rightarrow> u32 \<Rightarrow> TcpSocket \<Rightarrow> SignetHeadersResult \<Rightarrow> Status option \<times> SignetHeadersResult" where
  "fetch_headers_loop hw locator_height sk res =
     (case ReadNextNonPingMessage hw sk (hr_command_trace res) of
        (None, sk, trace) \<Rightarrow> (None, res\<lparr>hr_command_trace := trace\<rparr>)
      | (Some m, sk, trace) \<Rightarrow>
          let res = res\<lparr>hr_command_trace := trace\<rparr> in
          if dm_command m = ''headers'' then
            let (status, hashes, headers) = ParseHeadersPayload hw (dm_payload m) locator_height (hr_header_hashes res) (hr_headers res) in
            (Some status, res\<lparr>hr_header_hashes := hashes, hr_headers := headers\<rparr>)
          else fetch_headers_loop hw locator_height sk res)"
  by auto
termination
  by (relation "measure (\<lambda>(hw, h, sk, res). unread sk)") (auto dest!: ReadNextNonPing_unread [OF sym])

declare fetch_headers_loop.simps [simp del]

fun header_peers :: "ShaNi option \<Rightarrow> Net \<Rightarrow> SignetLiveOptions \<Rightarrow> byte list \<Rightarrow> (string \<times> TcpSocket option) list \<Rightarrow> SignetHeadersResult
    \<Rightarrow> (Status \<times> SignetHeadersResult) res" where
  "header_peers hw net options getheaders [] res = Inr (Failure IOError ''failed to complete live signet headers fetch'', res)"
| "header_peers hw net options getheaders ((remote_address, None) # endpoints) res = header_peers hw net options getheaders endpoints res"
| "header_peers hw net options getheaders ((remote_address, Some sk) # endpoints) _ =
     rbind (CompleteVersionHandshake hw (net_make_address net) (net_now net) sk remote_address (lo_port options) 0 [])
       (\<lambda>(ready, sk, protocol, trace).
         let res = SignetHeadersResult_new\<lparr>hr_protocol_version := protocol, hr_command_trace := trace\<rparr> in
         if \<not> ready then header_peers hw net options getheaders endpoints res
         else case SendMessage hw sk ''getheaders'' getheaders of
           (False, sk) \<Rightarrow> header_peers hw net options getheaders endpoints res
         | (True, sk) \<Rightarrow>
             (case fetch_headers_loop hw (lo_locator_height options) sk res of
                (None, res) \<Rightarrow> header_peers hw net options getheaders endpoints res
              | (Some status, res) \<Rightarrow>
                  if \<not> status_ok status then Inr (status, res)
                  else Inr (Success [], res\<lparr>hr_peer_address := remote_address\<rparr>)))"

definition FetchHeaders :: "ShaNi option \<Rightarrow> Net \<Rightarrow> SignetLiveOptions \<Rightarrow> SignetHeadersResult \<Rightarrow> (Status \<times> SignetHeadersResult) res" where
  "FetchHeaders hw net options res =
     (case net_resolve net (lo_host options) (lo_port options) of
        None \<Rightarrow> Inr (Failure IOError ''failed to resolve signet host'', res)
      | Some endpoints \<Rightarrow>
          (case EncodeGetHeadersPayload (lo_locator_hash_hex options) of
             None \<Rightarrow> Inr (Failure InvalidArgument ''invalid signet locator hash'', res)
           | Some getheaders \<Rightarrow> header_peers hw net options getheaders endpoints res))"

section \<open>Fetching blocks\<close>

text \<open>
  The files below a state root: the import state, the block cache by file name, and whether directories and files can be
  created there.
\<close>

record SyncFiles =
  sf_import :: "string option"
  sf_cache :: "string \<Rightarrow> byte list option"
  sf_writable :: bool

type_synonym Disk = "string \<Rightarrow> SyncFiles"

record SignetBlocksResult =
  br_peer_address :: string
  br_protocol_version :: "32 word"
  br_command_trace :: "string list"
  br_blocks :: "BlockBody list"
  br_metadata :: "BlockMetadata list"

definition SignetBlocksResult_new :: SignetBlocksResult where
  "SignetBlocksResult_new = \<lparr>br_peer_address = [], br_protocol_version = 0, br_command_trace = [], br_blocks = [], br_metadata = []\<rparr>"

definition parse_block :: "ShaNi option \<Rightarrow> byte list \<Rightarrow> BlockBody option \<times> BlockMetadata parsed" where
  "parse_block hw data = (ParseBlockPayload hw data, ParseBlockMetadata hw data)"

text \<open>The cache answers when every block is there and can be parsed.\<close>

fun cached_blocks :: "ShaNi option \<Rightarrow> (string \<Rightarrow> byte list option) \<Rightarrow> string list \<Rightarrow> SignetBlocksResult \<Rightarrow> SignetBlocksResult option res" where
  "cached_blocks hw cache [] res = Inr (Some res)"
| "cached_blocks hw cache (h # hashes) res =
     (case cache (h @ ''.blk'') of None \<Rightarrow> Inr None
      | Some data \<Rightarrow>
          (case parse_block hw data of
             (_, Undefined) \<Rightarrow> Inl UndefinedBehaviour
           | (Some block, Parsed metadata) \<Rightarrow>
               cached_blocks hw cache hashes (res\<lparr>br_blocks := br_blocks res @ [block], br_metadata := br_metadata res @ [metadata]\<rparr>)
           | _ \<Rightarrow> Inr None))"

function blocks_loop :: "ShaNi option \<Rightarrow> nat \<Rightarrow> TcpSocket \<Rightarrow> SignetBlocksResult \<Rightarrow> (Status \<times> SignetBlocksResult) res" where
  "blocks_loop hw n sk res =
     (if length (br_blocks res) < n then
        (case ReadNextNonPingMessage hw sk (br_command_trace res) of
           (None, sk, trace) \<Rightarrow> Inr (Success [], res\<lparr>br_command_trace := trace\<rparr>)
         | (Some m, sk, trace) \<Rightarrow>
             let res = res\<lparr>br_command_trace := trace\<rparr> in
             if dm_command m = ''block'' then
               (case ParseBlockPayload hw (dm_payload m) of
                  None \<Rightarrow> Inr (Failure Rejected ''received malformed block payload'', res)
                | Some block \<Rightarrow>
                    (case ParseBlockMetadata hw (dm_payload m) of
                       Refused \<Rightarrow> Inr (Failure Rejected ''received block with unreadable metadata'', res)
                     | Undefined \<Rightarrow> Inl UndefinedBehaviour
                     | Parsed metadata \<Rightarrow>
                         blocks_loop hw n sk (res\<lparr>br_blocks := br_blocks res @ [block], br_metadata := br_metadata res @ [metadata]\<rparr>)))
             else blocks_loop hw n sk res)
      else Inr (Success [], res))"
  by auto
termination
  by (relation "measure (\<lambda>(hw, n, sk, res). unread sk)") (auto dest!: ReadNextNonPing_unread [OF sym])

declare blocks_loop.simps [simp del]

definition PersistFetchedBlocks :: "string \<Rightarrow> SignetBlocksResult \<Rightarrow> Disk \<Rightarrow> Disk" where
  "PersistFetchedBlocks state_root res disk =
     (if state_root = [] \<or> br_blocks res = [] then disk
      else if \<not> sf_writable (disk state_root) then disk
      else disk(state_root := (disk state_root)\<lparr>sf_cache :=
             fold (\<lambda>block cache. cache(bb_block_hash_hex block @ ''.blk'' \<mapsto> bb_payload block)) (br_blocks res)
               (sf_cache (disk state_root))\<rparr>))"

fun block_peers :: "ShaNi option \<Rightarrow> Net \<Rightarrow> SignetLiveOptions \<Rightarrow> nat \<Rightarrow> byte list \<Rightarrow> (string \<times> TcpSocket option) list \<Rightarrow> SignetBlocksResult
    \<Rightarrow> Disk \<Rightarrow> (Status \<times> SignetBlocksResult \<times> Disk) res" where
  "block_peers hw net options n getdata [] res disk = Inr (Failure IOError ''failed to complete live signet block retrieval'', res, disk)"
| "block_peers hw net options n getdata ((remote_address, None) # endpoints) res disk =
     block_peers hw net options n getdata endpoints res disk"
| "block_peers hw net options n getdata ((remote_address, Some sk) # endpoints) _ disk =
     rbind (CompleteVersionHandshake hw (net_make_address net) (net_now net) sk remote_address (lo_port options) 0 [])
       (\<lambda>(ready, sk, protocol, trace).
         let res = SignetBlocksResult_new\<lparr>br_protocol_version := protocol, br_command_trace := trace\<rparr> in
         if \<not> ready then block_peers hw net options n getdata endpoints res disk
         else case SendMessage hw sk ''getdata'' getdata of
           (False, sk) \<Rightarrow> block_peers hw net options n getdata endpoints res disk
         | (True, sk) \<Rightarrow>
             rbind (blocks_loop hw n sk res) (\<lambda>(status, res).
               if \<not> status_ok status then Inr (status, res, disk)
               else if length (br_blocks res) = n then
                 let res = res\<lparr>br_peer_address := remote_address\<rparr> in
                 Inr (Success [], res, PersistFetchedBlocks (lo_state_root options) res disk)
               else block_peers hw net options n getdata endpoints res disk))"

definition FetchBlocks :: "ShaNi option \<Rightarrow> Net \<Rightarrow> SignetLiveOptions \<Rightarrow> string list \<Rightarrow> SignetBlocksResult \<Rightarrow> Disk
    \<Rightarrow> (Status \<times> SignetBlocksResult \<times> Disk) res" where
  "FetchBlocks hw net options block_hashes res disk =
     (if block_hashes = [] then Inr (Failure InvalidArgument ''at least one block hash is required'', res, disk)
      else
        let cached_res = SignetBlocksResult_new\<lparr>br_peer_address := ''cache''\<rparr> in
        rbind (if lo_state_root options \<noteq> []
               then cached_blocks hw (sf_cache (disk (lo_state_root options))) block_hashes cached_res else Inr None) (\<lambda>cached.
        case cached of
          Some res \<Rightarrow> Inr (Success [], res\<lparr>br_command_trace := br_command_trace res @ [''cache'']\<rparr>, disk)
        | None \<Rightarrow>
            let res = (if lo_state_root options \<noteq> [] then SignetBlocksResult_new else cached_res) in
            (case EncodeGetDataPayload block_hashes of
               None \<Rightarrow> Inr (Failure InvalidArgument ''invalid block hash for getdata'', res, disk)
             | Some getdata \<Rightarrow>
                 (case net_resolve net (lo_host options) (lo_port options) of
                    None \<Rightarrow> Inr (Failure IOError ''failed to resolve signet host'', res, disk)
                  | Some endpoints \<Rightarrow> block_peers hw net options (length block_hashes) getdata endpoints res disk))))"

section \<open>What the handshake sends\<close>

definition reply_to :: "ShaNi option \<Rightarrow> DecodedMessage \<Rightarrow> byte list" where
  "reply_to hw m = (if dm_command m = ''version'' then EncodeMessage hw ''verack'' []
     else if dm_command m = ''ping'' then EncodeMessage hw ''pong'' (dm_payload m) else [])"

text \<open>
  The bytes of a message on the wire, written without the encoder and the reader: the magic of the network, twelve bytes whose
  part before the first zero is the command, the length of the payload, four bytes of its double hash, and the payload.
\<close>

definition wire_message :: "ShaNi option \<Rightarrow> DecodedMessage \<Rightarrow> byte list \<Rightarrow> bool" where
  "wire_message hw m bytes \<longleftrightarrow> (\<exists>cmd size. length cmd = 12 \<and> length size = 4
     \<and> bytes = kSignetMagic @ cmd @ size @ take 4 (DoubleSha256 hw (dm_payload m)) @ dm_payload m
     \<and> (\<Sum>i<4. unat (size ! i) * 256 ^ i) = length (dm_payload m)
     \<and> dm_command m = map char_of_byte (takeWhile (\<lambda>b. b \<noteq> 0) cmd))"

lemma read_loop_consumes:
  "read_loop n buf segments = (Some b, segments') \<Longrightarrow> buf @ concat segments = b @ concat segments'"
proof (induction n buf segments rule: read_loop.induct)
  case (2 n buf s segments)
  then show ?case by (auto split: if_splits)
qed (auto split: if_splits)

lemma ReadExact_consumes:
  "ReadExact sk n = (Some b, sk') \<Longrightarrow> concat (sk_segments sk) = b @ concat (sk_segments sk') \<and> length b = n"
  using read_loop_consumes [of n "[]" "sk_segments sk"] ReadExact_unread [of sk n b sk']
  by (auto simp: ReadExact_def split: prod.splits)

lemma split_header:
  "length hdr = 24 \<Longrightarrow> take 4 hdr = a \<Longrightarrow> drop 20 hdr = d \<Longrightarrow> hdr = a @ take 12 (drop 4 hdr) @ take 4 (drop 16 hdr) @ d"
proof -
  assume h: "length hdr = 24" "take 4 hdr = a" "drop 20 hdr = d"
  have "hdr = take 4 hdr @ drop 4 hdr" "drop 4 hdr = take 12 (drop 4 hdr) @ drop 16 hdr" "drop 16 hdr = take 4 (drop 16 hdr) @ drop 20 hdr"
    using append_take_drop_id [of 12 "drop 4 hdr"] append_take_drop_id [of 4 "drop 16 hdr"] by simp_all
  then show "hdr = a @ take 12 (drop 4 hdr) @ take 4 (drop 16 hdr) @ d" using h(2,3) by (metis append_assoc)
qed

lemma ReadMessage_consumes:
  assumes "ReadMessage hw sk = (Some m, sk')"
  shows "\<exists>w. wire_message hw m w \<and> concat (sk_segments sk) = w @ concat (sk_segments sk')"
proof -
  obtain hdr sk1 where h: "ReadExact sk 24 = (Some hdr, sk1)" and magic: "take 4 hdr = kSignetMagic"
    and b: "ReadExact sk1 (load_le hdr 16 4) = (Some (dm_payload m), sk')" "take 4 (DoubleSha256 hw (dm_payload m)) = drop 20 hdr"
    and c: "dm_command m = map char_of_byte (takeWhile (\<lambda>b. b \<noteq> 0) (take 12 (drop 4 hdr)))"
    using assms by (auto simp: ReadMessage_def Let_def split: prod.splits option.splits if_splits)
  note h' = ReadExact_consumes [OF h] and b' = ReadExact_consumes [OF b(1)]
  let ?cmd = "take 12 (drop 4 hdr)" and ?size = "take 4 (drop 16 hdr)"
  have "(\<Sum>i<4. unat (?size ! i) * 256 ^ i) = load_le hdr 16 4"
    using h' by (simp add: load_le_def)
  moreover have "hdr @ dm_payload m = kSignetMagic @ ?cmd @ ?size @ take 4 (DoubleSha256 hw (dm_payload m)) @ dm_payload m"
    using split_header [of hdr, OF _ magic b(2) [symmetric]] h' by (metis append_assoc)
  ultimately have "wire_message hw m (hdr @ dm_payload m)"
    unfolding wire_message_def using h' b' c
    by (intro exI [of _ ?cmd] exI [of _ ?size]) simp
  then show ?thesis using h' b' by (intro exI [of _ "hdr @ dm_payload m"]) simp
qed

lemma ReadExact_sent: "ReadExact sk n = (r, sk') \<Longrightarrow> sk_writes sk' = sk_writes sk \<and> sk_written sk' = sk_written sk"
  by (auto simp: ReadExact_def split: prod.splits)

lemma ReadMessage_sent: "ReadMessage hw sk = (m, sk') \<Longrightarrow> sk_writes sk' = sk_writes sk \<and> sk_written sk' = sk_written sk"
  by (auto simp: ReadMessage_def Let_def split: prod.splits option.splits if_splits dest!: ReadExact_sent)

lemma ReadTracked_cases:
  assumes "ReadTrackedMessage hw sk trace = (mo, sk', trace')"
  shows "sk_writes sk' = sk_writes sk \<and> sk_written sk' = sk_written sk \<and> (case mo of None \<Rightarrow> trace' = trace | Some m \<Rightarrow> trace' = trace @ [dm_command m])"
  using assms by (auto simp: ReadTrackedMessage_def split: prod.splits option.splits dest: ReadMessage_sent)

lemma SendMessage_written:
  "SendMessage hw sk cmd body = (True, sk') \<Longrightarrow> sk_written sk' = sk_written sk @ EncodeMessage hw cmd body"
  by (auto simp: SendMessage_def split: if_splits)

lemma SendMessage_segments: "SendMessage hw sk cmd body = (b, sk') \<Longrightarrow> sk_segments sk' = sk_segments sk"
  by (auto simp: SendMessage_def split: if_splits)

lemma handshake_loop_replies:
  "handshake_loop hw sv sa sk proto trace = (True, sk', proto', trace') \<Longrightarrow>
   \<exists>ms ws. trace' = trace @ map dm_command ms \<and> list_all2 (wire_message hw) ms ws
     \<and> concat (sk_segments sk) = concat ws @ concat (sk_segments sk') \<and> sk_written sk' = sk_written sk @ concat (map (reply_to hw) ms)
     \<and> (sv \<or> ''version'' \<in> set (map dm_command ms)) \<and> (sa \<or> ''verack'' \<in> set (map dm_command ms))"
proof (induction hw sv sa sk proto trace rule: handshake_loop.induct)
  case (1 hw sv sa sk proto trace)
  show ?case
  proof (cases "sv \<and> sa")
    case True
    then show ?thesis using 1(4) handshake_loop.simps [of hw True True] by (intro exI [of _ "[]"]) auto
  next
    case False
    obtain mo sk1 tr1 where r: "ReadTrackedMessage hw sk trace = (mo, sk1, tr1)" by (metis prod_cases3)
    then obtain m where m: "mo = Some m" using 1(4) False by (cases mo) (auto simp: handshake_loop.simps [of hw sv sa])
    note t = ReadTracked_cases [OF r]
    have "ReadMessage hw sk = (Some m, sk1)"
      using r m by (auto simp: ReadTrackedMessage_def split: prod.splits option.splits)
    then obtain w where w: "wire_message hw m w" "concat (sk_segments sk) = w @ concat (sk_segments sk1)"
      using ReadMessage_consumes by blast
    have step: "\<exists>ms ws. trace' = trace @ map dm_command ms \<and> list_all2 (wire_message hw) ms ws
        \<and> concat (sk_segments sk) = concat ws @ concat (sk_segments sk') \<and> sk_written sk' = sk_written sk @ concat (map (reply_to hw) ms)
        \<and> (sv \<or> ''version'' \<in> set (map dm_command ms)) \<and> (sa \<or> ''verack'' \<in> set (map dm_command ms))"
      if "trace' = tr1 @ map dm_command ms" "list_all2 (wire_message hw) ms ws"
        "concat (sk_segments sk1) = concat ws @ concat (sk_segments sk')" "sk_written sk' = (sk_written sk1 @ reply_to hw m) @ concat (map (reply_to hw) ms)"
        "sv \<or> dm_command m = ''version'' \<or> ''version'' \<in> set (map dm_command ms)"
        "sa \<or> dm_command m = ''verack'' \<or> ''verack'' \<in> set (map dm_command ms)" for ms ws
      using that t m w by (intro exI [of _ "m # ms"] exI [of _ "w # ws"]) auto
    consider "dm_command m = ''version''" | "dm_command m = ''ping''" | "dm_command m \<noteq> ''version''" "dm_command m \<noteq> ''ping''" by blast
    then show ?thesis
    proof cases
      case 1
      obtain b sk2 where s: "SendMessage hw sk1 ''verack'' [] = (b, sk2)" by fastforce
      define p where "p = (if length (dm_payload m) \<ge> 4 then word_of_nat (load_le (dm_payload m) 0 4) else proto)"
      have b: "b" and h: "handshake_loop hw True sa sk2 p tr1 = (True, sk', proto', trace')"
        using "1.prems" False r m 1 s
        by (auto simp: handshake_loop.simps [of hw sv sa] handshake_loop.simps [of hw True sa sk] p_def Let_def split: bool.splits)
      have q: "sk_written sk2 = sk_written sk1 @ reply_to hw m" "sk_segments sk2 = sk_segments sk1"
        using s b 1 by (auto simp: reply_to_def dest: SendMessage_written SendMessage_segments)
      obtain ms ws where "trace' = tr1 @ map dm_command ms" "list_all2 (wire_message hw) ms ws"
        "concat (sk_segments sk2) = concat ws @ concat (sk_segments sk')" "sk_written sk' = sk_written sk2 @ concat (map (reply_to hw) ms)"
        "sa \<or> ''verack'' \<in> set (map dm_command ms)"
        using "1.IH"(1) [OF False r [symmetric] m refl _ p_def s [symmetric]] b h 1 by auto
      then show ?thesis using q 1 by (intro step [of ms ws]) auto
    next
      case 2
      obtain b sk2 where s: "SendMessage hw sk1 ''pong'' (dm_payload m) = (b, sk2)" by fastforce
      have b: "b" and h: "handshake_loop hw sv sa sk2 proto tr1 = (True, sk', proto', trace')"
        using "1.prems" False r m 2 s by (auto simp: handshake_loop.simps [of hw sv sa sk] Let_def split: bool.splits)
      have q: "sk_written sk2 = sk_written sk1 @ reply_to hw m" "sk_segments sk2 = sk_segments sk1"
        using s b 2 by (auto simp: reply_to_def dest: SendMessage_written SendMessage_segments)
      obtain ms ws where "trace' = tr1 @ map dm_command ms" "list_all2 (wire_message hw) ms ws"
        "concat (sk_segments sk2) = concat ws @ concat (sk_segments sk')" "sk_written sk' = sk_written sk2 @ concat (map (reply_to hw) ms)"
        "sv \<or> ''version'' \<in> set (map dm_command ms)" "sa \<or> ''verack'' \<in> set (map dm_command ms)"
        using "1.IH"(2) [OF False r [symmetric] m refl _ _ s [symmetric]] b h 2 by auto
      then show ?thesis using q by (intro step [of ms ws]) auto
    next
      case 3
      have h: "handshake_loop hw sv (if dm_command m = ''verack'' then True else sa) sk1 proto tr1 = (True, sk', proto', trace')"
        using "1.prems" False r m 3 by (auto simp: handshake_loop.simps [of hw sv sa sk] Let_def)
      obtain ms ws where "trace' = tr1 @ map dm_command ms" "list_all2 (wire_message hw) ms ws"
        "concat (sk_segments sk1) = concat ws @ concat (sk_segments sk')" "sk_written sk' = sk_written sk1 @ concat (map (reply_to hw) ms)"
        "sv \<or> ''version'' \<in> set (map dm_command ms)" "dm_command m = ''verack'' \<or> sa \<or> ''verack'' \<in> set (map dm_command ms)"
        using "1.IH"(3) [OF False r [symmetric] m refl 3 h] by (auto split: if_splits)
      then show ?thesis using 3 by (intro step [of ms ws]) (auto simp: reply_to_def)
    qed
  qed
qed

section \<open>Hashes the parser makes\<close>

definition hex_header :: "Header \<Rightarrow> bool" where
  "hex_header h \<longleftrightarrow> (\<exists>b. length b = 32 \<and> hd_hash_hex h = WireHashToHex b)"

lemma parse_header_hex: "hex_header (parse_header hw d k)"
  by (auto simp: hex_header_def parse_header_def WireHashToHex_def intro!: exI [of _ "DoubleSha256 hw d"])

lemma headers_loop_hex:
  "headers_loop hw data lh n k offset hs hds = (st, hs', hds') \<Longrightarrow> list_all hex_header hds \<Longrightarrow> list_all hex_header hds'"
proof (induction n arbitrary: k offset hs hds)
  case (Suc n)
  then show ?case by (auto simp: Let_def parse_header_hex split: if_splits option.splits)
qed simp

lemma ParseHeaders_hex:
  "ParseHeadersPayload hw data lh hs hds = (st, hs', hds') \<Longrightarrow> list_all hex_header hds \<Longrightarrow> list_all hex_header hds'"
  by (auto simp: ParseHeadersPayload_def split: option.splits if_splits dest: headers_loop_hex)

lemma fetch_loop_hex:
  "fetch_headers_loop hw lh sk r = (st, r') \<Longrightarrow> list_all hex_header (hr_headers r) \<Longrightarrow> list_all hex_header (hr_headers r')"
proof (induction hw lh sk r rule: fetch_headers_loop.induct)
  case (1 hw lh sk r)
  obtain mo sk1 tr where m: "ReadNextNonPingMessage hw sk (hr_command_trace r) = (mo, sk1, tr)" by (metis prod_cases3)
  show ?case
  proof (cases mo)
    case None
    then show ?thesis using 1(2,3) m by (auto simp: fetch_headers_loop.simps [of hw lh sk])
  next
    case (Some msg)
    show ?thesis
    proof (cases "dm_command msg = ''headers''")
      case True
      then show ?thesis using 1(2,3) m Some ParseHeaders_hex
        by (auto simp: fetch_headers_loop.simps [of hw lh sk] Let_def split: prod.splits)
    next
      case False
      then have "fetch_headers_loop hw lh sk1 (r\<lparr>hr_command_trace := tr\<rparr>) = (st, r')"
        using 1(2) m Some by (simp add: fetch_headers_loop.simps [of hw lh sk] Let_def)
      then show ?thesis using 1(1) [OF m [symmetric] Some refl refl False] 1(3) by simp
    qed
  qed
qed

lemma header_peers_hex:
  "header_peers hw net opts gh es r = Inr (st, r') \<Longrightarrow> status_ok st \<Longrightarrow> list_all hex_header (hr_headers r')"
proof (induction es arbitrary: r)
  case (Cons e es)
  show ?case
  proof (cases "snd e")
    case None
    then show ?thesis using Cons by (cases e) simp
  next
    case (Some sk)
    then obtain ready sk1 proto tr where h: "CompleteVersionHandshake hw (net_make_address net) (net_now net) sk (fst e) (lo_port opts) 0 []
        = Inr (ready, sk1, proto, tr)"
      using Cons.prems(1) by (cases e) (auto simp: rbind_eq_Inr)
    define r1 where "r1 = SignetHeadersResult_new\<lparr>hr_protocol_version := proto, hr_command_trace := tr\<rparr>"
    have r1: "list_all hex_header (hr_headers r1)" by (simp add: r1_def SignetHeadersResult_new_def)
    obtain b sk2 where s: "SendMessage hw sk1 ''getheaders'' gh = (b, sk2)" by fastforce
    obtain so r2 where f: "fetch_headers_loop hw (lo_locator_height opts) sk2 r1 = (so, r2)" by fastforce
    have "list_all hex_header (hr_headers r2)" by (rule fetch_loop_hex [OF f r1])
    moreover have "header_peers hw net opts gh (e # es) r = (if \<not> ready \<or> \<not> b then header_peers hw net opts gh es r1
      else case so of None \<Rightarrow> header_peers hw net opts gh es r2
        | Some status \<Rightarrow> if \<not> status_ok status then Inr (status, r2) else Inr (Success [], r2\<lparr>hr_peer_address := fst e\<rparr>))"
      using Some h s f by (cases e) (simp add: Let_def r1_def [symmetric] split: bool.splits option.splits)
    ultimately show ?thesis using Cons by (auto split: if_splits option.splits)
  qed
qed auto

lemma FetchHeaders_hex:
  "FetchHeaders hw net opts r = Inr (st, r') \<Longrightarrow> status_ok st \<Longrightarrow> list_all hex_header (hr_headers r')"
  by (auto simp: FetchHeaders_def split: option.splits dest: header_peers_hex)

lemma hex_no_newline: "CHR 0x0A \<notin> set (WireHashToHex b)"
proof -
  have "list_all (\<lambda>h. btc_digits ! h \<noteq> CHR 0x0A) [0..<16]" by code_simp
  then have d: "h < 16 \<Longrightarrow> btc_digits ! h \<noteq> CHR 0x0A" for h by (auto simp: list_all_iff)
  have m: "(0x0F :: byte) = mask 4" by (simp add: mask_eq_exp_minus_1)
  have "x AND 0x0F = take_bit 4 x" for x :: byte unfolding m take_bit_eq_mask ..
  then have "unat (x AND 0x0F) < 16" for x :: byte by (simp only: unsigned_take_bit_eq) (simp add: take_bit_eq_mod)
  then show ?thesis using d by (auto simp: WireHashToHex_def btc_ToHex_def dest!: sym [of "CHR 0x0A"])
qed

definition frame_ok :: "DecodedMessage \<Rightarrow> bool" where
  "frame_ok m \<longleftrightarrow> length (dm_command m) \<le> 12 \<and> CHR 0x00 \<notin> set (dm_command m) \<and> length (dm_payload m) < 2 ^ 32"

definition frames :: "ShaNi option \<Rightarrow> DecodedMessage list \<Rightarrow> byte list" where
  "frames hw ms = concat (map (\<lambda>m. EncodeMessage hw (dm_command m) (dm_payload m)) ms)"

lemma read_frame:
  assumes "concat (sk_segments sk) = frames hw (m # ms) @ t" "frame_ok m"
  obtains sk' where "ReadTrackedMessage hw sk trace = (Some m, sk', trace @ [dm_command m])"
    "concat (sk_segments sk') = frames hw ms @ t" "sk_writes sk' = sk_writes sk"
proof -
  have "concat (sk_segments sk) = EncodeMessage hw (dm_command m) (dm_payload m) @ (frames hw ms @ t)"
    using assms(1) by (simp add: frames_def)
  with assms(2) obtain sk' where "ReadMessage hw sk = (Some \<lparr>dm_command = dm_command m, dm_payload = dm_payload m\<rparr>, sk')"
    "concat (sk_segments sk') = frames hw ms @ t" "sk_writes sk' = sk_writes sk"
    by (metis ReadMessage_frame frame_ok_def)
  then show thesis by (intro that [of sk']) (simp_all add: ReadTrackedMessage_def)
qed

lemma send_ok: "0 < sk_writes sk \<Longrightarrow> \<exists>sk'. SendMessage hw sk cmd body = (True, sk') \<and> sk_segments sk' = sk_segments sk \<and> Suc (sk_writes sk') = sk_writes sk"
  by (simp add: SendMessage_def)

lemma handshake_loop_frames:
  "concat (sk_segments sk) = frames hw ms @ t \<Longrightarrow> list_all frame_ok ms \<Longrightarrow> length ms \<le> sk_writes sk \<Longrightarrow>
   sv \<or> ''version'' \<in> set (map dm_command ms) \<Longrightarrow> sa \<or> ''verack'' \<in> set (map dm_command ms) \<Longrightarrow>
   \<exists>ms1 ms2 sk' proto' trace'. ms = ms1 @ ms2 \<and> handshake_loop hw sv sa sk proto trace = (True, sk', proto', trace')
     \<and> concat (sk_segments sk') = frames hw ms2 @ t \<and> length ms2 + sk_writes sk \<le> sk_writes sk' + length ms"
proof (induction ms arbitrary: sv sa sk proto trace)
  case Nil
  then show ?case by (intro exI [of _ "[]"] exI [of _ sk] exI [of _ proto] exI [of _ trace]) (simp add: handshake_loop.simps)
next
  case (Cons m ms)
  show ?case
  proof (cases "sv \<and> sa")
    case True
    then show ?thesis using Cons.prems
      by (intro exI [of _ "[]"] exI [of _ "m # ms"] exI [of _ sk] exI [of _ proto] exI [of _ trace]) (simp add: handshake_loop.simps)
  next
    case False
    obtain sk1 where r: "ReadTrackedMessage hw sk trace = (Some m, sk1, trace @ [dm_command m])"
      "concat (sk_segments sk1) = frames hw ms @ t" "sk_writes sk1 = sk_writes sk"
      using Cons.prems by (auto intro: read_frame [of sk hw m ms t])
    have w: "0 < sk_writes sk1" using Cons.prems(3) r(3) by simp
    have step: ?thesis
      if h: "handshake_loop hw sv sa sk proto trace = handshake_loop hw sv' sa' sk2 p (trace @ [dm_command m])"
        "concat (sk_segments sk2) = frames hw ms @ t" "sk_writes sk \<le> Suc (sk_writes sk2)"
        "sv' \<or> ''version'' \<in> set (map dm_command ms)" "sa' \<or> ''verack'' \<in> set (map dm_command ms)" for sv' sa' sk2 p
    proof -
      have "list_all frame_ok ms" "length ms \<le> sk_writes sk2" using Cons.prems(2,3) h(3) by simp_all
      from Cons.IH [OF h(2) this h(4,5)] obtain ms1 ms2 sk' proto' trace' where i: "ms = ms1 @ ms2"
        "handshake_loop hw sv' sa' sk2 p (trace @ [dm_command m]) = (True, sk', proto', trace')"
        "concat (sk_segments sk') = frames hw ms2 @ t" "length ms2 + sk_writes sk2 \<le> sk_writes sk' + length ms" by blast
      show ?thesis using i h(1,3)
        by (intro exI [of _ "m # ms1"] exI [of _ ms2] exI [of _ sk'] exI [of _ proto'] exI [of _ trace']) simp
    qed
    consider "dm_command m = ''version''" | "dm_command m = ''ping''" | "dm_command m \<noteq> ''version''" "dm_command m \<noteq> ''ping''" by blast
    then show ?thesis
    proof cases
      case 1
      obtain sk2 where s: "SendMessage hw sk1 ''verack'' [] = (True, sk2)" "sk_segments sk2 = sk_segments sk1" "Suc (sk_writes sk2) = sk_writes sk1"
        using send_ok [OF w] by blast
      show ?thesis
      proof (rule step [of True sa sk2])
        show "handshake_loop hw sv sa sk proto trace
          = handshake_loop hw True sa sk2 (if length (dm_payload m) \<ge> 4 then word_of_nat (load_le (dm_payload m) 0 4) else proto) (trace @ [dm_command m])"
          using False r(1) s(1) 1 by (auto simp: handshake_loop.simps [of hw sv sa sk] Let_def)
      qed (use Cons.prems r s 1 in auto)
    next
      case 2
      obtain sk2 where s: "SendMessage hw sk1 ''pong'' (dm_payload m) = (True, sk2)" "sk_segments sk2 = sk_segments sk1" "Suc (sk_writes sk2) = sk_writes sk1"
        using send_ok [OF w] by blast
      show ?thesis
      proof (rule step [of sv sa sk2])
        show "handshake_loop hw sv sa sk proto trace = handshake_loop hw sv sa sk2 proto (trace @ [dm_command m])"
          using False r(1) s(1) 2 by (auto simp: handshake_loop.simps [of hw sv sa sk] Let_def)
      qed (use Cons.prems r s 2 in auto)
    next
      case 3
      show ?thesis
      proof (rule step [of sv "if dm_command m = ''verack'' then True else sa" sk1])
        show "handshake_loop hw sv sa sk proto trace
          = handshake_loop hw sv (if dm_command m = ''verack'' then True else sa) sk1 proto (trace @ [dm_command m])"
          using False r(1) 3 by (auto simp: handshake_loop.simps [of hw sv sa sk] Let_def)
      qed (use Cons.prems r 3 in auto)
    qed
  qed
qed

section \<open>Headers from a peer\<close>

lemma fetch_loop_frames:
  "concat (sk_segments sk) = frames hw (ms @ [m]) @ t \<Longrightarrow> list_all frame_ok (ms @ [m]) \<Longrightarrow> length ms \<le> sk_writes sk \<Longrightarrow>
   ''headers'' \<notin> set (map dm_command ms) \<Longrightarrow> dm_command m = ''headers'' \<Longrightarrow>
   ParseHeadersPayload hw (dm_payload m) lh (hr_header_hashes r) (hr_headers r) = (st, hs, hds) \<Longrightarrow>
   \<exists>trace. fetch_headers_loop hw lh sk r = (Some st, r\<lparr>hr_command_trace := trace, hr_header_hashes := hs, hr_headers := hds\<rparr>)"
proof (induction ms arbitrary: sk r)
  case Nil
  obtain sk1 where "ReadTrackedMessage hw sk (hr_command_trace r) = (Some m, sk1, hr_command_trace r @ [dm_command m])"
    by (rule read_frame [of sk hw m "[]" t]) (use Nil in simp_all)
  then show ?case using Nil by (auto simp: fetch_headers_loop.simps [of hw lh sk] ReadNextNonPingMessage.simps [of hw sk] Let_def)
next
  case (Cons x ms)
  let ?r = "\<lambda>tr. r\<lparr>hr_command_trace := tr\<rparr>"
  obtain sk1 where r: "ReadTrackedMessage hw sk (hr_command_trace r) = (Some x, sk1, hr_command_trace r @ [dm_command x])"
    "concat (sk_segments sk1) = frames hw (ms @ [m]) @ t" "sk_writes sk1 = sk_writes sk"
    using Cons.prems by (auto intro: read_frame [of sk hw x "ms @ [m]" t])
  have IH: "\<exists>trace. fetch_headers_loop hw lh sk2 (?r tr) = (Some st, (?r tr)\<lparr>hr_command_trace := trace, hr_header_hashes := hs, hr_headers := hds\<rparr>)"
    if "concat (sk_segments sk2) = frames hw (ms @ [m]) @ t" "length ms \<le> sk_writes sk2" for sk2 tr
    using Cons.prems that by (intro Cons.IH) simp_all
  show ?case
  proof (cases "dm_command x = ''ping''")
    case True
    obtain sk2 where s: "SendMessage hw sk1 ''pong'' (dm_payload x) = (True, sk2)" "sk_segments sk2 = sk_segments sk1" "Suc (sk_writes sk2) = sk_writes sk1"
      using send_ok [of sk1] Cons.prems(3) r(3) by fastforce
    have "fetch_headers_loop hw lh sk r = fetch_headers_loop hw lh sk2 (?r (hr_command_trace r @ [dm_command x]))"
      using r(1) s(1) True by (simp add: fetch_headers_loop.simps [of hw lh sk r] fetch_headers_loop.simps [of hw lh sk2] ReadNextNonPingMessage.simps [of hw sk]
          split: prod.split option.split)
    then show ?thesis using IH [of sk2 "hr_command_trace r @ [dm_command x]"] r s Cons.prems(3) by simp
  next
    case False
    then have "fetch_headers_loop hw lh sk r = fetch_headers_loop hw lh sk1 (?r (hr_command_trace r @ [dm_command x]))"
      using r(1) Cons.prems(4) by (auto simp: fetch_headers_loop.simps [of hw lh sk r] ReadNextNonPingMessage.simps [of hw sk] Let_def)
    then show ?thesis using IH [of sk1 "hr_command_trace r @ [dm_command x]"] r Cons.prems(3) by simp
  qed
qed

lemma FetchHeaders_delivers:
  assumes "net_resolve net (lo_host opts) (lo_port opts) = Some ((addr, Some sk) # es)"
    and "EncodeGetHeadersPayload (lo_locator_hash_hex opts) \<noteq> None"
    and "EncodeVersionPayload (net_make_address net) (net_now net) addr (lo_port opts) = Inr v"
    and "concat (sk_segments sk) = frames hw (ms @ [\<lparr>dm_command = ''headers'', dm_payload = data\<rparr>]) @ t"
    and "list_all frame_ok ms" "length ms + 2 \<le> sk_writes sk" "length data < 2 ^ 32"
    and "''version'' \<in> set (map dm_command ms)" "''verack'' \<in> set (map dm_command ms)" "''headers'' \<notin> set (map dm_command ms)"
    and "ParseHeadersPayload hw data (lo_locator_height opts) [] [] = (Success [], hs, hds)"
  shows "\<exists>r. FetchHeaders hw net opts r0 = Inr (Success [], r) \<and> hr_headers r = hds \<and> hr_header_hashes r = hs \<and> hr_peer_address r = addr"
proof -
  let ?m = "\<lparr>dm_command = ''headers'', dm_payload = data\<rparr>"
  obtain gh where gh: "EncodeGetHeadersPayload (lo_locator_hash_hex opts) = Some gh" using assms(2) by auto
  have "0 < sk_writes sk" using assms(6) by simp
  then obtain sk1 where s1: "SendMessage hw sk ''version'' v = (True, sk1)" "sk_segments sk1 = sk_segments sk" "Suc (sk_writes sk1) = sk_writes sk"
    using send_ok [of sk hw "''version''" v] by blast
  have fr: "frames hw (xs @ ys) = frames hw xs @ frames hw ys" for xs ys by (simp add: frames_def)
  have "concat (sk_segments sk1) = frames hw ms @ (frames hw [?m] @ t)" using assms(4) s1(2) by (simp add: fr)
  moreover have "length ms \<le> sk_writes sk1" using assms(6) s1(3) by simp
  ultimately have "\<exists>ms1 ms2 sk' proto' trace'. ms = ms1 @ ms2 \<and> handshake_loop hw False False sk1 0 [] = (True, sk', proto', trace')
     \<and> concat (sk_segments sk') = frames hw ms2 @ (frames hw [?m] @ t) \<and> length ms2 + sk_writes sk1 \<le> sk_writes sk' + length ms"
    using assms(5,8,9) by (intro handshake_loop_frames) auto
  then obtain ms1 ms2 sk2 proto trace where h: "ms = ms1 @ ms2" "handshake_loop hw False False sk1 0 [] = (True, sk2, proto, trace)"
    "concat (sk_segments sk2) = frames hw ms2 @ (frames hw [?m] @ t)" "length ms2 + sk_writes sk1 \<le> sk_writes sk2 + length ms" by blast
  have "0 < sk_writes sk2" using h(4) s1(3) assms(6) by simp
  then obtain sk3 where s3: "SendMessage hw sk2 ''getheaders'' gh = (True, sk3)" "sk_segments sk3 = sk_segments sk2" "Suc (sk_writes sk3) = sk_writes sk2"
    using send_ok [of sk2 hw "''getheaders''" gh] by blast
  define r1 where "r1 = SignetHeadersResult_new\<lparr>hr_protocol_version := proto, hr_command_trace := trace\<rparr>"
  have "frame_ok ?m" using assms(7) by (simp add: frame_ok_def)
  then have "\<exists>tr. fetch_headers_loop hw (lo_locator_height opts) sk3 r1 = (Some (Success []), r1\<lparr>hr_command_trace := tr, hr_header_hashes := hs, hr_headers := hds\<rparr>)"
    using h assms(5,6,10,11) s1(3) s3
    by (intro fetch_loop_frames [of _ _ ms2 ?m t]) (auto simp: fr r1_def SignetHeadersResult_new_def)
  then obtain tr where "fetch_headers_loop hw (lo_locator_height opts) sk3 r1 = (Some (Success []), r1\<lparr>hr_command_trace := tr, hr_header_hashes := hs, hr_headers := hds\<rparr>)" by blast
  then show ?thesis
    using assms(1,3) gh s1(1) h(2) s3(1) by (simp add: FetchHeaders_def CompleteVersionHandshake_def Let_def r1_def)
qed

section \<open>The block cache\<close>

definition blocks_parsed :: "ShaNi option \<Rightarrow> SignetBlocksResult \<Rightarrow> bool" where
  "blocks_parsed hw r \<longleftrightarrow> list_all2 (\<lambda>b m. ParseBlockPayload hw (bb_payload b) = Some b \<and> ParseBlockMetadata hw (bb_payload b) = Parsed m)
     (br_blocks r) (br_metadata r)"

lemma blocks_parsed_add:
  "blocks_parsed hw r \<Longrightarrow> ParseBlockPayload hw data = Some b \<Longrightarrow> ParseBlockMetadata hw data = Parsed m \<Longrightarrow>
   blocks_parsed hw (r\<lparr>br_blocks := br_blocks r @ [b], br_metadata := br_metadata r @ [m]\<rparr>)"
  by (auto simp: blocks_parsed_def ParseBlockPayload_def intro: list_all2_appendI split: if_splits)

lemma blocks_loop_parsed:
  "blocks_loop hw n sk r = Inr (st, r') \<Longrightarrow> blocks_parsed hw r \<Longrightarrow> blocks_parsed hw r'"
proof (induction hw n sk r rule: blocks_loop.induct)
  case (1 hw n sk r)
  show ?case
  proof (cases "length (br_blocks r) < n")
    case True
    obtain mo sk1 tr where m: "ReadNextNonPingMessage hw sk (br_command_trace r) = (mo, sk1, tr)" by (metis prod_cases3)
    define r1 where "r1 = r\<lparr>br_command_trace := tr\<rparr>"
    have p: "blocks_parsed hw r1" using 1(4) by (simp add: r1_def blocks_parsed_def)
    show ?thesis
    proof (cases mo)
      case None
      then show ?thesis using 1(3) True m p by (auto simp: blocks_loop.simps [of hw n sk r] r1_def)
    next
      case (Some msg)
      show ?thesis
      proof (cases "dm_command msg = ''block''")
        case c: True
        show ?thesis
        proof (cases "ParseBlockPayload hw (dm_payload msg)")
          case None
          then show ?thesis using 1(3) True m Some c p by (auto simp: blocks_loop.simps [of hw n sk r] r1_def)
        next
          case b: (Some b)
          show ?thesis
          proof (cases "ParseBlockMetadata hw (dm_payload msg)")
            case (Parsed md)
            then have "blocks_loop hw n sk1 (r1\<lparr>br_blocks := br_blocks r1 @ [b], br_metadata := br_metadata r1 @ [md]\<rparr>) = Inr (st, r')"
              using 1(3) True m Some c b by (simp add: blocks_loop.simps [of hw n sk r] r1_def)
            then show ?thesis
              using 1(1) [OF True m [symmetric] Some refl r1_def c b Parsed] blocks_parsed_add [OF p b Parsed] by simp
          qed (use 1(3) True m Some c b p in \<open>auto simp: blocks_loop.simps [of hw n sk r] r1_def\<close>)
        qed
      next
        case c: False
        then have "blocks_loop hw n sk1 r1 = Inr (st, r')"
          using 1(3) True m Some by (simp add: blocks_loop.simps [of hw n sk r] r1_def)
        then show ?thesis using 1(2) [OF True m [symmetric] Some refl r1_def c] p by simp
      qed
    qed
  next
    case False
    then show ?thesis using 1(3,4) by (auto simp: blocks_loop.simps [of hw n sk r])
  qed
qed

lemma block_peers_result:
  "block_peers hw net opts n gd es r disk = Inr (st, r', disk') \<Longrightarrow> status_ok st \<Longrightarrow>
   blocks_parsed hw r' \<and> length (br_blocks r') = n \<and> disk' = PersistFetchedBlocks (lo_state_root opts) r' disk"
proof (induction es arbitrary: r)
  case (Cons e es)
  show ?case
  proof (cases "snd e")
    case None
    then show ?thesis using Cons by (cases e) simp
  next
    case (Some sk)
    then obtain addr where e: "e = (addr, Some sk)" by (cases e) simp
    then obtain ready sk1 proto tr where h: "CompleteVersionHandshake hw (net_make_address net) (net_now net) sk addr (lo_port opts) 0 []
        = Inr (ready, sk1, proto, tr)"
      using Cons.prems(1) by (auto simp: rbind_eq_Inr)
    define r1 where "r1 = SignetBlocksResult_new\<lparr>br_protocol_version := proto, br_command_trace := tr\<rparr>"
    have r1: "blocks_parsed hw r1" by (simp add: r1_def SignetBlocksResult_new_def blocks_parsed_def)
    obtain b sk2 where s: "SendMessage hw sk1 ''getdata'' gd = (b, sk2)" by fastforce
    show ?thesis
    proof (cases "ready \<and> b")
      case False
      then have "block_peers hw net opts n gd es r1 disk = Inr (st, r', disk')"
        using Cons.prems(1) e h s by (auto simp: Let_def r1_def [symmetric] split: if_splits)
      then show ?thesis using Cons.IH Cons.prems(2) by blast
    next
      case True
      then have q: "rbind (blocks_loop hw n sk2 r1) (\<lambda>(status, res).
               if \<not> status_ok status then Inr (status, res, disk)
               else if length (br_blocks res) = n then
                 let res = res\<lparr>br_peer_address := addr\<rparr> in
                 Inr (Success [], res, PersistFetchedBlocks (lo_state_root opts) res disk)
               else block_peers hw net opts n gd es res disk) = Inr (st, r', disk')"
        using Cons.prems(1) e h s by (simp add: r1_def [symmetric])
      then obtain st2 r2 where l: "blocks_loop hw n sk2 r1 = Inr (st2, r2)" by (auto simp: rbind_eq_Inr)
      have p: "blocks_parsed hw r2" by (rule blocks_loop_parsed [OF l r1])
      show ?thesis
      proof (cases "status_ok st2 \<and> length (br_blocks r2) = n")
        case True
        then have "r' = r2\<lparr>br_peer_address := addr\<rparr>" "disk' = PersistFetchedBlocks (lo_state_root opts) (r2\<lparr>br_peer_address := addr\<rparr>) disk"
          using q l by (auto simp: Let_def)
        then show ?thesis using p True by (simp add: blocks_parsed_def)
      next
        case False
        then have "status_ok st2" "block_peers hw net opts n gd es r2 disk = Inr (st, r', disk')"
          using q l Cons.prems(2) by (auto split: if_splits)
        then show ?thesis using Cons.IH Cons.prems(2) by blast
      qed
    qed
  qed
qed auto

lemma cached_blocks_loop:
  "length hashes = length bks \<Longrightarrow> length mds = length bks \<Longrightarrow>
   (\<And>i. i < length bks \<Longrightarrow> cache (hashes ! i @ ''.blk'') = Some (bb_payload (bks ! i))
      \<and> ParseBlockPayload hw (bb_payload (bks ! i)) = Some (bks ! i) \<and> ParseBlockMetadata hw (bb_payload (bks ! i)) = Parsed (mds ! i)) \<Longrightarrow>
   cached_blocks hw cache hashes r = Inr (Some (r\<lparr>br_blocks := br_blocks r @ bks, br_metadata := br_metadata r @ mds\<rparr>))"
proof (induction hashes arbitrary: bks mds r)
  case (Cons h hashes)
  obtain b bs m ms where e: "bks = b # bs" "mds = m # ms" using Cons.prems(1,2) by (cases bks; cases mds) auto
  have 0: "cache (h @ ''.blk'') = Some (bb_payload b)" "parse_block hw (bb_payload b) = (Some b, Parsed m)"
    using Cons.prems(3) [of 0] e by (simp_all add: parse_block_def)
  have "cached_blocks hw cache hashes (r\<lparr>br_blocks := br_blocks r @ [b], br_metadata := br_metadata r @ [m]\<rparr>)
    = Inr (Some ((r\<lparr>br_blocks := br_blocks r @ [b], br_metadata := br_metadata r @ [m]\<rparr>)\<lparr>br_blocks := (br_blocks r @ [b]) @ bs,
        br_metadata := (br_metadata r @ [m]) @ ms\<rparr>))"
    using Cons.prems(1,2) Cons.prems(3) [of "Suc i" for i] e by (subst Cons.IH [of bs ms]) auto
  then show ?case using 0 e by simp
qed simp

lemma fold_upd_other: "f b \<notin> f ` set bs \<Longrightarrow> fold (\<lambda>b c. c(f b \<mapsto> g b)) bs c0 (f b) = c0 (f b)"
  by (induction bs arbitrary: c0) auto

lemma fold_upd_lookup:
  "distinct (map f bs) \<Longrightarrow> b \<in> set bs \<Longrightarrow> fold (\<lambda>b c. c(f b \<mapsto> g b)) bs c0 (f b) = Some (g b)"
  by (induction bs arbitrary: c0) (auto simp: fold_upd_other)

lemma FetchBlocks_cached:
  assumes f: "FetchBlocks hw net opts hashes r disk = Inr (st, r', disk')" and ok: "status_ok st"
    and root: "lo_state_root opts \<noteq> []" "sf_writable (disk (lo_state_root opts))"
    and h: "map bb_block_hash_hex (br_blocks r') = hashes" "distinct hashes"
  shows "\<exists>r2. FetchBlocks hw net2 opts hashes r0 disk' = Inr (Success [], r2, disk')
    \<and> br_blocks r2 = br_blocks r' \<and> br_metadata r2 = br_metadata r' \<and> br_command_trace r2 = [''cache'']"
proof -
  let ?c0 = "SignetBlocksResult_new\<lparr>br_peer_address := ''cache''\<rparr>"
  have ne: "hashes \<noteq> []" using f ok by (auto simp: FetchBlocks_def)
  obtain co where co: "cached_blocks hw (sf_cache (disk (lo_state_root opts))) hashes ?c0 = Inr co"
    using f ne root(1) by (auto simp: FetchBlocks_def Let_def rbind_eq_Inr)
  show ?thesis
  proof (cases co)
    case (Some rc)
    have "br_command_trace ?c0 = []" by (simp add: SignetBlocksResult_new_def)
    moreover have "cached_blocks hw cache hs r1 = Inr (Some r2) \<Longrightarrow> br_command_trace r2 = br_command_trace r1" for cache hs r1 r2
      by (induction hs arbitrary: r1) (auto split: option.splits prod.splits parsed.splits)
    ultimately have "br_command_trace rc = []" using co Some by auto
    then show ?thesis using f co Some ne root(1) by (auto simp: FetchBlocks_def Let_def)
  next
    case None
    then obtain gd es where "block_peers hw net opts (length hashes) gd es SignetBlocksResult_new disk = Inr (st, r', disk')"
      using f ok co ne root(1) by (auto simp: FetchBlocks_def Let_def split: option.splits)
    from block_peers_result [OF this ok] have p: "blocks_parsed hw r'" "length (br_blocks r') = length hashes"
      "disk' = PersistFetchedBlocks (lo_state_root opts) r' disk" by auto
    let ?b = "br_blocks r'" and ?m = "br_metadata r'"
    have l: "length ?m = length ?b" using p(1) by (simp add: blocks_parsed_def list_all2_lengthD)
    have d: "distinct (map (\<lambda>b. bb_block_hash_hex b @ ''.blk'') ?b)"
      using h by (auto simp: distinct_map inj_on_def)
    have "sf_cache (disk' (lo_state_root opts)) = fold (\<lambda>block cache. cache(bb_block_hash_hex block @ ''.blk'' \<mapsto> bb_payload block)) ?b
        (sf_cache (disk (lo_state_root opts)))"
      using p(2,3) root ne by (auto simp: PersistFetchedBlocks_def)
    then have look: "sf_cache (disk' (lo_state_root opts)) (bb_block_hash_hex b @ ''.blk'') = Some (bb_payload b)" if "b \<in> set ?b" for b
      using fold_upd_lookup [OF d that] by simp
    have "cached_blocks hw (sf_cache (disk' (lo_state_root opts))) hashes ?c0
        = Inr (Some (?c0\<lparr>br_blocks := br_blocks ?c0 @ ?b, br_metadata := br_metadata ?c0 @ ?m\<rparr>))"
    proof (rule cached_blocks_loop)
      fix i assume i: "i < length ?b"
      then have "hashes ! i = bb_block_hash_hex (?b ! i)" using h(1) by (metis nth_map)
      then show "sf_cache (disk' (lo_state_root opts)) (hashes ! i @ ''.blk'') = Some (bb_payload (?b ! i))
          \<and> ParseBlockPayload hw (bb_payload (?b ! i)) = Some (?b ! i) \<and> ParseBlockMetadata hw (bb_payload (?b ! i)) = Parsed (?m ! i)"
        using look [of "?b ! i"] i p(1) by (simp add: blocks_parsed_def list_all2_conv_all_nth)
    qed (use p(2) l in simp_all)
    then show ?thesis using ne root(1) by (auto simp: FetchBlocks_def Let_def SignetBlocksResult_new_def)
  qed
qed

lemma FetchBlocks_unchecked:
  assumes "lo_state_root opts \<noteq> []" "sf_cache (disk (lo_state_root opts)) (asked @ ''.blk'') = Some data"
    and "ParseBlockPayload hw data = Some b" "ParseBlockMetadata hw data = Parsed m"
  shows "\<exists>r. FetchBlocks hw net opts [asked] r0 disk = Inr (Success [], r, disk) \<and> br_blocks r = [b]
    \<and> bb_block_hash_hex b = WireHashToHex (DoubleSha256 hw (take 80 data))"
proof -
  have "bb_block_hash_hex b = WireHashToHex (DoubleSha256 hw (take 80 data))"
    using assms(3) by (auto simp: ParseBlockPayload_def WireHashToHex_def split: if_splits)
  then show ?thesis using assms by (simp add: FetchBlocks_def Let_def parse_block_def SignetBlocksResult_new_def)
qed

section \<open>Properties\<close>

definition loopback :: "string \<Rightarrow> TcpAddress res" where
  "loopback host = Inr (TcpV4 [127, 0, 0, 1])"

definition hello :: "DecodedMessage list" where
  "hello = [\<lparr>dm_command = ''version'', dm_payload = [0x80, 0x11, 0x01, 0]\<rparr>, \<lparr>dm_command = ''ping'', dm_payload = [7]\<rparr>,
     \<lparr>dm_command = ''verack'', dm_payload = []\<rparr>]"

definition peer_socket :: "ShaNi option \<Rightarrow> DecodedMessage list \<Rightarrow> TcpSocket" where
  "peer_socket hw ms = \<lparr>sk_segments = [frames hw ms], sk_writes = 9, sk_written = []\<rparr>"

lemma loopback_version: "\<exists>v. EncodeVersionPayload loopback now host port = Inr v"
  by (simp add: EncodeVersionPayload_def append_network_address_def loopback_def Let_def)

lemma hello_facts: "list_all frame_ok hello" "''version'' \<in> set (map dm_command hello)" "''verack'' \<in> set (map dm_command hello)"
  "''headers'' \<notin> set (map dm_command hello)" "length hello = 3"
  by (simp_all add: hello_def frame_ok_def)

text \<open>C17: A handshake that succeeds has consumed from the socket exactly the bytes of a sequence of messages, and has sent the version
  message and then, in the order in which these messages arrived, a \<open>verack\<close> for every \<open>version\<close> and a \<open>pong\<close> with the bytes of
  its payload for every \<open>ping\<close>, and nothing else; the peer has sent both \<open>version\<close> and \<open>verack\<close>, and the trace lists exactly
  its commands.\<close>

theorem handshake_replies:
  assumes "CompleteVersionHandshake hw make_address now sk addr port proto trace = Inr (True, sk', proto', trace')"
  shows "\<exists>v ms ws. EncodeVersionPayload make_address now addr port = Inr v \<and> trace' = trace @ map dm_command ms
    \<and> list_all2 (wire_message hw) ms ws \<and> concat (sk_segments sk) = concat ws @ concat (sk_segments sk')
    \<and> sk_written sk' = sk_written sk @ EncodeMessage hw ''version'' v @ concat (map (reply_to hw) ms)
    \<and> ''version'' \<in> set (map dm_command ms) \<and> ''verack'' \<in> set (map dm_command ms)"
proof -
  obtain v where v: "EncodeVersionPayload make_address now addr port = Inr v"
    using assms by (auto simp: CompleteVersionHandshake_def rbind_eq_Inr)
  obtain b sk1 where s: "SendMessage hw sk ''version'' v = (b, sk1)" by fastforce
  then have b: "b" and h: "handshake_loop hw False False sk1 proto trace = (True, sk', proto', trace')"
    using assms v by (auto simp: CompleteVersionHandshake_def split: bool.splits)
  show ?thesis using handshake_loop_replies [OF h] SendMessage_written s b v SendMessage_segments [OF s] by fastforce
qed

theorem handshake_replies_witness:
  "\<exists>sk' proto' trace' (ms :: DecodedMessage list) ws. CompleteVersionHandshake None loopback 5 (peer_socket None hello) ''127.0.0.1'' 38333 0 [] = Inr (True, sk', proto', trace')
    \<and> list_all2 (wire_message None) ms ws \<and> concat (sk_segments (peer_socket None hello)) = concat ws @ concat (sk_segments sk')
    \<and> trace' = map dm_command ms \<and> ''verack'' \<in> set (map dm_command ms)"
proof -
  obtain v where v: "EncodeVersionPayload loopback 5 ''127.0.0.1'' 38333 = Inr v" using loopback_version by blast
  obtain sk1 where s: "SendMessage None (peer_socket None hello) ''version'' v = (True, sk1)" "sk_segments sk1 = [frames None hello]" "sk_writes sk1 = 8"
    by (simp add: SendMessage_def peer_socket_def)
  have "\<exists>ms1 ms2 sk' proto' trace'. hello = ms1 @ ms2 \<and> handshake_loop None False False sk1 0 [] = (True, sk', proto', trace')
     \<and> concat (sk_segments sk') = frames None ms2 @ [] \<and> length ms2 + sk_writes sk1 \<le> sk_writes sk' + length hello"
    by (rule handshake_loop_frames) (simp_all only: hello_facts s, simp_all)
  then obtain sk' proto' trace' where "handshake_loop None False False sk1 0 [] = (True, sk', proto', trace')" by blast
  then have c: "CompleteVersionHandshake None loopback 5 (peer_socket None hello) ''127.0.0.1'' 38333 0 [] = Inr (True, sk', proto', trace')"
    unfolding CompleteVersionHandshake_def v by (simp add: s(1))
  from handshake_replies [OF c] obtain ms :: "DecodedMessage list" and ws
    where "trace' = [] @ map dm_command ms" "list_all2 (wire_message None) ms ws"
      "concat (sk_segments (peer_socket None hello)) = concat ws @ concat (sk_segments sk')" "''verack'' \<in> set (map dm_command ms)" by blast
  then have "list_all2 (wire_message None) ms ws \<and> concat (sk_segments (peer_socket None hello)) = concat ws @ concat (sk_segments sk')
    \<and> trace' = map dm_command ms \<and> ''verack'' \<in> set (map dm_command ms)" by simp
  with c show ?thesis by blast
qed

text \<open>C16: When the first peer that can be reached answers the handshake and then sends a \<open>headers\<close> message, between whatever other
  messages and in whatever segments, \<open>FetchHeaders\<close> returns exactly the serialised headers, with heights from the locator on.\<close>

theorem headers_delivered:
  assumes "net_resolve net (lo_host opts) (lo_port opts) = Some ((addr, Some sk) # es)"
    and "EncodeGetHeadersPayload (lo_locator_hash_hex opts) \<noteq> None"
    and "EncodeVersionPayload (net_make_address net) (net_now net) addr (lo_port opts) = Inr v"
    and "concat (sk_segments sk) = frames hw (ms @ [\<lparr>dm_command = ''headers'',
          dm_payload = compact (length hdrs) @ concat (map (\<lambda>h. h @ [0]) hdrs)\<rparr>]) @ t"
    and "list_all frame_ok ms" "length ms + 2 \<le> sk_writes sk"
    and "''version'' \<in> set (map dm_command ms)" "''verack'' \<in> set (map dm_command ms)" "''headers'' \<notin> set (map dm_command ms)"
    and "hdrs \<noteq> []" "list_all (\<lambda>h. length h = 80) hdrs" "length (compact (length hdrs) @ concat (map (\<lambda>h. h @ [0]) hdrs)) < 2 ^ 32"
  shows "\<exists>r. FetchHeaders hw net opts r0 = Inr (Success [], r) \<and> hr_headers r = headers_of hw (lo_locator_height opts) 0 hdrs \<and> hr_peer_address r = addr"
proof -
  have "ParseHeadersPayload hw (compact (length hdrs) @ concat (map (\<lambda>h. h @ [0]) hdrs)) (lo_locator_height opts) [] []
    = (Success [], map hd_hash_hex (headers_of hw (lo_locator_height opts) 0 hdrs), headers_of hw (lo_locator_height opts) 0 hdrs)"
    using ParseHeadersPayload_serialized [OF assms(10,11), of "[]" hw "lo_locator_height opts"] assms(12) by simp
  from FetchHeaders_delivers [OF assms(1-6,12,7-9) this] show ?thesis by blast
qed

definition zero_options :: "string \<Rightarrow> SignetLiveOptions" where
  "zero_options root = \<lparr>lo_host = ''seed'', lo_port = 38333, lo_locator_hash_hex = WireHashToHex (replicate 32 0), lo_locator_height = 0,
     lo_state_root = root\<rparr>"

definition zero_message :: DecodedMessage where
  "zero_message = \<lparr>dm_command = ''headers'', dm_payload = compact (length [replicate 80 (0 :: byte)]) @ concat (map (\<lambda>h. h @ [0]) [replicate 80 0])\<rparr>"

definition zero_net :: "ShaNi option \<Rightarrow> Net" where
  "zero_net hw = \<lparr>net_make_address = loopback, net_resolve = (\<lambda>host port. Some [(''127.0.0.1'', Some (peer_socket hw (hello @ [zero_message])))]), net_now = 5\<rparr>"

lemma zero_facts:
  "\<exists>v. EncodeVersionPayload (net_make_address (zero_net hw)) (net_now (zero_net hw)) ''127.0.0.1'' (lo_port (zero_options root)) = Inr v"
  "net_resolve (zero_net hw) (lo_host (zero_options root)) (lo_port (zero_options root))
    = Some [(''127.0.0.1'', Some (peer_socket hw (hello @ [zero_message])))]"
  "EncodeGetHeadersPayload (lo_locator_hash_hex (zero_options root)) \<noteq> None"
  "length (compact (length [replicate 80 (0 :: byte)]) @ concat (map (\<lambda>h. h @ [0]) [replicate 80 0])) < 2 ^ 32"
  using loopback_version [of 5 "''127.0.0.1''" 38333] length_compact [of "Suc 0"]
  by (simp_all add: zero_net_def zero_options_def EncodeGetHeadersPayload_def WireHash_roundtrip)

lemma zero_fetch:
  "\<exists>r. FetchHeaders hw (zero_net hw) (zero_options root) SignetHeadersResult_new = Inr (Success [], r)
    \<and> hr_headers r = [parse_header hw (replicate 80 0) 1]"
proof -
  obtain v where v: "EncodeVersionPayload (net_make_address (zero_net hw)) (net_now (zero_net hw)) ''127.0.0.1'' (lo_port (zero_options root)) = Inr v"
    using zero_facts(1) by blast
  let ?hs = "[replicate 80 (0 :: byte)]"
  have p: "ParseHeadersPayload hw (compact (length ?hs) @ concat (map (\<lambda>h. h @ [0]) ?hs)) (lo_locator_height (zero_options root)) [] []
    = (Success [], map hd_hash_hex (headers_of hw 0 0 ?hs), headers_of hw 0 0 ?hs)"
    using ParseHeadersPayload_serialized [of ?hs "[]" hw 0] zero_facts(4) by (simp add: zero_options_def)
  have "\<exists>r. FetchHeaders hw (zero_net hw) (zero_options root) SignetHeadersResult_new = Inr (Success [], r) \<and> hr_headers r = headers_of hw 0 0 ?hs
      \<and> hr_header_hashes r = map hd_hash_hex (headers_of hw 0 0 ?hs) \<and> hr_peer_address r = ''127.0.0.1''"
    by (rule FetchHeaders_delivers [OF zero_facts(2,3) v, where ms = hello and t = "[]" and data = "compact (length ?hs) @ concat (map (\<lambda>h. h @ [0]) ?hs)", OF _ _ _ zero_facts(4) _ _ _ p])
       (use hello_facts in \<open>simp_all add: peer_socket_def zero_message_def\<close>)
  moreover have h: "headers_of hw 0 0 ?hs = [parse_header hw (replicate 80 0) 1]" by (simp add: headers_of_def parse_header_read)
  ultimately show ?thesis unfolding h by blast
qed

theorem headers_delivered_witness:
  "\<exists>r. FetchHeaders None (zero_net None) (zero_options []) SignetHeadersResult_new = Inr (Success [], r)
    \<and> hr_headers r = headers_of None (lo_locator_height (zero_options [])) 0 [replicate 80 0] \<and> hr_peer_address r = ''127.0.0.1''"
proof -
  obtain v where v: "EncodeVersionPayload (net_make_address (zero_net None)) (net_now (zero_net None)) ''127.0.0.1'' (lo_port (zero_options [])) = Inr v"
    using zero_facts(1) by blast
  show ?thesis
    by (rule headers_delivered [OF zero_facts(2,3) v, where ms = hello and t = "[]" and hdrs = "[replicate 80 0]", OF _ _ _ _ _ _ _ _ zero_facts(4)])
       (use hello_facts in \<open>simp_all add: peer_socket_def zero_message_def\<close>)
qed

text \<open>Blocks that were fetched under the hashes asked for are served from the cache the next time: whatever the network is then,
  the same call returns the same blocks and metadata and touches no file.\<close>

theorem fetched_blocks_cached:
  assumes "FetchBlocks hw net opts hashes r disk = Inr (st, r', disk')" "status_ok st"
    and "lo_state_root opts \<noteq> []" "sf_writable (disk (lo_state_root opts))"
    and "map bb_block_hash_hex (br_blocks r') = hashes" "distinct hashes"
  shows "\<exists>r2. FetchBlocks hw net2 opts hashes r0 disk' = Inr (Success [], r2, disk')
    \<and> br_blocks r2 = br_blocks r' \<and> br_metadata r2 = br_metadata r' \<and> br_command_trace r2 = [''cache'']"
  by (rule FetchBlocks_cached [OF assms])

definition sample_block :: "byte list" where
  "sample_block = replicate 80 7 @ compact (length [sample_tx None]) @ concat (map ser_full [sample_tx None]) @ []"

definition sample_disk :: "string \<Rightarrow> Disk" where
  "sample_disk name root = \<lparr>sf_import = None, sf_cache = [name @ ''.blk'' \<mapsto> sample_block], sf_writable = True\<rparr>"

lemma sample_block_parses:
  "ParseBlockMetadata hw sample_block = Parsed (block_of hw (replicate 80 7) [sample_tx None])"
  "\<exists>b. ParseBlockPayload hw sample_block = Some b"
proof -
  have "length (ser_full (sample_tx None)) \<le> 100"
    using length_compact [of "Suc 0"] length_compact [of 2] length_compact [of 0] length_compact [of "Suc (Suc 0)"]
    by (simp add: sample_tx_def ser_full_def ser_base_def ser_ins_def ser_outs_def ser_in_def ser_out_def sized_def AppendLittleEndian_simp(2))
  then have "length (replicate 80 7 @ compact (length [sample_tx None]) @ concat (map ser_full [sample_tx None]) @ []) < 2 ^ 64"
    using length_compact [of "Suc 0"] by simp
  then show "ParseBlockMetadata hw sample_block = Parsed (block_of hw (replicate 80 7) [sample_tx None])"
    unfolding sample_block_def by (intro ParseBlockMetadata_serialized) (simp_all add: sample_tx_def tx_ok_def)
  show "\<exists>b. ParseBlockPayload hw sample_block = Some b" by (simp add: ParseBlockPayload_def sample_block_def)
qed

lemma sample_block_fetch:
  "\<exists>r b. FetchBlocks hw net (zero_options ''root'') [asked] r0 (sample_disk asked) = Inr (Success [], r, sample_disk asked) \<and> br_blocks r = [b]
    \<and> bb_block_hash_hex b = WireHashToHex (DoubleSha256 hw (replicate 80 7))"
proof -
  obtain b where b: "ParseBlockPayload hw sample_block = Some b" using sample_block_parses(2) by blast
  have "take 80 sample_block = replicate 80 7" by (simp add: sample_block_def)
  then show ?thesis
    using FetchBlocks_unchecked [of "zero_options ''root''" "sample_disk asked" asked sample_block hw b, OF _ _ b sample_block_parses(1), of net r0]
    by (auto simp: zero_options_def sample_disk_def)
qed

theorem fetched_blocks_cached_witness:
  "\<exists>r2. FetchBlocks hw net2 (zero_options ''root'') [WireHashToHex (DoubleSha256 hw (replicate 80 7))] r0
      (sample_disk (WireHashToHex (DoubleSha256 hw (replicate 80 7)))) = Inr (Success [], r2, sample_disk (WireHashToHex (DoubleSha256 hw (replicate 80 7))))
    \<and> br_command_trace r2 = [''cache'']"
proof -
  let ?h = "WireHashToHex (DoubleSha256 hw (replicate 80 7))"
  obtain r b where f: "FetchBlocks hw (zero_net hw) (zero_options ''root'') [?h] r0 (sample_disk ?h) = Inr (Success [], r, sample_disk ?h)"
    "br_blocks r = [b]" "bb_block_hash_hex b = ?h"
    using sample_block_fetch by blast
  show ?thesis
    using fetched_blocks_cached [OF f(1), of net2 r0] f(2,3) by (auto simp: zero_options_def sample_disk_def)
qed

text \<open>The cache is not checked: a block that parses is returned for whatever hash names its file, with its own hash.\<close>

theorem cached_block_unchecked:
  assumes "lo_state_root opts \<noteq> []" "sf_cache (disk (lo_state_root opts)) (asked @ ''.blk'') = Some data"
    and "ParseBlockPayload hw data = Some b" "ParseBlockMetadata hw data = Parsed m"
  shows "\<exists>r. FetchBlocks hw net opts [asked] r0 disk = Inr (Success [], r, disk) \<and> br_blocks r = [b]
    \<and> bb_block_hash_hex b = WireHashToHex (DoubleSha256 hw (take 80 data))"
  using assms by (rule FetchBlocks_unchecked [of opts disk asked data hw b m])

theorem cached_block_unchecked_witness:
  "\<exists>r b. FetchBlocks hw net (zero_options ''root'') [''00''] r0 (sample_disk ''00'') = Inr (Success [], r, sample_disk ''00'') \<and> br_blocks r = [b]"
proof -
  obtain b where b: "ParseBlockPayload hw sample_block = Some b" using sample_block_parses(2) by blast
  show ?thesis
    using cached_block_unchecked [of "zero_options ''root''" "sample_disk ''00''" "''00''" sample_block hw b, OF _ _ b sample_block_parses(1), of net r0]
    by (auto simp: zero_options_def sample_disk_def)
qed

end
