(* ===== verification/BitcoinAdapter.thy ===== *)
theory BitcoinAdapter
  imports BitcoinSync
begin

text \<open>
  \<open>HeaderSyncAdapter\<close> of \<open>src/Blocxxi/Bitcoin/adapter.cpp\<close>: it checks headers, submits each of them to the node as a transaction
  and commits it, and keeps the progress of live imports in a file. The node it is bound to is passed along.
\<close>

section \<open>Names\<close>

datatype Network = Mainnet | Testnet | Signet | Regtest

record Options =
  op_network :: Network
  op_peer_hint :: string
  op_header_sync_only :: bool

record HeaderSyncAdapter =
  ad_options :: Options
  ad_bound :: bool
  ad_imported_heights :: "u32 list"
  ad_last_header :: "Header option"

definition HeaderSyncAdapter_new :: "Options \<Rightarrow> HeaderSyncAdapter" where
  "HeaderSyncAdapter_new options = \<lparr>ad_options = options, ad_bound = False, ad_imported_heights = [], ad_last_header = None\<rparr>"

fun NetworkName :: "Network \<Rightarrow> string" where
  "NetworkName Mainnet = ''mainnet''"
| "NetworkName Testnet = ''testnet''"
| "NetworkName Signet = ''signet''"
| "NetworkName Regtest = ''regtest''"

definition HeaderMode :: "Options \<Rightarrow> string" where
  "HeaderMode options = (if op_header_sync_only options then ''headers-only'' else ''full'')"

definition AdapterName :: "Options \<Rightarrow> string" where
  "AdapterName options = ''bitcoin.header-sync:'' @ NetworkName (op_network options) @ '':'' @ HeaderMode options"

definition BootstrapHint :: "Options \<Rightarrow> string" where
  "BootstrapHint options = ''bitcoin.peer:'' @ op_peer_hint options"

definition HeaderMetadata :: "Options \<Rightarrow> string" where
  "HeaderMetadata options = ''network='' @ NetworkName (op_network options) @ '';mode='' @ HeaderMode options
     @ (if op_peer_hint options \<noteq> [] then '';peer_hint='' @ op_peer_hint options else [])"

definition Adapter_Bind :: "HeaderSyncAdapter \<Rightarrow> 'w NodeCore \<Rightarrow> Status \<times> HeaderSyncAdapter \<times> 'w NodeCore" where
  "Adapter_Bind ad c =
     (let ad = ad\<lparr>ad_bound := True\<rparr>;
          (status, c) = (if op_peer_hint (ad_options ad) \<noteq> [] then AttachDiscovery (BootstrapHint (ad_options ad)) c else (Success [], c)) in
      if \<not> status_ok status then (status, ad, c)
      else let (status, c) = AttachAdapter (AdapterName (ad_options ad)) c in (status, ad, c))"

section \<open>Checking a header\<close>

definition ValidateHeader :: "Header \<Rightarrow> Header option \<Rightarrow> Status" where
  "ValidateHeader h previous =
     (if hd_hash_hex h = [] then Failure InvalidArgument ''header hash is required''
      else if hd_height h > 0 \<and> hd_previous_hash_hex h = [] then Failure InvalidArgument ''non-genesis headers require a previous hash''
      else if (case previous of None \<Rightarrow> False | Some p \<Rightarrow> hd_height h \<noteq> hd_height p + 1)
      then Failure Rejected ''headers must advance by exactly one height''
      else if (case previous of None \<Rightarrow> False | Some p \<Rightarrow> hd_previous_hash_hex h \<noteq> hd_hash_hex p)
      then Failure Rejected ''header sequence is not continuous''
      else if hd_bits h \<noteq> 0 then
        (case TargetFromCompact (hd_bits h) kSignetPowLimitHex of
           None \<Rightarrow> Failure Rejected ''header bits do not derive a valid target''
         | Some target \<Rightarrow>
             (case HashBytesFromHex (hd_hash_hex h) of
                None \<Rightarrow> Failure InvalidArgument ''header hash must be 32 bytes''
              | Some digest \<Rightarrow>
                  if digest > target then Failure Rejected ''header proof of work does not satisfy target''
                  else if (case previous of None \<Rightarrow> False
                           | Some p \<Rightarrow> hd_bits p \<noteq> 0 \<and> hd_height p mod 2016 \<noteq> 0 \<and> hd_bits h \<noteq> hd_bits p)
                  then Failure Rejected ''unexpected signet difficulty transition between adjacent headers''
                  else Success []))
      else Success [])"

fun validate_all :: "Header list \<Rightarrow> Header option \<Rightarrow> Status" where
  "validate_all [] previous = Success []"
| "validate_all (h # hs) previous =
     (let status = ValidateHeader h previous in if \<not> status_ok status then status else validate_all hs (Some h))"

section \<open>Submitting headers\<close>

definition header_text :: "Header \<Rightarrow> string" where
  "header_text h = ''height='' @ show_nat (unat (hd_height h)) @ '';hash='' @ hd_hash_hex h @ '';previous='' @ hd_previous_hash_hex h
     @ '';version='' @ show_nat (unat (hd_version h))"

definition header_transaction :: "Options \<Rightarrow> Header \<Rightarrow> Transaction" where
  "header_transaction options h = Transaction_FromText ''bitcoin.header'' (header_text h) (HeaderMetadata options)"

fun submit_loop :: "'w services \<Rightarrow> (nat \<Rightarrow> i64) \<Rightarrow> Options \<Rightarrow> nat \<Rightarrow> Header list \<Rightarrow> 'w NodeCore \<Rightarrow> (Status \<times> 'w NodeCore) res" where
  "submit_loop ops utc options k [] c = Inr (Success [], c)"
| "submit_loop ops utc options k (h # hs) c =
     (let (status, c) = Node_SubmitTransaction (header_transaction options h) c in
      if \<not> status_ok status then Inr (status, c)
      else rbind (Node_CommitPending ops (utc k) (''bitcoin:'' @ NetworkName (op_network options)) c) (\<lambda>(status, c).
        if \<not> status_ok status then Inr (status, c) else submit_loop ops utc options (k + 1) hs c))"

definition SubmitHeaders :: "'w services \<Rightarrow> (nat \<Rightarrow> i64) \<Rightarrow> Header list \<Rightarrow> HeaderSyncAdapter \<Rightarrow> 'w NodeCore
    \<Rightarrow> (Status \<times> HeaderSyncAdapter \<times> 'w NodeCore) res" where
  "SubmitHeaders ops utc headers ad c =
     (if \<not> ad_bound ad then Inr (Failure Rejected ''adapter must be bound to a node first'', ad, c)
      else if headers = [] then Inr (Failure InvalidArgument ''at least one header is required'', ad, c)
      else
        let status = validate_all headers (ad_last_header ad) in
        if \<not> status_ok status then Inr (status, ad, c)
        else rbind (submit_loop ops utc (ad_options ad) 0 headers c) (\<lambda>(status, c).
          if \<not> status_ok status then Inr (status, ad, c)
          else Inr (Success [], ad\<lparr>ad_imported_heights := ad_imported_heights ad @ map hd_height headers,
                                   ad_last_header := Some (last headers)\<rparr>, c)))"

definition SubmitHeader :: "'w services \<Rightarrow> (nat \<Rightarrow> i64) \<Rightarrow> Header \<Rightarrow> HeaderSyncAdapter \<Rightarrow> 'w NodeCore
    \<Rightarrow> (Status \<times> HeaderSyncAdapter \<times> 'w NodeCore) res" where
  "SubmitHeader ops utc h ad c = SubmitHeaders ops utc [h] ad c"

section \<open>Live imports\<close>

definition getline :: "string \<Rightarrow> (string \<times> string) option" where
  "getline s = (if s = [] then None else Some (takeWhile (\<lambda>c. c \<noteq> CHR 0x0A) s, drop 1 (dropWhile (\<lambda>c. c \<noteq> CHR 0x0A) s)))"

definition starts_with :: "string \<Rightarrow> string \<Rightarrow> bool" where
  "starts_with s pre \<longleftrightarrow> take (length pre) s = pre"

text \<open>\<open>std::stoul\<close> where \<open>unsigned long\<close> has 64 bits.\<close>

definition LoadImportState :: "string option \<Rightarrow> (u32 \<times> string) option res" where
  "LoadImportState file =
     (case file of None \<Rightarrow> Inr None
      | Some text \<Rightarrow>
          (case getline text of None \<Rightarrow> Inr None
           | Some (height_line, text) \<Rightarrow>
               (case getline text of None \<Rightarrow> Inr None
                | Some (hash_line, text) \<Rightarrow>
                    if \<not> starts_with height_line ''height='' \<or> \<not> starts_with hash_line ''hash='' then Inr None
                    else rbind (std_stoull (drop 7 height_line)) (\<lambda>v. Inr (Some (ucast v, drop 5 hash_line))))))"

definition ResolveImportOptions :: "Disk \<Rightarrow> 'w NodeCore option \<Rightarrow> SignetLiveOptions \<Rightarrow> SignetLiveOptions res" where
  "ResolveImportOptions disk node options =
     (let options = (if lo_state_root options = [] then
            (case node of None \<Rightarrow> options
             | Some c \<Rightarrow>
                 if storage_mode (node_options c) = FileSystemMode then
                   (if opt_storage_root (node_options c) = []
                    then options\<lparr>lo_state_root := data_directory (opt_chain (node_options c))\<rparr>
                    else options\<lparr>lo_state_root := opt_storage_root (node_options c)\<rparr>)
                 else options)
            else options) in
      if lo_state_root options = [] then Inr options
      else rbind (LoadImportState (sf_import (disk (lo_state_root options)))) (\<lambda>persisted.
        case persisted of None \<Rightarrow> Inr options
        | Some (height, h) \<Rightarrow> Inr (options\<lparr>lo_locator_height := height, lo_locator_hash_hex := h\<rparr>)))"

definition import_text :: "Header \<Rightarrow> string" where
  "import_text h = ''height='' @ show_nat (unat (hd_height h)) @ [CHR 0x0A] @ ''hash='' @ hd_hash_hex h @ [CHR 0x0A]"

definition PersistImportProgress :: "SignetLiveOptions \<Rightarrow> SignetHeadersResult \<Rightarrow> Disk \<Rightarrow> Disk" where
  "PersistImportProgress options res disk =
     (if lo_state_root options = [] \<or> hr_headers res = [] then disk
      else if \<not> sf_writable (disk (lo_state_root options)) then disk
      else disk(lo_state_root options := (disk (lo_state_root options))\<lparr>sf_import := Some (import_text (last (hr_headers res)))\<rparr>))"

definition ImportLiveSignetHeaders :: "'w services \<Rightarrow> (nat \<Rightarrow> i64) \<Rightarrow> ShaNi option \<Rightarrow> Net \<Rightarrow> SignetLiveOptions \<Rightarrow> HeaderSyncAdapter
    \<Rightarrow> 'w NodeCore \<Rightarrow> Disk \<Rightarrow> (Status \<times> SignetHeadersResult option \<times> HeaderSyncAdapter \<times> 'w NodeCore \<times> Disk) res" where
  "ImportLiveSignetHeaders ops utc hw net options ad c disk =
     (if \<not> ad_bound ad then Inr (Failure Rejected ''adapter must be bound to a node first'', None, ad, c, disk)
      else
        rbind (ResolveImportOptions disk (Some c) options) (\<lambda>resolved.
        rbind (FetchHeaders hw net resolved SignetHeadersResult_new) (\<lambda>(status, res).
          if \<not> status_ok status then Inr (status, None, ad, c, disk)
          else if hr_headers res = [] then Inr (Failure Rejected ''live signet fetch returned no headers'', None, ad, c, disk)
          else
            rbind (SubmitHeaders ops utc (hr_headers res) ad c) (\<lambda>(status, ad, c).
              if status_ok status then Inr (status, Some res, ad, c, PersistImportProgress resolved res disk)
              else Inr (status, None, ad, c, disk)))))"

section \<open>What an accepted header satisfies\<close>

lemma ValidateHeader_links:
  "status_ok (ValidateHeader h (Some p)) \<Longrightarrow> hd_height h = hd_height p + 1 \<and> hd_previous_hash_hex h = hd_hash_hex p"
  by (auto simp: ValidateHeader_def split: if_splits)

lemma ValidateHeader_work:
  assumes "status_ok (ValidateHeader h previous)" "hd_bits h \<noteq> 0"
  shows "\<exists>digest. HashBytesFromHex (hd_hash_hex h) = Some digest \<and> be_value digest \<le> compact_value (hd_bits h)
    \<and> compact_value (hd_bits h) \<le> be_value pow_limit_bytes"
proof -
  obtain target digest where t: "TargetFromCompact (hd_bits h) kSignetPowLimitHex = Some target"
    "HashBytesFromHex (hd_hash_hex h) = Some digest" "\<not> digest > target"
    using assms by (auto simp: ValidateHeader_def split: if_splits option.splits)
  note v = TargetFromCompact_value [OF t(1)]
  have "length digest = 32" using t(2) by (auto simp: HashBytesFromHex_def length_hex_loop split: if_splits)
  then have "be_value digest \<le> be_value target" using t(3) v byte_list_less [of target digest] by simp
  then show ?thesis using v t(2) by (auto simp: pow_limit_parsed)
qed

lemma ValidateHeader_bits:
  "status_ok (ValidateHeader h (Some p)) \<Longrightarrow> hd_bits h \<noteq> 0 \<Longrightarrow> hd_bits p \<noteq> 0 \<Longrightarrow> hd_height p mod 2016 \<noteq> 0 \<Longrightarrow> hd_bits h = hd_bits p"
  by (auto simp: ValidateHeader_def split: if_splits option.splits)

text \<open>The height after one divisible by 2016 is never divisible by 2016.\<close>

lemma retarget_parity:
  assumes "(h :: u32) mod 2016 = 0" "h = p + 1"
  shows "p mod 2016 \<noteq> 0"
proof
  assume p: "p mod 2016 = 0"
  have "unat (x mod 2016) = unat x mod 2016" for x :: u32 by (simp add: unat_mod_distrib)
  from this [of h] this [of p] have m: "unat h mod 2016 = 0" "unat p mod 2016 = 0" using assms(1) p by simp_all
  have l: "unat p < 2 ^ 32" using unsigned_less [of p] by simp
  show False
  proof (cases "unat p + 1 = 2 ^ 32")
    case True
    then have "unat p = 4294967295" by simp
    then show False using m(2) by simp
  next
    case False
    then have "unat h = Suc (unat p)" using l assms(2) by (simp add: unat_word_ariths)
    moreover have "Suc (unat p) mod 2016 = 1" using m(2) mod_Suc [of "unat p" 2016] by simp
    ultimately show False using m(1) by simp
  qed
qed

lemma ValidateHeader_retarget:
  assumes "status_ok (ValidateHeader h (Some p))" "hd_height h mod 2016 = 0" "hd_bits h \<noteq> 0" "hd_bits p \<noteq> 0"
  shows "hd_bits h = hd_bits p"
proof (rule ValidateHeader_bits [OF assms(1,3,4)])
  show "hd_height p mod 2016 \<noteq> 0" using ValidateHeader_links [OF assms(1)] by (intro retarget_parity [OF assms(2)]) simp
qed

section \<open>Sequences of headers\<close>

fun header_chain :: "Header option \<Rightarrow> Header list \<Rightarrow> bool" where
  "header_chain previous [] = True"
| "header_chain previous (h # hs) \<longleftrightarrow>
     (case previous of None \<Rightarrow> True | Some p \<Rightarrow> hd_height h = hd_height p + 1 \<and> hd_previous_hash_hex h = hd_hash_hex p)
     \<and> header_chain (Some h) hs"

lemma validate_all_chain: "status_ok (validate_all hs previous) \<Longrightarrow> header_chain previous hs"
  by (induction hs arbitrary: previous) (auto simp: Let_def split: if_splits option.splits dest: ValidateHeader_links)

lemma header_chain_append:
  "header_chain previous (xs @ ys) \<longleftrightarrow> header_chain previous xs \<and> header_chain (if xs = [] then previous else Some (last xs)) ys"
  by (induction xs arbitrary: previous) auto

text \<open>
  \<open>imported\<close>: the headers whose submission succeeded since the adapter was made, in order; the adapter keeps their heights and
  the last of them.
\<close>

definition adapter_tracks :: "Header list \<Rightarrow> HeaderSyncAdapter \<Rightarrow> bool" where
  "adapter_tracks imported ad \<longleftrightarrow> header_chain None imported \<and> ad_imported_heights ad = map hd_height imported
     \<and> ad_last_header ad = (if imported = [] then None else Some (last imported))"

lemma SubmitHeaders_advances:
  "SubmitHeaders ops utc hs ad c = Inr (st, ad', c') \<Longrightarrow> status_ok st \<Longrightarrow>
   ad' = ad\<lparr>ad_imported_heights := ad_imported_heights ad @ map hd_height hs, ad_last_header := Some (last hs)\<rparr>"
  by (auto simp: SubmitHeaders_def Let_def rbind_eq_Inr split: if_splits)

lemma SubmitHeaders_tracks:
  assumes "adapter_tracks imported ad" "SubmitHeaders ops utc hs ad c = Inr (st, ad', c')"
  shows "if status_ok st then adapter_tracks (imported @ hs) ad' \<and> hs \<noteq> [] else ad' = ad"
proof (cases "status_ok st")
  case True
  have "header_chain (ad_last_header ad) hs" "hs \<noteq> []"
    using assms(2) True by (auto simp: SubmitHeaders_def Let_def rbind_eq_Inr split: if_splits dest: validate_all_chain)
  moreover note SubmitHeaders_advances [OF assms(2) True]
  ultimately show ?thesis using assms(1) True by (auto simp: adapter_tracks_def header_chain_append)
next
  case False
  then show ?thesis using assms(2) by (auto simp: SubmitHeaders_def Let_def rbind_eq_Inr split: if_splits)
qed

lemma header_chain_heights:
  "header_chain previous hs \<Longrightarrow> Suc i < length hs \<Longrightarrow> hd_height (hs ! Suc i) = hd_height (hs ! i) + 1
     \<and> hd_previous_hash_hex (hs ! Suc i) = hd_hash_hex (hs ! i)"
proof (induction hs arbitrary: previous i)
  case (Cons h hs)
  show ?case
  proof (cases i)
    case 0
    then show ?thesis using Cons.prems by (cases hs) auto
  next
    case (Suc j)
    then show ?thesis using Cons by (metis header_chain.simps(2) length_Cons nth_Cons_Suc Suc_less_eq)
  qed
qed simp

section \<open>Import state\<close>

lemma getline_line: "CHR 0x0A \<notin> set l \<Longrightarrow> getline (l @ CHR 0x0A # more_text) = Some (l, more_text)"
proof -
  assume "CHR 0x0A \<notin> set l"
  then have "takeWhile (\<lambda>c. c \<noteq> CHR 0x0A) (l @ CHR 0x0A # more_text) = l"
    "dropWhile (\<lambda>c. c \<noteq> CHR 0x0A) (l @ CHR 0x0A # more_text) = CHR 0x0A # more_text"
    by (induction l) auto
  then show ?thesis by (simp add: getline_def)
qed

lemma import_state_back:
  assumes "CHR 0x0A \<notin> set (hd_hash_hex h)"
  shows "LoadImportState (Some (import_text h)) = Inr (Some (hd_height h, hd_hash_hex h))"
proof -
  have d: "CHR 0x0A \<notin> set (show_nat (unat (hd_height h)))" using show_nat_set by fastforce
  have "getline (import_text h) = Some (''height='' @ show_nat (unat (hd_height h)), ''hash='' @ hd_hash_hex h @ [CHR 0x0A])"
    using getline_line [of "''height='' @ show_nat (unat (hd_height h))" "''hash='' @ hd_hash_hex h @ [CHR 0x0A]"] d
    by (simp add: import_text_def)
  moreover have "getline (''hash='' @ hd_hash_hex h @ [CHR 0x0A]) = Some (''hash='' @ hd_hash_hex h, [])"
    using getline_line [of "''hash='' @ hd_hash_hex h" "[]"] assms by simp
  moreover have "std_stoull (show_nat (unat (hd_height h))) = Inr (ucast (hd_height h))"
  proof -
    have "unat (hd_height h) < 2 ^ 32" using unsigned_less [of "hd_height h"] by simp
    then show ?thesis by (simp add: std_stoull_def scan_show_nat)
  qed
  moreover have "ucast (ucast (hd_height h) :: u64) = hd_height h" by (rule bit_word_eqI) (auto simp: bit_simps)
  ultimately show ?thesis by (simp add: LoadImportState_def starts_with_def)
qed

section \<open>Headers become blocks\<close>

context reliable_store
begin

lemma node_submit_inv:
  assumes "kernel_inv store_inv chain (kernel c)" "tx_wf tx" "Node_SubmitTransaction tx c = (st, c')"
  shows "kernel_inv store_inv chain (kernel c') \<and> world (kernel c') = world (kernel c)
    \<and> pending_transactions (kernel c') = pending_transactions (kernel c) @ (if status_ok st then [tx] else [])"
proof (cases "running c")
  case True
  obtain st1 k where k: "Kernel_SubmitTransaction tx (kernel c) = (st1, k)" by fastforce
  then have "st1 = st" "kernel c' = k" using assms(3) True by (auto simp: Node_SubmitTransaction_def Let_def split: if_splits)
  then show ?thesis using submit_inv [OF assms(1,2) k] by simp
qed (use assms in \<open>auto simp: Node_SubmitTransaction_def\<close>)

lemma node_commit_inv:
  assumes "kernel_inv store_inv chain (kernel c)" "Node_CommitPending ops now source c = Inr (st, c')"
  shows "kernel_inv store_inv chain (kernel c')
    \<and> (if status_ok st then pending_transactions (kernel c') = []
         \<and> (\<exists>b. chain (world (kernel c')) = chain (world (kernel c)) @ [b] \<and> transactions b = pending_transactions (kernel c))
       else kernel c' = kernel c)"
proof (cases "running c")
  case True
  obtain st1 k where k: "Kernel_CommitPending ops now source (kernel c) = (st1, k)" by fastforce
  then have e: "st1 = st" "kernel c' = k"
    using assms(2) True by (auto simp: Node_CommitPending_def Let_def rbind_eq_Inr split: if_splits)
  show ?thesis
  proof (cases "status_ok st")
    case True
    then show ?thesis using commit_pending_ok [OF assms(1) always_room k] e by auto
  next
    case False
    then have "k = kernel c"
      using k e commit_block_failed by (auto simp: Kernel_CommitPending_def split: if_splits)
    then show ?thesis using assms(1) e False by simp
  qed
qed (use assms in \<open>auto simp: Node_CommitPending_def\<close>)

lemma submit_loop_chain:
  "kernel_inv store_inv chain (kernel c) \<Longrightarrow> pending_transactions (kernel c) = [] \<Longrightarrow>
   submit_loop ops utc options k hs c = Inr (st, c') \<Longrightarrow>
   kernel_inv store_inv chain (kernel c') \<and>
   (\<exists>bs n. chain (world (kernel c')) = chain (world (kernel c)) @ bs
     \<and> map transactions bs = map (\<lambda>h. [header_transaction options h]) (take n hs) \<and> n \<le> length hs
     \<and> (status_ok st \<longleftrightarrow> n = length hs) \<and> (status_ok st \<longrightarrow> pending_transactions (kernel c') = []))"
proof (induction hs arbitrary: k c)
  case Nil
  then show ?case by auto
next
  case (Cons h hs)
  let ?tx = "header_transaction options h"
  obtain st1 c1 where s: "Node_SubmitTransaction ?tx c = (st1, c1)" by fastforce
  have "tx_wf ?tx" by (simp add: header_transaction_def)
  note i1 = node_submit_inv [OF Cons.prems(1) this s]
  show ?case
  proof (cases "status_ok st1")
    case False
    then have "st = st1" "c' = c1" using Cons.prems(3) s by simp_all
    then show ?thesis using i1 False by (intro conjI exI [of _ "[]"] exI [of _ "0 :: nat"]) simp_all
  next
    case True
    then obtain st2 c2 where m: "Node_CommitPending ops (utc k) (''bitcoin:'' @ NetworkName (op_network options)) c1 = Inr (st2, c2)"
      and r: "(if \<not> status_ok st2 then Inr (st2, c2) else submit_loop ops utc options (k + 1) hs c2) = Inr (st, c')"
      using Cons.prems(3) s by (auto simp: rbind_eq_Inr)
    note i2 = node_commit_inv [OF conjunct1 [OF i1] m]
    show ?thesis
    proof (cases "status_ok st2")
      case False
      then have "st = st2" "c' = c2" "kernel c2 = kernel c1" using r i2 by simp_all
      then show ?thesis using i1 i2 False by (intro conjI exI [of _ "[]"] exI [of _ "0 :: nat"]) simp_all
    next
      case ok: True
      then obtain b where b: "chain (world (kernel c2)) = chain (world (kernel c)) @ [b]" "transactions b = [?tx]"
        and p: "kernel_inv store_inv chain (kernel c2)" "pending_transactions (kernel c2) = []"
        using i1 i2 True Cons.prems(2) by auto
      have "submit_loop ops utc options (k + 1) hs c2 = Inr (st, c')" using r ok by simp
      from Cons.IH [OF p this] obtain bs n where n: "kernel_inv store_inv chain (kernel c')"
        "chain (world (kernel c')) = chain (world (kernel c2)) @ bs"
        "map transactions bs = map (\<lambda>h. [header_transaction options h]) (take n hs)" "n \<le> length hs"
        "status_ok st \<longleftrightarrow> n = length hs" "status_ok st \<longrightarrow> pending_transactions (kernel c') = []" by blast
      show ?thesis using n b by (intro conjI exI [of _ "b # bs"] exI [of _ "Suc n"]) simp_all
    qed
  qed
qed

end

section \<open>Live imports resume\<close>

lemma import_resumes:
  assumes "ImportLiveSignetHeaders ops utc hw net options ad c disk = Inr (st, r, ad', c', disk')" "status_ok st"
    and "lo_state_root options \<noteq> []" "sf_writable (disk (lo_state_root options))"
  shows "\<exists>h b. ad_last_header ad' = Some h \<and> length b = 32 \<and> hd_hash_hex h = WireHashToHex b
    \<and> ResolveImportOptions disk' (Some c') options
        = Inr (options\<lparr>lo_locator_height := hd_height h, lo_locator_hash_hex := hd_hash_hex h\<rparr>)"
proof -
  have "ad_bound ad" using assms(1,2) by (cases "ad_bound ad") (auto simp: ImportLiveSignetHeaders_def)
  then obtain resolved where r: "ResolveImportOptions disk (Some c) options = Inr resolved"
    using assms(1) by (cases "ResolveImportOptions disk (Some c) options") (simp_all add: ImportLiveSignetHeaders_def)
  have q: "rbind (FetchHeaders hw net resolved SignetHeadersResult_new) (\<lambda>(status, res).
          if \<not> status_ok status then Inr (status, None, ad, c, disk)
          else if hr_headers res = [] then Inr (Failure Rejected ''live signet fetch returned no headers'', None, ad, c, disk)
          else
            rbind (SubmitHeaders ops utc (hr_headers res) ad c) (\<lambda>(status, ad, c).
              if status_ok status then Inr (status, Some res, ad, c, PersistImportProgress resolved res disk)
              else Inr (status, None, ad, c, disk))) = Inr (st, r, ad', c', disk')"
    using assms(1) r \<open>ad_bound ad\<close> by (simp add: ImportLiveSignetHeaders_def)
  obtain st1 res where f: "FetchHeaders hw net resolved SignetHeadersResult_new = Inr (st1, res)"
    using q by (auto simp: rbind_eq_Inr)
  then have n: "status_ok st1" "hr_headers res \<noteq> []" using q assms(2) by (auto split: if_splits)
  then have q: "rbind (SubmitHeaders ops utc (hr_headers res) ad c) (\<lambda>(status, ad, c).
      if status_ok status then Inr (status, Some res, ad, c, PersistImportProgress resolved res disk)
      else Inr (status, None, ad, c, disk)) = Inr (st, r, ad', c', disk')"
    using q f by simp
  then obtain st2 ad2 c2 where s2: "SubmitHeaders ops utc (hr_headers res) ad c = Inr (st2, ad2, c2)" by (auto simp: rbind_eq_Inr)
  then have s: "SubmitHeaders ops utc (hr_headers res) ad c = Inr (st, ad', c')" and d: "disk' = PersistImportProgress resolved res disk"
    using q assms(2) by (auto split: if_splits)
  have root: "lo_state_root resolved = lo_state_root options"
    using r assms(3) by (auto simp: ResolveImportOptions_def rbind_eq_Inr split: option.splits prod.splits)
  have "list_all hex_header (hr_headers res)" using FetchHeaders_hex [OF f n(1)] .
  then have hx: "hex_header (last (hr_headers res))" using n(2) by (simp add: list_all_iff)
  then obtain b where b: "length b = 32" "hd_hash_hex (last (hr_headers res)) = WireHashToHex b" by (auto simp: hex_header_def)
  have l: "ad_last_header ad' = Some (last (hr_headers res))"
    using SubmitHeaders_advances [OF s assms(2)] by simp
  have "sf_import (disk' (lo_state_root options)) = Some (import_text (last (hr_headers res)))"
    using d root n assms(3,4) by (simp add: PersistImportProgress_def)
  then show ?thesis
    using b l assms(3) import_state_back [of "last (hr_headers res)"] hex_no_newline [of b]
    by (auto simp: ResolveImportOptions_def)
qed

section \<open>Properties\<close>

text \<open>C13: A header that is accepted after another one extends it by one height and names its hash, and one that carries difficulty
  bits has a hash that, read as a number, is at most the target they stand for, which is at most the limit of the network.\<close>

theorem accepted_header_work:
  assumes "status_ok (ValidateHeader h previous)"
  shows "(\<forall>p. previous = Some p \<longrightarrow> hd_height h = hd_height p + 1 \<and> hd_previous_hash_hex h = hd_hash_hex p)
    \<and> (hd_bits h \<noteq> 0 \<longrightarrow> (\<exists>digest. HashBytesFromHex (hd_hash_hex h) = Some digest \<and> be_value digest \<le> compact_value (hd_bits h)
        \<and> compact_value (hd_bits h) \<le> be_value pow_limit_bytes))"
  using assms ValidateHeader_links ValidateHeader_work by blast

definition sample_header :: "u32 \<Rightarrow> u32 \<Rightarrow> Header" where
  "sample_header k bits = \<lparr>hd_height = k, hd_hash_hex = btc_ToHex (replicate 32 0), hd_previous_hash_hex = btc_ToHex (replicate 32 0),
     hd_merkle_root_hex = [], hd_version = 1, hd_timestamp = 0, hd_bits = bits, hd_nonce = 0\<rparr>"

lemma target_limit: "TargetFromCompact 0x1E0377AE kSignetPowLimitHex = Some pow_limit_bytes"
  by (simp add: TargetFromCompact_def Let_def pow_limit_parsed) (simp add: pow_limit_bytes_def numeral_eq_Suc)

lemma btc_ToHex_nonempty [simp]: "btc_ToHex b = [] \<longleftrightarrow> b = []"
  by (cases b) (simp_all add: btc_ToHex_def)

lemma sample_header_ok: "ValidateHeader (sample_header 7 0x1E0377AE) (Some (sample_header 6 0x1E0377AE)) = Success []"
proof -
  have "\<not> replicate 32 0 > pow_limit_bytes"
    using byte_list_less [of pow_limit_bytes "replicate 32 0"] by (simp add: pow_limit_bytes_def)
  then show ?thesis by (simp add: ValidateHeader_def sample_header_def target_limit HashBytesFromHex_ToHex)
qed

theorem accepted_header_work_witness:
  "\<exists>digest. HashBytesFromHex (hd_hash_hex (sample_header 7 0x1E0377AE)) = Some digest \<and> be_value digest \<le> compact_value 0x1E0377AE"
proof -
  have "hd_bits (sample_header 7 0x1E0377AE) = 0x1E0377AE" by (simp add: sample_header_def)
  then show ?thesis using accepted_header_work [of "sample_header 7 0x1E0377AE" "Some (sample_header 6 0x1E0377AE)"] sample_header_ok by auto
qed

text \<open>The first header of a difficulty period, at a height divisible by 2016, is refused whenever it changes the difficulty:
  the exception for such a change is tied to the height before it being divisible by 2016.\<close>

theorem retarget_refused:
  assumes "hd_height h mod 2016 = 0" "hd_bits h \<noteq> 0" "hd_bits p \<noteq> 0" "hd_bits h \<noteq> hd_bits p"
  shows "\<not> status_ok (ValidateHeader h (Some p))"
  using ValidateHeader_retarget [of h p] assms by blast

theorem retarget_refused_witness:
  "\<not> status_ok (ValidateHeader (sample_header 2016 0x1D00FFFF) (Some (sample_header 2015 0x1E0377AE)))"
  by (rule retarget_refused) (simp_all add: sample_header_def)

text \<open>A header without difficulty bits is accepted as the first one whatever its hash is.\<close>

lemma header_without_bits_unchecked:
  "hd_bits h = 0 \<Longrightarrow> hd_hash_hex h \<noteq> [] \<Longrightarrow> hd_previous_hash_hex h \<noteq> [] \<Longrightarrow> ValidateHeader h None = Success []"
  by (simp add: ValidateHeader_def)

text \<open>C12: Over a node with in-memory stores and no pending transactions, \<open>SubmitHeaders\<close> commits the first \<open>n\<close> headers as blocks of
  one transaction each, in order. It succeeds exactly when there is a header and all of them were committed, and then the adapter
  tracks them; otherwise the adapter is as before, although a proper prefix may be committed.\<close>

theorem headers_become_blocks:
  assumes "kernel_inv memory_inv memory_chain (kernel c)" "pending_transactions (kernel c) = []" "adapter_tracks imported ad"
    and "SubmitHeaders memory_services utc hs ad c = Inr (st, ad', c')"
  shows "kernel_inv memory_inv memory_chain (kernel c') \<and>
    (\<exists>bs n. memory_chain (world (kernel c')) = memory_chain (world (kernel c)) @ bs
      \<and> map transactions bs = map (\<lambda>h. [header_transaction (ad_options ad) h]) (take n hs)
      \<and> n \<le> length hs \<and> (status_ok st \<longleftrightarrow> hs \<noteq> [] \<and> n = length hs)
      \<and> (if status_ok st then adapter_tracks (imported @ hs) ad' else ad' = ad))"
proof -
  note t = SubmitHeaders_tracks [OF assms(3,4)]
  consider (none) "c' = c" "\<not> status_ok st" | (loop) st2 where "submit_loop memory_services utc (ad_options ad) 0 hs c = Inr (st2, c')"
      "status_ok st = status_ok st2" "hs \<noteq> []"
    using assms(4) by (auto simp: SubmitHeaders_def Let_def rbind_eq_Inr split: if_splits)
  then show ?thesis
  proof cases
    case none
    then show ?thesis using assms(1) t by (intro conjI exI [of _ "[]"] exI [of _ "0 :: nat"]) simp_all
  next
    case loop
    from mem.submit_loop_chain [OF assms(1,2) loop(1)] obtain bs n where "kernel_inv memory_inv memory_chain (kernel c')"
      "memory_chain (world (kernel c')) = memory_chain (world (kernel c)) @ bs"
      "map transactions bs = map (\<lambda>h. [header_transaction (ad_options ad) h]) (take n hs)"
      "n \<le> length hs" "status_ok st2 \<longleftrightarrow> n = length hs" by blast
    then show ?thesis using t loop(2) by (intro conjI exI [of _ bs] exI [of _ n]) (auto split: if_splits)
  qed
qed

definition signet_options :: Options where
  "signet_options = \<lparr>op_network = Signet, op_peer_hint = [], op_header_sync_only = True\<rparr>"

definition bound_adapter :: HeaderSyncAdapter where
  "bound_adapter = (HeaderSyncAdapter_new signet_options)\<lparr>ad_bound := True\<rparr>"

definition running_core :: "MemoryStore NodeCore" where
  "running_core = (core (Node_new (sample_options InMemory) MemoryStore_new :: (MemoryStore, unit) Node))\<lparr>running := True\<rparr>"

lemma running_core_inv: "kernel_inv memory_inv memory_chain (kernel running_core)" "pending_transactions (kernel running_core) = []"
  using mem.new_inv [of MemoryStore_new "opt_chain (sample_options InMemory)"] memory_new_inv
  by (simp_all add: running_core_def Node_new_def) (simp add: Kernel_new_def)

lemma submit_one:
  assumes "ValidateHeader h None = Success []"
  shows "\<exists>c'. SubmitHeaders memory_services utc [h] bound_adapter running_core
    = Inr (Success [], bound_adapter\<lparr>ad_imported_heights := [hd_height h], ad_last_header := Some h\<rparr>, c')"
proof -
  have "header_text h \<noteq> []" by (simp add: header_text_def)
  then have tx: "tx_type (header_transaction signet_options h) \<noteq> []" "tx_payload (header_transaction signet_options h) \<noteq> []"
    by (simp_all add: header_transaction_def Transaction_FromText_def ToBytes_def)
  then obtain c1 where s: "Node_SubmitTransaction (header_transaction signet_options h) running_core = (Success [], c1)"
    and c1: "running c1" "kernel c1 = (kernel running_core)\<lparr>pending_transactions := [header_transaction signet_options h]\<rparr>"
    by (simp add: Node_SubmitTransaction_def running_core_def Node_new_def Kernel_SubmitTransaction_def Kernel_new_def Let_def)
  have "\<exists>c2. Node_CommitPending memory_services (utc 0) (''bitcoin:'' @ NetworkName Signet) c1 = Inr (Success [], c2)"
    using c1
    by (simp add: Node_CommitPending_def running_core_def Node_new_def Kernel_CommitPending_def Kernel_CommitBlock_def
        Kernel_new_def memory_services_def BasicBlockValidator_Validate_def pending_block_def ChainSnapshot_default_def
        Memory_PutBlock_def map_find_def MemoryStore_new_def Memory_Save_def Kernel_Head_def Memory_GetBlock_def Let_def)
  then obtain c2 where "Node_CommitPending memory_services (utc 0) (''bitcoin:'' @ NetworkName Signet) c1 = Inr (Success [], c2)" by blast
  then show ?thesis
    using s assms by (simp add: SubmitHeaders_def bound_adapter_def HeaderSyncAdapter_new_def signet_options_def Let_def)
qed

theorem headers_become_blocks_witness:
  "\<exists>ad' c' b. SubmitHeaders memory_services (\<lambda>k. 0) [sample_header 7 0] bound_adapter running_core = Inr (Success [], ad', c')
    \<and> memory_chain (world (kernel c')) = [b] \<and> transactions b = [header_transaction signet_options (sample_header 7 0)]"
proof -
  have "ValidateHeader (sample_header 7 0) None = Success []"
    by (rule header_without_bits_unchecked) (simp_all add: sample_header_def)
  from submit_one [OF this] obtain ad' c' where s: "SubmitHeaders memory_services (\<lambda>k. 0) [sample_header 7 0] bound_adapter running_core
      = Inr (Success [], ad', c')" by blast
  have "adapter_tracks [] bound_adapter" by (simp add: adapter_tracks_def bound_adapter_def HeaderSyncAdapter_new_def)
  from headers_become_blocks [OF running_core_inv this s] have "\<exists>bs n. memory_chain (world (kernel c')) = memory_chain (world (kernel running_core)) @ bs
      \<and> map transactions bs = map (\<lambda>h. [header_transaction (ad_options bound_adapter) h]) (take n [sample_header 7 0]) \<and> n = 1"
    by auto
  moreover have "memory_chain (world (kernel running_core)) = []" "ad_options bound_adapter = signet_options"
    using memory_new_inv by (simp_all add: running_core_def Node_new_def Kernel_new_def bound_adapter_def HeaderSyncAdapter_new_def)
  ultimately obtain bs where "memory_chain (world (kernel c')) = bs" "map transactions bs = [[header_transaction signet_options (sample_header 7 0)]]"
    by auto
  then show ?thesis using s by auto
qed

text \<open>C18: After a live import that succeeded below a writable state root, the next import starts from the last header that the
  adapter has: its height and its hash are read back from the file, and the hash makes a valid request.\<close>

theorem live_import_resumes:
  assumes "ImportLiveSignetHeaders ops utc hw net options ad c disk = Inr (st, r, ad', c', disk')" "status_ok st"
    and "lo_state_root options \<noteq> []" "sf_writable (disk (lo_state_root options))"
  shows "\<exists>h. ad_last_header ad' = Some h
    \<and> ResolveImportOptions disk' (Some c') options
        = Inr (options\<lparr>lo_locator_height := hd_height h, lo_locator_hash_hex := hd_hash_hex h\<rparr>)
    \<and> EncodeGetHeadersPayload (hd_hash_hex h) \<noteq> None"
proof -
  obtain h b where "ad_last_header ad' = Some h" "length b = 32" "hd_hash_hex h = WireHashToHex b"
    "ResolveImportOptions disk' (Some c') options = Inr (options\<lparr>lo_locator_height := hd_height h, lo_locator_hash_hex := hd_hash_hex h\<rparr>)"
    using import_resumes [OF assms] by blast
  then show ?thesis by (simp add: EncodeGetHeadersPayload_def WireHash_roundtrip)
qed

lemma zero_headers_ok: "ValidateHeader (parse_header hw (replicate 80 0) k) None = Success []"
proof (rule header_without_bits_unchecked)
  have e: "replicate 80 0 = replicate 72 0 @ AppendLittleEndian [] 0 4 @ replicate 4 (0 :: byte)"
  proof -
    have z: "AppendLittleEndian [] 0 4 = replicate 4 0" by (simp add: AppendLittleEndian_def upt_eight numeral_eq_Suc)
    show ?thesis unfolding z replicate_add [symmetric] by simp
  qed
  have "load_le (replicate 80 0) 72 4 = 0"
    using load_le_bytes [of "replicate 72 0" 0 4 "replicate 4 0"] unfolding e [symmetric] by simp
  then show "hd_bits (parse_header hw (replicate 80 0) k) = 0" by (simp add: parse_header_def)
  have "DoubleSha256 hw d \<noteq> []" for d by (metis length_DoubleSha256 list.size(3) zero_neq_numeral)
  then show "hd_hash_hex (parse_header hw (replicate 80 0) k) \<noteq> []" "hd_previous_hash_hex (parse_header hw (replicate 80 0) k) \<noteq> []"
    by (simp_all add: parse_header_def WireHashToHex_def)
qed

lemma zero_import:
  "\<exists>r ad' c' disk'. ImportLiveSignetHeaders memory_services utc hw (zero_net hw) (zero_options ''root'') bound_adapter running_core (sample_disk [])
    = Inr (Success [], r, ad', c', disk')"
proof -
  obtain r where f: "FetchHeaders hw (zero_net hw) (zero_options ''root'') SignetHeadersResult_new = Inr (Success [], r)"
    "hr_headers r = [parse_header hw (replicate 80 0) 1]"
    using zero_fetch by blast
  obtain c' where s: "SubmitHeaders memory_services utc (hr_headers r) bound_adapter running_core = Inr (Success [],
      bound_adapter\<lparr>ad_imported_heights := [hd_height (parse_header hw (replicate 80 0) 1)], ad_last_header := Some (parse_header hw (replicate 80 0) 1)\<rparr>, c')"
    unfolding f(2) using submit_one [OF zero_headers_ok] by blast
  have "ad_bound bound_adapter" by (simp add: bound_adapter_def)
  moreover have "ResolveImportOptions (sample_disk []) (Some running_core) (zero_options ''root'') = Inr (zero_options ''root'')"
    by (simp add: ResolveImportOptions_def zero_options_def sample_disk_def LoadImportState_def)
  ultimately show ?thesis using f s by (simp add: ImportLiveSignetHeaders_def)
qed

theorem live_import_resumes_witness:
  "\<exists>r ad' c' disk' (h :: Header). ImportLiveSignetHeaders memory_services (\<lambda>k. 0) None (zero_net None) (zero_options ''root'') bound_adapter running_core (sample_disk [])
      = Inr (Success [], r, ad', c', disk')
    \<and> ResolveImportOptions disk' (Some c') (zero_options ''root'')
      = Inr ((zero_options ''root'')\<lparr>lo_locator_height := hd_height h, lo_locator_hash_hex := hd_hash_hex h\<rparr>)"
proof -
  obtain r ad' c' disk' where i: "ImportLiveSignetHeaders memory_services (\<lambda>k. 0) None (zero_net None) (zero_options ''root'') bound_adapter running_core
      (sample_disk []) = Inr (Success [], r, ad', c', disk')"
    using zero_import by blast
  have "lo_state_root (zero_options ''root'') \<noteq> []" "sf_writable (sample_disk [] (lo_state_root (zero_options ''root'')))"
    by (simp_all add: zero_options_def sample_disk_def)
  from live_import_resumes [OF i _ this] i show ?thesis by auto
qed

end
