(* ===== verification/BitcoinJson.thy ===== *)
theory BitcoinJson
  imports Complex_Main Prelude
begin

text \<open>
  The JSON scanner and the text helpers of \<open>src/Blocxxi/Bitcoin/ingestion.cpp\<close>: Base64, strings, values, numbers and members of
  objects are read off the raw text of a response by position, without building a tree. A \<open>double\<close> is its exact value;
  \<open>rnd\<close> rounds a number to the nearest \<open>double\<close> and answers \<open>None\<close> when it overflows.
\<close>

section \<open>Base64\<close>

definition kBase64Alphabet :: string where
  "kBase64Alphabet = ''ABCDEFGHIJKLMNOPQRSTUVWXYZabcdefghijklmnopqrstuvwxyz0123456789+/''"

fun base64_emit :: "u32 \<Rightarrow> nat \<Rightarrow> string \<Rightarrow> string \<times> nat" where
  "base64_emit accumulator bits out =
     (if bits \<ge> 6 then
        base64_emit accumulator (bits - 6) (out @ [kBase64Alphabet ! unat (drop_bit (bits - 6) accumulator AND 0x3F)])
      else (out, bits))"

declare base64_emit.simps [simp del]

fun base64_loop :: "string \<Rightarrow> string \<Rightarrow> u32 \<Rightarrow> nat \<Rightarrow> string \<times> u32 \<times> nat" where
  "base64_loop [] out accumulator bits = (out, accumulator, bits)"
| "base64_loop (ch # chs) out accumulator bits =
     (let accumulator = push_bit 8 accumulator OR ucast (byte_of_char ch);
          (out, bits) = base64_emit accumulator (bits + 8) out in
      base64_loop chs out accumulator bits)"

definition base64_pad :: "string \<Rightarrow> string" where
  "base64_pad out = out @ replicate ((4 - length out mod 4) mod 4) (CHR ''='')"

definition Base64Encode :: "string \<Rightarrow> string" where
  "Base64Encode v =
     (let (out, accumulator, bits) = base64_loop v [] 0 0;
          out = (if bits > 0 then out @ [kBase64Alphabet ! unat (push_bit (6 - bits) accumulator AND 0x3F)] else out) in
      base64_pad out)"

section \<open>Scanning\<close>

definition SkipWhitespace :: "string \<Rightarrow> nat \<Rightarrow> nat" where
  "SkipWhitespace doc position = position + length (takeWhile is_space (drop position doc))"

fun string_end :: "string \<Rightarrow> nat \<Rightarrow> bool \<Rightarrow> nat option" where
  "string_end [] index escaped = None"
| "string_end (c # cs) index escaped =
     (if escaped then string_end cs (index + 1) False
      else if c = CHR 0x5C then string_end cs (index + 1) True
      else if c = CHR 0x22 then Some (index + 1)
      else string_end cs (index + 1) False)"

definition ConsumeString :: "string \<Rightarrow> nat \<Rightarrow> nat option" where
  "ConsumeString doc position =
     (if position \<ge> length doc \<or> doc ! position \<noteq> CHR 0x22 then None
      else string_end (drop (position + 1) doc) (position + 1) False)"

text \<open>The loop over the characters from \<open>index\<close> on; at the end of the text the value ends there.\<close>

fun value_end :: "string \<Rightarrow> nat \<Rightarrow> nat \<Rightarrow> bool \<Rightarrow> bool \<Rightarrow> nat" where
  "value_end [] index depth in_string escaped = index"
| "value_end (c # cs) index depth in_string escaped =
     (if in_string then
        (if escaped then value_end cs (index + 1) depth True False
         else if c = CHR 0x5C then value_end cs (index + 1) depth True True
         else value_end cs (index + 1) depth (c \<noteq> CHR 0x22) False)
      else if c = CHR 0x22 then value_end cs (index + 1) depth True escaped
      else if c = CHR ''{'' \<or> c = CHR ''['' then value_end cs (index + 1) (depth + 1) False escaped
      else if c = CHR ''}'' \<or> c = CHR '']'' then
        (if depth = 0 then index
         else if depth = 1 then index + 1
         else value_end cs (index + 1) (depth - 1) False escaped)
      else if depth = 0 \<and> c = CHR '','' then index
      else value_end cs (index + 1) depth False escaped)"

definition ConsumeJsonValue :: "string \<Rightarrow> nat \<Rightarrow> nat option" where
  "ConsumeJsonValue doc position =
     (let position = SkipWhitespace doc position in
      if position \<ge> length doc then None
      else if doc ! position = CHR 0x22 then ConsumeString doc position
      else Some (value_end (drop position doc) position 0 False False))"

definition Trim :: "string \<Rightarrow> string" where
  "Trim doc = rev (dropWhile is_space (rev (dropWhile is_space doc)))"

definition substr :: "string \<Rightarrow> nat \<Rightarrow> nat \<Rightarrow> string" where
  "substr doc position n = take n (drop position doc)"

section \<open>Values\<close>

fun unescape :: "string \<Rightarrow> bool \<Rightarrow> string" where
  "unescape [] escaped = []"
| "unescape (c # cs) escaped =
     (if escaped then c # unescape cs False
      else if c = CHR 0x5C then unescape cs True
      else c # unescape cs False)"

definition ParseString :: "string \<Rightarrow> string option" where
  "ParseString raw =
     (let raw = Trim raw in
      if length raw < 2 \<or> hd raw \<noteq> CHR 0x22 \<or> last raw \<noteq> CHR 0x22 then None
      else Some (unescape (butlast (tl raw)) False))"

definition ParseInteger :: "string \<Rightarrow> u64 option" where
  "ParseInteger raw =
     (case from_chars_unsigned 64 (Trim raw) of
        Inl _ \<Rightarrow> None
      | Inr (v, more_text) \<Rightarrow> if more_text \<noteq> [] then None else Some (word_of_nat v))"

text \<open>
  \<open>stream >> value\<close> for a \<open>double\<close>: a sign, digits with at most one point, an exponent; characters after the number are
  ignored, an exponent without digits makes the number unreadable.
\<close>

definition scan_sign :: "string \<Rightarrow> bool \<times> string" where
  "scan_sign s = (case s of c # cs \<Rightarrow> if c = CHR ''-'' then (True, cs) else if c = CHR ''+'' then (False, cs) else (False, s) | [] \<Rightarrow> (False, []))"

definition scan_decimal :: "string \<Rightarrow> rat option" where
  "scan_decimal s =
     (let (neg, s) = scan_sign s;
          whole = takeWhile is_digit s; s = dropWhile is_digit s;
          (frac, s) = (case s of c # cs \<Rightarrow> if c = CHR ''.'' then (takeWhile is_digit cs, dropWhile is_digit cs) else ([], s) | [] \<Rightarrow> ([], []));
          mantissa = (of_nat (digits_val (whole @ frac)) :: rat) / 10 ^ length frac;
          mantissa = (if neg then - mantissa else mantissa) in
      if whole = [] \<and> frac = [] then None
      else case s of
        c # cs \<Rightarrow>
          if c = CHR ''e'' \<or> c = CHR ''E'' then
            (let (neg, s) = scan_sign cs; digits = takeWhile is_digit s in
             if digits = [] then None
             else Some (if neg then mantissa / 10 ^ digits_val digits else mantissa * 10 ^ digits_val digits))
          else Some mantissa
      | [] \<Rightarrow> Some mantissa)"

definition ParseDouble :: "(rat \<Rightarrow> rat option) \<Rightarrow> string \<Rightarrow> rat option" where
  "ParseDouble rnd raw = (case scan_decimal (Trim raw) of None \<Rightarrow> None | Some x \<Rightarrow> rnd x)"

definition ParseBool :: "string \<Rightarrow> bool option" where
  "ParseBool raw = (let raw = Trim raw in if raw = ''true'' then Some True else if raw = ''false'' then Some False else None)"

section \<open>Members of objects\<close>

lemma string_end_gt: "string_end cs index escaped = Some e \<Longrightarrow> index < e \<and> e \<le> index + length cs"
proof (induction cs arbitrary: index escaped)
  case (Cons c cs)
  then show ?case using Cons.IH [of "Suc index"] by (auto split: if_splits) fastforce+
qed simp

lemma ConsumeString_gt: "ConsumeString doc position = Some e \<Longrightarrow> position + 1 < e \<and> e \<le> length doc"
  by (auto simp: ConsumeString_def split: if_splits dest: string_end_gt)

lemma value_end_ge: "index \<le> value_end cs index depth s escaped \<and> value_end cs index depth s escaped \<le> index + length cs"
proof (induction cs arbitrary: index depth s escaped)
  case (Cons c cs)
  have "index + 1 \<le> value_end cs (index + 1) d s e \<and> value_end cs (index + 1) d s e \<le> index + 1 + length cs" for d s e by (rule Cons)
  then have "index \<le> value_end cs (Suc index) d s e" "value_end cs (Suc index) d s e \<le> Suc (index + length cs)" for d s e
    by (metis Suc_eq_plus1 Suc_leD add_Suc)+
  then show ?case by simp
qed simp

lemma SkipWhitespace_ge: "position \<le> SkipWhitespace doc position"
  by (simp add: SkipWhitespace_def)

lemma ConsumeJsonValue_ge: "ConsumeJsonValue doc position = Some e \<Longrightarrow> position \<le> e"
  using SkipWhitespace_ge [of position doc]
  by (auto simp: ConsumeJsonValue_def Let_def split: if_splits dest!: ConsumeString_gt)
     (metis le_trans value_end_ge)

lemma member_progress:
  "ConsumeString doc (SkipWhitespace doc p) = Some k \<Longrightarrow> ConsumeJsonValue doc (SkipWhitespace doc (Suc (SkipWhitespace doc k))) = Some v \<Longrightarrow>
   p < SkipWhitespace doc v"
  using SkipWhitespace_ge [of p doc] SkipWhitespace_ge [of k doc] SkipWhitespace_ge [of v doc]
    SkipWhitespace_ge [of "Suc (SkipWhitespace doc k)" doc]
  by (fastforce dest!: ConsumeString_gt ConsumeJsonValue_ge)

function find_loop :: "string \<Rightarrow> string \<Rightarrow> nat \<Rightarrow> string option" where
  "find_loop doc key position =
     (if position + 1 < length doc then
        let position = SkipWhitespace doc position in
        if position \<ge> length doc \<or> doc ! position = CHR ''}'' then None
        else case ConsumeString doc position of None \<Rightarrow> None
        | Some key_end \<Rightarrow>
            let current_key = ParseString (substr doc position (key_end - position));
                position = SkipWhitespace doc key_end in
            if position \<ge> length doc \<or> doc ! position \<noteq> CHR '':'' then None
            else
              let position = SkipWhitespace doc (position + 1) in
              (case ConsumeJsonValue doc position of None \<Rightarrow> None
               | Some v_end \<Rightarrow>
                   if current_key = Some key then Some (Trim (substr doc position (v_end - position)))
                   else
                     let position = SkipWhitespace doc v_end in
                     find_loop doc key (if position < length doc \<and> doc ! position = CHR '','' then position + 1 else position))
      else None)"
  by auto
termination
  by (relation "measure (\<lambda>(doc, key, position). length doc - position)")
     (auto dest: member_progress intro!: diff_less_mono2)

declare find_loop.simps [simp del]

definition FindObjectValue :: "string \<Rightarrow> string \<Rightarrow> string option" where
  "FindObjectValue doc key =
     (let doc = Trim doc in
      if length doc < 2 \<or> hd doc \<noteq> CHR ''{'' \<or> last doc \<noteq> CHR ''}'' then None else find_loop doc key 1)"

definition ExtractResultValue :: "string \<Rightarrow> string option" where
  "ExtractResultValue response_json = FindObjectValue response_json ''result''"

section \<open>Rendered values\<close>

text \<open>JSON as a server writes it without spaces: the reference that the scanner is compared with.\<close>

datatype json = JString string | JAtom string | JArray "json list" | JObject "(string \<times> json) list"

definition quote :: "string \<Rightarrow> string" where
  "quote s = CHR 0x22 # concat (map (\<lambda>c. if c = CHR 0x22 \<or> c = CHR 0x5C then [CHR 0x5C, c] else [c]) s) @ [CHR 0x22]"

fun join :: "string list \<Rightarrow> string" where
  "join [] = []"
| "join [x] = x"
| "join (x # y # xs) = x @ CHR '','' # join (y # xs)"

fun render :: "json \<Rightarrow> string" where
  "render (JString s) = quote s"
| "render (JAtom a) = a"
| "render (JArray vs) = CHR ''['' # join (map render vs) @ [CHR '']'']"
| "render (JObject kvs) = CHR ''{'' # join (map (\<lambda>kv. quote (fst kv) @ CHR '':'' # render (snd kv)) kvs) @ [CHR ''}'']"

definition atom_char :: "char \<Rightarrow> bool" where
  "atom_char c \<longleftrightarrow> \<not> is_space c \<and> c \<notin> {CHR 0x22, CHR '','', CHR ''{'', CHR ''}'', CHR ''['', CHR '']'', CHR '':''}"

fun json_ok :: "json \<Rightarrow> bool" where
  "json_ok (JString s) = True"
| "json_ok (JAtom a) \<longleftrightarrow> a \<noteq> [] \<and> list_all atom_char a"
| "json_ok (JArray vs) \<longleftrightarrow> list_all json_ok vs"
| "json_ok (JObject kvs) \<longleftrightarrow> list_all (\<lambda>kv. json_ok (snd kv)) kvs"

abbreviation esc :: "char \<Rightarrow> string" where
  "esc c \<equiv> (if c = CHR 0x22 \<or> c = CHR 0x5C then [CHR 0x5C, c] else [c])"

lemma string_end_quote:
  "string_end (concat (map esc s) @ CHR 0x22 # post) index False = Some (index + length (concat (map esc s)) + 1)"
  by (induction s arbitrary: index) auto

lemma unescape_quote: "unescape (concat (map esc s)) False = s"
  by (induction s) auto

lemma quote_ends: "hd (quote s) = CHR 0x22" "last (quote s) = CHR 0x22" "2 \<le> length (quote s)" "quote s \<noteq> []"
  "butlast (tl (quote s)) = concat (map esc s)"
  by (simp_all add: quote_def)

lemma Trim_id: "x \<noteq> [] \<Longrightarrow> \<not> is_space (hd x) \<Longrightarrow> \<not> is_space (last x) \<Longrightarrow> Trim x = x"
proof -
  assume x: "x \<noteq> []" "\<not> is_space (hd x)" "\<not> is_space (last x)"
  have d: "dropWhile is_space y = y" if "y \<noteq> []" "\<not> is_space (hd y)" for y using that by (cases y) auto
  have "dropWhile is_space (rev x) = rev x" using x by (intro d) (simp_all add: hd_rev)
  then show ?thesis using d [OF x(1,2)] by (simp add: Trim_def)
qed

lemma not_space [simp]: "\<not> is_space (CHR 0x22)" "\<not> is_space (CHR ''{'')" "\<not> is_space (CHR ''}'')" "\<not> is_space (CHR ''['')"
  "\<not> is_space (CHR '']'')" "\<not> is_space (CHR '','')" "\<not> is_space (CHR '':'')"
  by (simp_all add: is_space_def)

lemma ParseString_quote: "ParseString (quote s) = Some s"
  using quote_ends [of s] by (simp add: ParseString_def Trim_id unescape_quote)

lemma render_ends: "json_ok v \<Longrightarrow> render v \<noteq> [] \<and> \<not> is_space (hd (render v)) \<and> \<not> is_space (last (render v))"
  by (cases v) (auto simp: quote_ends list_all_iff atom_char_def)

lemma Trim_render: "json_ok v \<Longrightarrow> Trim (render v) = render v"
  using render_ends [of v] by (simp add: Trim_id)

text \<open>A text that the scan passes over at a depth.\<close>

definition passed :: "nat \<Rightarrow> string \<Rightarrow> bool" where
  "passed d x \<longleftrightarrow> (\<forall>post index. value_end (x @ post) index d False False = value_end post (index + length x) d False False)"

lemma value_end_string:
  "value_end (concat (map esc s) @ CHR 0x22 # post) index d True False = value_end post (index + length (concat (map esc s)) + 1) d False False"
  by (induction s arbitrary: index) auto

lemma passed_quote: "passed d (quote s)"
  by (simp add: passed_def quote_def value_end_string add.assoc)

lemma passed_Nil: "passed d []"
  by (simp add: passed_def)

lemma passed_append: "passed d x \<Longrightarrow> passed d y \<Longrightarrow> passed d (x @ y)"
  by (simp add: passed_def add.assoc)

lemma passed_char: "atom_char c \<or> c = CHR '':'' \<or> c = CHR '','' \<and> 0 < d \<Longrightarrow> passed d [c]"
  by (auto simp: passed_def atom_char_def)

lemma passed_atom: "list_all atom_char a \<Longrightarrow> passed d a"
proof (induction a)
  case (Cons c a)
  then show ?case using passed_append [of d "[c]" a] by (simp add: passed_char)
qed (simp add: passed_Nil)

lemma passed_join: "0 < d \<Longrightarrow> (\<And>x. x \<in> set xs \<Longrightarrow> passed d x) \<Longrightarrow> passed d (join xs)"
proof (induction xs rule: join.induct)
  case (3 x y xs)
  have "passed d ([CHR '',''] @ join (y # xs))" using 3 by (intro passed_append passed_char) simp_all
  then show ?case using passed_append [of d x] 3(3) by simp
qed (simp_all add: passed_Nil)

lemma passed_bracket:
  assumes "passed (Suc d) x" "0 < d" "(a, b) \<in> {(CHR ''{'', CHR ''}''), (CHR ''['', CHR '']'')}"
  shows "passed d (a # x @ [b])"
  using assms by (auto simp: passed_def)

lemma passed_render: "json_ok v \<Longrightarrow> 0 < d \<Longrightarrow> passed d (render v)"
proof (induction v arbitrary: d)
  case (JArray vs)
  have "passed (Suc d) (join (map render vs))" using JArray by (intro passed_join) (auto simp: list_all_iff)
  then show ?case using JArray(3) by (auto intro: passed_bracket)
next
  case (JObject kvs)
  have "passed (Suc d) (quote (fst kv) @ CHR '':'' # render (snd kv))" if "kv \<in> set kvs" for kv
  proof -
    have "passed (Suc d) (render (snd kv))" using JObject that by (intro JObject(1) [of kv]) (auto simp: list_all_iff snds.simps)
    then have "passed (Suc d) ([CHR '':''] @ render (snd kv))" by (intro passed_append passed_char) simp_all
    then show ?thesis using passed_append [OF passed_quote, of "Suc d"] by simp
  qed
  then have "passed (Suc d) (join (map (\<lambda>kv. quote (fst kv) @ CHR '':'' # render (snd kv)) kvs))"
    by (intro passed_join) auto
  then show ?case using JObject(3) by (auto intro: passed_bracket)
qed (simp_all add: passed_quote passed_atom)

section \<open>The scanner on rendered values\<close>

lemma SkipWhitespace_at: "\<not> is_space c \<Longrightarrow> SkipWhitespace (pre @ c # post) (length pre) = length pre"
  by (simp add: SkipWhitespace_def)

lemma ConsumeString_at: "ConsumeString (pre @ quote s @ post) (length pre) = Some (length (pre @ quote s))"
  using string_end_quote [of s post "Suc (length pre)"] by (simp add: ConsumeString_def quote_def)

lemma ConsumeJsonValue_at:
  assumes "json_ok v" "c = CHR '','' \<or> c = CHR ''}''"
  shows "ConsumeJsonValue (pre @ render v @ c # post) (length pre) = Some (length (pre @ render v))"
proof -
  obtain h r where e: "render v = h # r" "\<not> is_space h" using render_ends [OF assms(1)] by (cases "render v") auto
  have s: "SkipWhitespace (pre @ render v @ c # post) (length pre) = length pre" using SkipWhitespace_at [of h pre] e by simp
  show ?thesis
  proof (cases v)
    case (JString t)
    then have "hd (render v) = CHR 0x22" by (simp add: quote_ends)
    then show ?thesis using s e ConsumeString_at [of pre t "c # post"] JString by (simp add: ConsumeJsonValue_def)
  next
    case (JAtom a)
    then have "h \<noteq> CHR 0x22" "passed 0 (render v)" using assms(1) e by (auto simp: atom_char_def intro: passed_atom)
    then show ?thesis using s e assms(2) by (auto simp: ConsumeJsonValue_def passed_def)
  next
    case (JArray vs)
    then have "passed 1 (join (map render vs))" using assms(1) by (intro passed_join) (auto simp: list_all_iff intro!: passed_render)
    then show ?thesis using s JArray by (simp add: ConsumeJsonValue_def passed_def)
  next
    case (JObject kvs)
    have "passed 1 (quote (fst kv) @ CHR '':'' # render (snd kv))" if "kv \<in> set kvs" for kv
    proof -
      have "passed 1 ([CHR '':''] @ render (snd kv))"
        using that assms(1) JObject by (intro passed_append passed_char passed_render) (auto simp: list_all_iff)
      then show ?thesis using passed_append [OF passed_quote, of 1] by simp
    qed
    then have "passed 1 (join (map (\<lambda>kv. quote (fst kv) @ CHR '':'' # render (snd kv)) kvs))" by (intro passed_join) auto
    then show ?thesis using s JObject by (simp add: ConsumeJsonValue_def passed_def)
  qed
qed

text \<open>
  A text that the scanner takes as one value when a comma or a closing brace follows, and an object written of such texts.
\<close>

definition value_text :: "string \<Rightarrow> bool" where
  "value_text x \<longleftrightarrow> x \<noteq> [] \<and> \<not> is_space (hd x) \<and> \<not> is_space (last x) \<and>
     (\<forall>pre c post. c = CHR '','' \<or> c = CHR ''}'' \<longrightarrow> ConsumeJsonValue (pre @ x @ c # post) (length pre) = Some (length (pre @ x)))"

abbreviation member_text :: "string \<times> string \<Rightarrow> string" where
  "member_text kv \<equiv> quote (fst kv) @ CHR '':'' # snd kv"

definition object_text :: "(string \<times> string) list \<Rightarrow> string" where
  "object_text kvs = CHR ''{'' # join (map member_text kvs) @ [CHR ''}'']"

abbreviation value_texts :: "(string \<times> string) list \<Rightarrow> bool" where
  "value_texts kvs \<equiv> list_all (\<lambda>kv. value_text (snd kv)) kvs"

lemma value_text_render: "json_ok v \<Longrightarrow> value_text (render v)"
  using render_ends [of v] ConsumeJsonValue_at [of v] by (simp add: value_text_def)

lemma value_text_quote: "value_text (quote s)"
  using value_text_render [of "JString s"] by simp

lemma value_text_bracket: "passed 1 x \<Longrightarrow> value_text (CHR ''['' # x @ [CHR '']''])"
  using SkipWhitespace_at [of "CHR ''[''"] by (simp add: value_text_def ConsumeJsonValue_def passed_def)

lemma Trim_value: "value_text x \<Longrightarrow> Trim x = x"
  by (simp add: value_text_def Trim_id)

lemma render_object: "render (JObject kvs) = object_text (map (\<lambda>(k, v). (k, render v)) kvs)"
  by (simp add: object_text_def case_prod_beta comp_def)

text \<open>What the scanner sees at a member of an object.\<close>

lemma member_scan:
  assumes doc: "doc = pre @ member_text (k, x) @ c # post" and x: "value_text x" and c: "c = CHR '','' \<or> c = CHR ''}''"
  defines "kq \<equiv> length (pre @ quote k)" and "kc \<equiv> length (pre @ quote k @ [CHR '':''])" and "all \<equiv> length (pre @ member_text (k, x))"
  shows "SkipWhitespace doc (length pre) = length pre" "doc ! length pre = CHR 0x22" "\<not> length doc \<le> length pre"
    "Suc (length pre) < length doc"
    "ConsumeString doc (length pre) = Some kq" "ParseString (substr doc (length pre) (kq - length pre)) = Some k"
    "SkipWhitespace doc kq = kq" "doc ! kq = CHR '':''" "\<not> length doc \<le> kq"
    "SkipWhitespace doc (Suc kq) = kc" "ConsumeJsonValue doc kc = Some all" "Trim (substr doc kc (all - kc)) = x"
    "SkipWhitespace doc all = all" "doc ! all = c" "all < length doc"
proof -
  let ?kq = "pre @ quote k" and ?kc = "pre @ quote k @ [CHR '':'']" and ?all = "pre @ quote k @ CHR '':'' # x"
  show "SkipWhitespace doc (length pre) = length pre" using SkipWhitespace_at [of "CHR 0x22" pre] doc by (simp add: quote_def)
  show "doc ! length pre = CHR 0x22" "\<not> length doc \<le> length pre" "Suc (length pre) < length doc" using doc by (simp_all add: quote_def)
  show "ConsumeString doc (length pre) = Some kq" using ConsumeString_at [of pre k] doc by (simp add: kq_def)
  show "ParseString (substr doc (length pre) (kq - length pre)) = Some k" using doc by (simp add: substr_def ParseString_quote kq_def)
  show "SkipWhitespace doc kq = kq" "doc ! kq = CHR '':''" "\<not> length doc \<le> kq"
    using SkipWhitespace_at [of "CHR '':''" ?kq "x @ c # post"] doc by (simp_all add: nth_append kq_def)
  obtain h r where e: "x = h # r" "\<not> is_space h" using x by (cases x) (auto simp: value_text_def)
  show "SkipWhitespace doc (Suc kq) = kc" using SkipWhitespace_at [of h ?kc "r @ c # post"] doc e by (simp add: kq_def kc_def)
  have "ConsumeJsonValue (?kc @ x @ c # post) (length ?kc) = Some (length (?kc @ x))"
    using x c unfolding value_text_def by blast
  then show "ConsumeJsonValue doc kc = Some all" using doc by (simp add: kc_def all_def)
  show "Trim (substr doc kc (all - kc)) = x" using doc by (simp add: substr_def Trim_value [OF x] kc_def all_def)
  show "SkipWhitespace doc all = all" "doc ! all = c" "all < length doc"
    using SkipWhitespace_at [of c ?all post] doc c by (auto simp: nth_append all_def)
qed

lemma find_loop_step:
  assumes doc: "doc = pre @ member_text (k, x) @ c # post" and x: "value_text x" and c: "c = CHR '','' \<or> c = CHR ''}''"
  shows "find_loop doc key (length pre) = (if k = key then Some x
    else find_loop doc key (length (pre @ member_text (k, x)) + (if c = CHR '','' then 1 else 0)))"
proof -
  note steps = find_loop.simps [of doc key "length pre"] Let_def member_scan [OF assms, unfolded fst_conv snd_conv]
  show ?thesis
  proof (cases "key = k")
    case True
    show ?thesis unfolding True by (simp add: steps [unfolded True] del: length_append)
  next
    case False
    then show ?thesis by (auto simp: steps simp del: length_append)
  qed
qed

lemma find_loop_members:
  "doc = pre @ join (map member_text kvs) @ [CHR ''}''] \<Longrightarrow> value_texts kvs \<Longrightarrow> pre \<noteq> [] \<Longrightarrow>
   find_loop doc key (length pre) = map_of kvs key"
proof (induction kvs arbitrary: pre)
  case Nil
  then show ?case by (simp add: find_loop.simps)
next
  case (Cons kv kvs)
  obtain k x where kv: "kv = (k, x)" by (cases kv)
  show ?case
  proof (cases kvs)
    case Nil
    have "find_loop doc key (length pre) = (if k = key then Some x else find_loop doc key (length (pre @ member_text (k, x)) + 0))"
      using find_loop_step [of doc pre k x "CHR ''}''" "[]" key] Cons.prems kv Nil by simp
    moreover have "find_loop doc key (length (pre @ member_text (k, x))) = None"
      using Cons.prems kv Nil by (subst find_loop.simps) simp
    ultimately show ?thesis using kv Nil by simp
  next
    case (Cons kv2 kvs2)
    let ?pre = "pre @ member_text (k, x) @ [CHR '','']"
    have "find_loop doc key (length pre) = (if k = key then Some x else find_loop doc key (length (pre @ member_text (k, x)) + 1))"
      using find_loop_step [of doc pre k x "CHR '',''" "join (map member_text kvs) @ [CHR ''}'']" key] Cons.prems kv Cons by simp
    moreover have "find_loop doc key (length ?pre) = map_of kvs key"
      using Cons.prems kv Cons by (intro Cons.IH) simp_all
    ultimately show ?thesis using kv by simp
  qed
qed

lemma Trim_object: "Trim (object_text kvs) = object_text kvs"
  by (rule Trim_id) (simp_all add: object_text_def)

lemma FindObjectValue_object:
  assumes "value_texts kvs"
  shows "FindObjectValue (object_text kvs) key = map_of kvs key"
proof -
  have "find_loop (object_text kvs) key (length [CHR ''{'']) = map_of kvs key"
    using assms by (intro find_loop_members) (simp_all add: object_text_def)
  then show ?thesis using Trim_object [of kvs] by (simp add: FindObjectValue_def) (simp add: object_text_def)
qed

lemma FindObjectValue_render:
  assumes "json_ok (JObject kvs)"
  shows "FindObjectValue (render (JObject kvs)) key = map_option render (map_of kvs key)"
proof -
  have "value_texts (map (\<lambda>(k, v). (k, render v)) kvs)"
    using assms value_text_render by (auto simp: list_all_iff)
  then show ?thesis unfolding render_object by (simp add: FindObjectValue_object map_of_map)
qed

lemma ParseInteger_show: "n < 2 ^ 64 \<Longrightarrow> ParseInteger (show_nat n) = Some (word_of_nat n)"
proof -
  assume n: "n < 2 ^ 64"
  have "\<not> is_space c" if "is_digit c" for c using that by (auto simp: is_space_def is_digit_def)
  then have "Trim (show_nat n) = show_nat n" using show_nat_set [of _ n] by (intro Trim_id) auto
  then show ?thesis using n from_chars_unsigned_show_nat [of n 64] by (simp add: ParseInteger_def)
qed

section \<open>Base64 against its definition\<close>

text \<open>Groups of three bytes as numbers of 24 bits, in digits of base 64; one or two bytes left over are filled up with zero bits.\<close>

definition base64_digit :: "nat \<Rightarrow> char" where
  "base64_digit v = kBase64Alphabet ! (v mod 64)"

fun base64_spec :: "string \<Rightarrow> string" where
  "base64_spec (a # b # c # chs) =
     (let v = of_char a * 65536 + of_char b * 256 + of_char c in
      [base64_digit (v div 262144), base64_digit (v div 4096), base64_digit (v div 64), base64_digit v] @ base64_spec chs)"
| "base64_spec [a, b] =
     (let v = (of_char a * 256 + of_char b) * 4 in [base64_digit (v div 4096), base64_digit (v div 64), base64_digit v, CHR ''=''])"
| "base64_spec [a] = (let v = of_char a * 16 in [base64_digit (v div 64), base64_digit v, CHR ''='', CHR ''=''])"
| "base64_spec [] = []"

lemma acc_step:
  assumes "k \<le> 24"
  shows "unat (push_bit 8 acc OR ucast (a :: byte) :: u32) mod 2 ^ (k + 8) = unat acc mod 2 ^ k * 256 + unat a"
proof -
  have "take_bit (k + 8) (unat (push_bit 8 acc OR ucast a :: u32)) = push_bit 8 (take_bit k (unat acc)) OR unat a"
    using assms by (intro bit_eqI) (auto simp: bit_simps dest: bit_byte_less)
  also have "\<dots> = push_bit 8 (take_bit k (unat acc)) + unat a"
    by (rule disjunctive_add [symmetric]) (auto simp: bit_simps dest: bit_byte_less)
  finally show ?thesis by (simp add: take_bit_eq_mod push_bit_eq_mult)
qed

lemma digit_at: "kBase64Alphabet ! unat (drop_bit n (x :: u32) AND 0x3F) = base64_digit (unat x div 2 ^ n)"
proof -
  have m: "(0x3F :: u32) = mask 6" by (simp add: mask_eq_exp_minus_1)
  have "drop_bit n x AND 0x3F = take_bit 6 (drop_bit n x)" unfolding m take_bit_eq_mask ..
  then have "unat (drop_bit n x AND 0x3F) = take_bit 6 (drop_bit n (unat x))"
    by (simp only: unsigned_take_bit_eq unat_drop_bit_eq)
  then show ?thesis by (simp add: base64_digit_def take_bit_eq_mod drop_bit_eq_div)
qed

lemma emit_8: "base64_emit acc 8 out = (out @ [base64_digit (unat acc div 2 ^ 2)], 2)"
  by (simp add: base64_emit.simps digit_at del: power_Suc)

lemma emit_10: "base64_emit acc 10 out = (out @ [base64_digit (unat acc div 2 ^ 4)], 4)"
  by (simp add: base64_emit.simps digit_at del: power_Suc)

lemma emit_12: "base64_emit acc 12 out = (out @ [base64_digit (unat acc div 2 ^ 6), base64_digit (unat acc)], 0)"
  using digit_at [of 0 acc] by (simp add: base64_emit.simps [of acc 12] base64_emit.simps [of acc 6] base64_emit.simps [of acc 0] digit_at del: power_Suc)

lemma digit_low: "base64_digit (x div 2 ^ n) = base64_digit (x mod 2 ^ (n + 6) div 2 ^ n)"
proof -
  have "x mod 2 ^ (n + 6) = 2 ^ n * (x div 2 ^ n mod 64) + x mod 2 ^ n"
    using mod_mult2_eq [of x "2 ^ n" 64] by (simp add: power_add)
  then have "x mod 2 ^ (n + 6) div 2 ^ n = x div 2 ^ n mod 64" by (simp add: div_add1_eq)
  then show ?thesis by (simp add: base64_digit_def)
qed

lemma digit_mod: "n + 6 \<le> m \<Longrightarrow> base64_digit (x div 2 ^ n) = base64_digit (x mod 2 ^ m div 2 ^ n)"
proof -
  assume "n + 6 \<le> m"
  then have "x mod 2 ^ m mod 2 ^ (n + 6) = x mod 2 ^ (n + 6)" by (simp add: mod_mod_cancel le_imp_power_dvd)
  then show ?thesis using digit_low [of x n] digit_low [of "x mod 2 ^ m" n] by simp
qed

lemma div_byte: "c < 256 \<Longrightarrow> (x * 256 + c) div (256 * m) = x div (m :: nat)"
  by (simp add: div_mult2_eq)

abbreviation acc1 :: "u32 \<Rightarrow> char \<Rightarrow> u32" where
  "acc1 acc c \<equiv> push_bit 8 acc OR ucast (byte_of_char c)"

lemma acc_mods:
  "unat (acc1 acc a) mod 2 ^ 8 = of_char a"
  "unat (acc1 (acc1 acc a) b) mod 2 ^ 16 = of_char a * 256 + of_char b"
  "unat (acc1 (acc1 (acc1 acc a) b) c) mod 2 ^ 24 = of_char a * 65536 + of_char b * 256 + of_char c"
proof -
  show 1: "unat (acc1 acc a) mod 2 ^ 8 = of_char a" for acc a
    using acc_step [of 0 acc "byte_of_char a"] by (simp add: unat_byte_of_char)
  show 2: "unat (acc1 (acc1 acc a) b) mod 2 ^ 16 = of_char a * 256 + of_char b" for acc a b
    using acc_step [of 8 "acc1 acc a" "byte_of_char b"] 1 [of acc a] by (simp add: unat_byte_of_char)
  show "unat (acc1 (acc1 (acc1 acc a) b) c) mod 2 ^ 24 = of_char a * 65536 + of_char b * 256 + of_char c"
    using acc_step [of 16 "acc1 (acc1 acc a) b" "byte_of_char c"] 2 [of acc a b] by (simp add: unat_byte_of_char)
qed

lemma first_digit: "base64_digit (unat (acc1 acc a) div 2 ^ 2) = base64_digit (of_char a div 4)"
  using digit_mod [of 2 8 "unat (acc1 acc a)"] acc_mods(1) [of acc a] by simp

lemma second_digit: "base64_digit (unat (acc1 (acc1 acc a) b) div 2 ^ 4) = base64_digit ((of_char a * 256 + of_char b) div 16)"
  using digit_mod [of 4 16 "unat (acc1 (acc1 acc a) b)"] acc_mods(2) [of acc a b] by simp

lemma last_digits:
  "base64_digit (unat (acc1 (acc1 (acc1 acc a) b) c) div 2 ^ 6) = base64_digit ((of_char a * 65536 + of_char b * 256 + of_char c) div 64)"
  "base64_digit (unat (acc1 (acc1 (acc1 acc a) b) c)) = base64_digit (of_char a * 65536 + of_char b * 256 + of_char c)"
  using digit_mod [of 6 24 "unat (acc1 (acc1 (acc1 acc a) b) c)"] digit_mod [of 0 24 "unat (acc1 (acc1 (acc1 acc a) b) c)"]
    acc_mods(3) [of acc a b c] by simp_all

lemma loop_three:
  "base64_loop (a # b # c # chs) out acc 0 = base64_loop chs (out @ base64_spec [a, b, c]) (acc1 (acc1 (acc1 acc a) b) c) 0"
proof -
  let ?A = "of_char a :: nat" and ?B = "of_char b :: nat" and ?C = "of_char c :: nat"
  have v: "?A * 65536 + ?B * 256 + ?C = (?A * 256 + ?B) * 256 + ?C" by simp
  have e: "(?A * 65536 + ?B * 256 + ?C) div 4096 = (?A * 256 + ?B) div 16" "(?A * 65536 + ?B * 256 + ?C) div 262144 = ?A div 4"
    unfolding v using div_byte [of ?C "?A * 256 + ?B" 16] div_byte [of ?C "?A * 256 + ?B" 1024] div_byte [of ?B ?A 4] by simp_all
  show ?thesis
    by (simp add: emit_8 emit_10 emit_12 first_digit [simplified] second_digit [simplified] last_digits [simplified] e Let_def)
qed

lemma digit_shifted: "kBase64Alphabet ! unat (push_bit k (x :: u32) AND 0x3F) = base64_digit (unat x * 2 ^ k)" if "k \<le> 26"
proof -
  have "unat (push_bit k x) mod 64 = unat x * 2 ^ k mod 64"
  proof -
    have "unat (push_bit k x) = take_bit 32 (push_bit k (unat x))" by (simp add: unsigned_push_bit_eq)
    then have "take_bit 6 (unat (push_bit k x)) = take_bit 6 (push_bit k (unat x))" by simp
    then show ?thesis by (simp add: take_bit_eq_mod push_bit_eq_mult)
  qed
  then show ?thesis using digit_at [of 0 "push_bit k x"] by (simp add: base64_digit_def)
qed

lemma digit_scaled: "x mod 2 ^ m = y mod 2 ^ m \<Longrightarrow> 6 \<le> m + k \<Longrightarrow> base64_digit (x * 2 ^ k) = base64_digit (y * 2 ^ k)"
proof -
  assume xy: "x mod 2 ^ m = y mod 2 ^ m" "6 \<le> m + k"
  then have "x * 2 ^ k mod 2 ^ (m + k) = y * 2 ^ k mod 2 ^ (m + k)" by (simp add: power_add mult_mod_left [symmetric])
  moreover have "z mod 2 ^ (m + k) mod 64 = z mod 64" for z :: nat
    using le_imp_power_dvd [OF xy(2), of 2] by (intro mod_mod_cancel) simp
  ultimately show ?thesis unfolding base64_digit_def by metis
qed

definition base64_finish :: "string \<times> u32 \<times> nat \<Rightarrow> string" where
  "base64_finish r = (let (out, accumulator, bits) = r in
     base64_pad (if bits > 0 then out @ [kBase64Alphabet ! unat (push_bit (6 - bits) accumulator AND 0x3F)] else out))"

lemma base64_finish_loop: "length out mod 4 = 0 \<Longrightarrow> base64_finish (base64_loop v out acc 0) = out @ base64_spec v"
proof (induction v arbitrary: out acc rule: base64_spec.induct)
  case (1 a b c chs)
  have "base64_spec (a # b # c # chs) = base64_spec [a, b, c] @ base64_spec chs" "length (base64_spec [a, b, c]) = 4" by (simp_all add: Let_def)
  then show ?case using 1 by (simp add: loop_three del: base64_spec.simps base64_loop.simps)
next
  case (2 a b)
  have d1: "(of_char a * 256 + of_char b) * 4 div 4096 = (of_char a div 4 :: nat)" "(of_char a * 256 + of_char b) * 4 div 64 = (of_char a * 256 + of_char b :: nat) div 16"
    using div_byte [of "of_char b" "of_char a" 4] div_mult_mult2 [of 4 "of_char a * 256 + of_char b :: nat" 1024] div_mult_mult2 [of 4 "of_char a * 256 + of_char b :: nat" 16] by simp_all
  have d3: "base64_digit (unat (acc1 (acc1 acc a) b) * 2 ^ 2) = base64_digit ((of_char a * 256 + of_char b) * 2 ^ 2)"
    using acc_mods(2) [of acc a b] by (intro digit_scaled [where m = 16]) simp_all
  have "(Suc (Suc (Suc (length out)))) mod 4 = 3" using 2 by presburger
  then show ?case
    using d1 d3 digit_shifted [of 2 "acc1 (acc1 acc a) b"]
    by (simp add: base64_finish_def emit_8 emit_10 first_digit [simplified] second_digit [simplified] base64_pad_def Let_def)
next
  case (3 a)
  have d1: "of_char a * 16 div 64 = (of_char a div 4 :: nat)" using div_mult_mult2 [of 16 "of_char a :: nat" 4] by simp
  have d2: "base64_digit (unat (acc1 acc a) * 2 ^ 4) = base64_digit (of_char a * 2 ^ 4)"
    using acc_mods(1) [of acc a] by (intro digit_scaled [where m = 8]) simp_all
  have "(Suc (Suc (length out))) mod 4 = 2" using 3 by presburger
  moreover have "replicate 2 (CHR ''='') = ''==''" by (simp add: numeral_2_eq_2)
  ultimately show ?case
    using d1 d2 digit_shifted [of 4 "acc1 acc a"]
    by (simp add: base64_finish_def emit_8 first_digit [simplified] base64_pad_def Let_def)
next
  case 4
  then show ?case by (simp add: base64_finish_def base64_pad_def)
qed

lemma Base64Encode_spec: "Base64Encode v = base64_spec v"
  using base64_finish_loop [of "[]" v 0] by (simp add: Base64Encode_def base64_finish_def Let_def split: prod.splits)

section \<open>Properties\<close>

text \<open>C23: On an object that is written without spaces, whatever its members are (nested objects and arrays, strings that contain
  braces, commas, quotes and backslashes), \<open>FindObjectValue\<close> returns exactly the text of the first member with the key, and
  nothing when there is none; a string member is read back to its characters.\<close>

theorem json_member_found:
  assumes "json_ok (JObject kvs)"
  shows "FindObjectValue (render (JObject kvs)) key = map_option render (map_of kvs key)
    \<and> (\<forall>s. map_of kvs key = Some (JString s) \<longrightarrow> Option.bind (FindObjectValue (render (JObject kvs)) key) ParseString = Some s)"
  using FindObjectValue_render [OF assms, of key] ParseString_quote by simp

theorem json_member_found_witness:
  "FindObjectValue (render (JObject [(''a'', JArray [JAtom ''1'', JString ''},]'']), (''b'', JObject [(''b'', JAtom ''2'')])])) ''b''
    = Some (render (JObject [(''b'', JAtom ''2'')]))"
proof -
  have "json_ok (JObject [(''a'', JArray [JAtom ''1'', JString ''},]'']), (''b'', JObject [(''b'', JAtom ''2'')])])"
    by (simp add: atom_char_def is_space_def)
  from conjunct1 [OF json_member_found [OF this, of "''b''"]] show ?thesis by simp
qed

text \<open>\<open>Base64Encode\<close>, which shifts bytes through a 32-bit accumulator, computes the Base64 text as it is defined: groups of
  three bytes as four digits of base 64, padded with equal signs.\<close>

theorem base64_is_base64: "Base64Encode v = base64_spec v"
  by (rule Base64Encode_spec)

text \<open>The characters behind a backslash are taken as they are: the escape for a line feed reads as the letter n.\<close>

lemma escape_not_decoded: "ParseString [CHR 0x22, CHR 0x5C, CHR ''n'', CHR 0x22] = Some ''n''"
  by (simp add: ParseString_def Trim_def is_space_def Let_def)

end
