(* ===== verification/BitcoinRpc.thy ===== *)
theory BitcoinRpc
  imports BitcoinJson BitcoinAdapter
begin

text \<open>
  The Bitcoin Core data source of \<open>src/Blocxxi/Bitcoin/ingestion.cpp\<close> and \<open>ingestion.h\<close>: how its connection is configured, the
  call over HTTP, and the poll that turns seven answers into one batch of observations. The environment, the files and the
  network are parameters; so is the clock.
\<close>

section \<open>Observations\<close>

record RpcConnectionConfig =
  rc_host :: string
  rc_port :: "16 word"
  rc_username :: string
  rc_password :: string
  rc_path :: string

record BitcoinCoreRpcConfig =
  cr_network :: Network
  cr_connection :: RpcConnectionConfig
  cr_max_mempool_transactions :: u64

record TransactionObservation =
  to_txid :: string
  to_base_fee_btc :: rat
  to_vsize :: u64
  to_weight :: u64

record BlockObservation =
  bo_height :: u64
  bo_block_hash_hex :: string
  bo_transaction_count :: u64
  bo_total_fee_satoshis :: u64

record NetworkHealthObservation =
  nh_connection_count :: u64
  nh_mempool_transaction_count :: u64
  nh_mempool_bytes :: u64
  nh_relay_fee_btc :: rat
  nh_initial_block_download :: bool
  nh_warning :: string

record ObservationBatch =
  ob_source_name :: string
  ob_network :: Network
  ob_observed_at_utc :: i64
  ob_mempool_transactions :: "TransactionObservation list"
  ob_latest_block :: "BlockObservation option"
  ob_network_health :: "NetworkHealthObservation option"

definition integer_or_zero :: "string option \<Rightarrow> u64" where
  "integer_or_zero raw = (case Option.bind raw ParseInteger of None \<Rightarrow> 0 | Some v \<Rightarrow> v)"

definition double_or_zero :: "(rat \<Rightarrow> rat option) \<Rightarrow> string option \<Rightarrow> rat" where
  "double_or_zero rnd raw = (case Option.bind raw (ParseDouble rnd) of None \<Rightarrow> 0 | Some v \<Rightarrow> v)"

definition mempool_entry :: "(rat \<Rightarrow> rat option) \<Rightarrow> string option \<Rightarrow> string \<Rightarrow> TransactionObservation" where
  "mempool_entry rnd txid entry = \<lparr>to_txid = (case txid of None \<Rightarrow> [] | Some t \<Rightarrow> t),
     to_base_fee_btc = double_or_zero rnd (Option.bind (FindObjectValue entry ''fees'') (\<lambda>fees. FindObjectValue fees ''base'')),
     to_vsize = integer_or_zero (FindObjectValue entry ''vsize''),
     to_weight = integer_or_zero (FindObjectValue entry ''weight'')\<rparr>"

function mempool_loop :: "(rat \<Rightarrow> rat option) \<Rightarrow> string \<Rightarrow> u64 \<Rightarrow> nat \<Rightarrow> TransactionObservation list \<Rightarrow> TransactionObservation list option" where
  "mempool_loop rnd raw limit position observations =
     (if position + 1 < length raw \<and> length observations < unat limit then
        let position = SkipWhitespace raw position in
        if position \<ge> length raw \<or> raw ! position = CHR ''}'' then Some observations
        else case ConsumeString raw position of None \<Rightarrow> None
        | Some key_end \<Rightarrow>
            let txid = ParseString (substr raw position (key_end - position));
                position = SkipWhitespace raw key_end in
            if position \<ge> length raw \<or> raw ! position \<noteq> CHR '':'' then None
            else
              let position = SkipWhitespace raw (position + 1) in
              (case ConsumeJsonValue raw position of None \<Rightarrow> None
               | Some v_end \<Rightarrow>
                   let entry = Trim (substr raw position (v_end - position));
                       position = SkipWhitespace raw v_end in
                   mempool_loop rnd raw limit (if position < length raw \<and> raw ! position = CHR '','' then position + 1 else position)
                     (observations @ [mempool_entry rnd txid entry]))
      else Some observations)"
  by auto
termination
  by (relation "measure (\<lambda>(rnd, raw, limit, position, observations). length raw - position)")
     (auto dest: member_progress intro!: diff_less_mono2)

declare mempool_loop.simps [simp del]

definition ParseMempoolTransactions :: "(rat \<Rightarrow> rat option) \<Rightarrow> string \<Rightarrow> u64 \<Rightarrow> TransactionObservation list option" where
  "ParseMempoolTransactions rnd raw limit =
     (let raw = Trim raw in
      if length raw < 2 \<or> hd raw \<noteq> CHR ''{'' \<or> last raw \<noteq> CHR ''}'' then None else mempool_loop rnd raw limit 1 [])"

text \<open>The conversion of a \<open>double\<close> to an unsigned integer cuts off the fraction; outside the range it is undefined.\<close>

definition ToSatoshis :: "(rat \<Rightarrow> rat option) \<Rightarrow> rat \<Rightarrow> u64 res" where
  "ToSatoshis rnd btc_value =
     (case rnd (btc_value * 100000000) of None \<Rightarrow> Inl UndefinedBehaviour
      | Some v \<Rightarrow> if v \<le> - 1 \<or> v \<ge> 2 ^ 64 then Inl UndefinedBehaviour else Inr (word_of_nat (nat \<lfloor>v\<rfloor>)))"

section \<open>The call over HTTP\<close>

definition BuildRequest :: "string \<Rightarrow> string \<Rightarrow> string" where
  "BuildRequest rpc_method params_json =
     ''{\"jsonrpc\":\"1.0\",\"id\":\"blocxxi\",\"method\":\"'' @ rpc_method @ ''\",\"params\":'' @ params_json @ ''}''"

text \<open>
  What the network does during one call: the resolver and the connection attempt give an error message or succeed, the server
  takes the request or not, and its answer arrives in pieces, ended by the end of the stream or by an error.
\<close>

record HttpNet =
  hn_resolve :: "string \<Rightarrow> string \<Rightarrow> string + string list"
  hn_connect :: "string list \<Rightarrow> string option"
  hn_write :: "string \<Rightarrow> string option"
  hn_reads :: "string \<Rightarrow> string list \<times> string option"

fun text_find :: "string \<Rightarrow> string \<Rightarrow> nat option" where
  "text_find pat [] = (if pat = [] then Some 0 else None)"
| "text_find pat (c # cs) = (if take (length pat) (c # cs) = pat then Some 0 else map_option Suc (text_find pat cs))"

definition crlf :: string where
  "crlf = [CHR 0x0D, CHR 0x0A]"

definition http_request :: "RpcConnectionConfig \<Rightarrow> string \<Rightarrow> string" where
  "http_request cfg body =
     ''POST '' @ rc_path cfg @ '' HTTP/1.1'' @ crlf
     @ ''Host: '' @ rc_host cfg @ '':'' @ show_nat (unat (rc_port cfg)) @ crlf
     @ ''Authorization: Basic '' @ Base64Encode (rc_username cfg @ '':'' @ rc_password cfg) @ crlf
     @ ''Content-Type: application/json'' @ crlf
     @ ''Connection: close'' @ crlf
     @ ''Content-Length: '' @ show_nat (length body) @ crlf @ crlf
     @ body"

text \<open>The status of a call and the response variable after it, which a failed call leaves as it was.\<close>

definition HttpRpcTransport_Call ::
  "RpcConnectionConfig \<Rightarrow> (nat \<Rightarrow> HttpNet) \<Rightarrow> nat \<Rightarrow> string \<Rightarrow> string \<Rightarrow> string \<Rightarrow> Status \<times> string \<times> nat" where
  "HttpRpcTransport_Call cfg net k rpc_method params_json response_json =
     (if rc_host cfg = [] \<or> rc_username cfg = [] \<or> rc_password cfg = [] then
        (Failure InvalidArgument ''rpc transport requires host, username, and password'', response_json, k)
      else case hn_resolve (net k) (rc_host cfg) (show_nat (unat (rc_port cfg))) of
        Inl err \<Rightarrow> (Failure IOError err, response_json, k + 1)
      | Inr endpoints \<Rightarrow>
      (case hn_connect (net k) endpoints of
        Some err \<Rightarrow> (Failure IOError err, response_json, k + 1)
      | None \<Rightarrow>
        let request = http_request cfg (BuildRequest rpc_method params_json) in
        (case hn_write (net k) request of
          Some err \<Rightarrow> (Failure IOError err, response_json, k + 1)
        | None \<Rightarrow>
        (case hn_reads (net k) request of
          (chunks, Some err) \<Rightarrow> (Failure IOError err, response_json, k + 1)
        | (chunks, None) \<Rightarrow>
          let response = concat chunks in
          (case text_find (crlf @ crlf) response of
            None \<Rightarrow> (Failure Rejected ''rpc response missing http body'', response_json, k + 1)
          | Some separator \<Rightarrow>
              if take 12 response \<noteq> ''HTTP/1.1 200'' \<and> take 12 response \<noteq> ''HTTP/1.0 200'' then
                (Failure Rejected ''rpc transport returned non-200 response'', response_json, k + 1)
              else (Success [], drop (separator + 4) response, k + 1))))))"

section \<open>The poll\<close>

type_synonym 't rpc_call = "'t \<Rightarrow> string \<Rightarrow> string \<Rightarrow> string \<Rightarrow> Status \<times> string \<times> 't"

record 't BitcoinCoreRpcAdapter =
  ra_config :: BitcoinCoreRpcConfig
  ra_transport :: "'t option"

definition RpcAdapterName :: string where
  "RpcAdapterName = ''bitcoin.core-rpc''"

definition field_or :: "string \<Rightarrow> string \<Rightarrow> string \<Rightarrow> string" where
  "field_or obj key fallback = (case FindObjectValue obj key of None \<Rightarrow> fallback | Some v \<Rightarrow> v)"

definition value_or :: "'a option \<Rightarrow> 'a \<Rightarrow> 'a" where
  "value_or x d = (case x of None \<Rightarrow> d | Some v \<Rightarrow> v)"

text \<open>One call and the reading of its result: the status when the call fails, or when the result cannot be read.\<close>

definition rpc_result ::
  "'t rpc_call \<Rightarrow> (string \<Rightarrow> 'a option) \<Rightarrow> string \<Rightarrow> string \<Rightarrow> string \<Rightarrow> string \<times> 't \<Rightarrow> (Status + 'a) \<times> string \<times> 't" where
  "rpc_result call parse what rpc_method params s =
     (case s of (response, t) \<Rightarrow>
      case call t rpc_method params response of (status, response, t) \<Rightarrow>
        if \<not> status_ok status then (Inl status, response, t)
        else (case Option.bind (ExtractResultValue response) parse of
            None \<Rightarrow> (Inl (Failure Rejected (''failed to parse '' @ what @ '' result'')), response, t)
          | Some v \<Rightarrow> (Inr v, response, t)))"

definition and_then :: "(Status + 'a) \<times> 's \<Rightarrow> ('a \<Rightarrow> 's \<Rightarrow> ((Status + 'b) \<times> 's) res) \<Rightarrow> ((Status + 'b) \<times> 's) res" where
  "and_then m f = (case m of (Inl st, s) \<Rightarrow> Inr (Inl st, s) | (Inr v, s) \<Rightarrow> f v s)"

definition poll_calls ::
  "(rat \<Rightarrow> rat option) \<Rightarrow> 't rpc_call \<Rightarrow> u64 \<Rightarrow> string \<times> 't \<Rightarrow>
   ((Status + BlockObservation \<times> NetworkHealthObservation \<times> TransactionObservation list) \<times> string \<times> 't) res" where
  "poll_calls rnd call limit s =
     and_then (rpc_result call ParseInteger ''getblockcount'' ''getblockcount'' ''[]'' s) (\<lambda>block_count s.
     and_then (rpc_result call ParseString ''getbestblockhash'' ''getbestblockhash'' ''[]'' s) (\<lambda>best_hash s.
     and_then (rpc_result call Some ''getmempoolinfo'' ''getmempoolinfo'' ''[]'' s) (\<lambda>mempool_info s.
     and_then (rpc_result call Some ''getnetworkinfo'' ''getnetworkinfo'' ''[]'' s) (\<lambda>network_info s.
     and_then (rpc_result call Some ''getblockchaininfo'' ''getblockchaininfo'' ''[]'' s) (\<lambda>blockchain_info s.
     let network = \<lparr>nh_connection_count = value_or (ParseInteger (field_or network_info ''connections'' ''0'')) 0,
           nh_mempool_transaction_count = value_or (ParseInteger (field_or mempool_info ''size'' ''0'')) 0,
           nh_mempool_bytes = value_or (ParseInteger (field_or mempool_info ''bytes'' ''0'')) 0,
           nh_relay_fee_btc = value_or (ParseDouble rnd (field_or network_info ''relayfee'' ''0'')) 0,
           nh_initial_block_download = value_or (ParseBool (field_or blockchain_info ''initialblockdownload'' ''false'')) False,
           nh_warning = value_or (ParseString (field_or network_info ''warnings'' [CHR 0x22, CHR 0x22])) []\<rparr> in
     and_then (rpc_result call Some ''getrawmempool'' ''getrawmempool'' ''[true]'' s) (\<lambda>mempool_entries s.
     case ParseMempoolTransactions rnd mempool_entries limit of
       None \<Rightarrow> Inr (Inl (Failure Rejected ''failed to parse verbose mempool entries''), s)
     | Some parsed_entries \<Rightarrow>
     and_then (rpc_result call Some ''getblockstats'' ''getblockstats''
         (''['' @ show_nat (unat block_count) @ '', [\"txs\", \"totalfee\"]]'') s) (\<lambda>block_stats s.
     rbind (ToSatoshis rnd (value_or (ParseDouble rnd (field_or block_stats ''totalfee'' ''0'')) 0)) (\<lambda>total_fee.
     Inr (Inr (\<lparr>bo_height = block_count, bo_block_hash_hex = best_hash,
                bo_transaction_count = value_or (ParseInteger (field_or block_stats ''txs'' ''0'')) 0,
                bo_total_fee_satoshis = total_fee\<rparr>, network, parsed_entries), s)))))))))"

definition empty_batch :: "Network \<Rightarrow> i64 \<Rightarrow> ObservationBatch" where
  "empty_batch network now = \<lparr>ob_source_name = RpcAdapterName, ob_network = network, ob_observed_at_utc = now,
     ob_mempool_transactions = [], ob_latest_block = None, ob_network_health = None\<rparr>"

definition Rpc_Poll ::
  "(rat \<Rightarrow> rat option) \<Rightarrow> 't rpc_call \<Rightarrow> i64 \<Rightarrow> ObservationBatch \<Rightarrow> 't BitcoinCoreRpcAdapter \<Rightarrow>
   (Status \<times> ObservationBatch \<times> 't BitcoinCoreRpcAdapter) res" where
  "Rpc_Poll rnd call now batch adapter =
     (case ra_transport adapter of
        None \<Rightarrow> Inr (Failure Rejected ''rpc transport is not configured'', batch, adapter)
      | Some t \<Rightarrow>
          let batch = empty_batch (cr_network (ra_config adapter)) now in
          rbind (poll_calls rnd call (cr_max_mempool_transactions (ra_config adapter)) ([], t)) (\<lambda>(r, response, t).
          let adapter = adapter\<lparr>ra_transport := Some t\<rparr> in
          case r of Inl status \<Rightarrow> Inr (status, batch, adapter)
          | Inr (block, network, entries) \<Rightarrow>
              Inr (Success [], batch\<lparr>ob_latest_block := Some block, ob_network_health := Some network,
                ob_mempool_transactions := entries\<rparr>, adapter)))"

section \<open>Amounts\<close>

text \<open>The node writes an amount in bitcoins with eight digits behind the point.\<close>

fun padded :: "nat \<Rightarrow> nat \<Rightarrow> string" where
  "padded 0 v = []"
| "padded (Suc n) v = padded n (v div 10) @ [digit_char (v mod 10)]"

definition btc_text :: "nat \<Rightarrow> string" where
  "btc_text v = show_nat (v div 10 ^ 8) @ CHR ''.'' # padded 8 v"

definition btc :: "nat \<Rightarrow> rat" where
  "btc v = of_nat v / 10 ^ 8"

lemma padded_digits: "list_all is_digit (padded n v)" "length (padded n v) = n"
  by (induction n arbitrary: v) auto

lemma digits_val_padded: "digits_val (ds @ padded n v) = digits_val ds * 10 ^ n + v mod 10 ^ n"
proof (induction n arbitrary: v)
  case (Suc n)
  have "v mod 10 ^ Suc n = 10 * (v div 10 mod 10 ^ n) + v mod 10" using mod_mult2_eq [of v 10 "10 ^ n"] by simp
  moreover have "digits_val (ds @ padded (Suc n) v) = digits_val (ds @ padded n (v div 10)) * 10 + v mod 10"
    using digits_val_snoc [of "ds @ padded n (v div 10)"] by simp
  ultimately show ?case by (simp add: Suc)
qed simp

lemma digits_spaceless: "list_all is_digit ds \<Longrightarrow> list_all atom_char ds"
  by (auto simp: list_all_iff is_digit_def atom_char_def is_space_def)

lemma btc_text_ok: "json_ok (JAtom (btc_text v))"
  using digits_spaceless [OF show_nat_digits [of "v div 10 ^ 8"]] digits_spaceless [OF padded_digits(1) [of 8 v]]
  by (simp add: btc_text_def del: padded.simps) (simp add: atom_char_def is_space_def)

lemma show_nat_ok: "json_ok (JAtom (show_nat v))"
  using digits_spaceless [OF show_nat_digits] by simp

lemma value_text_numbers [simp]: "value_text (btc_text v)" "value_text (show_nat v)"
  using value_text_render [OF btc_text_ok [of v]] value_text_render [OF show_nat_ok [of v]] by simp_all

lemma whole_digits: "is_digit c \<Longrightarrow> scan_sign (c # cs) = (False, c # cs)"
  by (auto simp: scan_sign_def is_digit_def)

lemma scan_decimal_btc: "scan_decimal (btc_text v) = Some (btc v)"
proof -
  have dot: "\<not> is_digit (CHR ''.'')" by (simp add: is_digit_def)
  obtain c cs where h: "show_nat (v div 10 ^ 8) = c # cs" using show_nat_not_Nil by (cases "show_nat (v div 10 ^ 8)") simp_all
  then have s: "scan_sign (btc_text v) = (False, btc_text v)"
    using is_digit_hd_show_nat [OF h] by (simp add: btc_text_def whole_digits del: padded.simps)
  have t: "takeWhile is_digit (padded 8 v) = padded 8 v" "dropWhile is_digit (padded 8 v) = []"
    using padded_digits(1) [of 8 v] by (simp_all add: list_all_iff takeWhile_eq_all_conv dropWhile_eq_Nil_conv del: padded.simps)
  have v: "digits_val (show_nat (v div 100000000) @ padded 8 v) = v"
    using div_mult_mod_eq [of v "10 ^ 8"] by (simp add: digits_val_padded del: padded.simps)
  have w: "takeWhile is_digit (btc_text v) = show_nat (v div 10 ^ 8)" "dropWhile is_digit (btc_text v) = CHR ''.'' # padded 8 v"
    using dot by (simp_all add: btc_text_def del: padded.simps)
  show ?thesis
    by (simp add: scan_decimal_def s w t v padded_digits(2) btc_def Let_def del: padded.simps)
qed

lemma scan_decimal_nat: "scan_decimal (show_nat v) = Some (of_nat v)"
proof -
  obtain c cs where h: "show_nat v = c # cs" using show_nat_not_Nil by (cases "show_nat v") simp_all
  then have "scan_sign (show_nat v) = (False, show_nat v)" using is_digit_hd_show_nat [OF h] by (simp add: whole_digits)
  then show ?thesis by (simp add: scan_decimal_def Let_def)
qed

lemma ParseDouble_texts: "ParseDouble rnd (btc_text v) = rnd (btc v)" "ParseDouble rnd (show_nat v) = rnd (of_nat v)"
  by (simp_all add: ParseDouble_def Trim_value scan_decimal_btc scan_decimal_nat)

section \<open>The entries of the memory pool\<close>

lemma mempool_step:
  assumes doc: "doc = pre @ member_text (k, x) @ c # post" and x: "value_text x" and c: "c = CHR '','' \<or> c = CHR ''}''"
    and room: "length obs < unat limit"
  shows "mempool_loop rnd doc limit (length pre) obs =
    mempool_loop rnd doc limit (length (pre @ member_text (k, x)) + (if c = CHR '','' then 1 else 0)) (obs @ [mempool_entry rnd (Some k) x])"
  using room
  by (auto simp: mempool_loop.simps [of rnd doc limit "length pre"] Let_def member_scan [OF doc x c, unfolded fst_conv snd_conv] simp del: length_append)

lemma mempool_full: "unat limit \<le> length obs \<Longrightarrow> mempool_loop rnd doc limit position obs = Some obs"
  by (simp add: mempool_loop.simps)

lemma mempool_members:
  "doc = pre @ join (map member_text kvs) @ [CHR ''}''] \<Longrightarrow> value_texts kvs \<Longrightarrow> pre \<noteq> [] \<Longrightarrow>
   mempool_loop rnd doc limit (length pre) obs
     = Some (obs @ take (unat limit - length obs) (map (\<lambda>kv. mempool_entry rnd (Some (fst kv)) (snd kv)) kvs))"
proof (induction kvs arbitrary: pre obs)
  case Nil
  then show ?case by (simp add: mempool_loop.simps)
next
  case (Cons kv kvs)
  obtain k x where kv: "kv = (k, x)" by (cases kv)
  show ?case
  proof (cases "unat limit \<le> length obs")
    case True
    then show ?thesis by (simp add: mempool_full)
  next
    case room: False
    then have l: "unat limit - length obs = Suc (unat limit - length (obs @ [e]))" for e :: TransactionObservation by simp
    show ?thesis
    proof (cases kvs)
      case Nil
      have "mempool_loop rnd doc limit (length pre) obs = mempool_loop rnd doc limit (length (pre @ member_text (k, x)) + 0) (obs @ [mempool_entry rnd (Some k) x])"
        using mempool_step [of doc pre k x "CHR ''}''" "[]" obs limit rnd] room Cons.prems kv Nil by simp
      also have "\<dots> = Some (obs @ [mempool_entry rnd (Some k) x])"
        using Cons.prems kv Nil by (subst mempool_loop.simps) simp
      finally show ?thesis using kv Nil l by simp
    next
      case (Cons kv2 kvs2)
      let ?pre = "pre @ member_text (k, x) @ [CHR '','']"
      have "mempool_loop rnd doc limit (length pre) obs = mempool_loop rnd doc limit (length (pre @ member_text (k, x)) + 1) (obs @ [mempool_entry rnd (Some k) x])"
        using mempool_step [of doc pre k x "CHR '',''" "join (map member_text kvs) @ [CHR ''}'']" obs limit rnd] room Cons.prems kv Cons by simp
      moreover have "mempool_loop rnd doc limit (length ?pre) (obs @ [mempool_entry rnd (Some k) x])
        = Some ((obs @ [mempool_entry rnd (Some k) x]) @ take (unat limit - length (obs @ [mempool_entry rnd (Some k) x]))
            (map (\<lambda>kv. mempool_entry rnd (Some (fst kv)) (snd kv)) kvs))"
        using Cons.prems kv Cons by (intro Cons.IH) simp_all
      ultimately show ?thesis using kv l by simp
    qed
  qed
qed

lemma ParseMempool_object:
  assumes "value_texts kvs"
  shows "ParseMempoolTransactions rnd (object_text kvs) limit
    = Some (take (unat limit) (map (\<lambda>kv. mempool_entry rnd (Some (fst kv)) (snd kv)) kvs))"
proof -
  have "mempool_loop rnd (object_text kvs) limit (length [CHR ''{'']) [] = Some ([] @ take (unat limit - length ([] :: TransactionObservation list))
      (map (\<lambda>kv. mempool_entry rnd (Some (fst kv)) (snd kv)) kvs))"
    using assms by (intro mempool_members) (simp_all add: object_text_def)
  then show ?thesis using Trim_object [of kvs] by (simp add: ParseMempoolTransactions_def) (simp add: object_text_def)
qed

lemma mempool_bound: "mempool_loop rnd raw limit position obs = Some out \<Longrightarrow> length obs \<le> unat limit \<Longrightarrow> length out \<le> unat limit"
proof (induction rnd raw limit position obs rule: mempool_loop.induct)
  case (1 rnd raw limit position obs)
  note ih = 1(1) [OF _ refl _ _ refl refl _ refl _ refl refl]
  let ?p = "SkipWhitespace raw position"
  show ?case
  proof (cases "position + 1 < length raw \<and> length obs < unat limit \<and> ?p < length raw \<and> raw ! ?p \<noteq> CHR ''}''")
    case False
    then show ?thesis using 1(2,3) unfolding mempool_loop.simps [of rnd raw limit position obs]
      by (auto simp: Let_def not_less split: if_splits)
  next
    case True
    note loop = 1(2) [unfolded mempool_loop.simps [of rnd raw limit position obs] Let_def]
    obtain k where k: "ConsumeString raw ?p = Some k" using loop True by (cases "ConsumeString raw ?p") simp_all
    have q: "\<not> (SkipWhitespace raw k \<ge> length raw \<or> raw ! SkipWhitespace raw k \<noteq> CHR '':'')"
      using loop True k by (auto split: if_splits)
    obtain e where e: "ConsumeJsonValue raw (SkipWhitespace raw (SkipWhitespace raw k + 1)) = Some e"
      using loop True k q by (cases "ConsumeJsonValue raw (SkipWhitespace raw (SkipWhitespace raw k + 1))") simp_all
    show ?thesis
      using loop True k q e by (intro ih [OF _ _ k q e]) (simp_all add: not_le)
  qed
qed

section \<open>Requests\<close>

definition plain :: "string \<Rightarrow> bool" where
  "plain s \<longleftrightarrow> CHR 0x22 \<notin> set s \<and> CHR 0x5C \<notin> set s"

lemma quote_plain: "plain s \<Longrightarrow> quote s = CHR 0x22 # s @ [CHR 0x22]"
proof -
  assume "plain s"
  then have "concat (map esc s) = s" unfolding plain_def by (induction s) auto
  then show ?thesis by (simp add: quote_def)
qed

lemma BuildRequest_object:
  assumes "plain m"
  shows "BuildRequest m p = object_text [(''jsonrpc'', quote ''1.0''), (''id'', quote ''blocxxi''), (''method'', quote m), (''params'', p)]"
  using assms by (simp add: BuildRequest_def object_text_def quote_plain) (simp add: quote_def)

lemma BuildRequest_members:
  assumes "plain m" "value_text p"
  shows "FindObjectValue (BuildRequest m p) ''method'' = Some (quote m)" "FindObjectValue (BuildRequest m p) ''params'' = Some p"
  using assms by (simp_all add: BuildRequest_object FindObjectValue_object value_text_quote)

text \<open>How a server takes a request apart: the body starts behind the first empty line.\<close>

definition http_body :: "string \<Rightarrow> string option" where
  "http_body s = map_option (\<lambda>i. drop (i + 4) s) (text_find (crlf @ crlf) s)"

lemma http_body_Cons: "take 4 (c # cs) \<noteq> crlf @ crlf \<Longrightarrow> http_body (c # cs) = http_body cs"
proof -
  have l: "length (crlf @ crlf) = 4" by (simp add: crlf_def)
  assume "take 4 (c # cs) \<noteq> crlf @ crlf"
  then have "text_find (crlf @ crlf) (c # cs) = map_option Suc (text_find (crlf @ crlf) cs)" by (simp only: text_find.simps l if_False)
  then show ?thesis by (simp only: http_body_def option.map_comp comp_def add_Suc drop_Suc_Cons)
qed

lemma http_body_skip: "CHR 0x0D \<notin> set x \<Longrightarrow> http_body (x @ y) = http_body y"
  by (induction x) (auto simp: http_body_Cons crlf_def)

lemma http_body_line: "c \<noteq> CHR 0x0D \<Longrightarrow> http_body (crlf @ c # y) = http_body (c # y)"
  by (simp add: crlf_def http_body_Cons)

lemma http_body_start: "http_body (crlf @ crlf @ y) = Some y"
proof -
  have "text_find (crlf @ crlf) (crlf @ crlf @ y) = Some 0" by (simp add: crlf_def)
  then show ?thesis by (simp add: http_body_def) (simp add: crlf_def)
qed

lemma http_body_lines:
  "list_all (\<lambda>l. l \<noteq> [] \<and> CHR 0x0D \<notin> set l) ls \<Longrightarrow> http_body (crlf @ concat (map (\<lambda>l. l @ crlf) ls) @ crlf @ y) = Some y"
proof (induction ls)
  case (Cons l ls)
  then obtain c cs where l: "l = c # cs" "c \<noteq> CHR 0x0D" by (cases l) auto
  have "http_body (crlf @ l @ crlf @ concat (map (\<lambda>l. l @ crlf) ls) @ crlf @ y) = http_body (l @ crlf @ concat (map (\<lambda>l. l @ crlf) ls) @ crlf @ y)"
    using http_body_line [of c] l by simp
  also have "\<dots> = Some y" using Cons by (simp add: http_body_skip)
  finally show ?case by simp
qed (simp add: http_body_start)

lemma base64_alphabet: "base64_digit v \<noteq> CHR 0x0D"
proof -
  have "list_all (\<lambda>c. c \<noteq> CHR 0x0D) kBase64Alphabet" "length kBase64Alphabet = 64" by (simp_all add: kBase64Alphabet_def)
  then show ?thesis by (simp add: base64_digit_def list_all_length)
qed

lemma base64_no_break: "CHR 0x0D \<notin> set (Base64Encode v)"
  unfolding Base64Encode_spec
  by (induction v rule: base64_spec.induct) (simp_all add: Let_def base64_alphabet base64_alphabet [symmetric])

lemma digits_no_break: "CHR 0x0D \<notin> set (show_nat n)"
  using show_nat_set [of "CHR 0x0D" n] by (auto simp: is_digit_def)

definition header_safe :: "RpcConnectionConfig \<Rightarrow> bool" where
  "header_safe cfg \<longleftrightarrow> CHR 0x0D \<notin> set (rc_host cfg) \<and> CHR 0x0D \<notin> set (rc_path cfg)"

lemma http_request_body:
  assumes "header_safe cfg"
  shows "http_body (http_request cfg body) = Some body"
proof -
  let ?ls = "[''Host: '' @ rc_host cfg @ '':'' @ show_nat (unat (rc_port cfg)),
    ''Authorization: Basic '' @ Base64Encode (rc_username cfg @ '':'' @ rc_password cfg), ''Content-Type: application/json'',
    ''Connection: close'', ''Content-Length: '' @ show_nat (length body)]"
  have "http_request cfg body = (''POST '' @ rc_path cfg @ '' HTTP/1.1'') @ crlf @ concat (map (\<lambda>l. l @ crlf) ?ls) @ crlf @ body"
    by (simp add: http_request_def)
  also have "http_body \<dots> = Some body"
  proof (subst http_body_skip)
    show "CHR 0x0D \<notin> set (''POST '' @ rc_path cfg @ '' HTTP/1.1'')" using assms by (simp add: header_safe_def)
    have "list_all (\<lambda>l. l \<noteq> [] \<and> CHR 0x0D \<notin> set l) ?ls"
      using assms by (simp add: header_safe_def base64_no_break digits_no_break)
    then show "http_body (crlf @ concat (map (\<lambda>l. l @ crlf) ?ls) @ crlf @ body) = Some body" by (rule http_body_lines)
  qed
  finally show ?thesis .
qed

end
