(* ===== verification/BitcoinPoll.thy ===== *)
theory BitcoinPoll
  imports BitcoinRpc
begin

text \<open>
  The poll of the Bitcoin Core data source against a node that answers: the interface \<open>RpcTransport\<close> of
  \<open>src/Blocxxi/Bitcoin/ingestion.h\<close> as a locale, its two providers (the HTTP transport of \<open>ingestion.cpp\<close> and the scripted
  transport of \<open>src/Blocxxi/Examples/bitcoin-mempool-analyzer/main.cpp\<close>), and what the batch of one poll contains.
\<close>

section \<open>What a node reports\<close>

record MempoolTx =
  mt_txid :: string
  mt_vsize :: u64
  mt_weight :: u64
  mt_base_fee :: nat

record CoreView =
  cv_block_count :: u64
  cv_best_hash :: string
  cv_mempool_count :: u64
  cv_mempool_bytes :: u64
  cv_connections :: u64
  cv_relay_fee :: nat
  cv_warning :: string
  cv_syncing :: bool
  cv_mempool :: "MempoolTx list"
  cv_block_txs :: u64
  cv_total_fee :: rat

definition has_fields :: "string \<Rightarrow> (string \<times> string) list \<Rightarrow> bool" where
  "has_fields obj fs \<longleftrightarrow> (\<exists>kvs. obj = object_text kvs \<and> value_texts kvs \<and> list_all (\<lambda>(k, x). map_of kvs k = Some x) fs)"

definition entry_reports :: "MempoolTx \<Rightarrow> string \<times> string \<Rightarrow> bool" where
  "entry_reports m kv \<longleftrightarrow> fst kv = mt_txid m \<and>
     (\<exists>fees. has_fields fees [(''base'', btc_text (mt_base_fee m))] \<and>
        has_fields (snd kv) [(''vsize'', show_nat (unat (mt_vsize m))), (''weight'', show_nat (unat (mt_weight m))), (''fees'', fees)])"

definition bool_text :: "bool \<Rightarrow> string" where
  "bool_text b = (if b then ''true'' else ''false'')"

text \<open>The results of the seven calls, as the texts of JSON values; objects may have more members than the ones that are read.\<close>

definition describes :: "(string \<Rightarrow> string \<Rightarrow> string option) \<Rightarrow> CoreView \<Rightarrow> bool" where
  "describes answer v \<longleftrightarrow>
     answer ''getblockcount'' ''[]'' = Some (show_nat (unat (cv_block_count v))) \<and>
     answer ''getbestblockhash'' ''[]'' = Some (quote (cv_best_hash v)) \<and>
     (\<exists>x. answer ''getmempoolinfo'' ''[]'' = Some x \<and>
        has_fields x [(''size'', show_nat (unat (cv_mempool_count v))), (''bytes'', show_nat (unat (cv_mempool_bytes v)))]) \<and>
     (\<exists>x. answer ''getnetworkinfo'' ''[]'' = Some x \<and>
        has_fields x [(''connections'', show_nat (unat (cv_connections v))), (''relayfee'', btc_text (cv_relay_fee v)),
          (''warnings'', quote (cv_warning v))]) \<and>
     (\<exists>x. answer ''getblockchaininfo'' ''[]'' = Some x \<and> has_fields x [(''initialblockdownload'', bool_text (cv_syncing v))]) \<and>
     (\<exists>entries. answer ''getrawmempool'' ''[true]'' = Some (object_text entries) \<and> value_texts entries \<and>
        list_all2 entry_reports (cv_mempool v) entries) \<and>
     (\<exists>x fee. answer ''getblockstats'' (''['' @ show_nat (unat (cv_block_count v)) @ '', [\"txs\", \"totalfee\"]]'') = Some x \<and>
        has_fields x [(''txs'', show_nat (unat (cv_block_txs v))), (''totalfee'', fee)] \<and> scan_decimal (Trim fee) = Some (cv_total_fee v))"

definition observed_tx :: "(rat \<Rightarrow> rat option) \<Rightarrow> MempoolTx \<Rightarrow> TransactionObservation" where
  "observed_tx rnd m = \<lparr>to_txid = mt_txid m, to_base_fee_btc = value_or (rnd (btc (mt_base_fee m))) 0,
     to_vsize = mt_vsize m, to_weight = mt_weight m\<rparr>"

definition view_batch :: "(rat \<Rightarrow> rat option) \<Rightarrow> BitcoinCoreRpcConfig \<Rightarrow> i64 \<Rightarrow> u64 \<Rightarrow> CoreView \<Rightarrow> ObservationBatch" where
  "view_batch rnd cfg now fee v = \<lparr>ob_source_name = ''bitcoin.core-rpc'', ob_network = cr_network cfg, ob_observed_at_utc = now,
     ob_mempool_transactions = map (observed_tx rnd) (take (unat (cr_max_mempool_transactions cfg)) (cv_mempool v)),
     ob_latest_block = Some \<lparr>bo_height = cv_block_count v, bo_block_hash_hex = cv_best_hash v,
       bo_transaction_count = cv_block_txs v, bo_total_fee_satoshis = fee\<rparr>,
     ob_network_health = Some \<lparr>nh_connection_count = cv_connections v, nh_mempool_transaction_count = cv_mempool_count v,
       nh_mempool_bytes = cv_mempool_bytes v, nh_relay_fee_btc = value_or (rnd (btc (cv_relay_fee v))) 0,
       nh_initial_block_download = cv_syncing v, nh_warning = cv_warning v\<rparr>\<rparr>"

lemma has_fields_find: "has_fields obj fs \<Longrightarrow> (k, x) \<in> set fs \<Longrightarrow> FindObjectValue obj k = Some x"
  by (auto simp: has_fields_def list_all_iff FindObjectValue_object)

lemma field_or_has: "has_fields obj fs \<Longrightarrow> (k, x) \<in> set fs \<Longrightarrow> field_or obj k d = x"
  by (simp add: field_or_def has_fields_find)

lemma value_or_simps [simp]: "value_or (Some x) d = x" "value_or None d = d"
  by (simp_all add: value_or_def)

lemma ParseInteger_word [simp]: "ParseInteger (show_nat (unat (w :: u64))) = Some w"
  using ParseInteger_show [of "unat w"] unsigned_less [of w] by simp

lemma ParseBool_text [simp]: "ParseBool (bool_text b) = Some b"
proof -
  have "Trim (bool_text b) = bool_text b" by (rule Trim_id) (simp_all add: bool_text_def is_space_def)
  then show ?thesis by (simp add: ParseBool_def bool_text_def)
qed

lemma mempool_entry_reports: "entry_reports m kv \<Longrightarrow> mempool_entry rnd (Some (fst kv)) (snd kv) = observed_tx rnd m"
proof -
  assume "entry_reports m kv"
  then obtain fees where f: "has_fields fees [(''base'', btc_text (mt_base_fee m))]" and k: "fst kv = mt_txid m"
    and e: "has_fields (snd kv) [(''vsize'', show_nat (unat (mt_vsize m))), (''weight'', show_nat (unat (mt_weight m))), (''fees'', fees)]"
    by (auto simp: entry_reports_def)
  have "FindObjectValue (snd kv) ''vsize'' = Some (show_nat (unat (mt_vsize m)))" "FindObjectValue (snd kv) ''weight'' = Some (show_nat (unat (mt_weight m)))"
    "FindObjectValue (snd kv) ''fees'' = Some fees" "FindObjectValue fees ''base'' = Some (btc_text (mt_base_fee m))"
    using has_fields_find [OF e] has_fields_find [OF f] by simp_all
  then show ?thesis
    by (simp add: mempool_entry_def observed_tx_def integer_or_zero_def double_or_zero_def k ParseDouble_texts value_or_def)
qed

lemma mempool_entries_report:
  "list_all2 entry_reports ms entries \<Longrightarrow> map (\<lambda>kv. mempool_entry rnd (Some (fst kv)) (snd kv)) entries = map (observed_tx rnd) ms"
  by (induction rule: list_all2_induct) (simp_all add: mempool_entry_reports)

section \<open>The interface of a transport\<close>

text \<open>
  \<open>RpcTransport\<close>: while the transport is \<open>alive\<close>, a call that the node has an answer for succeeds and hands over an object whose
  member \<open>result\<close> is the answer; \<open>after\<close> is what a call makes of the state of the transport.
\<close>

locale core_node =
  fixes call :: "'t rpc_call" and alive :: "'t \<Rightarrow> bool" and after :: "'t \<Rightarrow> 't" and answer :: "string \<Rightarrow> string \<Rightarrow> string option"
  assumes answered: "alive t \<Longrightarrow> answer m p = Some x \<Longrightarrow>
      \<exists>kvs. call t m p response = (Success [], object_text kvs, after t) \<and> value_texts kvs \<and> map_of kvs ''result'' = Some x"
    and stays_alive: "alive t \<Longrightarrow> alive (after t)"
begin

lemma result_parsed:
  assumes "alive (snd s)" "answer m p = Some x" "parse x = Some v"
  shows "\<exists>s'. rpc_result call parse what m p s = (Inr v, s') \<and> alive (snd s') \<and> snd s' = after (snd s)"
proof -
  obtain r t where s: "s = (r, t)" by (cases s)
  then obtain kvs where "call t m p r = (Success [], object_text kvs, after t)" "value_texts kvs" "map_of kvs ''result'' = Some x"
    using answered [of t m p x r] assms by auto
  then show ?thesis using assms(1,3) s stays_alive by (simp add: rpc_result_def ExtractResultValue_def FindObjectValue_object)
qed

lemma calls_deliver:
  assumes d: "describes answer v" and s: "alive (snd s)" and fee: "ToSatoshis rnd (value_or (rnd (cv_total_fee v)) 0) = Inr fee"
  shows "\<exists>s'. poll_calls rnd call limit s = Inr (Inr (
      the (ob_latest_block (view_batch rnd cfg now fee v)), the (ob_network_health (view_batch rnd cfg now fee v)),
      take (unat limit) (map (observed_tx rnd) (cv_mempool v))), s') \<and> alive (snd s') \<and> snd s' = (after ^^ 7) (snd s)"
proof -
  note d = d [unfolded describes_def]
  obtain x3 x4 x5 x6 x7 tf where a: "answer ''getmempoolinfo'' ''[]'' = Some x3" "answer ''getnetworkinfo'' ''[]'' = Some x4"
      "answer ''getblockchaininfo'' ''[]'' = Some x5" "answer ''getrawmempool'' ''[true]'' = Some (object_text x6)"
      "answer ''getblockstats'' (''['' @ show_nat (unat (cv_block_count v)) @ '', [\"txs\", \"totalfee\"]]'') = Some x7"
    and e: "value_texts x6" "list_all2 entry_reports (cv_mempool v) x6"
    and f: "has_fields x3 [(''size'', show_nat (unat (cv_mempool_count v))), (''bytes'', show_nat (unat (cv_mempool_bytes v)))]"
      "has_fields x4 [(''connections'', show_nat (unat (cv_connections v))), (''relayfee'', btc_text (cv_relay_fee v)), (''warnings'', quote (cv_warning v))]"
      "has_fields x5 [(''initialblockdownload'', bool_text (cv_syncing v))]"
      "has_fields x7 [(''txs'', show_nat (unat (cv_block_txs v))), (''totalfee'', tf)]"
    and q: "scan_decimal (Trim tf) = Some (cv_total_fee v)"
    using d by blast
  obtain s1 where 1: "rpc_result call ParseInteger ''getblockcount'' ''getblockcount'' ''[]'' s = (Inr (cv_block_count v), s1)" "alive (snd s1)" "snd s1 = after (snd s)"
    using result_parsed [OF s, of _ _ _ ParseInteger, OF conjunct1 [OF d] ParseInteger_word] by blast
  obtain s2 where 2: "rpc_result call ParseString ''getbestblockhash'' ''getbestblockhash'' ''[]'' s1 = (Inr (cv_best_hash v), s2)" "alive (snd s2)" "snd s2 = after (snd s1)"
    using result_parsed [OF 1(2), of _ _ _ ParseString, OF conjunct1 [OF conjunct2 [OF d]] ParseString_quote] by blast
  obtain s3 where 3: "rpc_result call Some ''getmempoolinfo'' ''getmempoolinfo'' ''[]'' s2 = (Inr x3, s3)" "alive (snd s3)" "snd s3 = after (snd s2)"
    using result_parsed [OF 2(2) a(1), of Some] by blast
  obtain s4 where 4: "rpc_result call Some ''getnetworkinfo'' ''getnetworkinfo'' ''[]'' s3 = (Inr x4, s4)" "alive (snd s4)" "snd s4 = after (snd s3)"
    using result_parsed [OF 3(2) a(2), of Some] by blast
  obtain s5 where 5: "rpc_result call Some ''getblockchaininfo'' ''getblockchaininfo'' ''[]'' s4 = (Inr x5, s5)" "alive (snd s5)" "snd s5 = after (snd s4)"
    using result_parsed [OF 4(2) a(3), of Some] by blast
  obtain s6 where 6: "rpc_result call Some ''getrawmempool'' ''getrawmempool'' ''[true]'' s5 = (Inr (object_text x6), s6)" "alive (snd s6)" "snd s6 = after (snd s5)"
    using result_parsed [OF 5(2) a(4), of Some] by blast
  obtain s7 where 7: "rpc_result call Some ''getblockstats'' ''getblockstats''
      (''['' @ show_nat (unat (cv_block_count v)) @ '', [\"txs\", \"totalfee\"]]'') s6 = (Inr x7, s7)" "alive (snd s7)" "snd s7 = after (snd s6)"
    using result_parsed [OF 6(2) a(5), of Some] by blast
  have m: "ParseMempoolTransactions rnd (object_text x6) limit = Some (take (unat limit) (map (observed_tx rnd) (cv_mempool v)))"
    using ParseMempool_object [OF e(1)] mempool_entries_report [OF e(2)] by simp
  have g: "field_or x3 ''size'' d = show_nat (unat (cv_mempool_count v))" "field_or x3 ''bytes'' d = show_nat (unat (cv_mempool_bytes v))"
    "field_or x4 ''connections'' d = show_nat (unat (cv_connections v))" "field_or x4 ''relayfee'' d = btc_text (cv_relay_fee v)"
    "field_or x4 ''warnings'' d = quote (cv_warning v)" "field_or x5 ''initialblockdownload'' d = bool_text (cv_syncing v)"
    "field_or x7 ''txs'' d = show_nat (unat (cv_block_txs v))" "field_or x7 ''totalfee'' d = tf" for d
    using field_or_has [OF f(1)] field_or_has [OF f(2)] field_or_has [OF f(3)] field_or_has [OF f(4)] by simp_all
  have tf: "ParseDouble rnd tf = rnd (cv_total_fee v)" using q by (simp add: ParseDouble_def)
  have "poll_calls rnd call limit s = Inr (Inr (
      the (ob_latest_block (view_batch rnd cfg now fee v)), the (ob_network_health (view_batch rnd cfg now fee v)),
      take (unat limit) (map (observed_tx rnd) (cv_mempool v))), s7)"
    by (simp add: poll_calls_def and_then_def 1(1) 2(1) 3(1) 4(1) 5(1) 6(1) 7(1) [simplified] m g tf ParseDouble_texts ParseString_quote fee Let_def view_batch_def)
  moreover have "snd s7 = (after ^^ 7) (snd s)"
    by (simp add: eval_nat_numeral 1(3) 2(3) 3(3) 4(3) 5(3) 6(3) 7(3))
  ultimately show ?thesis using 7(2) by blast
qed

lemma poll_delivers:
  assumes d: "describes answer v" and t: "ra_transport ad = Some t" "alive t"
    and fee: "ToSatoshis rnd (value_or (rnd (cv_total_fee v)) 0) = Inr fee"
  shows "Rpc_Poll rnd call now batch ad
    = Inr (Success [], view_batch rnd (ra_config ad) now fee v, ad\<lparr>ra_transport := Some ((after ^^ 7) t)\<rparr>)"
proof -
  obtain s' where s: "poll_calls rnd call (cr_max_mempool_transactions (ra_config ad)) ([], t) = Inr (Inr (
      the (ob_latest_block (view_batch rnd (ra_config ad) now fee v)), the (ob_network_health (view_batch rnd (ra_config ad) now fee v)),
      take (unat (cr_max_mempool_transactions (ra_config ad))) (map (observed_tx rnd) (cv_mempool v))), s')" "snd s' = (after ^^ 7) t"
    using calls_deliver [OF d _ fee, where s = "([], t)" and limit = "cr_max_mempool_transactions (ra_config ad)" and cfg = "ra_config ad" and now = now] t(2)
    by (metis snd_conv)
  then show ?thesis
    using t(1) by (cases s')
      (simp add: Rpc_Poll_def view_batch_def empty_batch_def RpcAdapterName_def take_map split: prod.splits)
qed

end

section \<open>The HTTP transport\<close>

text \<open>
  A network on which every attempt reaches a server that takes the request apart and sends the answer with status 200, in as many
  pieces as it likes.
\<close>

locale http_node =
  fixes cfg :: RpcConnectionConfig and net :: "nat \<Rightarrow> HttpNet" and answer :: "string \<Rightarrow> string \<Rightarrow> string option"
  assumes configured: "header_safe cfg" "rc_host cfg \<noteq> []" "rc_username cfg \<noteq> []" "rc_password cfg \<noteq> []"
    and callable: "answer m p = Some x \<Longrightarrow> plain m \<and> value_text p"
    and reachable: "\<exists>es. hn_resolve (net k) (rc_host cfg) (show_nat (unat (rc_port cfg))) = Inr es \<and> hn_connect (net k) es = None"
    and written: "hn_write (net k) request = None"
    and served: "http_body request = Some body \<Longrightarrow> FindObjectValue body ''method'' = Some (quote m) \<Longrightarrow>
      FindObjectValue body ''params'' = Some p \<Longrightarrow> answer m p = Some x \<Longrightarrow>
      \<exists>chunks kvs. hn_reads (net k) request = (chunks, None) \<and> value_texts kvs \<and> map_of kvs ''result'' = Some x \<and>
        http_body (concat chunks) = Some (object_text kvs) \<and> take 12 (concat chunks) \<in> {''HTTP/1.1 200'', ''HTTP/1.0 200''}"
begin

lemma call_answered:
  assumes "answer m p = Some x"
  shows "\<exists>kvs. HttpRpcTransport_Call cfg net k m p response = (Success [], object_text kvs, k + 1) \<and> value_texts kvs \<and> map_of kvs ''result'' = Some x"
proof -
  let ?request = "http_request cfg (BuildRequest m p)"
  obtain es where e: "hn_resolve (net k) (rc_host cfg) (show_nat (unat (rc_port cfg))) = Inr es" "hn_connect (net k) es = None"
    using reachable by blast
  have "http_body ?request = Some (BuildRequest m p)" by (rule http_request_body [OF configured(1)])
  then obtain chunks kvs where r: "hn_reads (net k) ?request = (chunks, None)" "value_texts kvs" "map_of kvs ''result'' = Some x"
      "http_body (concat chunks) = Some (object_text kvs)" "take 12 (concat chunks) \<in> {''HTTP/1.1 200'', ''HTTP/1.0 200''}"
    using served [OF _ BuildRequest_members assms] callable [OF assms] by blast
  then obtain i where "text_find (crlf @ crlf) (concat chunks) = Some i" "drop (i + 4) (concat chunks) = object_text kvs"
    by (auto simp: http_body_def)
  with r e show ?thesis using configured
    by (auto simp: HttpRpcTransport_Call_def written Let_def simp del: One_nat_def)
qed

end

sublocale http_node \<subseteq> rpc: core_node "HttpRpcTransport_Call cfg net" "\<lambda>_. True" Suc answer
  by unfold_locales (use call_answered in simp_all)

section \<open>The scripted transport\<close>

definition scripted_responses :: "(string \<times> string) list" where
  "scripted_responses =
    [(''getblockcount'', ''{\"result\":321}''),
     (''getbestblockhash'', ''{\"result\":\"000000feed\"}''),
     (''getmempoolinfo'', ''{\"result\":{\"size\":4,\"bytes\":2048}}''),
     (''getnetworkinfo'', ''{\"result\":{\"connections\":12,\"relayfee\":0.00001000,\"warnings\":\"steady\"}}''),
     (''getblockchaininfo'', ''{\"result\":{\"initialblockdownload\":false}}''),
     (''getrawmempool'', ''{\"result\":{\"tx-large\":{\"vsize\":400,\"weight\":1600,\"fees\":{\"base\":0.00045000}},\"tx-mid\":{\"vsize\":180,\"weight\":720,\"fees\":{\"base\":0.00018000}}}}''),
     (''getblockstats'', ''{\"result\":{\"txs\":24,\"totalfee\":0.00320000}}'')]"

definition ScriptedTransport_Call :: "(string \<times> string) list \<Rightarrow> string \<Rightarrow> string \<Rightarrow> string \<Rightarrow> Status \<times> string \<times> (string \<times> string) list" where
  "ScriptedTransport_Call responses rpc_method params response_json =
     (case map_of responses rpc_method of
        None \<Rightarrow> (Failure NotFound ''missing rpc response'', response_json, responses)
      | Some r \<Rightarrow> (Success [], r, responses))"

text \<open>The results inside the scripted responses.\<close>

definition scripted_mempool :: "(string \<times> json) list" where
  "scripted_mempool =
     [(''tx-large'', JObject [(''vsize'', JAtom ''400''), (''weight'', JAtom ''1600''), (''fees'', JObject [(''base'', JAtom ''0.00045000'')])]),
      (''tx-mid'', JObject [(''vsize'', JAtom ''180''), (''weight'', JAtom ''720''), (''fees'', JObject [(''base'', JAtom ''0.00018000'')])])]"

definition scripted_results :: "(string \<times> json) list" where
  "scripted_results =
    [(''getblockcount'', JAtom ''321''), (''getbestblockhash'', JString ''000000feed''),
     (''getmempoolinfo'', JObject [(''size'', JAtom ''4''), (''bytes'', JAtom ''2048'')]),
     (''getnetworkinfo'', JObject [(''connections'', JAtom ''12''), (''relayfee'', JAtom ''0.00001000''), (''warnings'', JString ''steady'')]),
     (''getblockchaininfo'', JObject [(''initialblockdownload'', JAtom ''false'')]),
     (''getrawmempool'', JObject scripted_mempool),
     (''getblockstats'', JObject [(''txs'', JAtom ''24''), (''totalfee'', JAtom ''0.00320000'')])]"

lemma scripted_ok: "list_all (\<lambda>(m, v). json_ok v) scripted_results"
  by (simp add: scripted_results_def scripted_mempool_def atom_char_def is_space_def)

lemma scripted_rendered: "map (\<lambda>(m, v). (m, render (JObject [(''result'', v)]))) scripted_results = scripted_responses"
  by (simp add: scripted_results_def scripted_mempool_def scripted_responses_def quote_def)

definition scripted_answer :: "string \<Rightarrow> string \<Rightarrow> string option" where
  "scripted_answer m p = map_option render (map_of scripted_results m)"

interpretation scripted: core_node ScriptedTransport_Call "\<lambda>t. t = scripted_responses" id scripted_answer
proof
  fix t m p x response
  assume t: "t = scripted_responses" and a: "scripted_answer m p = Some x"
  then obtain v where v: "map_of scripted_results m = Some v" "x = render v" by (auto simp: scripted_answer_def)
  then have "value_text x" using scripted_ok map_of_SomeD [OF v(1)] by (auto simp: list_all_iff intro: value_text_render)
  moreover have "map_of scripted_responses m = Some (object_text [(''result'', x)])"
    unfolding scripted_rendered [symmetric] using v by (simp add: map_of_map object_text_def)
  ultimately show "\<exists>kvs. ScriptedTransport_Call t m p response = (Success [], object_text kvs, id t) \<and> value_texts kvs
      \<and> map_of kvs ''result'' = Some x"
    using t by (auto simp: ScriptedTransport_Call_def intro!: exI [where x = "[(''result'', x)]"])
qed simp

section \<open>A server\<close>

definition json_server :: "(string \<Rightarrow> string \<Rightarrow> string option) \<Rightarrow> HttpNet" where
  "json_server answer = \<lparr>hn_resolve = (\<lambda>host port. Inr [host]), hn_connect = (\<lambda>es. None), hn_write = (\<lambda>r. None),
     hn_reads = (\<lambda>request.
       case http_body request of None \<Rightarrow> ([''HTTP/1.1 400 Bad Request'' @ crlf @ crlf], None)
       | Some body \<Rightarrow>
           (case (Option.bind (FindObjectValue body ''method'') ParseString, FindObjectValue body ''params'') of
              (Some m, Some p) \<Rightarrow>
                (case answer m p of None \<Rightarrow> ([''HTTP/1.1 404 Not Found'' @ crlf @ crlf], None)
                 | Some x \<Rightarrow> ([''HTTP/1.1 200 OK'' @ crlf @ crlf, object_text [(''result'', x), (''error'', ''null''), (''id'', quote ''blocxxi'')]], None))
            | _ \<Rightarrow> ([''HTTP/1.1 400 Bad Request'' @ crlf @ crlf], None)))\<rparr>"

lemma server_answers:
  assumes "http_body request = Some body" "FindObjectValue body ''method'' = Some (quote m)" "FindObjectValue body ''params'' = Some p"
    and "answer m p = Some x" "value_text x"
  shows "\<exists>chunks kvs. hn_reads (json_server answer) request = (chunks, None) \<and> value_texts kvs \<and> map_of kvs ''result'' = Some x \<and>
    http_body (concat chunks) = Some (object_text kvs) \<and> take 12 (concat chunks) \<in> {''HTTP/1.1 200'', ''HTTP/1.0 200''}"
proof -
  let ?kvs = "[(''result'', x), (''error'', ''null''), (''id'', quote ''blocxxi'')]" and ?status = "''HTTP/1.1 200 OK''"
  have "hn_reads (json_server answer) request = ([?status @ crlf @ crlf, object_text ?kvs], None)"
    using assms by (simp add: json_server_def ParseString_quote)
  moreover have "value_text ''null''" using value_text_render [of "JAtom ''null''"] by (simp add: atom_char_def is_space_def)
  then have "value_texts ?kvs" using assms(5) by (simp add: value_text_quote)
  moreover have "http_body (?status @ crlf @ crlf @ object_text ?kvs) = Some (object_text ?kvs)"
    by (subst http_body_skip) (simp_all add: http_body_start)
  moreover have "take 12 (?status @ y) = ''HTTP/1.1 200''" for y by simp
  ultimately show ?thesis by (intro exI [of _ "[?status @ crlf @ crlf, object_text ?kvs]"] exI [of _ ?kvs]) simp
qed

definition expected_calls :: "(string \<times> string) list" where
  "expected_calls = [(''getblockcount'', ''[]''), (''getbestblockhash'', ''[]''), (''getmempoolinfo'', ''[]''), (''getnetworkinfo'', ''[]''),
     (''getblockchaininfo'', ''[]''), (''getrawmempool'', ''[true]''), (''getblockstats'', ''[321, [\"txs\", \"totalfee\"]]'')]"

definition expected_answer :: "string \<Rightarrow> string \<Rightarrow> string option" where
  "expected_answer m p = (if (m, p) \<in> set expected_calls then scripted_answer m p else None)"

definition local_rpc :: RpcConnectionConfig where
  "local_rpc = \<lparr>rc_host = ''127.0.0.1'', rc_port = 8332, rc_username = ''user'', rc_password = ''password'', rc_path = ''/''\<rparr>"

lemma expected_calls_ok: "(m, p) \<in> set expected_calls \<Longrightarrow> plain m \<and> value_text p"
proof -
  have "value_text (CHR ''['' # ''true'' @ [CHR '']''])" "value_text (CHR ''['' # [] @ [CHR '']''])"
    "value_text (CHR ''['' # ''321, [\"txs\", \"totalfee\"]'' @ [CHR '']''])"
    by (rule value_text_bracket, simp add: passed_def)+
  moreover assume "(m, p) \<in> set expected_calls"
  ultimately show ?thesis by (auto simp: expected_calls_def plain_def)
qed

lemma scripted_value: "scripted_answer m p = Some x \<Longrightarrow> value_text x"
  using scripted_ok by (auto simp: scripted_answer_def list_all_iff intro!: value_text_render dest!: map_of_SomeD)

interpretation local_http: http_node local_rpc "\<lambda>k. json_server expected_answer" expected_answer
proof
  show "header_safe local_rpc" "rc_host local_rpc \<noteq> []" "rc_username local_rpc \<noteq> []" "rc_password local_rpc \<noteq> []"
    by (simp_all add: local_rpc_def header_safe_def)
  show "expected_answer m p = Some x \<Longrightarrow> plain m \<and> value_text p" for m p x
    using expected_calls_ok by (simp add: expected_answer_def split: if_splits)
  show "\<exists>es. hn_resolve (json_server expected_answer) (rc_host local_rpc) (show_nat (unat (rc_port local_rpc))) = Inr es
      \<and> hn_connect (json_server expected_answer) es = None" for k
    by (simp add: json_server_def)
  show "hn_write (json_server expected_answer) request = None" for k request by (simp add: json_server_def)
  fix k request body m p x
  assume "http_body request = Some body" "FindObjectValue body ''method'' = Some (quote m)" "FindObjectValue body ''params'' = Some p"
    "expected_answer m p = Some x"
  then show "\<exists>chunks kvs. hn_reads (json_server expected_answer) request = (chunks, None) \<and> value_texts kvs \<and> map_of kvs ''result'' = Some x \<and>
      http_body (concat chunks) = Some (object_text kvs) \<and> take 12 (concat chunks) \<in> {''HTTP/1.1 200'', ''HTTP/1.0 200''}"
    by (intro server_answers) (auto simp: expected_answer_def intro: scripted_value split: if_splits)
qed

section \<open>Outcomes of a poll\<close>

lemma ParseMempool_bound: "ParseMempoolTransactions rnd raw limit = Some es \<Longrightarrow> length es \<le> unat limit"
  by (auto simp: ParseMempoolTransactions_def Let_def split: if_splits dest: mempool_bound)

lemma and_then_Inr: "and_then m f = Inr (Inr y, s') \<longleftrightarrow> (\<exists>v s. m = (Inr v, s) \<and> f v s = Inr (Inr y, s'))"
  by (auto simp: and_then_def split: prod.splits sum.splits)

lemma rpc_result_not_ok: "rpc_result call parse what m p s = (Inl st, s') \<Longrightarrow> \<not> status_ok st"
  by (auto simp: rpc_result_def split: prod.splits option.splits if_splits)

lemma and_then_Inl: "and_then m f = Inr (Inl st, s') \<longleftrightarrow> m = (Inl st, s') \<or> (\<exists>v s. m = (Inr v, s) \<and> f v s = Inr (Inl st, s'))"
  by (auto simp: and_then_def split: prod.splits sum.splits)

lemma poll_calls_bound: "poll_calls rnd call limit s = Inr (Inr (b, n, es), s') \<Longrightarrow> length es \<le> unat limit"
  unfolding poll_calls_def Let_def
  by (elim and_then_Inr [THEN iffD1, elim_format] exE conjE)
     (auto simp: and_then_Inr rbind_eq_Inr split: option.splits dest: ParseMempool_bound)

lemma poll_calls_not_ok: "poll_calls rnd call limit s = Inr (Inl st, s') \<Longrightarrow> \<not> status_ok st"
  unfolding poll_calls_def Let_def
  by (auto simp: and_then_Inl rbind_eq_Inr split: option.splits dest: rpc_result_not_ok)

section \<open>Properties\<close>

definition sample_view :: CoreView where
  "sample_view = \<lparr>cv_block_count = 321, cv_best_hash = ''000000feed'', cv_mempool_count = 4, cv_mempool_bytes = 2048,
     cv_connections = 12, cv_relay_fee = 1000, cv_warning = ''steady'', cv_syncing = False,
     cv_mempool = [\<lparr>mt_txid = ''tx-large'', mt_vsize = 400, mt_weight = 1600, mt_base_fee = 45000\<rparr>,
       \<lparr>mt_txid = ''tx-mid'', mt_vsize = 180, mt_weight = 720, mt_base_fee = 18000\<rparr>],
     cv_block_txs = 24, cv_total_fee = btc 320000\<rparr>"

definition sample_adapter :: "nat BitcoinCoreRpcAdapter" where
  "sample_adapter = \<lparr>ra_config = \<lparr>cr_network = Mainnet, cr_connection = local_rpc, cr_max_mempool_transactions = 1\<rparr>, ra_transport = Some 0\<rparr>"

lemma digit_chars: "digit_char 0 = CHR ''0''" "digit_char (Suc 0) = CHR ''1''" "digit_char 2 = CHR ''2''" "digit_char 3 = CHR ''3''" "digit_char 4 = CHR ''4''"
  "digit_char 5 = CHR ''5''" "digit_char 6 = CHR ''6''" "digit_char 7 = CHR ''7''" "digit_char 8 = CHR ''8''" "digit_char 9 = CHR ''9''"
  by (simp_all add: digit_char_def char_of_def bit_Suc_0_iff)

lemma padded_nth: "padded n v = map (\<lambda>i. digit_char (v div 10 ^ i mod 10)) (rev [0..<n])"
proof (induction n arbitrary: v)
  case (Suc n)
  have "[0..<Suc n] = 0 # map Suc [0..<n]" by (simp add: upt_conv_Cons map_Suc_upt del: upt_Suc)
  then show ?case by (simp add: Suc rev_map [symmetric] comp_def div_mult2_eq del: upt_Suc)
qed simp

lemma sample_numbers: "show_nat 321 = ''321''" "show_nat 4 = ''4''" "show_nat 2048 = ''2048''" "show_nat 12 = ''12''" "show_nat 24 = ''24''"
  "show_nat 400 = ''400''" "show_nat 1600 = ''1600''" "show_nat 180 = ''180''" "show_nat 720 = ''720''"
  "btc_text 1000 = ''0.00001000''" "btc_text 45000 = ''0.00045000''" "btc_text 18000 = ''0.00018000''" "btc_text 320000 = ''0.00320000''"
  by (simp_all add: btc_text_def padded_nth upt_rec show_nat.simps digit_chars del: padded.simps)

lemma has_fields_render:
  "json_ok (JObject kvs) \<Longrightarrow> list_all (\<lambda>(k, x). map_option render (map_of kvs k) = Some x) fs \<Longrightarrow> has_fields (render (JObject kvs)) fs"
proof -
  assume j: "json_ok (JObject kvs)" and f: "list_all (\<lambda>(k, x). map_option render (map_of kvs k) = Some x) fs"
  have "value_texts (map (\<lambda>(k, v). (k, render v)) kvs)" using j value_text_render by (auto simp: list_all_iff)
  then show ?thesis unfolding has_fields_def render_object
    using f by (intro exI [of _ "map (\<lambda>(k, v). (k, render v)) kvs"]) (simp add: map_of_map)
qed

lemma sample_entry:
  "entry_reports \<lparr>mt_txid = t, mt_vsize = vs, mt_weight = w, mt_base_fee = f\<rparr>
     (t, render (JObject [(''vsize'', JAtom (show_nat (unat vs))), (''weight'', JAtom (show_nat (unat w))), (''fees'', JObject [(''base'', JAtom (btc_text f))])]))"
proof -
  let ?fees = "JObject [(''base'', JAtom (btc_text f))]"
  have ok: "json_ok ?fees" "json_ok (JObject [(''vsize'', JAtom (show_nat (unat vs))), (''weight'', JAtom (show_nat (unat w))), (''fees'', ?fees)])"
    using show_nat_ok btc_text_ok by (simp_all del: json_ok.simps(2))
  have "has_fields (render ?fees) [(''base'', btc_text f)]"
    by (rule has_fields_render [OF ok(1)]) simp
  moreover have "has_fields (render (JObject [(''vsize'', JAtom (show_nat (unat vs))), (''weight'', JAtom (show_nat (unat w))), (''fees'', ?fees)]))
      [(''vsize'', show_nat (unat vs)), (''weight'', show_nat (unat w)), (''fees'', render ?fees)]"
    by (rule has_fields_render [OF ok(2)]) simp
  ultimately show ?thesis unfolding entry_reports_def by auto
qed

lemma sample_mempool: "list_all2 entry_reports (cv_mempool sample_view) (map (\<lambda>(k, v). (k, render v)) scripted_mempool)"
  using sample_entry [of "''tx-large''" 400 1600 45000] sample_entry [of "''tx-mid''" 180 720 18000]
  by (simp add: sample_view_def scripted_mempool_def sample_numbers del: render.simps)

lemma scripted_json: "(m, v) \<in> set scripted_results \<Longrightarrow> json_ok v"
  using scripted_ok by (auto simp: list_all_iff)

lemma sample_described: "describes expected_answer sample_view"
proof -
  note answers = expected_answer_def expected_calls_def scripted_answer_def scripted_results_def
  have fields: "has_fields (render (JObject kvs)) fs" if "(m, JObject kvs) \<in> set scripted_results"
    "list_all (\<lambda>(k, x). map_option render (map_of kvs k) = Some x) fs" for m kvs fs
    using has_fields_render [OF scripted_json [OF that(1)]] that(2) by blast
  have 1: "has_fields (render (JObject [(''size'', JAtom ''4''), (''bytes'', JAtom ''2048'')])) [(''size'', ''4''), (''bytes'', ''2048'')]"
    by (rule fields [of "''getmempoolinfo''"]) (simp_all add: scripted_results_def)
  have 2: "has_fields (render (JObject [(''connections'', JAtom ''12''), (''relayfee'', JAtom ''0.00001000''), (''warnings'', JString ''steady'')]))
      [(''connections'', ''12''), (''relayfee'', ''0.00001000''), (''warnings'', quote ''steady'')]"
    by (rule fields [of "''getnetworkinfo''"]) (simp_all add: scripted_results_def)
  have 3: "has_fields (render (JObject [(''initialblockdownload'', JAtom ''false'')])) [(''initialblockdownload'', ''false'')]"
    by (rule fields [of "''getblockchaininfo''"]) (simp_all add: scripted_results_def)
  have 4: "has_fields (render (JObject [(''txs'', JAtom ''24''), (''totalfee'', JAtom ''0.00320000'')])) [(''txs'', ''24''), (''totalfee'', btc_text 320000)]"
    by (rule fields [of "''getblockstats''"]) (simp_all add: scripted_results_def sample_numbers)
  have 5: "value_texts (map (\<lambda>(k, v). (k, render v)) scripted_mempool)"
    using scripted_json [of "''getrawmempool''" "JObject scripted_mempool"] value_text_render by (auto simp: scripted_results_def list_all_iff)
  have t: "scan_decimal (Trim (btc_text 320000)) = Some (btc 320000)" by (simp add: Trim_value scan_decimal_btc)
  have a: "expected_answer ''getblockcount'' ''[]'' = Some ''321''" "expected_answer ''getbestblockhash'' ''[]'' = Some (quote ''000000feed'')"
    "expected_answer ''getmempoolinfo'' ''[]'' = Some (render (JObject [(''size'', JAtom ''4''), (''bytes'', JAtom ''2048'')]))"
    "expected_answer ''getnetworkinfo'' ''[]''
      = Some (render (JObject [(''connections'', JAtom ''12''), (''relayfee'', JAtom ''0.00001000''), (''warnings'', JString ''steady'')]))"
    "expected_answer ''getblockchaininfo'' ''[]'' = Some (render (JObject [(''initialblockdownload'', JAtom ''false'')]))"
    "expected_answer ''getrawmempool'' ''[true]'' = Some (object_text (map (\<lambda>(k, v). (k, render v)) scripted_mempool))"
    "expected_answer ''getblockstats'' ''[321, [\"txs\", \"totalfee\"]]'' = Some (render (JObject [(''txs'', JAtom ''24''), (''totalfee'', JAtom ''0.00320000'')]))"
    unfolding render_object [symmetric] by (simp_all add: answers del: render.simps(3,4))
  show ?thesis
    unfolding describes_def using a 1 2 3 4 5 t sample_mempool
    by (intro conjI) (auto simp: sample_view_def sample_numbers bool_text_def simp del: render.simps)
qed

lemma sample_fee: "ToSatoshis Some (value_or (Some (cv_total_fee sample_view)) 0) = Inr 320000"
  by (simp add: ToSatoshis_def sample_view_def btc_def)

lemma poll_over_http:
  assumes "http_node cfg net answer" "describes answer v" "ra_transport ad = Some k"
    and "ToSatoshis rnd (value_or (rnd (cv_total_fee v)) 0) = Inr fee"
  shows "Rpc_Poll rnd (HttpRpcTransport_Call cfg net) now batch ad
    = Inr (Success [], view_batch rnd (ra_config ad) now fee v, ad\<lparr>ra_transport := Some (k + 7)\<rparr>)"
proof -
  have "core_node (HttpRpcTransport_Call cfg net) (\<lambda>_. True) Suc answer"
    by unfold_locales (use http_node.call_answered [OF assms(1)] in simp_all)
  moreover have "(Suc ^^ 7) k = k + 7" by (simp add: eval_nat_numeral)
  ultimately show ?thesis using core_node.poll_delivers [of _ _ Suc, OF _ assms(2,3) TrueI assms(4)] by metis
qed

text \<open>C14: A poll over HTTP reports the node as it is. When every connection reaches a server that takes the request apart, finds
  the method and the parameters in its body and answers with status 200 (in any pieces and with any further members in the
  objects), one \<open>Poll\<close> sends exactly seven requests (the state of the transport counts them), reads the answers and hands over
  exactly the node's view: height, hash, counters, flags and warning, and of the memory pool the first transactions up to the
  configured number, with amounts rounded to doubles. The total fee of the block is the whole part of the node's number times a
  hundred million, each rounded to a double, which is required to fit 64 bits.\<close>

theorem rpc_poll_reports_node:
  assumes "http_node cfg net answer" "describes answer v" "ra_transport ad = Some k"
    and "rnd (cv_total_fee v) = Some amount" "rnd (amount * 100000000) = Some satoshis" "0 \<le> satoshis" "satoshis < 2 ^ 64"
  shows "Rpc_Poll rnd (HttpRpcTransport_Call cfg net) now batch ad
    = Inr (Success [], view_batch rnd (ra_config ad) now (word_of_nat (nat \<lfloor>satoshis\<rfloor>)) v, ad\<lparr>ra_transport := Some (k + 7)\<rparr>)"
  using assms(4-7) by (intro poll_over_http [OF assms(1-3)]) (simp add: ToSatoshis_def)

theorem rpc_poll_reports_node_witness:
  "Rpc_Poll Some (HttpRpcTransport_Call local_rpc (\<lambda>k. json_server expected_answer)) 5 (empty_batch Signet 0) sample_adapter
    = Inr (Success [], view_batch Some (ra_config sample_adapter) 5 320000 sample_view, sample_adapter\<lparr>ra_transport := Some 7\<rparr>)"
  using rpc_poll_reports_node [OF local_http.http_node_axioms sample_described, of sample_adapter 0 Some "btc 320000" 320000 5 "empty_batch Signet 0"]
  by (simp add: sample_adapter_def sample_view_def btc_def)

text \<open>C22: A poll is all or nothing. Whatever the transport does, a poll that fails leaves a batch with the source, the network and the
  time only, nothing of the batch before; one that succeeds has a block, the network's state and at most the configured number of
  transactions.\<close>

theorem rpc_poll_all_or_nothing:
  assumes "Rpc_Poll rnd call now batch ad = Inr (st, batch', ad')" "ra_transport ad \<noteq> None"
  shows "if status_ok st
    then ob_latest_block batch' \<noteq> None \<and> ob_network_health batch' \<noteq> None
      \<and> length (ob_mempool_transactions batch') \<le> unat (cr_max_mempool_transactions (ra_config ad))
    else batch' = empty_batch (cr_network (ra_config ad)) now"
proof -
  obtain t where t: "ra_transport ad = Some t" using assms(2) by blast
  then obtain r s where p: "poll_calls rnd call (cr_max_mempool_transactions (ra_config ad)) ([], t) = Inr (r, s)"
    using assms(1) by (cases "poll_calls rnd call (cr_max_mempool_transactions (ra_config ad)) ([], t)") (auto simp: Rpc_Poll_def)
  show ?thesis
  proof (cases r)
    case (Inl status)
    then show ?thesis using assms(1) t p poll_calls_not_ok [OF p [unfolded Inl]] by (auto simp: Rpc_Poll_def split: prod.splits)
  next
    case (Inr v)
    obtain b n es where v: "v = (b, n, es)" by (cases v)
    show ?thesis using assms(1) t p poll_calls_bound [OF p [unfolded Inr v]] Inr v by (auto simp: Rpc_Poll_def split: prod.splits)
  qed
qed

theorem rpc_poll_all_or_nothing_witness:
  "length (ob_mempool_transactions (view_batch Some (ra_config sample_adapter) 5 320000 sample_view)) \<le> 1
    \<and> ob_latest_block (view_batch Some (ra_config sample_adapter) 5 320000 sample_view) \<noteq> None"
proof -
  have "Rpc_Poll Some (HttpRpcTransport_Call local_rpc (\<lambda>k. json_server expected_answer)) 5 (empty_batch Signet 0) sample_adapter
      = Inr (Success [], view_batch Some (ra_config sample_adapter) 5 320000 sample_view, sample_adapter\<lparr>ra_transport := Some 7\<rparr>)"
    using poll_over_http [OF local_http.http_node_axioms sample_described, of sample_adapter 0 Some 320000] sample_fee
    by (simp add: sample_adapter_def)
  from rpc_poll_all_or_nothing [OF this] show ?thesis by (simp add: sample_adapter_def)
qed

text \<open>The node reports the fees of a block in satoshis; the conversion from bitcoins multiplies them by a hundred million.\<close>

lemma total_fee_overstated:
  "ToSatoshis Some (of_nat satoshis) = (if satoshis * 100000000 < 2 ^ 64 then Inr (word_of_nat (satoshis * 100000000)) else Inl UndefinedBehaviour)"
proof -
  have c: "(of_nat satoshis :: rat) * 100000000 = of_nat (satoshis * 100000000)" by simp
  have l: "(2 ^ 64 \<le> (of_nat (satoshis * 100000000) :: rat)) = (2 ^ 64 \<le> satoshis * 100000000)"
    using of_nat_le_iff [of "2 ^ 64" "satoshis * 100000000", where ?'a = rat] by simp
  have f: "nat \<lfloor>(of_nat (satoshis * 100000000) :: rat)\<rfloor> = satoshis * 100000000" by (simp only: floor_of_nat nat_int)
  have n: "\<not> (of_nat (satoshis * 100000000) :: rat) \<le> - 1" using of_nat_0_le_iff [of "satoshis * 100000000", where ?'a = rat] by linarith
  show ?thesis unfolding ToSatoshis_def option.case c by (simp only: l f n not_le) auto
qed

end
