(* ===== verification/BitcoinConfig.thy ===== *)
theory BitcoinConfig
  imports BitcoinRpc
begin

text \<open>
  How the connection to Bitcoin Core is configured (\<open>ResolveBitcoinCoreRpcConfigDetails\<close> and its helpers in
  \<open>src/Blocxxi/Bitcoin/ingestion.cpp\<close>): the configuration file, two families of environment variables, and the cookie. The
  environment and the files that can be opened are parameters. The views that \<open>Trim\<close> returns on temporaries are read after the
  temporaries are gone; \<open>stale\<close> is what is read through such a view, the identity when the memory still holds the text.
\<close>

section \<open>Paths\<close>

text \<open>\<open>std::filesystem::path\<close> with its operator \<open>/\<close> and \<open>parent_path\<close>, for POSIX paths.\<close>

definition path_append :: "string \<Rightarrow> string \<Rightarrow> string" where
  "path_append p q =
     (if q \<noteq> [] \<and> hd q = CHR ''/'' then q
      else if p = [] \<or> last p = CHR ''/'' then p @ q else p @ CHR ''/'' # q)"

definition parent_path :: "string \<Rightarrow> string" where
  "parent_path p =
     (let directory = rev (dropWhile (\<lambda>c. c \<noteq> CHR ''/'') (rev p));
          stripped = rev (dropWhile (\<lambda>c. c = CHR ''/'') (rev directory)) in
      if stripped = [] then directory else stripped)"

section \<open>Sources\<close>

record ResolvedBitcoinCoreRpcConfig =
  rs_config :: BitcoinCoreRpcConfig
  rs_config_path :: string
  rs_config_file_loaded :: bool
  rs_host_source :: string
  rs_port_source :: string
  rs_username_source :: string
  rs_password_source :: string
  rs_path_source :: string

definition RpcConnectionConfig_default :: RpcConnectionConfig where
  "RpcConnectionConfig_default = \<lparr>rc_host = ''127.0.0.1'', rc_port = 8332, rc_username = [], rc_password = [], rc_path = ''/''\<rparr>"

definition BitcoinCoreRpcConfig_default :: BitcoinCoreRpcConfig where
  "BitcoinCoreRpcConfig_default = \<lparr>cr_network = Mainnet, cr_connection = RpcConnectionConfig_default, cr_max_mempool_transactions = 64\<rparr>"

definition Resolved_new :: "BitcoinCoreRpcConfig \<Rightarrow> ResolvedBitcoinCoreRpcConfig" where
  "Resolved_new base = \<lparr>rs_config = base, rs_config_path = [], rs_config_file_loaded = False, rs_host_source = ''default'',
     rs_port_source = ''default'', rs_username_source = ''unset'', rs_password_source = ''unset'', rs_path_source = ''default''\<rparr>"

definition on_connection :: "(RpcConnectionConfig \<Rightarrow> RpcConnectionConfig) \<Rightarrow> ResolvedBitcoinCoreRpcConfig \<Rightarrow> ResolvedBitcoinCoreRpcConfig" where
  "on_connection f r = r\<lparr>rs_config := (rs_config r)\<lparr>cr_connection := f (cr_connection (rs_config r))\<rparr>\<rparr>"

abbreviation connection :: "ResolvedBitcoinCoreRpcConfig \<Rightarrow> RpcConnectionConfig" where
  "connection r \<equiv> cr_connection (rs_config r)"

definition ReadEnv :: "(string \<Rightarrow> string option) \<Rightarrow> string \<Rightarrow> string option" where
  "ReadEnv env name = (case env name of None \<Rightarrow> None | Some v \<Rightarrow> if v = [] then None else Some v)"

section \<open>Setting a value\<close>

definition set_host :: "string \<Rightarrow> string \<Rightarrow> ResolvedBitcoinCoreRpcConfig \<Rightarrow> ResolvedBitcoinCoreRpcConfig" where
  "set_host v source r = (on_connection (\<lambda>c. c\<lparr>rc_host := v\<rparr>) r)\<lparr>rs_host_source := source\<rparr>"

definition set_port :: "string \<Rightarrow> string \<Rightarrow> ResolvedBitcoinCoreRpcConfig \<Rightarrow> ResolvedBitcoinCoreRpcConfig res" where
  "set_port v source r = rbind (std_stoi v) (\<lambda>n. Inr ((on_connection (\<lambda>c. c\<lparr>rc_port := ucast n\<rparr>) r)\<lparr>rs_port_source := source\<rparr>))"

definition set_username :: "string \<Rightarrow> string \<Rightarrow> ResolvedBitcoinCoreRpcConfig \<Rightarrow> ResolvedBitcoinCoreRpcConfig" where
  "set_username v source r = (on_connection (\<lambda>c. c\<lparr>rc_username := v\<rparr>) r)\<lparr>rs_username_source := source\<rparr>"

definition set_password :: "string \<Rightarrow> string \<Rightarrow> ResolvedBitcoinCoreRpcConfig \<Rightarrow> ResolvedBitcoinCoreRpcConfig" where
  "set_password v source r = (on_connection (\<lambda>c. c\<lparr>rc_password := v\<rparr>) r)\<lparr>rs_password_source := source\<rparr>"

definition set_path :: "string \<Rightarrow> string \<Rightarrow> ResolvedBitcoinCoreRpcConfig \<Rightarrow> ResolvedBitcoinCoreRpcConfig" where
  "set_path v source r = (on_connection (\<lambda>c. c\<lparr>rc_path := v\<rparr>) r)\<lparr>rs_path_source := source\<rparr>"

text \<open>What reading the file changes: the configuration, the data directory and the cookie file.\<close>

type_synonym config_state = "ResolvedBitcoinCoreRpcConfig \<times> string \<times> string option"

definition ApplyConfigValue :: "string \<Rightarrow> string \<Rightarrow> string \<Rightarrow> config_state \<Rightarrow> config_state res" where
  "ApplyConfigValue key v source_label s =
     (case s of (r, data_dir, cookie_file) \<Rightarrow>
      if key = ''rpcconnect'' then Inr (set_host v source_label r, data_dir, cookie_file)
      else if key = ''rpcport'' then rbind (set_port v source_label r) (\<lambda>r. Inr (r, data_dir, cookie_file))
      else if key = ''rpcuser'' then Inr (set_username v source_label r, data_dir, cookie_file)
      else if key = ''rpcpassword'' then Inr (set_password v source_label r, data_dir, cookie_file)
      else if key = ''rpcbind'' then Inr (set_host v source_label r, data_dir, cookie_file)
      else if key = ''datadir'' then Inr (r, v, cookie_file)
      else if key = ''rpccookiefile'' then Inr (r, data_dir, Some v)
      else Inr s)"

definition config_line :: "(string \<Rightarrow> string) \<Rightarrow> string \<Rightarrow> string \<Rightarrow> config_state \<Rightarrow> config_state res" where
  "config_line stale label line s =
     (let line = takeWhile (\<lambda>c. c \<noteq> CHR ''#'') line in
      case text_find ''='' line of None \<Rightarrow> Inr s
      | Some separator \<Rightarrow>
          let key = Trim (take separator line); v = Trim (drop (separator + 1) line) in
          if key = [] \<or> v = [] then Inr s else ApplyConfigValue (stale key) (stale v) label s)"

fun config_lines :: "(string \<Rightarrow> string) \<Rightarrow> string \<Rightarrow> string list \<Rightarrow> config_state \<Rightarrow> config_state res" where
  "config_lines stale label [] s = Inr s"
| "config_lines stale label (line # ls) s = rbind (config_line stale label line s) (config_lines stale label ls)"

section \<open>The cookie\<close>

definition LoadCookie :: "(string \<Rightarrow> string option) \<Rightarrow> string \<Rightarrow> (string \<times> string) option" where
  "LoadCookie files path =
     (case files path of None \<Rightarrow> None
      | Some content \<Rightarrow>
          let line = takeWhile (\<lambda>c. c \<noteq> CHR 0x0A) content in
          (case text_find '':'' line of None \<Rightarrow> None | Some separator \<Rightarrow> Some (take separator line, drop (separator + 1) line)))"

fun apply_cookie :: "(string \<Rightarrow> string option) \<Rightarrow> string list \<Rightarrow> ResolvedBitcoinCoreRpcConfig \<Rightarrow> ResolvedBitcoinCoreRpcConfig" where
  "apply_cookie files [] r = r"
| "apply_cookie files (candidate # cs) r =
     (case LoadCookie files candidate of None \<Rightarrow> apply_cookie files cs r
      | Some (user, pass) \<Rightarrow>
          let r = (if rc_username (connection r) = [] then set_username user (''cookie:'' @ candidate) r else r) in
          if rc_password (connection r) = [] then set_password pass (''cookie:'' @ candidate) r else r)"

section \<open>Resolving\<close>

definition DefaultBitcoinCoreConfigPath :: "(string \<Rightarrow> string option) \<Rightarrow> Network \<Rightarrow> string" where
  "DefaultBitcoinCoreConfigPath env network =
     (let home = (case ReadEnv env ''HOME'' of None \<Rightarrow> ''.'' | Some h \<Rightarrow> h);
          root = path_append home ''.bitcoin'';
          root = (case network of Testnet \<Rightarrow> path_append root ''testnet3'' | Signet \<Rightarrow> path_append root ''signet''
                  | Regtest \<Rightarrow> path_append root ''regtest'' | Mainnet \<Rightarrow> root) in
      path_append root ''bitcoin.conf'')"

text \<open>One family of environment variables, \<open>BITCOIN_RPC\<close> or \<open>BLOCXXI_RPC\<close>.\<close>

definition apply_env :: "(string \<Rightarrow> string option) \<Rightarrow> string \<Rightarrow> ResolvedBitcoinCoreRpcConfig \<Rightarrow> ResolvedBitcoinCoreRpcConfig res" where
  "apply_env env family r =
     (let name = (\<lambda>x. family @ x);
          put = (\<lambda>f x r. case ReadEnv env (name x) of None \<Rightarrow> r | Some v \<Rightarrow> f v (''env:'' @ name x) r) in
      rbind (case ReadEnv env (name ''_PORT'') of None \<Rightarrow> Inr (put set_host ''_HOST'' r)
             | Some v \<Rightarrow> set_port v (''env:'' @ name ''_PORT'') (put set_host ''_HOST'' r))
        (\<lambda>r. Inr (put set_path ''_PATH'' (put set_password ''_PASSWORD'' (put set_username ''_USER'' r)))))"

definition apply_credentials :: "(string \<Rightarrow> string option) \<Rightarrow> string \<Rightarrow> string option \<Rightarrow> string \<Rightarrow> ResolvedBitcoinCoreRpcConfig \<Rightarrow> ResolvedBitcoinCoreRpcConfig" where
  "apply_credentials files data_dir cookie_file path r =
     (if rc_username (connection r) = [] \<or> rc_password (connection r) = [] then
        apply_cookie files ((case cookie_file of None \<Rightarrow> [] | Some f \<Rightarrow> [f])
          @ (if data_dir \<noteq> [] then [path_append data_dir ''.cookie''] else [])
          @ [path_append (parent_path path) ''.cookie'']) r
      else r)"

definition ResolveBitcoinCoreRpcConfigDetails ::
  "(string \<Rightarrow> string) \<Rightarrow> (string \<Rightarrow> string option) \<Rightarrow> (string \<Rightarrow> string option) \<Rightarrow> BitcoinCoreRpcConfig \<Rightarrow> string option \<Rightarrow>
   ResolvedBitcoinCoreRpcConfig res" where
  "ResolveBitcoinCoreRpcConfigDetails stale env files base config_path =
     (let path = (case config_path of None \<Rightarrow> DefaultBitcoinCoreConfigPath env (cr_network base) | Some p \<Rightarrow> p);
          r = (Resolved_new base)\<lparr>rs_config_path := path\<rparr> in
      rbind (case files path of None \<Rightarrow> Inr (r, [], None)
             | Some content \<Rightarrow> config_lines stale (''bitcoin.conf:'' @ path) (getlines [] content)
                 (r\<lparr>rs_config_file_loaded := True\<rparr>, [], None)) (\<lambda>(r, data_dir, cookie_file).
      rbind (apply_env env ''BITCOIN_RPC'' r) (\<lambda>r.
      rbind (apply_env env ''BLOCXXI_RPC'' r) (\<lambda>r.
      Inr (apply_credentials files data_dir cookie_file path r)))))"

definition ResolveBitcoinCoreRpcConfig ::
  "(string \<Rightarrow> string) \<Rightarrow> (string \<Rightarrow> string option) \<Rightarrow> (string \<Rightarrow> string option) \<Rightarrow> BitcoinCoreRpcConfig \<Rightarrow> string option \<Rightarrow>
   BitcoinCoreRpcConfig res" where
  "ResolveBitcoinCoreRpcConfig stale env files base config_path =
     rbind (ResolveBitcoinCoreRpcConfigDetails stale env files base config_path) (\<lambda>r. Inr (rs_config r))"

section \<open>Which source wins\<close>

definition first_of :: "'a option list \<Rightarrow> 'a \<Rightarrow> 'a" where
  "first_of xs d = (case dropWhile (\<lambda>x. x = None) xs of [] \<Rightarrow> d | x # _ \<Rightarrow> the x)"

lemma first_of_simps [simp]: "first_of [] d = d" "first_of (None # xs) d = first_of xs d" "first_of (Some x # xs) d = x"
  by (simp_all add: first_of_def)

text \<open>The setting that a line of the file makes, and the last one for some keys.\<close>

definition line_setting :: "(string \<Rightarrow> string) \<Rightarrow> string \<Rightarrow> (string \<times> string) option" where
  "line_setting stale line =
     (let line = takeWhile (\<lambda>c. c \<noteq> CHR ''#'') line in
      Option.bind (text_find ''='' line) (\<lambda>separator.
        let key = Trim (take separator line); v = Trim (drop (separator + 1) line) in
        if key = [] \<or> v = [] then None else Some (stale key, stale v)))"

fun settings :: "(string \<Rightarrow> string) \<Rightarrow> string list \<Rightarrow> (string \<times> string) list" where
  "settings stale [] = []"
| "settings stale (line # ls) = (case line_setting stale line of None \<Rightarrow> settings stale ls | Some kv \<Rightarrow> kv # settings stale ls)"

fun last_setting :: "string list \<Rightarrow> (string \<times> string) list \<Rightarrow> string option" where
  "last_setting keys [] = None"
| "last_setting keys (kv # kvs) =
     (case last_setting keys kvs of Some v \<Rightarrow> Some v | None \<Rightarrow> if fst kv \<in> set keys then Some (snd kv) else None)"

definition port_of :: "string \<Rightarrow> 16 word" where
  "port_of v = (case std_stoi v of Inl _ \<Rightarrow> 0 | Inr n \<Rightarrow> ucast n)"

definition port_ok :: "string \<Rightarrow> bool" where
  "port_ok v \<longleftrightarrow> (case std_stoi v of Inl _ \<Rightarrow> False | Inr _ \<Rightarrow> True)"

lemma config_line_setting:
  "config_line stale label line s = (case line_setting stale line of None \<Rightarrow> Inr s | Some (k, v) \<Rightarrow> ApplyConfigValue k v label s)"
  by (simp add: config_line_def line_setting_def Let_def split: option.splits)

lemma connection_set [simp]:
  "connection (set_host v l r) = (connection r)\<lparr>rc_host := v\<rparr>"
  "connection (set_username v l r) = (connection r)\<lparr>rc_username := v\<rparr>"
  "connection (set_password v l r) = (connection r)\<lparr>rc_password := v\<rparr>"
  "connection (set_path v l r) = (connection r)\<lparr>rc_path := v\<rparr>"
  by (simp_all add: set_host_def set_username_def set_password_def set_path_def on_connection_def)

lemma set_port_ok: "(\<exists>r'. set_port v l r = Inr r') \<longleftrightarrow> port_ok v"
  by (simp add: set_port_def port_ok_def rbind_def split: sum.splits)

lemma set_port_Inr: "set_port v l r = Inr r' \<Longrightarrow> connection r' = (connection r)\<lparr>rc_port := port_of v\<rparr>"
  by (auto simp: set_port_def port_of_def on_connection_def rbind_def split: sum.splits)

text \<open>The parts of the state that settings of the file determine.\<close>

definition file_result :: "(string \<times> string) list \<Rightarrow> config_state \<Rightarrow> config_state \<Rightarrow> bool" where
  "file_result ss s s' \<longleftrightarrow> (case (s, s') of ((r, d, f), (r', d', f')) \<Rightarrow>
     connection r' = \<lparr>rc_host = first_of [last_setting [''rpcconnect'', ''rpcbind''] ss] (rc_host (connection r)),
       rc_port = first_of [map_option port_of (last_setting [''rpcport''] ss)] (rc_port (connection r)),
       rc_username = first_of [last_setting [''rpcuser''] ss] (rc_username (connection r)),
       rc_password = first_of [last_setting [''rpcpassword''] ss] (rc_password (connection r)),
       rc_path = rc_path (connection r)\<rparr>
     \<and> d' = first_of [last_setting [''datadir''] ss] d
     \<and> f' = first_of [map_option Some (last_setting [''rpccookiefile''] ss)] f)"

lemma ApplyConfigValue_result: "ApplyConfigValue k v l s = Inr s' \<Longrightarrow> file_result [(k, v)] s s'"
  by (auto simp: ApplyConfigValue_def file_result_def rbind_eq_Inr split: prod.splits if_splits dest!: set_port_Inr)

lemma first_last_Cons:
  "first_of [map_option f (last_setting keys (kv # ss))] d = first_of [map_option f (last_setting keys ss)] (first_of [map_option f (last_setting keys [kv])] d)"
  "first_of [last_setting keys (kv # ss)] e = first_of [last_setting keys ss] (first_of [last_setting keys [kv]] e)"
  by (cases "last_setting keys ss"; simp)+

lemma file_result_Cons: "file_result [kv] s s1 \<Longrightarrow> file_result ss s1 s2 \<Longrightarrow> file_result (kv # ss) s s2"
  by (cases s; cases s1; cases s2)
     (simp add: file_result_def first_last_Cons [where kv = kv and ss = ss] del: last_setting.simps)

lemma file_result_Nil: "file_result [] s s"
  by (simp add: file_result_def split: prod.splits)

lemma config_lines_result: "config_lines stale label ls s = Inr s' \<Longrightarrow> file_result (settings stale ls) s s'"
proof (induction ls arbitrary: s)
  case (Cons line ls)
  then obtain s1 where s1: "config_line stale label line s = Inr s1" "config_lines stale label ls s1 = Inr s'" by (auto simp: rbind_eq_Inr)
  show ?case
  proof (cases "line_setting stale line")
    case None
    then show ?thesis using s1 Cons.IH [OF s1(2)] by (simp add: config_line_setting)
  next
    case (Some kv)
    then have "file_result [kv] s s1" using s1(1) by (cases kv) (simp add: config_line_setting ApplyConfigValue_result)
    then show ?thesis using file_result_Cons [OF _ Cons.IH [OF s1(2)]] Some by simp
  qed
qed (simp add: file_result_Nil)

lemma put_host: "connection (case x of None \<Rightarrow> r | Some v \<Rightarrow> set_host v l r) = (connection r)\<lparr>rc_host := first_of [x] (rc_host (connection r))\<rparr>"
  by (cases x) simp_all

lemma put_username: "connection (case x of None \<Rightarrow> r | Some v \<Rightarrow> set_username v l r) = (connection r)\<lparr>rc_username := first_of [x] (rc_username (connection r))\<rparr>"
  by (cases x) simp_all

lemma put_password: "connection (case x of None \<Rightarrow> r | Some v \<Rightarrow> set_password v l r) = (connection r)\<lparr>rc_password := first_of [x] (rc_password (connection r))\<rparr>"
  by (cases x) simp_all

lemma put_path: "connection (case x of None \<Rightarrow> r | Some v \<Rightarrow> set_path v l r) = (connection r)\<lparr>rc_path := first_of [x] (rc_path (connection r))\<rparr>"
  by (cases x) simp_all

lemma apply_env_result:
  assumes "apply_env env family r = Inr r'"
  shows "connection r' = \<lparr>rc_host = first_of [ReadEnv env (family @ ''_HOST'')] (rc_host (connection r)),
    rc_port = first_of [map_option port_of (ReadEnv env (family @ ''_PORT''))] (rc_port (connection r)),
    rc_username = first_of [ReadEnv env (family @ ''_USER'')] (rc_username (connection r)),
    rc_password = first_of [ReadEnv env (family @ ''_PASSWORD'')] (rc_password (connection r)),
    rc_path = first_of [ReadEnv env (family @ ''_PATH'')] (rc_path (connection r))\<rparr>"
proof -
  note put = put_host put_username put_password put_path
  let ?r = "case ReadEnv env (family @ ''_HOST'') of None \<Rightarrow> r | Some v \<Rightarrow> set_host v (''env:'' @ family @ ''_HOST'') r"
  obtain r1 where r1: "(case ReadEnv env (family @ ''_PORT'') of None \<Rightarrow> Inr ?r | Some v \<Rightarrow> set_port v (''env:'' @ family @ ''_PORT'') ?r) = Inr r1"
    and r': "r' = (\<lambda>r. case ReadEnv env (family @ ''_PATH'') of None \<Rightarrow> r | Some v \<Rightarrow> set_path v (''env:'' @ family @ ''_PATH'') r)
      ((\<lambda>r. case ReadEnv env (family @ ''_PASSWORD'') of None \<Rightarrow> r | Some v \<Rightarrow> set_password v (''env:'' @ family @ ''_PASSWORD'') r)
      ((\<lambda>r. case ReadEnv env (family @ ''_USER'') of None \<Rightarrow> r | Some v \<Rightarrow> set_username v (''env:'' @ family @ ''_USER'') r) r1))"
    using assms by (auto simp only: apply_env_def Let_def rbind_eq_Inr sum.inject append_assoc)
  have "connection r1 = (connection ?r)\<lparr>rc_port := first_of [map_option port_of (ReadEnv env (family @ ''_PORT''))] (rc_port (connection ?r))\<rparr>"
    using r1 by (cases "ReadEnv env (family @ ''_PORT'')") (auto dest: set_port_Inr)
  then show ?thesis unfolding r' put by simp
qed

text \<open>The first cookie file that can be read.\<close>

fun first_cookie :: "(string \<Rightarrow> string option) \<Rightarrow> string list \<Rightarrow> (string \<times> string) option" where
  "first_cookie files [] = None"
| "first_cookie files (p # ps) = (case LoadCookie files p of None \<Rightarrow> first_cookie files ps | Some c \<Rightarrow> Some c)"

lemma apply_cookie_connection:
  "connection (apply_cookie files ps r) = (case first_cookie files ps of None \<Rightarrow> connection r
     | Some (user, pass) \<Rightarrow> (connection r)\<lparr>
         rc_username := if rc_username (connection r) = [] then user else rc_username (connection r),
         rc_password := if rc_password (connection r) = [] then pass else rc_password (connection r)\<rparr>)"
  by (induction ps) (auto simp: Let_def split: option.splits)

definition cookie_places :: "(string \<times> string) list \<Rightarrow> string \<Rightarrow> string list" where
  "cookie_places ss path =
     (case last_setting [''rpccookiefile''] ss of None \<Rightarrow> [] | Some f \<Rightarrow> [f])
     @ (case last_setting [''datadir''] ss of None \<Rightarrow> [] | Some d \<Rightarrow> if d = [] then [] else [path_append d ''.cookie''])
     @ [path_append (parent_path path) ''.cookie'']"

definition credential :: "string \<Rightarrow> string option \<Rightarrow> string" where
  "credential configured cookie = (if configured = [] then first_of [cookie] [] else configured)"

text \<open>The connection that the sources determine, by their rank.\<close>

definition ranked_connection ::
  "(string \<Rightarrow> string option) \<Rightarrow> (string \<Rightarrow> string option) \<Rightarrow> RpcConnectionConfig \<Rightarrow> string \<Rightarrow> (string \<times> string) list \<Rightarrow> RpcConnectionConfig" where
  "ranked_connection env files base path ss =
     (let e = (\<lambda>x. [ReadEnv env (''BLOCXXI_RPC'' @ x), ReadEnv env (''BITCOIN_RPC'' @ x)]);
          cookie = first_cookie files (cookie_places ss path) in
      \<lparr>rc_host = first_of (e ''_HOST'' @ [last_setting [''rpcconnect'', ''rpcbind''] ss]) (rc_host base),
       rc_port = first_of (map (map_option port_of) (e ''_PORT'' @ [last_setting [''rpcport''] ss])) (rc_port base),
       rc_username = credential (first_of (e ''_USER'' @ [last_setting [''rpcuser''] ss]) (rc_username base)) (map_option fst cookie),
       rc_password = credential (first_of (e ''_PASSWORD'' @ [last_setting [''rpcpassword''] ss]) (rc_password base)) (map_option snd cookie),
       rc_path = first_of (e ''_PATH'') (rc_path base)\<rparr>)"

definition file_settings :: "(string \<Rightarrow> string) \<Rightarrow> (string \<Rightarrow> string option) \<Rightarrow> string \<Rightarrow> (string \<times> string) list" where
  "file_settings stale files path = (case files path of None \<Rightarrow> [] | Some content \<Rightarrow> settings stale (getlines [] content))"

definition config_file :: "(string \<Rightarrow> string option) \<Rightarrow> BitcoinCoreRpcConfig \<Rightarrow> string option \<Rightarrow> string" where
  "config_file env base config_path = (case config_path of None \<Rightarrow> DefaultBitcoinCoreConfigPath env (cr_network base) | Some p \<Rightarrow> p)"

lemma first_of_append: "first_of (xs @ ys) d = first_of xs (first_of ys d)"
  by (induction xs) (auto split: option.splits simp: first_of_def)

lemma Resolve_steps:
  fixes stale env files base config_path
  defines "path \<equiv> config_file env base config_path"
  defines "r \<equiv> (Resolved_new base)\<lparr>rs_config_path := path\<rparr>"
  shows "ResolveBitcoinCoreRpcConfigDetails stale env files base config_path =
    rbind (case files path of None \<Rightarrow> Inr (r, [], None)
           | Some content \<Rightarrow> config_lines stale (''bitcoin.conf:'' @ path) (getlines [] content) (r\<lparr>rs_config_file_loaded := True\<rparr>, [], None))
      (\<lambda>(r, data_dir, cookie_file). rbind (apply_env env ''BITCOIN_RPC'' r) (\<lambda>r. rbind (apply_env env ''BLOCXXI_RPC'' r) (\<lambda>r.
        Inr (apply_credentials files data_dir cookie_file path r))))"
  by (simp only: ResolveBitcoinCoreRpcConfigDetails_def Let_def path_def r_def config_file_def)

lemma credentials_connection:
  "connection (apply_credentials files d f path r) = (connection r)\<lparr>
     rc_username := credential (rc_username (connection r)) (map_option fst (first_cookie files (cookies d f path))),
     rc_password := credential (rc_password (connection r)) (map_option snd (first_cookie files (cookies d f path)))\<rparr>"
  if "cookies = (\<lambda>d f path. (case f of None \<Rightarrow> [] | Some f \<Rightarrow> [f]) @ (if d \<noteq> [] then [path_append d ''.cookie''] else []) @ [path_append (parent_path path) ''.cookie''])"
proof (cases "first_cookie files (cookies d f path)")
  case None
  then show ?thesis by (simp add: apply_credentials_def apply_cookie_connection that credential_def)
next
  case (Some c)
  then show ?thesis by (cases c) (simp add: apply_credentials_def apply_cookie_connection that credential_def)
qed

lemma Resolve_ranked:
  fixes env files base config_path stale
  defines "path \<equiv> config_file env base config_path"
  assumes "ResolveBitcoinCoreRpcConfigDetails stale env files base config_path = Inr r"
  shows "connection r = ranked_connection env files (cr_connection base) path (file_settings stale files path)"
proof -
  let ?ss = "file_settings stale files path" and ?r = "(Resolved_new base)\<lparr>rs_config_path := path\<rparr>"
  obtain r0 d f r1 r2 where s: "(case files path of None \<Rightarrow> Inr (?r, [], None)
      | Some content \<Rightarrow> config_lines stale (''bitcoin.conf:'' @ path) (getlines [] content) (?r\<lparr>rs_config_file_loaded := True\<rparr>, [], None)) = Inr (r0, d, f)"
    and e: "apply_env env ''BITCOIN_RPC'' r0 = Inr r1" "apply_env env ''BLOCXXI_RPC'' r1 = Inr r2"
    and r: "r = apply_credentials files d f path r2"
    using assms(2) unfolding Resolve_steps path_def [symmetric] by (auto simp only: rbind_eq_Inr prod.case split_paired_Ex sum.inject)
  have "file_result ?ss (?r, [], None) (r0, d, f)"
  proof (cases "files path")
    case None
    then show ?thesis using s by (simp add: file_settings_def file_result_Nil)
  next
    case (Some content)
    then have "file_result ?ss (?r\<lparr>rs_config_file_loaded := True\<rparr>, [], None) (r0, d, f)"
      using s config_lines_result by (simp add: file_settings_def)
    then show ?thesis by (simp add: file_result_def)
  qed
  then have c0: "connection r0 = \<lparr>rc_host = first_of [last_setting [''rpcconnect'', ''rpcbind''] ?ss] (rc_host (cr_connection base)),
       rc_port = first_of [map_option port_of (last_setting [''rpcport''] ?ss)] (rc_port (cr_connection base)),
       rc_username = first_of [last_setting [''rpcuser''] ?ss] (rc_username (cr_connection base)),
       rc_password = first_of [last_setting [''rpcpassword''] ?ss] (rc_password (cr_connection base)),
       rc_path = rc_path (cr_connection base)\<rparr>"
    and d: "d = first_of [last_setting [''datadir''] ?ss] []" and f: "f = first_of [map_option Some (last_setting [''rpccookiefile''] ?ss)] None"
    by (simp_all add: file_result_def Resolved_new_def)
  have places: "(case f of None \<Rightarrow> [] | Some f \<Rightarrow> [f]) @ (if d \<noteq> [] then [path_append d ''.cookie''] else []) @ [path_append (parent_path path) ''.cookie'']
      = cookie_places ?ss path"
    unfolding cookie_places_def d f by (cases "last_setting [''datadir''] ?ss"; cases "last_setting [''rpccookiefile''] ?ss") simp_all
  have two: "first_of [a] (first_of [b] x) = first_of [a, b] x" for a b and x :: 'b by (cases a) simp_all
  have three: "first_of [a] (first_of [b, c] x) = first_of [a, b, c] x" for a b c and x :: 'b by (cases a) simp_all
  show ?thesis
    unfolding r credentials_connection [OF refl] places apply_env_result [OF e(2)] apply_env_result [OF e(1)] c0 ranked_connection_def Let_def
    by (simp add: two three)
qed

lemma ApplyConfigValue_ok: "(\<exists>s'. ApplyConfigValue k v l s = Inr s') \<longleftrightarrow> (k = ''rpcport'' \<longrightarrow> port_ok v)"
  by (cases s) (simp add: ApplyConfigValue_def rbind_eq_Inr set_port_ok)

lemma config_lines_ok:
  "(\<exists>s'. config_lines stale label ls s = Inr s') \<longleftrightarrow> list_all (\<lambda>kv. fst kv = ''rpcport'' \<longrightarrow> port_ok (snd kv)) (settings stale ls)"
proof (induction ls arbitrary: s)
  case (Cons line ls)
  show ?case
  proof (cases "line_setting stale line")
    case None
    then show ?thesis using Cons by (simp add: config_line_setting)
  next
    case (Some kv)
    then show ?thesis using Cons ApplyConfigValue_ok [of "fst kv" "snd kv" label s]
      by (cases kv) (auto simp: config_line_setting rbind_eq_Inr simp del: split_paired_Ex split_paired_All)
  qed
qed (simp del: split_paired_Ex)

lemma rbind_ok: "(\<And>x. (\<exists>y. f x = Inr y) \<longleftrightarrow> P) \<Longrightarrow> (\<exists>y. rbind m f = Inr y) \<longleftrightarrow> (\<exists>x. m = Inr x) \<and> P"
  by (auto simp: rbind_eq_Inr simp del: split_paired_Ex)

lemma apply_env_ok: "(\<exists>r'. apply_env env family r = Inr r') \<longleftrightarrow> (case ReadEnv env (family @ ''_PORT'') of None \<Rightarrow> True | Some v \<Rightarrow> port_ok v)"
  by (cases "ReadEnv env (family @ ''_PORT'')") (simp_all add: apply_env_def Let_def rbind_eq_Inr set_port_ok)

lemma Resolve_ok:
  fixes env files base config_path stale
  defines "path \<equiv> config_file env base config_path"
  shows "(\<exists>r. ResolveBitcoinCoreRpcConfigDetails stale env files base config_path = Inr r) \<longleftrightarrow>
    list_all (\<lambda>kv. fst kv = ''rpcport'' \<longrightarrow> port_ok (snd kv)) (file_settings stale files path)
    \<and> (\<forall>family \<in> {''BITCOIN_RPC'', ''BLOCXXI_RPC''}. case ReadEnv env (family @ ''_PORT'') of None \<Rightarrow> True | Some v \<Rightarrow> port_ok v)"
proof -
  let ?env = "\<lambda>family. case ReadEnv env (family @ ''_PORT'') of None \<Rightarrow> True | Some v \<Rightarrow> port_ok v"
  have from_file: "(\<exists>s'. (case files path of None \<Rightarrow> Inr (r, [], None)
      | Some content \<Rightarrow> config_lines stale l (getlines [] content) (r', [], None)) = Inr s') \<longleftrightarrow>
      list_all (\<lambda>kv. fst kv = ''rpcport'' \<longrightarrow> port_ok (snd kv)) (file_settings stale files path)" for r r' l
    by (cases "files path") (simp_all add: file_settings_def config_lines_ok del: split_paired_Ex)
  have one: "(\<exists>y. rbind (apply_env env ''BLOCXXI_RPC'' r) (\<lambda>r. Inr (g r)) = Inr y) \<longleftrightarrow> ?env ''BLOCXXI_RPC''"
    for r and g :: "ResolvedBitcoinCoreRpcConfig \<Rightarrow> ResolvedBitcoinCoreRpcConfig"
    using rbind_ok [of "\<lambda>r. Inr (g r)" True "apply_env env ''BLOCXXI_RPC'' r"] apply_env_ok [of env "''BLOCXXI_RPC''" r] by simp
  have last_two: "(\<exists>y. rbind (apply_env env ''BITCOIN_RPC'' r) (\<lambda>r. rbind (apply_env env ''BLOCXXI_RPC'' r) (\<lambda>r.
      Inr (apply_credentials files d f path r))) = Inr y) \<longleftrightarrow> ?env ''BITCOIN_RPC'' \<and> ?env ''BLOCXXI_RPC''" for r d f
    by (simp only: rbind_ok [OF one] apply_env_ok)
  have "(\<exists>r. ResolveBitcoinCoreRpcConfigDetails stale env files base config_path = Inr r) \<longleftrightarrow>
      list_all (\<lambda>kv. fst kv = ''rpcport'' \<longrightarrow> port_ok (snd kv)) (file_settings stale files path) \<and> ?env ''BITCOIN_RPC'' \<and> ?env ''BLOCXXI_RPC''"
    unfolding Resolve_steps path_def [symmetric]
    using rbind_ok [where f = "\<lambda>(r, data_dir, cookie_file). rbind (apply_env env ''BITCOIN_RPC'' r) (\<lambda>r. rbind (apply_env env ''BLOCXXI_RPC'' r) (\<lambda>r.
        Inr (apply_credentials files data_dir cookie_file path r)))" and P = "?env ''BITCOIN_RPC'' \<and> ?env ''BLOCXXI_RPC''"] last_two from_file
    by (simp only: split_beta)
  then show ?thesis by simp
qed

section \<open>Properties\<close>

definition ports_ok :: "(string \<Rightarrow> string option) \<Rightarrow> (string \<times> string) list \<Rightarrow> bool" where
  "ports_ok env ss \<longleftrightarrow> list_all (\<lambda>kv. fst kv = ''rpcport'' \<longrightarrow> port_ok (snd kv)) ss
     \<and> list_all (\<lambda>family. case ReadEnv env (family @ ''_PORT'') of None \<Rightarrow> True | Some v \<Rightarrow> port_ok v) [''BITCOIN_RPC'', ''BLOCXXI_RPC'']"

text \<open>C21: The configuration is resolved exactly when every port text that occurs is a number, also one that a stronger source
  overrides. The connection is then the one of the sources by rank: host, port, user and password come from
  \<open>BLOCXXI_RPC_*\<close>, else from \<open>BITCOIN_RPC_*\<close>, else from the last line of the file that sets them, else from the given base (the
  path from the environment or the base only); an empty variable counts as none, and the first readable cookie file fills in a
  user or a password that is still empty, and nothing else.\<close>

theorem rpc_config_ranked:
  "case ResolveBitcoinCoreRpcConfigDetails stale env files base config_path of
     Inl e \<Rightarrow> \<not> ports_ok env (file_settings stale files (config_file env base config_path))
   | Inr r \<Rightarrow> ports_ok env (file_settings stale files (config_file env base config_path))
       \<and> connection r = ranked_connection env files (cr_connection base) (config_file env base config_path)
           (file_settings stale files (config_file env base config_path))"
proof -
  have "(\<exists>r. ResolveBitcoinCoreRpcConfigDetails stale env files base config_path = Inr r)
      \<longleftrightarrow> ports_ok env (file_settings stale files (config_file env base config_path))"
    unfolding Resolve_ok ports_ok_def by simp
  then show ?thesis
    using Resolve_ranked [of stale env files base config_path]
    by (cases "ResolveBitcoinCoreRpcConfigDetails stale env files base config_path") auto
qed

text \<open>A port above 65535 is cut to sixteen bits.\<close>

lemma port_truncated: "port_of ''70000'' = 4464"
  by (simp add: port_of_def std_stoi_def scan_number_def is_space_def is_digit_def digits_val_def digit_val_def)

text \<open>A host that is set in the file and in the environment, and a user from the cookie.\<close>

lemma sample_settings:
  "settings (\<lambda>x. x) [''rpcconnect = 10.0.0.1 # local'', ''rpcpassword=secret''] = [(''rpcconnect'', ''10.0.0.1''), (''rpcpassword'', ''secret'')]"
  by (simp add: line_setting_def Trim_def is_space_def Let_def)

lemma ranked_example:
  "rc_host (ranked_connection [''BITCOIN_RPC_HOST'' \<mapsto> ''node''] (\<lambda>p. None) RpcConnectionConfig_default ''/etc/bitcoin.conf''
      (settings (\<lambda>x. x) [''rpcconnect = 10.0.0.1 # local'', ''rpcpassword=secret''])) = ''node''"
  "rc_username (ranked_connection (\<lambda>x. None) [''/etc/.cookie'' \<mapsto> ''u:p''] RpcConnectionConfig_default ''/etc/bitcoin.conf''
      (settings (\<lambda>x. x) [''rpcconnect = 10.0.0.1 # local'', ''rpcpassword=secret''])) = ''u''"
  unfolding sample_settings
  by (simp_all add: ranked_connection_def ReadEnv_def RpcConnectionConfig_default_def credential_def
      cookie_places_def parent_path_def path_append_def LoadCookie_def)

end
