(* ===== verification/Analyzer.thy ===== *)
theory Analyzer
  imports BitcoinPoll BitcoinConfig EventDht Node
begin

text \<open>
  The rules-only analyzer of \<open>src/Blocxxi/Examples/bitcoin-mempool-analyzer/main.cpp\<close>: its command line and configuration, and the
  service that polls Bitcoin Core and publishes what it observes as signed events to the local event store. The readings of the
  wall clock and the nonces of the signatures come from an environment, counted by the state; printing is left out.
\<close>

section \<open>The command line\<close>

record AnalyzerOptions =
  ao_oneshot :: bool
  ao_scripted :: bool
  ao_rpc_host_overridden :: bool
  ao_rpc_port_overridden :: bool
  ao_rpc_user_overridden :: bool
  ao_rpc_password_overridden :: bool
  ao_rpc_path_overridden :: bool
  ao_poll_interval :: "32 word"
  ao_bitcoin_conf :: "string option"
  ao_rpc :: BitcoinCoreRpcConfig

definition AnalyzerOptions_new :: AnalyzerOptions where
  "AnalyzerOptions_new = \<lparr>ao_oneshot = False, ao_scripted = False, ao_rpc_host_overridden = False, ao_rpc_port_overridden = False,
     ao_rpc_user_overridden = False, ao_rpc_password_overridden = False, ao_rpc_path_overridden = False, ao_poll_interval = 1000,
     ao_bitcoin_conf = None, ao_rpc = BitcoinCoreRpcConfig_default\<rparr>"

definition on_rpc :: "(RpcConnectionConfig \<Rightarrow> RpcConnectionConfig) \<Rightarrow> AnalyzerOptions \<Rightarrow> AnalyzerOptions" where
  "on_rpc f opts = opts\<lparr>ao_rpc := (ao_rpc opts)\<lparr>cr_connection := f (cr_connection (ao_rpc opts))\<rparr>\<rparr>"

text \<open>\<open>--help\<close> prints the usage and ends the program: the result is \<open>None\<close>. An option without its value is ignored like any
  unknown word.\<close>

fun ParseOptions :: "string list \<Rightarrow> AnalyzerOptions \<Rightarrow> AnalyzerOptions option res" where
  "ParseOptions [] opts = Inr (Some opts)"
| "ParseOptions (current # args) opts =
     (if current = ''--oneshot'' then ParseOptions args (opts\<lparr>ao_oneshot := True\<rparr>)
      else if current = ''--scripted'' then ParseOptions args (opts\<lparr>ao_scripted := True\<rparr>)
      else if current = ''--help'' then Inr None
      else case args of [] \<Rightarrow> ParseOptions args opts
      | v # rest_args \<Rightarrow>
          if current = ''--poll-interval-ms'' then rbind (std_stoi v) (\<lambda>n. ParseOptions rest_args (opts\<lparr>ao_poll_interval := n\<rparr>))
          else if current = ''--rpc-host'' then ParseOptions rest_args ((on_rpc (\<lambda>c. c\<lparr>rc_host := v\<rparr>) opts)\<lparr>ao_rpc_host_overridden := True\<rparr>)
          else if current = ''--rpc-port'' then
            rbind (std_stoi v) (\<lambda>n. ParseOptions rest_args ((on_rpc (\<lambda>c. c\<lparr>rc_port := ucast n\<rparr>) opts)\<lparr>ao_rpc_port_overridden := True\<rparr>))
          else if current = ''--rpc-user'' then ParseOptions rest_args ((on_rpc (\<lambda>c. c\<lparr>rc_username := v\<rparr>) opts)\<lparr>ao_rpc_user_overridden := True\<rparr>)
          else if current = ''--rpc-password'' then
            ParseOptions rest_args ((on_rpc (\<lambda>c. c\<lparr>rc_password := v\<rparr>) opts)\<lparr>ao_rpc_password_overridden := True\<rparr>)
          else if current = ''--rpc-path'' then ParseOptions rest_args ((on_rpc (\<lambda>c. c\<lparr>rc_path := v\<rparr>) opts)\<lparr>ao_rpc_path_overridden := True\<rparr>)
          else if current = ''--bitcoin-conf'' then ParseOptions rest_args (opts\<lparr>ao_bitcoin_conf := Some v\<rparr>)
          else ParseOptions args opts)"

definition OverrideSourcesFromCli :: "AnalyzerOptions \<Rightarrow> ResolvedBitcoinCoreRpcConfig \<Rightarrow> ResolvedBitcoinCoreRpcConfig" where
  "OverrideSourcesFromCli opts r =
     (let cli = cr_connection (ao_rpc opts);
          r = (if ao_rpc_host_overridden opts then set_host (rc_host cli) ''cli:--rpc-host'' r else r);
          r = (if ao_rpc_port_overridden opts then (on_connection (\<lambda>c. c\<lparr>rc_port := rc_port cli\<rparr>) r)\<lparr>rs_port_source := ''cli:--rpc-port''\<rparr> else r);
          r = (if ao_rpc_user_overridden opts then set_username (rc_username cli) ''cli:--rpc-user'' r else r);
          r = (if ao_rpc_password_overridden opts then set_password (rc_password cli) ''cli:--rpc-password'' r else r) in
      if ao_rpc_path_overridden opts then set_path (rc_path cli) ''cli:--rpc-path'' r else r)"

text \<open>The first part of \<open>main\<close>: an exit code, or the options with the resolved connection.\<close>

definition configure ::
  "(string \<Rightarrow> string) \<Rightarrow> (string \<Rightarrow> string option) \<Rightarrow> (string \<Rightarrow> string option) \<Rightarrow> string list \<Rightarrow>
   (nat + AnalyzerOptions \<times> ResolvedBitcoinCoreRpcConfig) res" where
  "configure stale env files args =
     rbind (ParseOptions args AnalyzerOptions_new) (\<lambda>parsed.
       case parsed of None \<Rightarrow> Inr (Inl 0)
       | Some opts \<Rightarrow>
           if ao_scripted opts then Inr (Inr (opts, Resolved_new (ao_rpc opts)))
           else
             rbind (ResolveBitcoinCoreRpcConfigDetails stale env files
                 \<lparr>cr_network = cr_network (ao_rpc opts), cr_connection = RpcConnectionConfig_default,
                  cr_max_mempool_transactions = cr_max_mempool_transactions (ao_rpc opts)\<rparr> (ao_bitcoin_conf opts)) (\<lambda>r.
             let r = OverrideSourcesFromCli opts r; opts = opts\<lparr>ao_rpc := rs_config r\<rparr> in
             if rc_username (cr_connection (ao_rpc opts)) = [] \<or> rc_password (cr_connection (ao_rpc opts)) = [] then Inr (Inl 4)
             else Inr (Inr (opts, r))))"

section \<open>The service\<close>

record 'r analyzer_env =
  clock_reading :: "nat \<Rightarrow> i64"
  nonce :: "nat \<Rightarrow> 'r"

record 't Analyzer =
  an_adapter :: "'t BitcoinCoreRpcAdapter"
  an_poll_interval :: "32 word"
  an_dht :: MemoryEventDht
  an_key_pair :: KeyPair
  an_signer_name :: string
  an_on_publish :: bool
  an_published :: "(SignedEventRecord \<times> PublishResult) list"
  an_reads :: nat

definition AnalyzerName :: string where
  "AnalyzerName = ''bitcoin.rules-only-analyzer''"

text \<open>\<open>std::to_string\<close> of a double: six digits behind the point, exact values rounded to the nearest, ties to the even digit.\<close>

definition round_half_even :: "rat \<Rightarrow> nat" where
  "round_half_even y = (let f = \<lfloor>y\<rfloor>; d = y - of_int f in nat (if d < 1 / 2 \<or> d = 1 / 2 \<and> even f then f else f + 1))"

definition double_text :: "rat \<Rightarrow> string" where
  "double_text x = (let n = round_half_even (\<bar>x\<bar> * 10 ^ 6) in
     (if x < 0 then ''-'' else []) @ show_nat (n div 10 ^ 6) @ CHR ''.'' # padded 6 n)"

definition fee_event :: "ObservationBatch \<Rightarrow> TransactionObservation \<Rightarrow> EventEnvelope" where
  "fee_event batch obs = \<lparr>schema = ''blocxxi.event.v1'', event_type = ''bitcoin.transaction.high-fee'', taxonomy = ''transaction'',
     env_source = ob_source_name batch, producer = AnalyzerName,
     window = \<lparr>start_utc = ob_observed_at_utc batch, end_utc = ob_observed_at_utc batch\<rparr>,
     observed_at_utc = ob_observed_at_utc batch, published_at_utc = ob_observed_at_utc batch,
     identifiers = [''txid:'' @ to_txid obs],
     attributes = [\<lparr>attr_key = ''fee_btc'', attr_value = double_text (to_base_fee_btc obs)\<rparr>,
                   \<lparr>attr_key = ''vsize'', attr_value = show_nat (unat (to_vsize obs))\<rparr>],
     summary = ''high-fee mempool transaction'', env_payload = []\<rparr>"

definition pressure_event :: "ObservationBatch \<Rightarrow> BlockObservation \<Rightarrow> NetworkHealthObservation \<Rightarrow> EventEnvelope" where
  "pressure_event batch block health = \<lparr>schema = ''blocxxi.event.v1'', event_type = ''bitcoin.fee.mempool-pressure'', taxonomy = ''fee-market'',
     env_source = ob_source_name batch, producer = AnalyzerName,
     window = \<lparr>start_utc = ob_observed_at_utc batch, end_utc = ob_observed_at_utc batch\<rparr>,
     observed_at_utc = ob_observed_at_utc batch, published_at_utc = ob_observed_at_utc batch,
     identifiers = [''height:'' @ show_nat (unat (bo_height block))],
     attributes = [\<lparr>attr_key = ''mempool_txs'', attr_value = show_nat (unat (nh_mempool_transaction_count health))\<rparr>,
                   \<lparr>attr_key = ''connections'', attr_value = show_nat (unat (nh_connection_count health))\<rparr>],
     summary = ''mempool pressure wave'', env_payload = []\<rparr>"

text \<open>The lambda \<open>publish\<close>: the callback, when one is set, gets the record and the result.\<close>

definition analyzer_publish ::
  "('k, 'p, 'r) ecdsa \<Rightarrow> 'r analyzer_env \<Rightarrow> EventEnvelope \<Rightarrow> 't Analyzer \<Rightarrow> (Status \<times> 't Analyzer) res" where
  "analyzer_publish ec env e a =
     (let n = an_reads a in
      rbind (PublishEvent ec (nonce env n) (clock_reading env n) (clock_reading env (n + 1)) e (an_key_pair a) (an_signer_name a) (an_dht a))
        (\<lambda>(status, r, published, dht).
          let a = a\<lparr>an_dht := dht, an_reads := n + 2\<rparr> in
          if \<not> status_ok status then Inr (status, a)
          else Inr (Success [], if an_on_publish a then
              a\<lparr>an_published := an_published a @ [(r, case published of None \<Rightarrow> PublishResult_default | Some p \<Rightarrow> p)]\<rparr> else a)))"

fun publish_fees ::
  "(rat \<Rightarrow> rat option) \<Rightarrow> ('k, 'p, 'r) ecdsa \<Rightarrow> 'r analyzer_env \<Rightarrow> ObservationBatch \<Rightarrow> TransactionObservation list \<Rightarrow> 't Analyzer \<Rightarrow>
   (Status \<times> 't Analyzer) res" where
  "publish_fees rnd ec env batch [] a = Inr (Success [], a)"
| "publish_fees rnd ec env batch (obs # observations) a =
     (if to_base_fee_btc obs < value_or (rnd (3 / 10000)) 0 then publish_fees rnd ec env batch observations a
      else rbind (analyzer_publish ec env (fee_event batch obs) a) (\<lambda>(status, a).
        if \<not> status_ok status then Inr (status, a) else publish_fees rnd ec env batch observations a))"

definition Analyzer_Policy :: "'t Analyzer \<Rightarrow> ServicePolicy" where
  "Analyzer_Policy a = \<lparr>interval = sint (an_poll_interval a), retry_backoff = 1, max_retries = 1\<rparr>"

definition Analyzer_Start :: "'t Analyzer \<Rightarrow> 'w NodeCore \<Rightarrow> Status \<times> 't Analyzer \<times> 'w NodeCore" where
  "Analyzer_Start a c = (let (status, c) = AttachAdapter RpcAdapterName c in (status, a, c))"

definition batch_default :: ObservationBatch where
  "batch_default = \<lparr>ob_source_name = [], ob_network = Mainnet, ob_observed_at_utc = 0, ob_mempool_transactions = [],
     ob_latest_block = None, ob_network_health = None\<rparr>"

definition Analyzer_Poll ::
  "(rat \<Rightarrow> rat option) \<Rightarrow> 't rpc_call \<Rightarrow> ('k, 'p, 'r) ecdsa \<Rightarrow> 'r analyzer_env \<Rightarrow> 't Analyzer \<Rightarrow> (Status \<times> 't Analyzer) res" where
  "Analyzer_Poll rnd call ec env a =
     rbind (Rpc_Poll rnd call (clock_reading env (an_reads a)) batch_default (an_adapter a)) (\<lambda>(status, batch, adapter).
     let a = a\<lparr>an_adapter := adapter, an_reads := an_reads a + 1\<rparr> in
     if \<not> status_ok status then Inr (status, a)
     else case ob_latest_block batch of
       None \<Rightarrow> Inr (Failure Rejected ''missing latest block observation'', a)
     | Some block \<Rightarrow>
         rbind (publish_fees rnd ec env batch (ob_mempool_transactions batch) a) (\<lambda>(status, a).
         if \<not> status_ok status then Inr (status, a)
         else case ob_network_health batch of
           None \<Rightarrow> Inr (Success [], a)
         | Some health \<Rightarrow>
             if nh_mempool_transaction_count health \<ge> 4 then
               rbind (analyzer_publish ec env (pressure_event batch block health) a) (\<lambda>(status, a).
                 if \<not> status_ok status then Inr (status, a) else Inr (Success [], a))
             else Inr (Success [], a)))"

section \<open>What a publication leaves behind\<close>

lemma Publish_keeps:
  assumes inv: "dht_inv ec dht" and p: "Memory_Publish ec now r dht = Inr (st, dht')" and q: "q \<in> stored dht"
  shows "\<exists>q' \<in> stored dht'. dht_key q' = dht_key q \<and> pe_record q' = pe_record q"
proof -
  obtain v where v: "VerifyEventRecord ec r = Inr v" using p by (cases "VerifyEventRecord ec r") (auto simp: Memory_Publish_def)
  let ?k = "DeterministicKey r" and ?b = "bucket_of (dht_entries dht) (DeterministicKey r)"
  have put: "\<exists>q' \<in> stored (dht\<lparr>dht_entries := put_bucket ?k b (dht_entries dht), last_publish := lp\<rparr>). dht_key q' = dht_key q \<and> pe_record q' = pe_record q"
    if b: "\<forall>q \<in> set ?b. \<exists>q' \<in> set b. dht_key q' = dht_key q \<and> pe_record q' = pe_record q" for b lp
  proof -
    have d: "distinct (map fst (dht_entries dht))" using inv by (simp add: dht_inv_def)
    obtain k0 b0 where k0: "(k0, b0) \<in> set (dht_entries dht)" "q \<in> set b0" using q by (auto simp: stored_def)
    have m: "map_of (dht_entries dht) k0 = Some b0" using d k0(1) by simp
    show ?thesis
    proof (cases "k0 = ?k")
      case True
      then have "q \<in> set ?b" using m k0(2) by (simp add: bucket_of_def)
      then obtain q' where q': "q' \<in> set b" "dht_key q' = dht_key q \<and> pe_record q' = pe_record q" using b by blast
      have "(?k, b) \<in> set (put_bucket ?k b (dht_entries dht))" by (rule map_of_SomeD) (simp add: put_bucket_map_of)
      then show ?thesis using q' by (auto simp: stored_def)
    next
      case False
      then have "(k0, b0) \<in> set (put_bucket ?k b (dht_entries dht))" using m by (intro map_of_SomeD) (simp add: put_bucket_map_of)
      then show ?thesis using k0(2) by (auto simp: stored_def)
    qed
  qed
  have bump: "\<forall>q \<in> set b. \<exists>q' \<in> set (bump_duplicate now r b). dht_key q' = dht_key q \<and> pe_record q' = pe_record q" for b
    by (induction now r b rule: bump_duplicate.induct) auto
  have snoc: "\<forall>q \<in> set ?b. \<exists>q' \<in> set (?b @ [x]). dht_key q' = dht_key q \<and> pe_record q' = pe_record q" for x
    by auto
  show ?thesis
  proof (cases "v \<and> list_ex (is_duplicate r) ?b")
    case True
    then show ?thesis using p v put [OF bump [of ?b]] by (auto simp: Memory_Publish_def Let_def)
  next
    case False
    then show ?thesis using p v q put [OF snoc] by (cases v) (auto simp: Memory_Publish_def Let_def)
  qed
qed

text \<open>The records with which the state grew are signed, verified and found in the store, and the callback saw them in this order.\<close>

definition grew :: "('k, 'p, 'r) ecdsa \<Rightarrow> EventEnvelope list \<Rightarrow> 't Analyzer \<Rightarrow> 't Analyzer \<Rightarrow> bool" where
  "grew ec es a a' \<longleftrightarrow> dht_reachable ec (an_dht a')
     \<and> an_adapter a' = an_adapter a \<and> an_key_pair a' = an_key_pair a \<and> an_on_publish a' = an_on_publish a
     \<and> (\<forall>q \<in> stored (an_dht a). \<exists>q' \<in> stored (an_dht a'). dht_key q' = dht_key q \<and> pe_record q' = pe_record q)
     \<and> (\<exists>rs. map envelope rs = es
         \<and> map fst (an_published a') = map fst (an_published a) @ (if an_on_publish a then rs else [])
         \<and> (\<forall>r \<in> set rs. VerifyEventRecord ec r = Inr True
             \<and> (\<exists>q \<in> stored (an_dht a'). dht_key q = DeterministicKey r \<and> is_duplicate r q)))"

lemma grew_refl: "dht_reachable ec (an_dht a) \<Longrightarrow> grew ec [] a a"
  by (auto simp: grew_def)

lemma grew_trans: "grew ec es a b \<Longrightarrow> grew ec fs b c \<Longrightarrow> grew ec (es @ fs) a c"
proof -
  assume g: "grew ec es a b" and h: "grew ec fs b c"
  obtain rs where rs: "map envelope rs = es" "map fst (an_published b) = map fst (an_published a) @ (if an_on_publish a then rs else [])"
      "\<forall>r \<in> set rs. VerifyEventRecord ec r = Inr True \<and> (\<exists>q \<in> stored (an_dht b). dht_key q = DeterministicKey r \<and> is_duplicate r q)"
    using g by (auto simp: grew_def)
  obtain ss where ss: "map envelope ss = fs" "map fst (an_published c) = map fst (an_published b) @ (if an_on_publish b then ss else [])"
      "\<forall>r \<in> set ss. VerifyEventRecord ec r = Inr True \<and> (\<exists>q \<in> stored (an_dht c). dht_key q = DeterministicKey r \<and> is_duplicate r q)"
    using h by (auto simp: grew_def)
  have k: "\<forall>q \<in> stored (an_dht b). \<exists>q' \<in> stored (an_dht c). dht_key q' = dht_key q \<and> pe_record q' = pe_record q"
    using h by (simp add: grew_def)
  have "\<exists>q \<in> stored (an_dht c). dht_key q = DeterministicKey r \<and> is_duplicate r q" if "r \<in> set rs" for r
    using rs(3) that k unfolding is_duplicate_def by metis
  then have all: "\<forall>r \<in> set (rs @ ss). VerifyEventRecord ec r = Inr True
      \<and> (\<exists>q \<in> stored (an_dht c). dht_key q = DeterministicKey r \<and> is_duplicate r q)"
    using rs(3) ss(3) by auto
  have o: "an_on_publish b = an_on_publish a" using g by (simp add: grew_def)
  have keeps: "\<forall>q \<in> stored (an_dht a). \<exists>q' \<in> stored (an_dht c). dht_key q' = dht_key q \<and> pe_record q' = pe_record q"
    using g k unfolding grew_def by metis
  have same: "dht_reachable ec (an_dht c) \<and> an_adapter c = an_adapter a \<and> an_key_pair c = an_key_pair a \<and> an_on_publish c = an_on_publish a"
    using g h by (simp add: grew_def)
  show ?thesis
    unfolding grew_def using same keeps all rs(1,2) ss(1,2) o by (intro conjI exI [of _ "rs @ ss"]) simp_all
qed

lemma grew_adapter: "grew ec es (a\<lparr>an_adapter := ad, an_reads := n\<rparr>) a' \<Longrightarrow> grew ec es a (a'\<lparr>an_adapter := an_adapter a, an_reads := m\<rparr>)"
  by (simp add: grew_def)

lemma publish_grows:
  assumes ok: "ecdsa_ok ec" "KeyPair_from_secret ec secret = Inr (an_key_pair a)" and d: "dht_reachable ec (an_dht a)"
    and t: "observed_at_utc e \<noteq> 0" "published_at_utc e \<noteq> 0"
  shows "\<exists>a'. analyzer_publish ec env e a = Inr (Success [], a') \<and> grew ec [e] a a'"
proof -
  let ?n = "an_reads a"
  let ?now = "clock_reading env (?n + 1)"
  obtain r where r: "SignEventRecord ec (nonce env ?n) (clock_reading env ?n) e (an_key_pair a) (an_signer_name a) = Inr r"
      "VerifyEventRecord ec r = Inr True" "envelope r = stamp_envelope (clock_reading env ?n) e"
    using SignEventRecord_verifies [OF ok] by blast
  obtain st dht' pr p where P: "Memory_Publish ec ?now r (an_dht a) = Inr (st, dht')" "status_ok st" "last_publish dht' = Some pr"
      "p \<in> stored dht'" "dht_key p = DeterministicKey r" "is_duplicate r p"
    using Publish_verified [OF reachable_dht_inv [OF d] r(2), of ?now] by blast
  let ?a = "a\<lparr>an_dht := dht', an_reads := ?n + 2\<rparr>"
  let ?a' = "if an_on_publish a then ?a\<lparr>an_published := an_published a @ [(r, pr)]\<rparr> else ?a"
  have pub: "analyzer_publish ec env e a = Inr (Success [], ?a')"
    using r(1) P(1-3) by (simp add: analyzer_publish_def PublishEvent_def Let_def)
  have "envelope r = e" using r(3) t by (simp add: stamp_envelope_def)
  moreover have "dht_reachable ec dht'" by (rule dht_reachable.publish [OF d P(1)])
  moreover have "\<forall>q \<in> stored (an_dht a). \<exists>q' \<in> stored dht'. dht_key q' = dht_key q \<and> pe_record q' = pe_record q"
    using Publish_keeps [OF reachable_dht_inv [OF d] P(1)] by blast
  ultimately have "grew ec [e] a ?a'"
    unfolding grew_def using r(2) P(4-6) by (intro conjI exI [of _ "[r]"]) auto
  then show ?thesis using pub by blast
qed

definition high_fee :: "(rat \<Rightarrow> rat option) \<Rightarrow> TransactionObservation \<Rightarrow> bool" where
  "high_fee rnd obs \<longleftrightarrow> value_or (rnd (3 / 10000)) 0 \<le> to_base_fee_btc obs"

lemma publish_fees_grows:
  assumes ok: "ecdsa_ok ec" and t: "ob_observed_at_utc batch \<noteq> 0"
  shows "KeyPair_from_secret ec secret = Inr (an_key_pair a) \<Longrightarrow> dht_reachable ec (an_dht a) \<Longrightarrow>
    \<exists>a'. publish_fees rnd ec env batch observations a = Inr (Success [], a')
      \<and> grew ec (map (fee_event batch) (filter (high_fee rnd) observations)) a a'"
proof (induction observations arbitrary: a)
  case Nil
  then show ?case by (simp add: grew_refl)
next
  case (Cons obs observations)
  show ?case
  proof (cases "high_fee rnd obs")
    case False
    then show ?thesis using Cons by (simp add: high_fee_def not_le)
  next
    case True
    obtain b where b: "analyzer_publish ec env (fee_event batch obs) a = Inr (Success [], b)" "grew ec [fee_event batch obs] a b"
      using publish_grows [OF ok Cons.prems, of "fee_event batch obs"] t by (auto simp: fee_event_def)
    have "KeyPair_from_secret ec secret = Inr (an_key_pair b)" "dht_reachable ec (an_dht b)"
      using b(2) Cons.prems(1) by (simp_all add: grew_def)
    then obtain c where c: "publish_fees rnd ec env batch observations b = Inr (Success [], c)"
        "grew ec (map (fee_event batch) (filter (high_fee rnd) observations)) b c"
      using Cons.IH by blast
    have "publish_fees rnd ec env batch (obs # observations) a = Inr (Success [], c)"
      using True b(1) c(1) by (simp add: high_fee_def not_less)
    then show ?thesis using grew_trans [OF b(2) c(2)] True by auto
  qed
qed

text \<open>The events that one poll of a node owes to the store.\<close>

definition expected_events :: "(rat \<Rightarrow> rat option) \<Rightarrow> BitcoinCoreRpcConfig \<Rightarrow> i64 \<Rightarrow> u64 \<Rightarrow> CoreView \<Rightarrow> EventEnvelope list" where
  "expected_events rnd cfg now fee v =
     (let batch = view_batch rnd cfg now fee v in
      map (fee_event batch) (filter (high_fee rnd) (map (observed_tx rnd) (take (unat (cr_max_mempool_transactions cfg)) (cv_mempool v))))
      @ (if 4 \<le> cv_mempool_count v then [pressure_event batch (the (ob_latest_block batch)) (the (ob_network_health batch))] else []))"

lemma poll_grows:
  assumes p: "Rpc_Poll rnd call (clock_reading env (an_reads a)) batch_default (an_adapter a)
      = Inr (Success [], view_batch rnd cfg (clock_reading env (an_reads a)) fee v, ad)"
    and ok: "ecdsa_ok ec" "KeyPair_from_secret ec secret = Inr (an_key_pair a)" and d: "dht_reachable ec (an_dht a)"
    and t: "clock_reading env (an_reads a) \<noteq> 0"
  shows "\<exists>a'. Analyzer_Poll rnd call ec env a = Inr (Success [], a')
    \<and> grew ec (expected_events rnd cfg (clock_reading env (an_reads a)) fee v) (a\<lparr>an_adapter := ad, an_reads := an_reads a + 1\<rparr>) a'"
proof -
  let ?now = "clock_reading env (an_reads a)" and ?a = "a\<lparr>an_adapter := ad, an_reads := Suc (an_reads a)\<rparr>"
  define batch where "batch = view_batch rnd cfg ?now fee v"
  obtain block health where f: "ob_latest_block batch = Some block" "ob_network_health batch = Some health" "ob_observed_at_utc batch \<noteq> 0"
    "nh_mempool_transaction_count health = cv_mempool_count v"
    "ob_mempool_transactions batch = map (observed_tx rnd) (take (unat (cr_max_mempool_transactions cfg)) (cv_mempool v))"
    using t by (simp add: batch_def view_batch_def)
  have e: "expected_events rnd cfg ?now fee v = map (fee_event batch) (filter (high_fee rnd) (ob_mempool_transactions batch))
      @ (if 4 \<le> cv_mempool_count v then [pressure_event batch block health] else [])"
    unfolding expected_events_def batch_def [symmetric] Let_def f(1,2,5) option.sel ..
  have p': "Rpc_Poll rnd call ?now batch_default (an_adapter a) = Inr (Success [], batch, ad)"
    using p by (simp add: batch_def)
  obtain b where b: "publish_fees rnd ec env batch (ob_mempool_transactions batch) ?a = Inr (Success [], b)"
      "grew ec (map (fee_event batch) (filter (high_fee rnd) (ob_mempool_transactions batch))) ?a b"
    using publish_fees_grows [OF ok(1) f(3), of secret ?a rnd env "ob_mempool_transactions batch"] ok(2) d by auto
  show ?thesis
  proof (cases "4 \<le> cv_mempool_count v")
    case False
    then have "Analyzer_Poll rnd call ec env a = Inr (Success [], b)"
      by (simp add: Analyzer_Poll_def Let_def p' b(1) f(1,2,4))
    then show ?thesis using b(2) False e by auto
  next
    case True
    let ?e = "pressure_event batch block health"
    have "KeyPair_from_secret ec secret = Inr (an_key_pair b)" "dht_reachable ec (an_dht b)"
      using b(2) ok(2) by (simp_all add: grew_def)
    then obtain c where c: "analyzer_publish ec env ?e b = Inr (Success [], c)" "grew ec [?e] b c"
      using publish_grows [OF ok(1), of secret b ?e env] f(3) by (auto simp: pressure_event_def)
    have "Analyzer_Poll rnd call ec env a = Inr (Success [], c)"
      using True by (simp add: Analyzer_Poll_def Let_def p' b(1) c(1) f(1,2,4))
    then show ?thesis using grew_trans [OF b(2) c(2)] True e by auto
  qed
qed

section \<open>The store, whatever the node answers\<close>

lemma publish_reachable: "analyzer_publish ec env e a = Inr (st, a') \<Longrightarrow> dht_reachable ec (an_dht a) \<Longrightarrow> dht_reachable ec (an_dht a')"
  by (auto simp: analyzer_publish_def PublishEvent_def Let_def rbind_eq_Inr split: if_splits prod.splits intro: dht_reachable.publish)

lemma publish_fees_reachable:
  "publish_fees rnd ec env batch obs a = Inr (st, a') \<Longrightarrow> dht_reachable ec (an_dht a) \<Longrightarrow> dht_reachable ec (an_dht a')"
  by (induction obs arbitrary: a) (auto simp: rbind_eq_Inr split: if_splits prod.splits dest: publish_reachable)

lemma poll_reachable: "Analyzer_Poll rnd call ec env a = Inr (st, a') \<Longrightarrow> dht_reachable ec (an_dht a) \<Longrightarrow> dht_reachable ec (an_dht a')"
  by (auto simp: Analyzer_Poll_def Let_def rbind_eq_Inr split: if_splits prod.splits option.splits
      dest!: publish_fees_reachable publish_reachable)

section \<open>The configured connection\<close>

lemma configured_connection:
  assumes "configure stale env files args = Inr (Inr (opts, r))" "\<not> ao_scripted opts"
  shows "\<exists>cli base. ParseOptions args AnalyzerOptions_new = Inr (Some cli)
    \<and> ResolveBitcoinCoreRpcConfigDetails stale env files (BitcoinCoreRpcConfig_default\<lparr>cr_network := cr_network (ao_rpc cli),
        cr_max_mempool_transactions := cr_max_mempool_transactions (ao_rpc cli)\<rparr>) (ao_bitcoin_conf cli) = Inr base
    \<and> cr_connection (ao_rpc opts) =
       \<lparr>rc_host = rc_host (if ao_rpc_host_overridden cli then cr_connection (ao_rpc cli) else connection base),
        rc_port = rc_port (if ao_rpc_port_overridden cli then cr_connection (ao_rpc cli) else connection base),
        rc_username = rc_username (if ao_rpc_user_overridden cli then cr_connection (ao_rpc cli) else connection base),
        rc_password = rc_password (if ao_rpc_password_overridden cli then cr_connection (ao_rpc cli) else connection base),
        rc_path = rc_path (if ao_rpc_path_overridden cli then cr_connection (ao_rpc cli) else connection base)\<rparr>
    \<and> rc_username (cr_connection (ao_rpc opts)) \<noteq> [] \<and> rc_password (cr_connection (ao_rpc opts)) \<noteq> []"
proof -
  obtain parsed where p: "ParseOptions args AnalyzerOptions_new = Inr parsed"
    using assms(1) by (cases "ParseOptions args AnalyzerOptions_new") (simp_all add: configure_def)
  then obtain cli where cli: "parsed = Some cli" using assms(1) by (cases parsed) (simp_all add: configure_def)
  have s: "\<not> ao_scripted cli" using assms p cli by (auto simp: configure_def)
  let ?base = "BitcoinCoreRpcConfig_default\<lparr>cr_network := cr_network (ao_rpc cli),
        cr_max_mempool_transactions := cr_max_mempool_transactions (ao_rpc cli)\<rparr>"
  have b: "\<lparr>cr_network = cr_network (ao_rpc cli), cr_connection = RpcConnectionConfig_default,
      cr_max_mempool_transactions = cr_max_mempool_transactions (ao_rpc cli)\<rparr> = ?base"
    by (simp add: BitcoinCoreRpcConfig_default_def)
  obtain base where base: "ResolveBitcoinCoreRpcConfigDetails stale env files ?base (ao_bitcoin_conf cli) = Inr base"
    using assms(1) p cli s by (cases "ResolveBitcoinCoreRpcConfigDetails stale env files ?base (ao_bitcoin_conf cli)") (auto simp: configure_def b)
  have r: "r = OverrideSourcesFromCli cli base" "opts = cli\<lparr>ao_rpc := rs_config r\<rparr>"
    "rc_username (connection r) \<noteq> []" "rc_password (connection r) \<noteq> []"
    using assms(1) p cli s base by (auto simp: configure_def b Let_def split: if_splits)
  have "connection r =
       \<lparr>rc_host = rc_host (if ao_rpc_host_overridden cli then cr_connection (ao_rpc cli) else connection base),
        rc_port = rc_port (if ao_rpc_port_overridden cli then cr_connection (ao_rpc cli) else connection base),
        rc_username = rc_username (if ao_rpc_user_overridden cli then cr_connection (ao_rpc cli) else connection base),
        rc_password = rc_password (if ao_rpc_password_overridden cli then cr_connection (ao_rpc cli) else connection base),
        rc_path = rc_path (if ao_rpc_path_overridden cli then cr_connection (ao_rpc cli) else connection base)\<rparr>"
    unfolding r(1) by (simp add: OverrideSourcesFromCli_def Let_def set_host_def set_username_def set_password_def set_path_def on_connection_def)
  then show ?thesis using p cli base r by auto
qed

section \<open>Properties\<close>

text \<open>
  C19: One poll of the analyzer carries the node's view into the event store. Against a Bitcoin Core node that answers over HTTP
  and with a working signature scheme, the poll succeeds and publishes, in this order, one event for each of the transactions of
  the memory pool (up to the configured number) whose base fee reaches 0.0003 bitcoins, and an event of pressure when the pool
  has at least four transactions; each record carries exactly that envelope, verifies under the analyzer's key, and is found in the
  store under its deterministic key.
\<close>

theorem analyzer_publishes_view:
  assumes "http_node cfg net answer" "describes answer v" "ra_transport (an_adapter a) = Some k"
    and "ToSatoshis rnd (value_or (rnd (cv_total_fee v)) 0) = Inr fee"
    and "ecdsa_ok ec" "KeyPair_from_secret ec secret = Inr (an_key_pair a)" "dht_reachable ec (an_dht a)"
    and "an_on_publish a" "clock_reading env (an_reads a) \<noteq> 0"
  shows "\<exists>a' rs. Analyzer_Poll rnd (HttpRpcTransport_Call cfg net) ec env a = Inr (Success [], a')
    \<and> map fst (an_published a') = map fst (an_published a) @ rs
    \<and> map envelope rs = expected_events rnd (ra_config (an_adapter a)) (clock_reading env (an_reads a)) fee v
    \<and> (\<forall>r \<in> set rs. VerifyEventRecord ec r = Inr True
        \<and> (\<exists>q \<in> stored (an_dht a'). MatchesQuery q (EventQuery_for (DeterministicKey r) most) \<and> is_duplicate r q))"
proof -
  obtain k' where "Rpc_Poll rnd (HttpRpcTransport_Call cfg net) (clock_reading env (an_reads a)) batch_default (an_adapter a)
      = Inr (Success [], view_batch rnd (ra_config (an_adapter a)) (clock_reading env (an_reads a)) fee v, (an_adapter a)\<lparr>ra_transport := Some k'\<rparr>)"
    using poll_over_http [OF assms(1-4)] by blast
  from poll_grows [where env = env and a = a, OF this assms(5-7,9)] obtain a' where
    "Analyzer_Poll rnd (HttpRpcTransport_Call cfg net) ec env a = Inr (Success [], a')"
    "grew ec (expected_events rnd (ra_config (an_adapter a)) (clock_reading env (an_reads a)) fee v)
      (a\<lparr>an_adapter := (an_adapter a)\<lparr>ra_transport := Some k'\<rparr>, an_reads := an_reads a + 1\<rparr>) a'"
    by blast
  moreover have "MatchesQuery q (EventQuery_for (dht_key q) most)" for q
    by (simp add: MatchesQuery_def EventQuery_for_def MatchesIdentifiers_def)
  ultimately show ?thesis using assms(8) unfolding grew_def by (simp add: Bex_def) metis
qed

definition sample_analyzer :: "KeyPair \<Rightarrow> nat Analyzer" where
  "sample_analyzer kp = \<lparr>an_adapter = sample_adapter, an_poll_interval = 1000, an_dht = MemoryEventDht_new, an_key_pair = kp,
     an_signer_name = ''example-analyzer'', an_on_publish = True, an_published = [], an_reads = 0\<rparr>"

theorem analyzer_publishes_view_witness:
  "\<exists>kp a' rs. KeyPair_from_secret ecdsa_ref (replicate 32 7) = Inr kp
    \<and> Analyzer_Poll Some (HttpRpcTransport_Call local_rpc (\<lambda>k. json_server expected_answer)) ecdsa_ref
        \<lparr>clock_reading = (\<lambda>n. 5), nonce = (\<lambda>n. ())\<rparr> (sample_analyzer kp) = Inr (Success [], a')
    \<and> map fst (an_published a') = rs
    \<and> map (\<lambda>r. event_type (envelope r)) rs = [''bitcoin.transaction.high-fee'', ''bitcoin.fee.mempool-pressure'']"
proof -
  obtain kp where kp: "KeyPair_from_secret ecdsa_ref (replicate 32 7) = Inr kp"
    by (simp add: KeyPair_from_secret_def ecdsa_ref_def)
  let ?env = "\<lparr>clock_reading = (\<lambda>n. 5), nonce = (\<lambda>n. ())\<rparr>"
  obtain a' rs where "Analyzer_Poll Some (HttpRpcTransport_Call local_rpc (\<lambda>k. json_server expected_answer)) ecdsa_ref ?env (sample_analyzer kp)
        = Inr (Success [], a')" "map fst (an_published a') = map fst (an_published (sample_analyzer kp)) @ rs"
      "map envelope rs = expected_events Some (ra_config (an_adapter (sample_analyzer kp))) 5 320000 sample_view"
    using analyzer_publishes_view [OF local_http.http_node_axioms sample_described _ _ ecdsa_ok_ref, where a = "sample_analyzer kp" and k = 0
        and rnd = Some and fee = 320000 and secret = "replicate 32 7" and env = ?env and most = 1] sample_fee kp
    by (auto simp: sample_analyzer_def sample_adapter_def dht_reachable.new)
  moreover have "map event_type (expected_events Some (ra_config sample_adapter) 5 320000 sample_view)
      = [''bitcoin.transaction.high-fee'', ''bitcoin.fee.mempool-pressure'']"
    by (simp add: expected_events_def sample_view_def sample_adapter_def local_rpc_def high_fee_def observed_tx_def btc_def fee_event_def
        pressure_event_def Let_def)
  ultimately show ?thesis using kp by (auto simp: sample_analyzer_def map_eq_conv o_def dest!: arg_cong [where f = "map event_type"])
qed

text \<open>
  Whatever the node answers and whatever fails on the way, a poll of the analyzer keeps the store in a reachable state, in
  which every record verifies under its signer's key and is filed once, under its own deterministic key.
\<close>

theorem analyzer_store_inv:
  assumes "Analyzer_Poll rnd call ec env a = Inr (st, a')" "dht_reachable ec (an_dht a)"
  shows "dht_reachable ec (an_dht a') \<and> dht_inv ec (an_dht a')"
  using poll_reachable [OF assms] reachable_dht_inv by blast

end
