(* ===== verification/Spec2Isabelle.thy ===== *)
theory Spec2Isabelle
  imports Base16 StdMap Bencode CryptoHash Primitives EventRecord Kernel MemoryStore FileStore Node Kademlia Channel
    ResourceHandle ResourceTable TableDefrag SlotMap StaticVector StateMachine Uuid Sha256 Sha256Blocks Sha256Stream
    EventDht MainlineNode MainlineNet PortMapping
    BitcoinWire BitcoinBlocks BitcoinSync BitcoinAdapter BitcoinJson BitcoinRpc BitcoinPoll BitcoinConfig Analyzer
begin

text \<open>
  Verification of the Blocxxi platform.

  \<^bold>\<open>The program.\<close> Blocxxi is a C++ platform for small blockchains and for events that are signed and shared over the
  Mainline DHT. A node (\<open>src/Blocxxi/Node\<close>) owns a chain kernel (\<open>src/Blocxxi/Chain\<close>), which keeps pending transactions and
  commits blocks to a block store and a snapshot store (\<open>src/Blocxxi/Storage\<close>, in memory or in files), delivers events to
  plugins and handlers, and polls services with retry and back-off. The primitives, identifiers and signed event records
  (\<open>src/Blocxxi/Core\<close>) rest on hashes, keys and signatures (\<open>src/Blocxxi/Crypto\<close>, \<open>src/Nova/Base/Sha256.cpp\<close>) and on the
  codecs (\<open>src/Blocxxi/Codec\<close>). Event records are published to and queried from a store, local or over nodes of the DHT that
  exchange KRPC datagrams (\<open>src/Blocxxi/P2P\<close>). The Bitcoin part (\<open>src/Blocxxi/Bitcoin\<close>) imports headers and blocks from
  peers into the chain, and polls Bitcoin Core over JSON-RPC; an example program publishes what it observes.
  \<open>src/Nova/Base\<close> holds the general types below all of that.

  \<^bold>\<open>Theories and sources.\<close> Each theory follows one part of the source, in the order of its functions, which keep their names.
    \<^item> \<open>Prelude\<close>: machine integers as words, C++ exceptions as the left side of a sum (\<open>'a res\<close>; \<open>AbortExn\<close> is a failed
      assertion, \<open>UndefinedBehaviour\<close> what the standard leaves open), number parsing and printing, text helpers,
      and what a sort by a comparison owes.
      \<open>StdMap\<close>: \<open>std::map\<close> as a sorted association list, behind the locale \<open>ordered_map\<close>.
    \<^item> \<open>Base16\<close>, \<open>Bencode\<close>: \<open>Codec/base16.cpp\<close> and \<open>bencode.cpp\<close>. Offsets of the decoder are \<open>size_t\<close> and wrap.
    \<^item> \<open>CryptoHash\<close>: \<open>Crypto/hash.h\<close>, word-wise comparison on either byte order against big-endian values.
      \<open>EventRecord\<close>: \<open>Core/event_record.cpp\<close> with \<open>Crypto/keypair.cpp\<close> and \<open>signature.cpp\<close>.
    \<^item> \<open>Primitives\<close>: \<open>Core/result.h\<close>, \<open>primitives.cpp\<close>. \<open>Kernel\<close>: \<open>Chain/kernel.cpp\<close> over the locale \<open>chain_store\<close> and its
      extension \<open>reliable_store\<close>; \<open>MemoryStore\<close> and \<open>FileStore\<close> (\<open>Storage\<close>) are its interpretations. \<open>Node\<close>: \<open>Node/node.cpp\<close>
      as operations on a node and the step relation \<open>node_step\<close>.
    \<^item> \<open>Kademlia\<close>: nodes, distances, URLs, KRPC messages and compact forms. \<open>Channel\<close>: the socket of a node. \<open>MainlineNode\<close>:
      \<open>mainline_node.cpp\<close> as handlers that return the next node and the calls it makes. \<open>EventDht\<close>: \<open>event_dht.cpp\<close>, the local
      store with its step relation \<open>dht_reachable\<close> and the index over a network. \<open>MainlineNet\<close>: that network made of nodes.
    \<^item> \<open>ResourceHandle\<close>, \<open>ResourceTable\<close>, \<open>TableDefrag\<close>, \<open>SlotMap\<close>: \<open>ResourceHandle.h\<close> and \<open>ResourceTable.h\<close>; the locale
      \<open>slot_map\<close> is their contract. \<open>StaticVector\<close>, \<open>StateMachine\<close>, \<open>Uuid\<close>: the headers of these names.
    \<^item> \<open>Sha256\<close>, \<open>Sha256Blocks\<close>, \<open>Sha256Stream\<close>: \<open>Sha256.cpp\<close>, the streaming hasher and both block functions.
    \<^item> \<open>PortMapping\<close>: \<open>Nat/nat.cpp\<close> and \<open>upnp_port_mapper.cpp\<close>.
    \<^item> \<open>BitcoinWire\<close>, \<open>BitcoinBlocks\<close>, \<open>BitcoinSync\<close>, \<open>BitcoinAdapter\<close>: \<open>Bitcoin/adapter.cpp\<close>, from its encodings to the
      client of a peer and the submission of headers. \<open>BitcoinJson\<close>, \<open>BitcoinRpc\<close>, \<open>BitcoinPoll\<close>, \<open>BitcoinConfig\<close>:
      \<open>Bitcoin/ingestion.cpp\<close>, from its JSON scanner to the poll; the locale \<open>core_node\<close> is the interface \<open>RpcTransport\<close>, with
      the HTTP transport (\<open>http_node\<close>, a sublocale) and the scripted one as providers. \<open>Analyzer\<close>:
      \<open>Examples/bitcoin-mempool-analyzer/main.cpp\<close>, where the Bitcoin part meets the event store.

  \<^bold>\<open>State and errors.\<close> A class is a record with its members; an operation takes the state and returns it with the result. A
  status, an optional and an exception are values, and every early return is a branch. Mutable parts behind interfaces (stores, the
  file system, sockets, gateways) are threaded as a state. Integers have their width where the code depends on it. A loop is a
  recursive function; all terminate by a measure or structure except the bencode decoder, which takes fuel and returns
  \<open>None\<close> while it is still running.

  \<^bold>\<open>What is shown.\<close>
    \<^item> Chain: every sequence of node operations acts on the kernel by kernel operations only; the chain of every reachable state is
      linked and described by its snapshot; a commit adds exactly the pending transactions or changes nothing; after a restart on
      files the kernel has the snapshot and the blocks of the last commit and its head is the last block, unless a write was lost by a
      flush after it was reported as done, or an earlier block has the same identifier. The file store returns a linked chain up to ten blocks and not beyond.
    \<^item> Codecs: decoding inverts encoding for hexadecimal, bencode, KRPC, the compact forms, stored blocks and snapshots, Bitcoin
      messages, numbers and hashes, and texts of identifiers. The bencode decoder returns on every input whose digit runs are
      short and accepts there exactly the language of a grammar that is written without it (\<open>bencoded\<close>); it runs for ever on an
      input with a length near \<open>2 ^ 64\<close>.
    \<^item> Hashes: the streaming SHA-256 equals the standard's on the whole message for every way of cutting it; both block functions
      are equal; the Merkle loop is the tree hash.
    \<^item> Events: a signed record verifies and its text determines it; the local store holds verified records once each, under their own
      key; queries return the newest of the records that a specification of the query selects. Over several started nodes that
      exchange datagrams, what one publishes another finds.
      Requests of a node are answered at most once; announced peers held a token.
    \<^item> Bitcoin: handshakes consume whole messages and are answered in order, headers and blocks arrive as sent in any pieces, accepted headers are linked and
      carry their work, and each becomes one block of the chain; a live import resumes where it stopped. A poll of Bitcoin Core
      returns exactly the node's view or an empty batch; the configuration is that of the strongest source; and one poll of the
      analyzer publishes exactly the events that the view owes.
    \<^item> Base types: the slot table implements a map of handles to items, in which erased handles are rejected while the generation does
      not wrap, and defragmentation without a limit sorts it, in the opposite order of its comment; the static vector is a
      bounded list, except that the source of a move keeps moved-from objects; the identifiers of a thread increase whatever its
      clock does; a state machine moves exactly when it was asked to and the old state let it go; the address chosen for a host.
    \<^item> Defects that the models bring to light are stated as lemmas beside the properties they limit.

  \<^bold>\<open>Bounds.\<close> Bencode: fuel beyond the length of the text is enough for every encoded value, and for every text
  shorter than \<open>2 ^ 63\<close> in which no run of digits, wherever it stands, has more than 18 of them, since no addition of offsets
  then wraps. The back-off of a service is a product of 64-bit milliseconds and wraps as such. Texts and payloads are shorter than \<open>2 ^ 64\<close> where sizes are
  \<open>size_t\<close>. Stale handles: fewer than 4095 further erasures, the width of the generation. Identifiers: readings of the clock and
  borrowed ticks below \<open>2 ^ 48\<close> milliseconds, the width of the field. Amounts parsed from JSON are exact rational numbers followed by a
  rounding.

  \<^bold>\<open>Parameters.\<close> What is not in the repository is an argument: curve arithmetic and DER coding of Crypto++ (record \<open>ecdsa\<close>, whose law
  \<open>ecdsa_ok\<close> says that a signature verifies under the key derived from an accepted secret and is met by \<open>ecdsa_ref\<close>), \<open>std::sort\<close>
  where elements that compare equal may come in any order (it sorts by every strict weak order it is given; \<open>sort_by\<close> does), the CPU feature that selects the
  SHA-NI code, clocks, random engines and nonces, the resolver and the sockets, the text form of addresses, the file system and
  its faults, environment variables, the listing of network interfaces, miniupnpc with its gateway, the rounding of
  doubles, the services and states that clients supply, and \<open>stale\<close>, what is read through a view whose text is gone.

  \<^bold>\<open>Not modelled.\<close> Logging (\<open>Logging.h\<close> and the vendored \<open>loguru.cpp\<close>) and the macros of compilers and platforms, which
  have no result the program uses; wrappers that are resolved when templates are instantiated (\<open>Result.h\<close>, \<open>NamedType.h\<close>,
  \<open>EnumIndexedArray.h\<close>, \<open>TypeList.h\<close>); thin helpers over the standard library; \<open>random.cpp\<close>, a call to Crypto++; Windows error
  categories; the threads and the scheduling of asio, in whose place handlers run one after the other in any order (a callback that runs after its caller
  gave up is the reply \<open>LateCallback\<close>, which is undefined behaviour); stream
  operators, iterators, \<open>std::hash\<close> and formatters; the other example programs.
\<close>

end
